(* ===== verification/Prelude.thy ===== *)
theory Prelude
  imports Complex_Main "HOL-Library.Sublist" "HOL-Library.AList"
begin

text \<open>
  Shared vocabulary of the development: the collections of facts the component theories
  fill, the JavaScript values the sources rely on (numbers that may fail to be integers,
  decimal text, the string operations \<open>split\<close>, \<open>indexOf\<close>, \<open>trim\<close>,
  \<open>startsWith\<close>, \<open>join\<close>), and the generic lemmas about them.
\<close>

named_theorems run_simps \<open>execution rules of programs\<close>
named_theorems run_ok \<open>what a run that ends in a value comes to, step by step\<close>
named_theorems agent_defs \<open>definitions of agent operations, unfolded to compute\<close>
named_theorems guard_simps \<open>facts that decide the guards of the handlers\<close>

section \<open>Numbers\<close>

text \<open>
  A JavaScript \<open>number\<close> as the validation code sees it: an integer, or any other
  value (a fraction, \<open>NaN\<close>, an infinity). The sources test \<open>Number.isInteger\<close>
  or \<open>Number.isSafeInteger\<close> before they compare or store a number that comes from
  outside, so the second constructor needs no payload.
\<close>

datatype js_number = Num int | NotInteger

definition max_safe :: int where
  "max_safe = 9007199254740991"

fun is_integer :: "js_number \<Rightarrow> bool" where
  "is_integer (Num n) = True"
| "is_integer NotInteger = False"

fun is_safe_integer :: "js_number \<Rightarrow> bool" where
  "is_safe_integer (Num n) = (- max_safe \<le> n \<and> n \<le> max_safe)"
| "is_safe_integer NotInteger = False"

text \<open>The integer of a number that has passed one of the tests.\<close>

fun num_val :: "js_number \<Rightarrow> int" where
  "num_val (Num n) = n"
| "num_val NotInteger = 0"

section \<open>Decimal text\<close>

definition digit_char :: "nat \<Rightarrow> char" where
  "digit_char d = ''0123456789'' ! d"

definition digit_val :: "char \<Rightarrow> nat" where
  "digit_val c = of_char c - 48"

definition is_digit :: "char \<Rightarrow> bool" where
  "is_digit c \<longleftrightarrow> c \<in> set ''0123456789''"

fun nat_text :: "nat \<Rightarrow> string" where
  "nat_text n = (if n < 10 then [digit_char n] else nat_text (n div 10) @ [digit_char (n mod 10)])"

declare nat_text.simps [simp del]

definition int_text :: "int \<Rightarrow> string" where
  "int_text i = (if i < 0 then ''-'' @ nat_text (nat (- i)) else nat_text (nat i))"

definition digits_nat :: "string \<Rightarrow> nat" where
  "digits_nat s = foldl (\<lambda>a c. a * 10 + digit_val c) 0 s"

lemma less_10_cases:
  "(d::nat) < 10 \<Longrightarrow> d \<in> {0, 1, 2, 3, 4, 5, 6, 7, 8, 9}"
  by auto

lemma digit_val_digit_char: "d < 10 \<Longrightarrow> digit_val (digit_char d) = d"
  by (drule less_10_cases) (auto simp: digit_char_def digit_val_def)

lemma is_digit_digit_char: "d < 10 \<Longrightarrow> is_digit (digit_char d)"
  unfolding is_digit_def digit_char_def by (rule nth_mem) simp

lemma is_digit_iff: "is_digit c \<longleftrightarrow> (\<exists>d < 10. c = digit_char d)"
proof
  assume "is_digit c"
  then obtain i where "i < length ''0123456789''" and "''0123456789'' ! i = c"
    unfolding is_digit_def by (metis in_set_conv_nth)
  then show "\<exists>d < 10. c = digit_char d"
    by (intro exI [of _ i]) (simp add: digit_char_def)
qed (auto simp: is_digit_digit_char)

lemma digits_nat_snoc: "digits_nat (s @ [c]) = digits_nat s * 10 + digit_val c"
  by (simp add: digits_nat_def)

lemma digits_nat_text: "digits_nat (nat_text n) = n"
proof (induction n rule: nat_text.induct)
  case (1 n)
  show ?case
  proof (cases "n < 10")
    case True
    then show ?thesis
      by (subst nat_text.simps) (simp add: digits_nat_def digit_val_digit_char)
  next
    case False
    then show ?thesis
      by (subst nat_text.simps) (simp add: digits_nat_snoc digit_val_digit_char 1)
  qed
qed

lemma nat_text_digits: "list_all is_digit (nat_text n)"
proof (induction n rule: nat_text.induct)
  case (1 n)
  then show ?case
    by (subst nat_text.simps) (simp add: is_digit_digit_char)
qed

lemma nat_text_nonempty [simp]: "nat_text n \<noteq> []"
  by (subst nat_text.simps) simp

lemma nat_text_inject [simp]: "nat_text m = nat_text n \<longleftrightarrow> m = n"
  by (metis digits_nat_text)

lemma not_digit_dash: "\<not> is_digit CHR ''-''"
  by (simp add: is_digit_def)

lemma int_text_inject [simp]: "int_text i = int_text j \<longleftrightarrow> i = j"
proof
  assume eq: "int_text i = int_text j"
  have sign: "nat_text n \<noteq> CHR ''-'' # s" for n s
    using nat_text_digits [of n] not_digit_dash by auto
  show "i = j"
    using eq sign [symmetric] sign by (auto simp: int_text_def split: if_splits)
qed simp

section \<open>Strings\<close>

text \<open>\<open>s.split(c)\<close> for a one-character separator, and \<open>xs.join(c)\<close>.\<close>

fun split_on :: "char \<Rightarrow> string \<Rightarrow> string list" where
  "split_on c [] = [[]]"
| "split_on c (x # xs) =
     (if x = c then [] # split_on c xs
      else (case split_on c xs of [] \<Rightarrow> [[x]] | y # ys \<Rightarrow> (x # y) # ys))"

fun join_with :: "string \<Rightarrow> string list \<Rightarrow> string" where
  "join_with sep [] = []"
| "join_with sep [x] = x"
| "join_with sep (x # y # ys) = x @ sep @ join_with sep (y # ys)"

lemma split_on_nonempty [simp]: "split_on c s \<noteq> []"
  by (induction s) (auto split: list.splits)

lemma join_Cons: "ys \<noteq> [] \<Longrightarrow> join_with sep (x # ys) = x @ sep @ join_with sep ys"
  by (cases ys) auto

lemma join_split: "join_with [c] (split_on c s) = s"
proof (induction s)
  case (Cons x s)
  show ?case
  proof (cases "split_on c s")
    case (Cons y ys)
    with Cons.IH show ?thesis by (cases ys) auto
  qed simp
qed simp

lemma split_on_no_sep: "x \<in> set (split_on c s) \<Longrightarrow> c \<notin> set x"
proof (induction s arbitrary: x)
  case (Cons a s)
  then show ?case by (cases "split_on c s") (auto split: if_splits)
qed simp

lemma split_on_atom: "c \<notin> set s \<Longrightarrow> split_on c s = [s]"
  by (induction s) auto

lemma split_on_append: "c \<notin> set s \<Longrightarrow> split_on c (s @ c # t) = s # split_on c t"
  by (induction s) auto

lemma split_join:
  "xs \<noteq> [] \<Longrightarrow> \<forall>x\<in>set xs. c \<notin> set x \<Longrightarrow> split_on c (join_with [c] xs) = xs"
  by (induction xs rule: list_nonempty_induct)
    (auto simp: split_on_atom split_on_append join_Cons)

text \<open>\<open>s.indexOf(c)\<close>, with \<open>None\<close> for \<open>-1\<close>.\<close>

fun index_of :: "char \<Rightarrow> string \<Rightarrow> nat option" where
  "index_of c [] = None"
| "index_of c (x # xs) = (if x = c then Some 0 else map_option Suc (index_of c xs))"

lemma index_of_None: "index_of c s = None \<longleftrightarrow> c \<notin> set s"
  by (induction s) auto

lemma index_of_Some: "index_of c s = Some i \<Longrightarrow> i < length s \<and> s ! i = c \<and> c \<notin> set (take i s)"
  by (induction s arbitrary: i) (auto split: if_splits)

text \<open>\<open>s.trim()\<close>, on the white space of the ASCII range.\<close>

definition is_space :: "char \<Rightarrow> bool" where
  "is_space c \<longleftrightarrow> c \<in> {CHR '' '', CHR 0x09, CHR 0x0A, CHR 0x0B, CHR 0x0C, CHR 0x0D}"

definition trim :: "string \<Rightarrow> string" where
  "trim s = rev (dropWhile is_space (rev (dropWhile is_space s)))"

text \<open>\<open>s.startsWith(p)\<close>, and the removal of one trailing slash, \<open>s.replace(/\/$/, "")\<close>.\<close>

definition starts_with :: "string \<Rightarrow> string \<Rightarrow> bool" where
  "starts_with s p \<longleftrightarrow> prefix p s"

definition strip_slash :: "string \<Rightarrow> string" where
  "strip_slash s = (if s \<noteq> [] \<and> last s = CHR ''/'' then butlast s else s)"

lemma starts_with_append [simp]: "starts_with (p @ s) p"
  by (simp add: starts_with_def)

section \<open>Maps\<close>

text \<open>
  A \<open>Map\<close> whose order of iteration matters is an association list: \<open>set\<close> is
  \<open>AList.update\<close>, \<open>delete\<close> is \<open>AList.delete\<close>.
\<close>

lemma update_all: "list_all P al \<Longrightarrow> P (k, v) \<Longrightarrow> list_all P (AList.update k v al)"
  by (induction al) auto

lemma delete_all: "list_all P al \<Longrightarrow> list_all P (AList.delete k al)"
  by (induction al) auto

lemma update_fresh: "k \<notin> fst ` set al \<Longrightarrow> AList.update k v al = al @ [(k, v)]"
  by (induction al) auto

text \<open>\<open>Map.prototype.delete\<close> and the removal of all keys with a property.\<close>

definition map_delete :: "'k \<Rightarrow> ('k \<rightharpoonup> 'v) \<Rightarrow> ('k \<rightharpoonup> 'v)" where
  "map_delete k m = m(k := None)"

lemma map_delete_apply [simp]: "map_delete k m k' = (if k' = k then None else m k')"
  by (simp add: map_delete_def)

end
