(* ===== verification/Common.thy ===== *)
theory Common
  imports Prelude
begin

text \<open>
  The package \<open>packages/common\<close>: error codes and error envelopes
  (\<open>protocol/errors.ts\<close>), migration phases and sandbox states
  (\<open>protocol/phases.ts\<close>), the wire types (\<open>types/*.ts\<close>) and the retry
  delay (\<open>runtime/backoff.ts\<close>).
\<close>

section \<open>JSON values\<close>

text \<open>
  The values \<open>JSON.parse\<close> returns and \<open>JSON.stringify\<close> takes. An object keeps its
  keys in order; a lookup finds the first, and no object built here repeats a key.
\<close>

datatype json =
    JNull
  | JBool bool
  | JNum js_number
  | JStr string
  | JArr "json list"
  | JObj "(string \<times> json) list"

fun obj_get :: "json \<Rightarrow> string \<Rightarrow> json option" where
  "obj_get (JObj kvs) k = map_of kvs k"
| "obj_get _ k = None"

section \<open>Errors\<close>

datatype error_code =
    BadRequest | NotFound | Internal | FirecrackerApi | GuestAgent | Fenced
  | MigrationBarrier | MigrationInProgress | IdempotencyKeyConflict
  | IncompatibleDestination | NoCapacity | TransferInterrupted | ArtifactHashMismatch
  | ArtifactRangeInvalid | SnapshotConsumed | DestinationUnavailable | Timeout

fun code_text :: "error_code \<Rightarrow> string" where
  "code_text BadRequest = ''BAD_REQUEST''"
| "code_text NotFound = ''NOT_FOUND''"
| "code_text Internal = ''INTERNAL''"
| "code_text FirecrackerApi = ''FIRECRACKER_API_ERROR''"
| "code_text GuestAgent = ''GUEST_AGENT_ERROR''"
| "code_text Fenced = ''FENCED''"
| "code_text MigrationBarrier = ''MIGRATION_BARRIER''"
| "code_text MigrationInProgress = ''MIGRATION_IN_PROGRESS''"
| "code_text IdempotencyKeyConflict = ''IDEMPOTENCY_KEY_CONFLICT''"
| "code_text IncompatibleDestination = ''INCOMPATIBLE_DESTINATION''"
| "code_text NoCapacity = ''NO_CAPACITY''"
| "code_text TransferInterrupted = ''TRANSFER_INTERRUPTED''"
| "code_text ArtifactHashMismatch = ''ARTIFACT_HASH_MISMATCH''"
| "code_text ArtifactRangeInvalid = ''ARTIFACT_RANGE_INVALID''"
| "code_text SnapshotConsumed = ''SNAPSHOT_CONSUMED''"
| "code_text DestinationUnavailable = ''DESTINATION_UNAVAILABLE''"
| "code_text Timeout = ''TIMEOUT''"

lemma code_text_inject [simp]: "code_text a = code_text b \<longleftrightarrow> a = b"
  by (cases a; cases b; simp)

declare code_text.simps [simp del]

text \<open>
  The body of an error: \<open>code\<close> is the run-time string, since the type is
  \<open>ErrorCode | string\<close>.
\<close>

record error_body =
  err_code :: string
  err_message :: string
  err_retryable :: bool
  err_details :: "json option"

text \<open>
  What a \<open>throw\<close> can carry: a \<open>FiremigError\<close> with its HTTP status, an
  \<open>Error\<close> with a message, or an error of the platform with its \<open>code\<close>
  (\<open>ENOENT\<close>, \<open>EEXIST\<close>, \<dots>). \<open>TypeFault\<close> is the error of reading a value of the
  wrong shape, \<open>Unsettled\<close> marks a promise that never settles.
\<close>

datatype js_error =
    FiremigError error_body "nat option"
  | JsError string
  | Errno string
  | TypeFault
  | Unsettled

definition firemig :: "error_code \<Rightarrow> string \<Rightarrow> bool \<Rightarrow> json option \<Rightarrow> nat option \<Rightarrow> js_error" where
  "firemig c m r d st = FiremigError
     \<lparr>err_code = code_text c, err_message = m, err_retryable = r, err_details = d\<rparr> st"

fun error_code_of :: "js_error \<Rightarrow> string option" where
  "error_code_of (FiremigError b st) = Some (err_code b)"
| "error_code_of _ = None"

fun error_status_of :: "js_error \<Rightarrow> nat option" where
  "error_status_of (FiremigError b st) = st"
| "error_status_of _ = None"

abbreviation has_code :: "js_error \<Rightarrow> error_code \<Rightarrow> bool" where
  "has_code e c \<equiv> error_code_of e = Some (code_text c)"

lemma firemig_code [simp]: "error_code_of (firemig c m r d st) = Some (code_text c)"
  by (simp add: firemig_def)

lemma firemig_status [simp]: "error_status_of (firemig c m r d st) = st"
  by (simp add: firemig_def)

lemma firemig_neq [simp]:
  "firemig c m r d st \<noteq> Unsettled" "firemig c m r d st \<noteq> TypeFault"
  "firemig c m r d st \<noteq> JsError t" "firemig c m r d st \<noteq> Errno t"
  by (simp_all add: firemig_def)

definition errorEnvelope :: "string \<Rightarrow> string \<Rightarrow> bool \<Rightarrow> json option \<Rightarrow> json" where
  "errorEnvelope c m r d = JObj [(''error'', JObj
     ([(''code'', JStr c), (''message'', JStr m), (''retryable'', JBool r)]
      @ (case d of None \<Rightarrow> [] | Some v \<Rightarrow> [(''details'', v)])))]"

fun is_str :: "json option \<Rightarrow> bool" where
  "is_str (Some (JStr s)) = True"
| "is_str _ = False"

fun is_bool :: "json option \<Rightarrow> bool" where
  "is_bool (Some (JBool b)) = True"
| "is_bool _ = False"

definition error_shape :: "json \<Rightarrow> bool" where
  "error_shape e \<longleftrightarrow> is_str (obj_get e ''code'') \<and> is_str (obj_get e ''message'')
     \<and> is_bool (obj_get e ''retryable'')"

definition isErrorEnvelope :: "json \<Rightarrow> bool" where
  "isErrorEnvelope v = (case obj_get v ''error'' of None \<Rightarrow> False | Some e \<Rightarrow> error_shape e)"

text \<open>The typed view of a value that passed the check, \<open>value.error\<close>.\<close>

fun str_of :: "json option \<Rightarrow> string" where
  "str_of (Some (JStr s)) = s"
| "str_of _ = []"

fun bool_of :: "json option \<Rightarrow> bool" where
  "bool_of (Some (JBool b)) = b"
| "bool_of _ = False"

definition body_of :: "json \<Rightarrow> error_body" where
  "body_of e = \<lparr>err_code = str_of (obj_get e ''code''), err_message = str_of (obj_get e ''message''),
     err_retryable = bool_of (obj_get e ''retryable''), err_details = obj_get e ''details''\<rparr>"

definition envelope_body :: "json \<Rightarrow> error_body" where
  "envelope_body v = (case obj_get v ''error'' of None \<Rightarrow> body_of JNull | Some e \<Rightarrow> body_of e)"

lemma envelope_roundtrip:
  "isErrorEnvelope (errorEnvelope c m r d) \<and> envelope_body (errorEnvelope c m r d)
     = \<lparr>err_code = c, err_message = m, err_retryable = r, err_details = d\<rparr>"
  by (cases d)
    (simp_all add: isErrorEnvelope_def errorEnvelope_def envelope_body_def body_of_def error_shape_def)

section \<open>Phases and states\<close>

datatype migration_phase =
    Preparing | Reserving | Prestaging | Probing | Precopying | Pausing | Snapshotting
  | Transferring | Loading | Resuming | Verifying | Cutover | Cleanup | Done
  | RollingBackSource | RolledBack | Failed | OrphanedAmbiguous

fun phase_text :: "migration_phase \<Rightarrow> string" where
  "phase_text Preparing = ''PREPARING''"
| "phase_text Reserving = ''RESERVING''"
| "phase_text Prestaging = ''PRESTAGING''"
| "phase_text Probing = ''PROBING''"
| "phase_text Precopying = ''PRECOPYING''"
| "phase_text Pausing = ''PAUSING''"
| "phase_text Snapshotting = ''SNAPSHOTTING''"
| "phase_text Transferring = ''TRANSFERRING''"
| "phase_text Loading = ''LOADING''"
| "phase_text Resuming = ''RESUMING''"
| "phase_text Verifying = ''VERIFYING''"
| "phase_text Cutover = ''CUTOVER''"
| "phase_text Cleanup = ''CLEANUP''"
| "phase_text Done = ''DONE''"
| "phase_text RollingBackSource = ''ROLLING_BACK_SOURCE''"
| "phase_text RolledBack = ''ROLLED_BACK''"
| "phase_text Failed = ''FAILED''"
| "phase_text OrphanedAmbiguous = ''ORPHANED_AMBIGUOUS''"

lemma phase_text_inject [simp]: "phase_text a = phase_text b \<longleftrightarrow> a = b"
  by (cases a; cases b; simp)

declare phase_text.simps [simp del]

definition terminalPhases :: "migration_phase set" where
  "terminalPhases = {Done, RolledBack, Failed, OrphanedAmbiguous}"

definition isTerminalPhase :: "migration_phase \<Rightarrow> bool" where
  "isTerminalPhase p \<longleftrightarrow> p \<in> terminalPhases"

datatype sandbox_state = Booting | Running | Paused | FencedState | Quarantined | FailedState

fun state_text :: "sandbox_state \<Rightarrow> string" where
  "state_text Booting = ''booting''"
| "state_text Running = ''running''"
| "state_text Paused = ''paused''"
| "state_text FencedState = ''fenced''"
| "state_text Quarantined = ''quarantined''"
| "state_text FailedState = ''failed''"

section \<open>Wire types\<close>

datatype artifact_kind = StateFile | MemFile | DiskFile

fun kind_text :: "artifact_kind \<Rightarrow> string" where
  "kind_text StateFile = ''state''"
| "kind_text MemFile = ''mem''"
| "kind_text DiskFile = ''disk''"

text \<open>
  The order of the constant \<open>ARTIFACT_KINDS\<close>, so that quantification over the kinds is
  executable and sorted lists of kinds are in the source's order.
\<close>

definition ARTIFACT_KINDS :: "artifact_kind list" where
  "ARTIFACT_KINDS = [StateFile, MemFile, DiskFile]"

fun kind_rank :: "artifact_kind \<Rightarrow> nat" where
  "kind_rank StateFile = 0"
| "kind_rank MemFile = 1"
| "kind_rank DiskFile = 2"

instantiation artifact_kind :: linorder
begin

definition less_eq_artifact_kind :: "artifact_kind \<Rightarrow> artifact_kind \<Rightarrow> bool" where
  "less_eq_artifact_kind a b \<longleftrightarrow> kind_rank a \<le> kind_rank b"

definition less_artifact_kind :: "artifact_kind \<Rightarrow> artifact_kind \<Rightarrow> bool" where
  "less_artifact_kind a b \<longleftrightarrow> kind_rank a < kind_rank b"

instance
proof
  fix a b :: artifact_kind
  show "a \<le> b \<Longrightarrow> b \<le> a \<Longrightarrow> a = b"
    by (cases a; cases b) (auto simp: less_eq_artifact_kind_def)
qed (auto simp: less_eq_artifact_kind_def less_artifact_kind_def)

end

lemma UNIV_artifact_kind: "UNIV = set ARTIFACT_KINDS"
proof -
  have "k \<in> set ARTIFACT_KINDS" for k
    by (cases k) (simp_all add: ARTIFACT_KINDS_def)
  then show ?thesis by auto
qed

instantiation artifact_kind :: enum
begin

definition enum_artifact_kind :: "artifact_kind list" where
  "enum_artifact_kind = ARTIFACT_KINDS"

definition enum_all_artifact_kind :: "(artifact_kind \<Rightarrow> bool) \<Rightarrow> bool" where
  "enum_all_artifact_kind P \<longleftrightarrow> list_all P ARTIFACT_KINDS"

definition enum_ex_artifact_kind :: "(artifact_kind \<Rightarrow> bool) \<Rightarrow> bool" where
  "enum_ex_artifact_kind P \<longleftrightarrow> list_ex P ARTIFACT_KINDS"

instance
  by standard
    (auto simp: enum_artifact_kind_def enum_all_artifact_kind_def enum_ex_artifact_kind_def
      UNIV_artifact_kind list_all_iff list_ex_iff, simp_all add: ARTIFACT_KINDS_def)

end

lemma sorted_ARTIFACT_KINDS: "sorted_wrt (<) ARTIFACT_KINDS"
  by (simp add: ARTIFACT_KINDS_def less_artifact_kind_def)

lemma all_kinds: "(\<forall>k. P k) \<longleftrightarrow> P StateFile \<and> P MemFile \<and> P DiskFile"
  by (metis artifact_kind.exhaust)

record artifact_descriptor =
  ad_kind :: artifact_kind
  ad_name :: string
  ad_size :: int
  ad_sha256 :: string

record cpu_fingerprint =
  cpu_architecture :: string
  cpu_vendor :: string
  cpu_model :: string
  cpu_family :: string
  cpu_stepping :: string

datatype huge_pages = NoHugePages | Huge2M

record port_exposure =
  pe_guestPort :: int
  pe_proxyHost :: string
  pe_proxyPort :: int
  pe_url :: string

record compat_manifest =
  m_migrationId :: string
  m_sandboxId :: string
  m_sourceEpoch :: int
  m_firecrackerVersion :: string
  m_firecrackerDigest :: string
  m_snapshotFormatVersion :: string
  m_hostKernelVersion :: string
  m_cpu :: cpu_fingerprint
  m_guestKernelDigest :: string
  m_cpuTemplate :: string
  m_vcpuCount :: int
  m_memSizeMib :: int
  m_smt :: bool
  m_hugePages :: huge_pages
  m_driveCanonicalPath :: string
  m_tapName :: string
  m_vsockCanonicalPath :: string
  m_artifacts :: "artifact_kind \<Rightarrow> artifact_descriptor"
  m_ports :: "port_exposure list option"
  m_consumed :: bool

record sandbox_info =
  info_id :: string
  info_region :: string
  info_worker :: string
  info_state :: sandbox_state
  info_epoch :: int
  info_cpu :: int
  info_memoryMb :: int
  info_createdAt :: string
  info_bootId :: "string option"
  info_bootedAt :: "string option"
  info_ports :: "port_exposure list option"

section \<open>Retry delay\<close>

text \<open>
  \<open>backoffDelay\<close> over rationals; \<open>random\<close> is the value \<open>random()\<close> returned,
  in \<open>[0,1)\<close>. \<open>Math.round x\<close> is \<open>\<lfloor>x + 1/2\<rfloor>\<close>. The powers of the default
  factor 2 are exact in floating point.
\<close>

definition math_round :: "rat \<Rightarrow> int" where
  "math_round x = \<lfloor>x + 1 / 2\<rfloor>"

definition backoff_base :: "rat \<Rightarrow> rat \<Rightarrow> rat \<Rightarrow> int \<Rightarrow> rat" where
  "backoff_base initial maximum factor attempt = min maximum (initial * factor ^ nat (max 0 attempt))"

definition backoffDelay :: "int \<Rightarrow> rat \<Rightarrow> rat \<Rightarrow> rat \<Rightarrow> rat \<Rightarrow> rat \<Rightarrow> int" where
  "backoffDelay attempt initial maximum factor jitter random =
     max 0 (math_round (backoff_base initial maximum factor attempt
       * (1 - jitter + random * jitter * 2)))"

text \<open>The call without options.\<close>

definition default_backoff :: "int \<Rightarrow> rat \<Rightarrow> int" where
  "default_backoff attempt random = backoffDelay attempt 100 5000 2 (1 / 5) random"

end
