(* ===== verification/Platform.thy ===== *)
theory Platform
  imports Common
begin

text \<open>
  The boundary of the worker agent: what it asks of Node, of the kernel, of Firecracker, of
  the guest and of its peers. The interfaces are those of \<open>platform/adapters.ts\<close>,
  \<open>runtime/unix-http.ts\<close>, \<open>runtime/vsock.ts\<close> (the connector), \<open>runtime/relay.ts\<close>
  (the relay factory) and \<open>artifacts/artifact-http.ts\<close>; the last three calls are
  what the SDK asks of its run time. A call is a value of type
  \<open>syscall\<close> and its settled promise a value of type \<open>reply\<close>; what answers is an
  argument of every run, a function from the calls made so far and the call to the reply.
\<close>

section \<open>Data at the boundary\<close>

text \<open>
  The content of a file, of a line or of a response body: raw bytes, or the text
  \<open>JSON.stringify\<close> produced for a value. \<open>JSON.parse\<close> reads the second and raises a
  \<open>SyntaxError\<close> on the first.
\<close>

datatype text_data = Bytes string | JsonText json

fun json_parse :: "text_data \<Rightarrow> json option" where
  "json_parse (JsonText j) = Some j"
| "json_parse (Bytes s) = None"

text \<open>How a watched directory stream ends: see \<open>waitForFile\<close>.\<close>

datatype watch_end = WatchTimedOut | WatchProcessExited string | WatchFailed js_error | WatchEnded

record http_response =
  http_status :: int
  http_hash :: "string option"
  http_body :: "(string list \<times> js_error option) option"

text \<open>
  What \<open>fetch\<close> answers a client of the SDK: the text of the body is taken whole by
  \<open>json()\<close>, or read as a stream of decoded chunks which ends with what the decoder still
  held or with an error.
\<close>

record fetch_response =
  fr_status :: nat
  fr_statusText :: string
  fr_contentType :: "string option"
  fr_text :: text_data
  fr_stream :: "(string list \<times> (js_error + string)) option"

datatype syscall =
    FsMkdir string bool
  | FsReadFile string
  | FsOpen string string
  | FileWrite string text_data
  | FileSync string
  | FileClose string
  | FsRename string string
  | FsLink string string
  | FsRm string
  | FsStat string
  | FsReadStream string "(int \<times> int) option"
  | FsWatch string
  | ProcRun string "string list"
  | ProcSpawn string "string list"
  | ProcKill int
  | ProcExited int
  | UnixHttp string string string json
  | VsockConnect string
  | VsockSend string text_data
  | VsockReadLine string
  | VsockDestroy string
  | RelayListen int string int
  | RelayClose int
  | HttpGet string "(string \<times> string) list"
  | SleepFor int
  | DateNow
  | IsoNow
  | RandomUuid
  | Fetch string string "(string \<times> string) list" "json option"
  | SignalAborted
  | MathRandom

text \<open>
  A stream is delivered with the error that cut it short, if any: the chunks are read in
  order and the error is raised after the last of them.
\<close>

datatype reply =
    Fail js_error
  | Ok
  | OkText string
  | OkData text_data
  | OkStat int bool
  | OkChunks "string list" "js_error option"
  | OkEvents "string option list" watch_end
  | OkInt int
  | OkStatus int text_data
  | OkHttp http_response
  | OkFetch fetch_response
  | OkRandom rat

type_synonym environment = "syscall list \<Rightarrow> syscall \<Rightarrow> reply"

text \<open>
  A platform on which every request succeeds, for closed instances: times are 0, process ids
  1, a new file is an empty regular file, the guest answers every line with \<open>OK\<close>.
\<close>

fun calm :: environment where
  "calm l (FsReadFile p) = Fail (Errno ''ENOENT'')"
| "calm l (FsStat p) = OkStat 0 True"
| "calm l (FsReadStream p r) = OkChunks [] None"
| "calm l (FsWatch p) = OkEvents [] WatchEnded"
| "calm l (ProcSpawn f a) = OkInt 1"
| "calm l (UnixHttp s m p b) = OkStatus 204 (Bytes [])"
| "calm l (VsockReadLine p) = OkData (Bytes ''OK'')"
| "calm l (HttpGet u h) = OkHttp \<lparr>http_status = 200, http_hash = None, http_body = Some ([], None)\<rparr>"
| "calm l DateNow = OkInt 0"
| "calm l IsoNow = OkText ''1970-01-01T00:00:00.000Z''"
| "calm l RandomUuid = OkText ''00000000-0000-4000-8000-000000000000''"
| "calm l _ = Ok"

end
