(* ===== verification/Async.thy ===== *)
theory Async
  imports Platform
begin

text \<open>
  Asynchronous programs. A program of type \<open>('s, 'a) prog\<close> is the code of an
  \<open>async\<close> function over a shared mutable state \<open>'s\<close>: it reads and writes the state
  synchronously and suspends at every \<open>await\<close>. A \<open>Call\<close> issues a request to the
  platform and suspends until the reply; a \<open>Yield\<close> is an \<open>await\<close> of one of the
  program's own promises, resumed once its guard holds of the state. Two semantics share
  the programs: \<open>run\<close>, one program alone against an environment, and \<open>sched_step\<close>,
  any number of programs interleaved at their suspensions.
\<close>

section \<open>Programs\<close>

datatype ('s, 'a) prog =
    Return 'a
  | Throw js_error
  | Read "'s \<Rightarrow> ('s, 'a) prog"
  | Write "'s \<Rightarrow> 's" "('s, 'a) prog"
  | Call syscall "reply \<Rightarrow> ('s, 'a) prog"
  | Yield "'s \<Rightarrow> bool" "('s, 'a) prog"

primrec bind :: "('s, 'a) prog \<Rightarrow> ('a \<Rightarrow> ('s, 'b) prog) \<Rightarrow> ('s, 'b) prog" where
  "bind (Return a) f = f a"
| "bind (Throw e) f = Throw e"
| "bind (Read k) f = Read (\<lambda>s. bind (k s) f)"
| "bind (Write u p) f = Write u (bind p f)"
| "bind (Call c k) f = Call c (\<lambda>r. bind (k r) f)"
| "bind (Yield g p) f = Yield g (bind p f)"

text \<open>A \<open>try\<close> block as a value: the error or the result.\<close>

primrec attempt :: "('s, 'a) prog \<Rightarrow> ('s, js_error + 'a) prog" where
  "attempt (Return a) = Return (Inr a)"
| "attempt (Throw e) = Return (Inl e)"
| "attempt (Read k) = Read (\<lambda>s. attempt (k s))"
| "attempt (Write u p) = Write u (attempt p)"
| "attempt (Call c k) = Call c (\<lambda>r. attempt (k r))"
| "attempt (Yield g p) = Yield g (attempt p)"

text \<open>A program over one field of a larger state, given the field's selector and update.\<close>

primrec zoom :: "('t \<Rightarrow> 's) \<Rightarrow> (('s \<Rightarrow> 's) \<Rightarrow> 't \<Rightarrow> 't) \<Rightarrow> ('s, 'a) prog \<Rightarrow> ('t, 'a) prog" where
  "zoom g u (Return a) = Return a"
| "zoom g u (Throw e) = Throw e"
| "zoom g u (Read k) = Read (\<lambda>t. zoom g u (k (g t)))"
| "zoom g u (Write f p) = Write (u f) (zoom g u p)"
| "zoom g u (Call c k) = Call c (\<lambda>r. zoom g u (k r))"
| "zoom g u (Yield q p) = Yield (\<lambda>t. q (g t)) (zoom g u p)"

abbreviation seq :: "('s, 'a) prog \<Rightarrow> ('s, 'b) prog \<Rightarrow> ('s, 'b) prog" where
  "seq p q \<equiv> bind p (\<lambda>_. q)"

abbreviation skip :: "('s, unit) prog" where
  "skip \<equiv> Return ()"

abbreviation modify :: "('s \<Rightarrow> 's) \<Rightarrow> ('s, unit) prog" where
  "modify f \<equiv> Write f skip"

abbreviation gets :: "('s \<Rightarrow> 'a) \<Rightarrow> ('s, 'a) prog" where
  "gets f \<equiv> Read (\<lambda>s. Return (f s))"

definition guard_throw :: "bool \<Rightarrow> js_error \<Rightarrow> ('s, unit) prog" where
  "guard_throw b e = (if b then Throw e else skip)"

fun settle :: "js_error + 'a \<Rightarrow> ('s, 'a) prog" where
  "settle (Inl e) = Throw e"
| "settle (Inr a) = Return a"

text \<open>\<open>await\<close> of the promise of another \<open>async\<close> function: its outcome arrives in a later turn.\<close>

definition await :: "('s, 'a) prog \<Rightarrow> ('s, 'a) prog" where
  "await p = bind (attempt p) (\<lambda>r. Yield (\<lambda>_. True) (settle r))"

definition try_catch :: "('s, 'a) prog \<Rightarrow> (js_error \<Rightarrow> ('s, 'a) prog) \<Rightarrow> ('s, 'a) prog" where
  "try_catch p h = bind (attempt p) (\<lambda>r. case r of Inl e \<Rightarrow> h e | Inr a \<Rightarrow> Return a)"

definition try_finally :: "('s, 'a) prog \<Rightarrow> ('s, unit) prog \<Rightarrow> ('s, 'a) prog" where
  "try_finally p q = bind (attempt p) (\<lambda>r. seq q (settle r))"

primrec for_each :: "'x list \<Rightarrow> ('x \<Rightarrow> ('s, unit) prog) \<Rightarrow> ('s, unit) prog" where
  "for_each [] f = skip"
| "for_each (x # xs) f = seq (f x) (for_each xs f)"

section \<open>Typed calls\<close>

definition call_unit :: "syscall \<Rightarrow> ('s, unit) prog" where
  "call_unit c = Call c (\<lambda>r. case r of Fail e \<Rightarrow> Throw e | _ \<Rightarrow> skip)"

definition call_text :: "syscall \<Rightarrow> ('s, string) prog" where
  "call_text c = Call c (\<lambda>r. case r of Fail e \<Rightarrow> Throw e | OkText t \<Rightarrow> Return t | _ \<Rightarrow> Throw TypeFault)"

definition call_data :: "syscall \<Rightarrow> ('s, text_data) prog" where
  "call_data c = Call c (\<lambda>r. case r of Fail e \<Rightarrow> Throw e | OkData d \<Rightarrow> Return d | _ \<Rightarrow> Throw TypeFault)"

definition call_stat :: "syscall \<Rightarrow> ('s, int \<times> bool) prog" where
  "call_stat c = Call c (\<lambda>r. case r of Fail e \<Rightarrow> Throw e | OkStat n b \<Rightarrow> Return (n, b) | _ \<Rightarrow> Throw TypeFault)"

definition call_int :: "syscall \<Rightarrow> ('s, int) prog" where
  "call_int c = Call c (\<lambda>r. case r of Fail e \<Rightarrow> Throw e | OkInt n \<Rightarrow> Return n | _ \<Rightarrow> Throw TypeFault)"

definition call_chunks :: "syscall \<Rightarrow> ('s, string list \<times> js_error option) prog" where
  "call_chunks c = Call c (\<lambda>r. case r of Fail e \<Rightarrow> Throw e | OkChunks xs e \<Rightarrow> Return (xs, e) | _ \<Rightarrow> Throw TypeFault)"

definition call_events :: "syscall \<Rightarrow> ('s, string option list \<times> watch_end) prog" where
  "call_events c = Call c (\<lambda>r. case r of Fail e \<Rightarrow> Throw e | OkEvents xs e \<Rightarrow> Return (xs, e) | _ \<Rightarrow> Throw TypeFault)"

definition call_status :: "syscall \<Rightarrow> ('s, int \<times> text_data) prog" where
  "call_status c = Call c (\<lambda>r. case r of Fail e \<Rightarrow> Throw e | OkStatus n d \<Rightarrow> Return (n, d) | _ \<Rightarrow> Throw TypeFault)"

definition call_http :: "syscall \<Rightarrow> ('s, http_response) prog" where
  "call_http c = Call c (\<lambda>r. case r of Fail e \<Rightarrow> Throw e | OkHttp h \<Rightarrow> Return h | _ \<Rightarrow> Throw TypeFault)"

lemmas call_defs = call_unit_def call_text_def call_data_def call_stat_def call_int_def
  call_chunks_def call_events_def call_status_def call_http_def

section \<open>One program alone\<close>

text \<open>
  The outcome of a run: a value, a thrown error, or \<open>Blocked\<close> when the program waits for
  a promise that nobody is left to settle.
\<close>

datatype 'a outcome = Value 'a | Raised js_error | Blocked

primrec run :: "environment \<Rightarrow> ('s, 'a) prog \<Rightarrow> 's \<Rightarrow> syscall list \<Rightarrow> 'a outcome \<times> 's \<times> syscall list" where
  "run E (Return a) s l = (Value a, s, l)"
| "run E (Throw e) s l = (Raised e, s, l)"
| "run E (Read k) s l = run E (k s) s l"
| "run E (Write u p) s l = run E p (u s) l"
| "run E (Call c k) s l = run E (k (E l c)) s (l @ [c])"
| "run E (Yield g p) s l = (if g s then run E p s l else (Blocked, s, l))"

text \<open>The parts of a run.\<close>

definition result :: "'a outcome \<times> 's \<times> syscall list \<Rightarrow> 'a outcome" where
  "result x = fst x"

definition final :: "'a outcome \<times> 's \<times> syscall list \<Rightarrow> 's" where
  "final x = fst (snd x)"

definition calls :: "'a outcome \<times> 's \<times> syscall list \<Rightarrow> syscall list" where
  "calls x = snd (snd x)"

lemma run_parts [simp]: "result (r, s, l) = r" "final (r, s, l) = s" "calls (r, s, l) = l"
  by (simp_all add: result_def final_def calls_def)

text \<open>The sequencing lemmas every later proof uses.\<close>

lemma run_bind [run_simps]:
  "run E (bind p f) s l = (case run E p s l of
     (Value a, s', l') \<Rightarrow> run E (f a) s' l'
   | (Raised e, s', l') \<Rightarrow> (Raised e, s', l')
   | (Blocked, s', l') \<Rightarrow> (Blocked, s', l'))"
  by (induction p arbitrary: s l) auto

lemma run_attempt [run_simps]:
  "run E (attempt p) s l = (case run E p s l of
     (Value a, s', l') \<Rightarrow> (Value (Inr a), s', l')
   | (Raised e, s', l') \<Rightarrow> (Value (Inl e), s', l')
   | (Blocked, s', l') \<Rightarrow> (Blocked, s', l'))"
  by (induction p arbitrary: s l) auto

lemma run_await [run_simps]: "run E (await p) s l = run E p s l"
  by (auto simp: await_def run_bind run_attempt split: prod.splits outcome.splits)

lemma run_try_catch [run_simps]:
  "run E (try_catch p h) s l = (case run E p s l of
     (Value a, s', l') \<Rightarrow> (Value a, s', l')
   | (Raised e, s', l') \<Rightarrow> run E (h e) s' l'
   | (Blocked, s', l') \<Rightarrow> (Blocked, s', l'))"
  by (auto simp: try_catch_def run_bind run_attempt split: prod.splits outcome.splits)

lemma run_finally [run_simps]:
  "run E (try_finally p q) s l = (case run E p s l of
     (Value a, s', l') \<Rightarrow> run E (seq q (Return a)) s' l'
   | (Raised e, s', l') \<Rightarrow> run E (seq q (Throw e)) s' l'
   | (Blocked, s', l') \<Rightarrow> (Blocked, s', l'))"
  by (auto simp: try_finally_def run_bind run_attempt split: prod.splits outcome.splits)

lemma run_guard_throw [run_simps]:
  "run E (guard_throw b e) s l = (if b then (Raised e, s, l) else (Value (), s, l))"
  by (simp add: guard_throw_def)

lemma run_settle [run_simps]:
  "run E (settle r) s l = (case r of Inl e \<Rightarrow> (Raised e, s, l) | Inr a \<Rightarrow> (Value a, s, l))"
  by (cases r) simp_all

lemma run_for_each [run_simps]:
  "run E (for_each [] f) s l = (Value (), s, l)"
  "run E (for_each (x # xs) f) s l = run E (seq (f x) (for_each xs f)) s l"
  by simp_all

lemma run_call_unit [run_simps]:
  "run E (call_unit c) s l = (case E l c of Fail e \<Rightarrow> (Raised e, s, l @ [c]) | _ \<Rightarrow> (Value (), s, l @ [c]))"
  by (simp add: call_unit_def split: reply.split)

text \<open>The steps of a run that ends in a value.\<close>

lemma run_bind_Value [run_ok]:
  "run E (bind p f) s l = (Value b, s', l') \<longleftrightarrow>
     (\<exists>a s1 l1. run E p s l = (Value a, s1, l1) \<and> run E (f a) s1 l1 = (Value b, s', l'))"
  by (auto simp: run_bind split: prod.splits outcome.splits)

lemma run_finally_Value [run_ok]:
  "run E (try_finally p q) s l = (Value b, s', l') \<longleftrightarrow>
     (\<exists>s1 l1 u. run E p s l = (Value b, s1, l1) \<and> run E q s1 l1 = (Value u, s', l'))"
  by (auto simp: run_finally run_bind split: prod.splits outcome.splits)

lemma run_call_unit_Value [run_ok]:
  "run E (call_unit c) s l = (Value u, s', l') \<longleftrightarrow> s' = s \<and> l' = l @ [c] \<and> (\<forall>e. E l c \<noteq> Fail e)"
  by (auto simp: call_unit_def split: reply.splits)

lemma run_call_int_Value [run_ok]:
  "run E (call_int c) s l = (Value n, s', l') \<longleftrightarrow> s' = s \<and> l' = l @ [c] \<and> E l c = OkInt n"
  by (auto simp: call_int_def split: reply.splits)

lemma run_call_text_Value [run_ok]:
  "run E (call_text c) s l = (Value t, s', l') \<longleftrightarrow> s' = s \<and> l' = l @ [c] \<and> E l c = OkText t"
  by (auto simp: call_text_def split: reply.splits)

lemma run_call_data_Value [run_ok]:
  "run E (call_data c) s l = (Value d, s', l') \<longleftrightarrow> s' = s \<and> l' = l @ [c] \<and> E l c = OkData d"
  by (auto simp: call_data_def split: reply.splits)

lemma run_call_stat_Value [run_ok]:
  "run E (call_stat c) s l = (Value x, s', l') \<longleftrightarrow>
     s' = s \<and> l' = l @ [c] \<and> E l c = OkStat (fst x) (snd x)"
  by (auto simp: call_stat_def split: reply.splits)

lemma run_call_http_Value [run_ok]:
  "run E (call_http c) s l = (Value h, s', l') \<longleftrightarrow> s' = s \<and> l' = l @ [c] \<and> E l c = OkHttp h"
  by (auto simp: call_http_def split: reply.splits)

lemma run_call_status_Value [run_ok]:
  "run E (call_status c) s l = (Value x, s', l') \<longleftrightarrow>
     s' = s \<and> l' = l @ [c] \<and> E l c = OkStatus (fst x) (snd x)"
  by (auto simp: call_status_def split: reply.splits)

lemma run_guard_Value [run_ok]:
  "run E (guard_throw b e) s l = (Value u, s', l') \<longleftrightarrow> \<not> b \<and> s' = s \<and> l' = l"
  by (auto simp: guard_throw_def)

lemma run_settle_Value [run_ok]:
  "run E (settle r) s l = (Value a, s', l') \<longleftrightarrow> r = Inr a \<and> s' = s \<and> l' = l"
  by (cases r) auto

lemma run_await_Value [run_ok]:
  "run E (await p) s l = (Value a, s', l') \<longleftrightarrow> run E p s l = (Value a, s', l')"
  by (simp add: run_await)

text \<open>A run only ever extends the log of calls.\<close>

lemma run_extends: "\<exists>t. calls (run E p s l) = l @ t"
proof (induction p arbitrary: s l)
  case (Call c k)
  obtain t where "calls (run E (k (E l c)) s (l @ [c])) = (l @ [c]) @ t"
    using Call.IH by blast
  then show ?case by simp
qed (auto simp: calls_def)

text \<open>
  Programs that only ask the platform: they neither write the state nor wait for a promise,
  so they leave the state alone and always settle.
\<close>

primrec quiet :: "('s, 'a) prog \<Rightarrow> bool" where
  "quiet (Return a) = True"
| "quiet (Throw e) = True"
| "quiet (Read k) = (\<forall>s. quiet (k s))"
| "quiet (Write u p) = False"
| "quiet (Call c k) = (\<forall>r. quiet (k r))"
| "quiet (Yield g p) = ((\<forall>s. g s) \<and> quiet p)"

lemma quiet_bind [intro!]: "quiet p \<Longrightarrow> (\<And>x. quiet (f x)) \<Longrightarrow> quiet (bind p f)"
  by (induction p) auto

lemma quiet_attempt [intro!]: "quiet p \<Longrightarrow> quiet (attempt p)"
  by (induction p) auto

lemma quiet_settle [simp]: "quiet (settle r)"
  by (cases r) simp_all

lemma quiet_await [intro!]: "quiet p \<Longrightarrow> quiet (await p)"
  unfolding await_def by (intro quiet_bind quiet_attempt) simp_all

lemma quiet_try_catch [intro!]: "quiet p \<Longrightarrow> (\<And>e. quiet (h e)) \<Longrightarrow> quiet (try_catch p h)"
  unfolding try_catch_def by (intro quiet_bind quiet_attempt) (simp_all split: sum.split)

lemma quiet_try_finally [intro!]: "quiet p \<Longrightarrow> quiet q \<Longrightarrow> quiet (try_finally p q)"
  unfolding try_finally_def by (intro quiet_bind quiet_attempt) simp_all

lemma quiet_for_each [intro!]: "(\<And>x. x \<in> set xs \<Longrightarrow> quiet (f x)) \<Longrightarrow> quiet (for_each xs f)"
  by (induction xs) auto

lemma quiet_guard_throw [simp]: "quiet (guard_throw b e)"
  by (simp add: guard_throw_def)

lemma quiet_calls [simp]:
  "quiet (call_unit c)" "quiet (call_text c)" "quiet (call_data c)" "quiet (call_stat c)"
  "quiet (call_int c)" "quiet (call_chunks c)" "quiet (call_events c)" "quiet (call_status c)"
  "quiet (call_http c)"
  by (simp_all add: call_defs split: reply.split)

lemma quiet_run:
  "quiet p \<Longrightarrow> final (run E p s l) = s \<and> result (run E p s l) \<noteq> Blocked"
  by (induction p arbitrary: l) (auto simp: result_def final_def)

lemma quiet_runE:
  assumes "quiet p"
  obtains (ret) a l' where "run E p s l = (Value a, s, l')"
    | (err) e l' where "run E p s l = (Raised e, s, l')"
  using quiet_run [OF assms, of E s l] by (cases "run E p s l"; cases "fst (run E p s l)") auto

text \<open>Running on a field of a larger state is running on that field.\<close>

locale field =
  fixes get :: "'t \<Rightarrow> 's" and upd :: "('s \<Rightarrow> 's) \<Rightarrow> 't \<Rightarrow> 't"
  assumes get_upd: "get (upd f t) = f (get t)"
    and upd_upd: "upd f (upd g t) = upd (f \<circ> g) t"
    and upd_get: "upd (\<lambda>_. get t) t = t"
begin

lemma upd_const: "upd f t = upd (\<lambda>_. f (get t)) t"
proof -
  have "upd f t = upd f (upd (\<lambda>_. get t) t)" by (simp add: upd_get)
  also have "\<dots> = upd (\<lambda>_. f (get t)) t" by (simp add: upd_upd comp_def)
  finally show ?thesis .
qed

lemma run_zoom:
  "run E (zoom get upd p) t l =
     (result (run E p (get t) l), upd (\<lambda>_. final (run E p (get t) l)) t, calls (run E p (get t) l))"
proof (induction p arbitrary: t l)
  case (Write f p)
  have "upd (\<lambda>_. x) (upd f t) = upd (\<lambda>_. x) t" for x
    by (simp add: upd_upd comp_def)
  with Write show ?case by (simp add: get_upd)
qed (simp_all add: upd_get)

end

section \<open>Programs interleaved\<close>

text \<open>
  A thread that has run up to its next suspension: waiting for the reply to a call, for a
  turn in which its guard holds, or finished.
\<close>

datatype ('s, 'a) thread =
    Waiting syscall "reply \<Rightarrow> ('s, 'a) prog"
  | Ready "'s \<Rightarrow> bool" "('s, 'a) prog"
  | Finished "js_error + 'a"

primrec advance :: "('s, 'a) prog \<Rightarrow> 's \<Rightarrow> syscall list \<Rightarrow> ('s, 'a) thread \<times> 's \<times> syscall list" where
  "advance (Return a) s l = (Finished (Inr a), s, l)"
| "advance (Throw e) s l = (Finished (Inl e), s, l)"
| "advance (Read k) s l = advance (k s) s l"
| "advance (Write u p) s l = advance p (u s) l"
| "advance (Call c k) s l = (Waiting c k, s, l @ [c])"
| "advance (Yield g p) s l = (Ready g p, s, l)"

type_synonym ('s, 'a) system = "('s \<times> syscall list) \<times> ('s, 'a) thread list"

text \<open>
  A scheduler's step: a new program arrives and runs to its first suspension, a pending
  call is answered, or a ready thread is given a turn. \<open>Progs\<close> is the set of programs
  that may arrive.
\<close>

inductive sched_step :: "('s, 'a) prog set \<Rightarrow> ('s, 'a) system \<Rightarrow> ('s, 'a) system \<Rightarrow> bool"
  for Progs where
  arrive: "p \<in> Progs \<Longrightarrow> advance p s l = (t, s', l') \<Longrightarrow>
     sched_step Progs ((s, l), ts) ((s', l'), ts @ [t])"
| answer: "i < length ts \<Longrightarrow> ts ! i = Waiting c k \<Longrightarrow> advance (k r) s l = (t, s', l') \<Longrightarrow>
     sched_step Progs ((s, l), ts) ((s', l'), ts[i := t])"
| turn: "i < length ts \<Longrightarrow> ts ! i = Ready g p \<Longrightarrow> g s \<Longrightarrow> advance p s l = (t, s', l') \<Longrightarrow>
     sched_step Progs ((s, l), ts) ((s', l'), ts[i := t])"

inductive_simps sched_step_simps: "sched_step Progs ((s, l), ts) y"

inductive sched_reach :: "('s, 'a) prog set \<Rightarrow> ('s, 'a) system \<Rightarrow> ('s, 'a) system \<Rightarrow> bool"
  for Progs x where
  here: "sched_reach Progs x x"
| more: "sched_reach Progs x y \<Longrightarrow> sched_step Progs y z \<Longrightarrow> sched_reach Progs x z"

section \<open>Rely and guarantee\<close>

text \<open>
  \<open>rg I R p V X a b\<close>: a thread whose present turn began in the configuration \<open>a\<close> and has
  reached \<open>b\<close> may run \<open>p\<close>; at every suspension the invariant \<open>I\<close> holds and the turn
  so far is related by \<open>R\<close>, whatever the replies are and whatever the other threads do
  in between, as long as they keep \<open>I\<close> and move by \<open>R\<close>. A value ends in \<open>V\<close>, an
  error in \<open>X\<close>.
\<close>

type_synonym 's conf = "'s \<times> syscall list"

primrec rg :: "('s conf \<Rightarrow> bool) \<Rightarrow> ('s conf \<Rightarrow> 's conf \<Rightarrow> bool) \<Rightarrow> ('s, 'a) prog \<Rightarrow>
    ('a \<Rightarrow> 's conf \<Rightarrow> 's conf \<Rightarrow> bool) \<Rightarrow> (js_error \<Rightarrow> 's conf \<Rightarrow> 's conf \<Rightarrow> bool) \<Rightarrow>
    's conf \<Rightarrow> 's conf \<Rightarrow> bool" where
  "rg I R (Return v) V X a b = V v a b"
| "rg I R (Throw e) V X a b = X e a b"
| "rg I R (Read k) V X a b = rg I R (k (fst b)) V X a b"
| "rg I R (Write u p) V X a b = rg I R p V X a (u (fst b), snd b)"
| "rg I R (Call c k) V X a b =
     (I (fst b, snd b @ [c]) \<and> R a (fst b, snd b @ [c]) \<and>
      (\<forall>r d. I d \<and> R (fst b, snd b @ [c]) d \<longrightarrow> rg I R (k r) V X d d))"
| "rg I R (Yield g p) V X a b =
     (I b \<and> R a b \<and> (\<forall>d. I d \<and> R b d \<and> g (fst d) \<longrightarrow> rg I R p V X d d))"

lemma rg_bind: "rg I R (bind p f) V X = rg I R p (\<lambda>v. rg I R (f v) V X) X"
  by (induction p) (auto simp: fun_eq_iff)

lemma rg_attempt: "rg I R (attempt p) V X = rg I R p (\<lambda>v. V (Inr v)) (\<lambda>e. V (Inl e))"
  by (induction p) (auto simp: fun_eq_iff)

lemma rg_mono:
  "rg I R p V X a b \<Longrightarrow> (\<And>v a b. V v a b \<Longrightarrow> V' v a b) \<Longrightarrow> (\<And>e a b. X e a b \<Longrightarrow> X' e a b) \<Longrightarrow>
     rg I R p V' X' a b"
  by (induction p arbitrary: a b) auto

text \<open>A finished program has kept the invariant and the relation.\<close>

definition rg_prog :: "('s conf \<Rightarrow> bool) \<Rightarrow> ('s conf \<Rightarrow> 's conf \<Rightarrow> bool) \<Rightarrow> ('s, 'a) prog \<Rightarrow> bool" where
  "rg_prog I R p \<longleftrightarrow>
     (\<forall>a. I a \<longrightarrow> rg I R p (\<lambda>_ a b. I b \<and> R a b) (\<lambda>_ a b. I b \<and> R a b) a a)"

definition thread_ok :: "('s conf \<Rightarrow> bool) \<Rightarrow> ('s conf \<Rightarrow> 's conf \<Rightarrow> bool) \<Rightarrow> 's conf \<Rightarrow> ('s, 'a) thread \<Rightarrow> bool" where
  "thread_ok I R a t = (case t of
     Waiting c k \<Rightarrow> \<forall>r d. I d \<and> R a d \<longrightarrow> rg I R (k r) (\<lambda>_ a b. I b \<and> R a b) (\<lambda>_ a b. I b \<and> R a b) d d
   | Ready g p \<Rightarrow> \<forall>d. I d \<and> R a d \<and> g (fst d) \<longrightarrow> rg I R p (\<lambda>_ a b. I b \<and> R a b) (\<lambda>_ a b. I b \<and> R a b) d d
   | Finished x \<Rightarrow> True)"

lemma thread_ok_later:
  assumes "\<And>a b c. R a b \<Longrightarrow> R b c \<Longrightarrow> R a c" and "R a b" and "thread_ok I R a t"
  shows "thread_ok I R b t"
proof -
  have earlier: "R a d" if "R b d" for d using assms(1,2) that by blast
  show ?thesis
    using assms(3) earlier unfolding thread_ok_def by (cases t) auto
qed

lemma advance_rg:
  assumes "rg I R p (\<lambda>_ a b. I b \<and> R a b) (\<lambda>_ a b. I b \<and> R a b) a (s, l)"
    and "advance p s l = (t, s', l')"
  shows "I (s', l') \<and> R a (s', l') \<and> thread_ok I R (s', l') t"
  using assms
proof (induction p arbitrary: s l)
  case (Read k)
  from Read.prems show ?case by (simp add: Read.IH [OF rangeI])
qed (auto simp: thread_ok_def)

text \<open>
  Soundness: when every program that may arrive keeps \<open>I\<close> and \<open>R\<close>, then so does every
  interleaving of any number of them.
\<close>

locale rely_guarantee =
  fixes I :: "'s conf \<Rightarrow> bool" and R :: "'s conf \<Rightarrow> 's conf \<Rightarrow> bool" and Progs :: "('s, 'a) prog set"
  assumes R_refl: "R a a"
    and R_trans: "R a b \<Longrightarrow> R b c \<Longrightarrow> R a c"
    and progs_ok: "p \<in> Progs \<Longrightarrow> rg_prog I R p"
begin

lemma step_ok:
  assumes "sched_step Progs (a, ts) (b, ts')" and "I a" and "\<forall>t \<in> set ts. thread_ok I R a t"
  shows "I b \<and> R a b \<and> (\<forall>t \<in> set ts'. thread_ok I R b t)"
  using assms(1)
proof cases
  case (arrive p s l t s' l')
  from progs_ok [OF arrive(4)] assms(2) arrive(1)
  have "rg I R p (\<lambda>_ a b. I b \<and> R a b) (\<lambda>_ a b. I b \<and> R a b) (s, l) (s, l)"
    by (simp add: rg_prog_def)
  from advance_rg [OF this arrive(5)] arrive(1-3) assms(3) show ?thesis
    by (auto intro: thread_ok_later [OF R_trans])
next
  case (answer i c k r s l t s' l')
  have "thread_ok I R a (ts ! i)" using assms(3) answer(4) by simp
  with answer(1,5) assms(2) R_refl
  have "rg I R (k r) (\<lambda>_ a b. I b \<and> R a b) (\<lambda>_ a b. I b \<and> R a b) (s, l) (s, l)"
    by (simp add: thread_ok_def)
  from advance_rg [OF this answer(6)] answer(1-4) assms(3) show ?thesis
    by (auto intro: thread_ok_later [OF R_trans] dest!: set_update_subset_insert [THEN subsetD])
next
  case (turn i g p s l t s' l')
  have "thread_ok I R a (ts ! i)" using assms(3) turn(4) by simp
  with turn(1,5,6) assms(2) R_refl
  have "rg I R p (\<lambda>_ a b. I b \<and> R a b) (\<lambda>_ a b. I b \<and> R a b) (s, l) (s, l)"
    by (simp add: thread_ok_def)
  from advance_rg [OF this turn(7)] turn(1-4) assms(3) show ?thesis
    by (auto intro: thread_ok_later [OF R_trans] dest!: set_update_subset_insert [THEN subsetD])
qed

lemma reach_ok:
  assumes "sched_reach Progs (a, []) y" and "I a"
  shows "I (fst y) \<and> R a (fst y) \<and> (\<forall>t \<in> set (snd y). thread_ok I R (fst y) t)"
  using assms
proof (induction rule: sched_reach.induct)
  case here
  then show ?case by (simp add: R_refl)
next
  case (more y z)
  then have step: "I (fst z) \<and> R (fst y) (fst z) \<and> (\<forall>t \<in> set (snd z). thread_ok I R (fst z) t)"
    using step_ok [of "fst y" "snd y" "fst z" "snd z"] by simp
  then have "R a (fst z)" using more.IH [OF more.prems] by (blast intro: R_trans)
  with step show ?case by simp
qed

end

end
