(* ===== verification/Paths.thy ===== *)
theory Paths
  imports Async
begin

text \<open>
  \<open>platform/paths.ts\<close>: identifiers and the path model of a worker, over the functions of
  Node's \<open>path\<close> module (POSIX) that it uses. Paths are strings.
\<close>

section \<open>The path module\<close>

abbreviation slash :: char where
  "slash \<equiv> CHR ''/''"

definition segments :: "string \<Rightarrow> string list" where
  "segments p = filter (\<lambda>s. s \<noteq> []) (split_on slash p)"

definition norm_step :: "bool \<Rightarrow> string list \<Rightarrow> string \<Rightarrow> string list" where
  "norm_step absolute acc s =
     (if s = ''.'' then acc
      else if s = ''..'' then
        (if acc \<noteq> [] \<and> last acc \<noteq> ''..'' then butlast acc
         else if absolute then acc else acc @ [s])
      else acc @ [s])"

definition norm_segments :: "bool \<Rightarrow> string list \<Rightarrow> string list" where
  "norm_segments absolute ss = foldl (norm_step absolute) [] ss"

definition path_text :: "string list \<Rightarrow> string" where
  "path_text ss = slash # join_with [slash] ss"

definition is_absolute :: "string \<Rightarrow> bool" where
  "is_absolute p \<longleftrightarrow> p \<noteq> [] \<and> hd p = slash"

text \<open>\<open>path.resolve(...parts)\<close> in a process whose working directory is \<open>cwd\<close>.\<close>

definition resolve_step :: "string list \<Rightarrow> string \<Rightarrow> string list" where
  "resolve_step acc p =
     (if p = [] then acc else if is_absolute p then segments p else acc @ segments p)"

definition path_resolve :: "string \<Rightarrow> string list \<Rightarrow> string" where
  "path_resolve cwd parts =
     path_text (norm_segments True (foldl resolve_step (segments cwd) parts))"

definition path_normalize :: "string \<Rightarrow> string" where
  "path_normalize p =
     (if p = [] then ''.''
      else let absolute = is_absolute p; trailing = last p = slash;
               body = join_with [slash] (norm_segments absolute (segments p))
           in if absolute then slash # body @ (if trailing \<and> body \<noteq> [] then [slash] else [])
              else if body = [] then (if trailing then ''./'' else ''.'')
              else body @ (if trailing then [slash] else []))"

definition path_join :: "string list \<Rightarrow> string" where
  "path_join parts =
     (let ps = filter (\<lambda>p. p \<noteq> []) parts
      in if ps = [] then ''.'' else path_normalize (join_with [slash] ps))"

definition path_dirname :: "string \<Rightarrow> string" where
  "path_dirname p =
     (let r = dropWhile (\<lambda>c. c \<noteq> slash) (dropWhile (\<lambda>c. c = slash) (rev p))
      in if length r \<le> 1 then (if is_absolute p then [slash] else ''.'')
         else if is_absolute p \<and> length r = 2 then [slash, slash]
         else rev (tl r))"

definition path_basename :: "string \<Rightarrow> string" where
  "path_basename p = rev (takeWhile (\<lambda>c. c \<noteq> slash) (dropWhile (\<lambda>c. c = slash) (rev p)))"

section \<open>Identifiers\<close>

definition is_alnum :: "char \<Rightarrow> bool" where
  "is_alnum c \<longleftrightarrow> c \<in> set ''abcdefghijklmnopqrstuvwxyzABCDEFGHIJKLMNOPQRSTUVWXYZ0123456789''"

text \<open>\<open>encodeURIComponent\<close>.\<close>

definition uri_unreserved :: "char \<Rightarrow> bool" where
  "uri_unreserved c \<longleftrightarrow> is_alnum c \<or> c \<in> set ''-_.!~*()'' \<or> c = CHR 0x27"

definition upper_hex :: "nat \<Rightarrow> char" where
  "upper_hex d = ''0123456789ABCDEF'' ! d"

definition encodeURIComponent :: "string \<Rightarrow> string" where
  "encodeURIComponent t = concat (map (\<lambda>c. if uri_unreserved c then [c]
     else [CHR ''%'', upper_hex (of_char c div 16), upper_hex (of_char c mod 16)]) t)"

definition safeIdentifier :: "string \<Rightarrow> bool" where
  "safeIdentifier s \<longleftrightarrow> s \<noteq> [] \<and> is_alnum (hd s)
     \<and> list_all (\<lambda>c. is_alnum c \<or> c = CHR ''_'' \<or> c = CHR ''-'') (tl s) \<and> length (tl s) \<le> 127"

definition assertIdentifier :: "string \<Rightarrow> string \<Rightarrow> js_error + unit" where
  "assertIdentifier v fld = (if safeIdentifier v then Inr () else Inl (JsError (''Invalid '' @ fld)))"

lemma safeIdentifier_chars:
  "safeIdentifier s \<Longrightarrow> c \<in> set s \<Longrightarrow> is_alnum c \<or> c = CHR ''_'' \<or> c = CHR ''-''"
  by (cases s) (auto simp: safeIdentifier_def list_all_iff)

lemma safeIdentifier_no_slash: "safeIdentifier s \<Longrightarrow> slash \<notin> set s"
  by (auto dest!: safeIdentifier_chars simp: is_alnum_def)

lemma safeIdentifier_no_colon: "safeIdentifier s \<Longrightarrow> CHR '':'' \<notin> set s"
  by (auto dest!: safeIdentifier_chars simp: is_alnum_def)

lemma safeIdentifier_no_dot: "safeIdentifier s \<Longrightarrow> CHR ''.'' \<notin> set s"
  by (auto dest!: safeIdentifier_chars simp: is_alnum_def)

lemma safeIdentifier_nonempty: "safeIdentifier s \<Longrightarrow> s \<noteq> []"
  by (simp add: safeIdentifier_def)

section \<open>The path model\<close>

record path_model =
  pm_workerRoot :: string
  pm_canonicalRoot :: string

definition DEFAULT_CANONICAL_ROOT :: string where
  "DEFAULT_CANONICAL_ROOT = ''/var/lib/firemig/sandboxes''"

definition make_path_model :: "string \<Rightarrow> string \<Rightarrow> string option \<Rightarrow> path_model" where
  "make_path_model cwd workerRoot canonicalRoot =
     \<lparr>pm_workerRoot = path_resolve cwd [workerRoot],
      pm_canonicalRoot = path_resolve cwd
        [case canonicalRoot of None \<Rightarrow> DEFAULT_CANONICAL_ROOT | Some r \<Rightarrow> r]\<rparr>"

text \<open>
  The worker root is absolute, so the working directory plays no part in resolving below it.
\<close>

definition insideWorker :: "path_model \<Rightarrow> string list \<Rightarrow> js_error + string" where
  "insideWorker pm parts =
     (let p = path_resolve [] (pm_workerRoot pm # parts)
      in if p \<noteq> pm_workerRoot pm \<and> \<not> starts_with p (pm_workerRoot pm @ [slash])
         then Inl (JsError ''Path escaped worker root'') else Inr p)"

text \<open>The file names of the model.\<close>

definition state_file :: "int \<Rightarrow> string" where
  "state_file g = ''snapshot-'' @ int_text g @ ''.state''"

definition memory_file :: "int \<Rightarrow> string" where
  "memory_file g = ''memory-'' @ int_text g @ ''.mem''"

definition socket_file :: "string \<Rightarrow> string" where
  "socket_file i = i @ ''.socket''"

record sandbox_paths =
  physicalDirectory :: string
  canonicalDirectory :: string
  apiSocket :: string
  physicalRootfs :: string
  canonicalRootfs :: string
  physicalVsock :: string
  canonicalVsock :: string
  statePath :: string
  memoryPath :: string
  quarantinePathOf :: "string \<Rightarrow> js_error + string"

definition quarantine_of :: "path_model \<Rightarrow> string \<Rightarrow> string \<Rightarrow> js_error + string" where
  "quarantine_of pm i migrationId =
     (case assertIdentifier migrationId ''migration id'' of
        Inl e \<Rightarrow> Inl e
      | Inr _ \<Rightarrow> insideWorker pm [''quarantine'', migrationId, i])"

definition paths_for :: "path_model \<Rightarrow> string \<Rightarrow> js_number \<Rightarrow> string \<Rightarrow> string \<Rightarrow> sandbox_paths" where
  "paths_for pm i generation dir socket =
     (let canonical = path_join [pm_canonicalRoot pm, i]; g = num_val generation in
      \<lparr>physicalDirectory = dir,
       canonicalDirectory = canonical,
       apiSocket = socket,
       physicalRootfs = path_join [dir, ''rootfs.ext4''],
       canonicalRootfs = path_join [canonical, ''rootfs.ext4''],
       physicalVsock = path_join [dir, ''vsock.socket''],
       canonicalVsock = path_join [canonical, ''vsock.socket''],
       statePath = path_join [dir, state_file g],
       memoryPath = path_join [dir, memory_file g],
       quarantinePathOf = quarantine_of pm i\<rparr>)"

definition sandbox_paths_of :: "path_model \<Rightarrow> string \<Rightarrow> js_number \<Rightarrow> js_error + sandbox_paths" where
  "sandbox_paths_of pm i generation =
     (case assertIdentifier i ''sandbox id'' of
        Inl e \<Rightarrow> Inl e
      | Inr _ \<Rightarrow>
         if \<not> is_safe_integer generation \<or> num_val generation < 0
         then Inl (JsError ''Invalid generation'')
         else (case insideWorker pm [''sandboxes'', i] of
                 Inl e \<Rightarrow> Inl e
               | Inr dir \<Rightarrow>
                  (case insideWorker pm [''sockets'', socket_file i] of
                     Inl e \<Rightarrow> Inl e
                   | Inr socket \<Rightarrow> Inr (paths_for pm i generation dir socket))))"

section \<open>Facts about paths\<close>

text \<open>A file name: one segment that normalisation keeps.\<close>

definition plain_name :: "string \<Rightarrow> bool" where
  "plain_name s \<longleftrightarrow> s \<noteq> [] \<and> slash \<notin> set s \<and> s \<noteq> ''.'' \<and> s \<noteq> ''..''"

text \<open>A normal absolute path: the text of plain names.\<close>

definition normal_path :: "string \<Rightarrow> bool" where
  "normal_path p \<longleftrightarrow> (\<exists>ss. list_all plain_name ss \<and> p = path_text ss)"

lemma plain_name_identifier: "safeIdentifier s \<Longrightarrow> plain_name s"
  using safeIdentifier_no_dot [of s]
  by (auto simp: plain_name_def safeIdentifier_nonempty safeIdentifier_no_slash)

lemma segments_path_text:
  assumes "list_all plain_name ss"
  shows "segments (path_text ss) = ss"
proof (cases "ss = []")
  case True
  then show ?thesis by (simp add: segments_def path_text_def)
next
  case False
  with assms have "split_on slash (join_with [slash] ss) = ss"
    by (intro split_join) (auto simp: list_all_iff plain_name_def)
  moreover have "filter (\<lambda>s. s \<noteq> []) ss = ss"
    using assms by (auto simp: filter_id_conv list_all_iff plain_name_def)
  ultimately show ?thesis by (simp add: segments_def path_text_def)
qed

lemma norm_fold_plain:
  "list_all plain_name ss \<Longrightarrow> foldl (norm_step absolute) acc ss = acc @ ss"
  by (induction ss arbitrary: acc) (auto simp: norm_step_def plain_name_def)

lemma norm_segments_plain: "list_all plain_name ss \<Longrightarrow> norm_segments absolute ss = ss"
  by (simp add: norm_segments_def norm_fold_plain)

lemma segments_plain: "plain_name s \<Longrightarrow> segments s = [s]"
  by (simp add: segments_def plain_name_def split_on_atom)

lemma not_absolute_plain: "plain_name s \<Longrightarrow> \<not> is_absolute s"
  by (cases s) (auto simp: plain_name_def is_absolute_def)

lemma resolve_fold_plain:
  "list_all plain_name ps \<Longrightarrow> foldl resolve_step acc ps = acc @ ps"
proof (induction ps arbitrary: acc)
  case (Cons p ps)
  then show ?case
    by (simp add: resolve_step_def not_absolute_plain segments_plain plain_name_def)
qed simp

lemma path_text_absolute [simp]: "is_absolute (path_text ss)"
  by (simp add: is_absolute_def path_text_def)

lemma resolve_below:
  assumes "list_all plain_name ss" and "list_all plain_name ps"
  shows "path_resolve cwd (path_text ss # ps) = path_text (ss @ ps)"
proof -
  have "resolve_step (segments cwd) (path_text ss) = ss"
    using assms(1) by (simp add: resolve_step_def segments_path_text) (simp add: path_text_def)
  then show ?thesis
    using assms by (simp add: path_resolve_def resolve_fold_plain norm_segments_plain)
qed

lemma path_text_inject:
  "list_all plain_name ss \<Longrightarrow> list_all plain_name ts \<Longrightarrow> path_text ss = path_text ts \<longleftrightarrow> ss = ts"
  using segments_path_text by metis

lemma join_with_append:
  "xs \<noteq> [] \<Longrightarrow> ys \<noteq> [] \<Longrightarrow> join_with sep (xs @ ys) = join_with sep xs @ sep @ join_with sep ys"
  by (induction xs rule: list_nonempty_induct) (auto simp: join_Cons)

lemma path_text_append:
  "ss \<noteq> [] \<Longrightarrow> ts \<noteq> [] \<Longrightarrow> path_text (ss @ ts) = path_text ss @ path_text ts"
  by (simp add: path_text_def join_with_append)


lemma join_below:
  assumes "list_all plain_name ss" and "plain_name s"
  shows "path_join [path_text ss, s] = path_text (ss @ [s])"
proof -
  have nonempty: "path_text ss \<noteq> []" "s \<noteq> []"
    using assms(2) by (auto simp: path_text_def plain_name_def)
  have shape: "path_text ss @ slash # s = slash # join_with [slash] ss @ slash # s"
    by (simp add: path_text_def)
  have "last s \<noteq> slash"
  proof
    assume "last s = slash"
    then have "slash \<in> set s" using last_in_set [OF nonempty(2)] by simp
    then show False using assms(2) by (simp add: plain_name_def)
  qed
  then have last: "last (path_text ss @ slash # s) \<noteq> slash"
    using nonempty by simp
  have split: "segments (path_text ss @ slash # s) = ss @ [s]"
  proof (cases "ss = []")
    case True
    with assms(2) show ?thesis
      by (simp add: path_text_def segments_def plain_name_def split_on_atom)
  next
    case False
    then have "path_text ss @ slash # s = path_text (ss @ [s])"
      by (simp add: path_text_append) (simp add: path_text_def)
    with assms show ?thesis by (simp add: segments_path_text)
  qed
  have "norm_segments True (ss @ [s]) = ss @ [s]"
    using assms by (simp add: norm_segments_plain)
  then show ?thesis
    using nonempty last split
    by (simp add: path_join_def path_normalize_def is_absolute_def path_text_def)
qed

section \<open>Normal roots\<close>

definition segment :: "string \<Rightarrow> bool" where
  "segment s \<longleftrightarrow> s \<noteq> [] \<and> slash \<notin> set s"

lemma segments_segment: "list_all segment (segments p)"
proof -
  have "segment s" if "s \<in> set (split_on slash p)" "s \<noteq> []" for s
    using split_on_no_sep [OF that(1)] that(2) by (simp add: segment_def)
  then show ?thesis by (simp add: segments_def list_all_iff)
qed

lemma norm_fold_absolute:
  "list_all plain_name acc \<Longrightarrow> list_all segment ss \<Longrightarrow>
     list_all plain_name (foldl (norm_step True) acc ss)"
proof (induction ss arbitrary: acc)
  case (Cons s ss)
  have "list_all plain_name (butlast acc)"
    using Cons.prems(1) by (auto simp: list_all_iff dest: in_set_butlastD)
  moreover have "plain_name s" if "s \<noteq> ''.''" "s \<noteq> ''..''"
    using Cons.prems(2) that by (simp add: plain_name_def segment_def)
  ultimately have "list_all plain_name (norm_step True acc s)"
    using Cons.prems(1) by (simp add: norm_step_def)
  then show ?case using Cons by simp
qed simp

lemma resolve_fold_segments:
  "list_all segment acc \<Longrightarrow> list_all segment (foldl resolve_step acc ps)"
  by (induction ps arbitrary: acc) (simp_all add: resolve_step_def segments_segment)

lemma normal_resolve: "normal_path (path_resolve cwd ps)"
proof -
  have "list_all plain_name (norm_segments True (foldl resolve_step (segments cwd) ps))"
    unfolding norm_segments_def
    by (intro norm_fold_absolute resolve_fold_segments segments_segment) simp
  then show ?thesis unfolding normal_path_def path_resolve_def by blast
qed

lemma insideWorker_below:
  assumes "pm_workerRoot pm = path_text ss" and "list_all plain_name ss" and "ss \<noteq> []"
    and "list_all plain_name ps" and "ps \<noteq> []"
  shows "insideWorker pm ps = Inr (path_text (ss @ ps))"
proof -
  have "starts_with (path_text (ss @ ps)) (path_text ss @ [slash])"
    using assms(3,5) by (simp add: path_text_append starts_with_def) (simp add: path_text_def)
  then show ?thesis
    using assms by (simp add: insideWorker_def resolve_below)
qed

lemma socket_plain: "safeIdentifier i \<Longrightarrow> plain_name (socket_file i)"
  using safeIdentifier_no_slash [of i]
  by (auto simp: plain_name_def socket_file_def append_eq_Cons_conv)

lemma int_text_chars: "c \<in> set (int_text n) \<Longrightarrow> is_digit c \<or> c = CHR ''-''"
  using nat_text_digits [of "nat n"] nat_text_digits [of "nat (- n)"]
  by (auto simp: int_text_def list_all_iff split: if_splits)

lemma int_text_no_slash: "slash \<notin> set (int_text n)"
  using int_text_chars [of slash n] by (auto simp: is_digit_def)

lemma snapshot_names_plain:
  "plain_name (state_file n)" "plain_name (memory_file n)"
  "plain_name ''rootfs.ext4''" "plain_name ''vsock.socket''"
  "plain_name ''sandboxes''" "plain_name ''sockets''" "plain_name ''quarantine''"
  by (simp_all add: plain_name_def int_text_no_slash state_file_def memory_file_def)

lemma file_names_inject [simp]:
  "state_file g = state_file h \<longleftrightarrow> g = h" "memory_file g = memory_file h \<longleftrightarrow> g = h"
  "socket_file i = socket_file j \<longleftrightarrow> i = j"
  by (simp_all add: state_file_def memory_file_def socket_file_def)

text \<open>
  The paths of a sandbox, in closed form: names below the worker root, and names below the
  canonical root.
\<close>

definition worker_names :: "string \<Rightarrow> int \<Rightarrow> string list list" where
  "worker_names i g =
     [[''sandboxes'', i], [''sockets'', socket_file i], [''sandboxes'', i, ''rootfs.ext4''],
      [''sandboxes'', i, ''vsock.socket''],
      [''sandboxes'', i, state_file g],
      [''sandboxes'', i, memory_file g]]"

definition physical_paths :: "sandbox_paths \<Rightarrow> string list" where
  "physical_paths p =
     [physicalDirectory p, apiSocket p, physicalRootfs p, physicalVsock p, statePath p, memoryPath p]"

lemma sandbox_paths_closed:
  assumes "pm_workerRoot pm = path_text ws" and "list_all plain_name ws" and "ws \<noteq> []"
    and "pm_canonicalRoot pm = path_text cs" and "list_all plain_name cs"
    and "safeIdentifier i" and "0 \<le> g" and "g \<le> max_safe"
  shows "\<exists>p. sandbox_paths_of pm i (Num g) = Inr p
     \<and> physical_paths p = map (\<lambda>n. path_text (ws @ n)) (worker_names i g)
     \<and> canonicalDirectory p = path_text (cs @ [i])
     \<and> canonicalRootfs p = path_text (cs @ [i, ''rootfs.ext4''])
     \<and> canonicalVsock p = path_text (cs @ [i, ''vsock.socket''])
     \<and> quarantinePathOf p = quarantine_of pm i"
proof -
  note plain = plain_name_identifier [OF assms(6)] socket_plain [OF assms(6)] snapshot_names_plain
  have join: "path_join [path_text (xs @ [''sandboxes'', i]), n] = path_text (xs @ [''sandboxes'', i, n])"
    if "plain_name n" "list_all plain_name xs" for n xs
    using join_below [of "xs @ [''sandboxes'', i]" n] that plain by simp
  have canon: "path_join [path_text (cs @ [i]), n] = path_text (cs @ [i, n])" if "plain_name n" for n
    using join_below [of "cs @ [i]" n] that plain assms(5) by simp
  show ?thesis
    using assms plain
    by (simp add: sandbox_paths_of_def assertIdentifier_def insideWorker_below paths_for_def Let_def
        physical_paths_def worker_names_def join canon join_below max_safe_def)
qed

lemma worker_names_plain:
  "safeIdentifier i \<Longrightarrow> n \<in> set (worker_names i g) \<Longrightarrow> list_all plain_name n \<and> n \<noteq> []"
  by (auto simp: worker_names_def plain_name_identifier socket_plain snapshot_names_plain)

lemma worker_names_disjoint:
  "i \<noteq> j \<Longrightarrow> n \<in> set (worker_names i g) \<Longrightarrow> n \<notin> set (worker_names j h)"
  by (auto simp: worker_names_def)

section \<open>Confinement and isolation\<close>



lemma paths_apart:
  assumes "pm = make_path_model cwd wr canonical" and "pm_workerRoot pm \<noteq> ''/''"
    and "sandbox_paths_of pm i (Num g) = Inr p" and "sandbox_paths_of pm j (Num h) = Inr q"
    and "i \<noteq> j"
  shows "set (physical_paths p) \<inter> set (physical_paths q) = {}"
proof -
  obtain ws where ws: "pm_workerRoot pm = path_text ws" "list_all plain_name ws"
    using assms(1) normal_resolve by (auto simp: make_path_model_def normal_path_def)
  obtain cs where cs: "pm_canonicalRoot pm = path_text cs" "list_all plain_name cs"
    using assms(1) normal_resolve by (auto simp: make_path_model_def normal_path_def)
  have "ws \<noteq> []" using assms(2) ws(1) by (auto simp: path_text_def)
  note closed = sandbox_paths_closed [OF ws this cs]
  have valid: "safeIdentifier k \<and> 0 \<le> n \<and> n \<le> max_safe"
    if "sandbox_paths_of pm k (Num n) = Inr r" for k n r
    using that by (auto simp: sandbox_paths_of_def assertIdentifier_def split: if_splits)
  have p: "physical_paths p = map (\<lambda>n. path_text (ws @ n)) (worker_names i g)"
    using closed [of i g] valid [OF assms(3)] assms(3) by auto
  have q: "physical_paths q = map (\<lambda>n. path_text (ws @ n)) (worker_names j h)"
    using closed [of j h] valid [OF assms(4)] assms(4) by auto
  have "path_text (ws @ n) \<noteq> path_text (ws @ m)"
    if "n \<in> set (worker_names i g)" "m \<in> set (worker_names j h)" for n m
  proof -
    have "n \<noteq> m" using worker_names_disjoint [OF assms(5) that(1)] that(2) by auto
    then show ?thesis
      using worker_names_plain that valid [OF assms(3)] valid [OF assms(4)] ws(2)
      by (subst path_text_inject) auto
  qed
  then show ?thesis by (auto simp: p q)
qed

text \<open>
  Two sandboxes of one worker never share a physical path, whatever their generations; so
  removing, renaming or snapshotting one cannot touch the files of the other.
\<close>

lemma sandbox_paths_disjoint:
  assumes "pm = make_path_model cwd wr canonical" and "pm_workerRoot pm \<noteq> ''/''"
    and "sandbox_paths_of pm i (Num g) = Inr p" and "sandbox_paths_of pm j (Num h) = Inr q"
    and "i \<noteq> j"
  shows "set (physical_paths p) \<inter> set (physical_paths q) = {}"
  by (rule paths_apart [OF assms])

end
