(* ===== verification/Epochs.thy ===== *)
theory Epochs
  imports Paths
begin

text \<open>
  \<open>platform/epochs.ts\<close>: the durable table of fencing epochs. The \<open>Map\<close> is an
  association list in insertion order (\<open>Map.set\<close> is \<open>AList.update\<close>, \<open>Map.delete\<close> is
  \<open>AList.delete\<close>); the promise chain \<open>mutation\<close>, which makes calls of \<open>accept\<close> run
  one after the other, is the flag \<open>mutating\<close> that the next call waits for.
\<close>

section \<open>The store\<close>

record epoch_store =
  epochs :: "(string \<times> int) list"
  mutating :: bool

record epoch_config =
  ec_path :: string
  ec_pid :: int

definition get_epoch :: "epoch_store \<Rightarrow> string \<Rightarrow> int" where
  "get_epoch s i = (case map_of (epochs s) i of None \<Rightarrow> 0 | Some e \<Rightarrow> e)"

definition set_epoch :: "string \<Rightarrow> int \<Rightarrow> epoch_store \<Rightarrow> epoch_store" where
  "set_epoch i e s = s\<lparr>epochs := AList.update i e (epochs s)\<rparr>"

definition delete_epoch :: "string \<Rightarrow> epoch_store \<Rightarrow> epoch_store" where
  "delete_epoch i s = s\<lparr>epochs := AList.delete i (epochs s)\<rparr>"

section \<open>Loading\<close>

text \<open>
  \<open>Object.entries\<close> of a value with \<open>typeof v === "object"\<close> that is not \<open>null\<close>: an array
  has its indices as keys.
\<close>

fun object_entries :: "json \<Rightarrow> (string \<times> json) list option" where
  "object_entries (JObj kvs) = Some kvs"
| "object_entries (JArr vs) = Some (zip (map nat_text [0..<length vs]) vs)"
| "object_entries _ = None"

fun epoch_value :: "json \<Rightarrow> int option" where
  "epoch_value (JNum (Num n)) = (if is_safe_integer (Num n) \<and> 0 \<le> n then Some n else None)"
| "epoch_value _ = None"

primrec load_entries :: "(string \<times> json) list \<Rightarrow> (epoch_store, unit) prog" where
  "load_entries [] = skip"
| "load_entries (kv # kvs) =
     (case epoch_value (snd kv) of
        None \<Rightarrow> Throw (JsError (''Invalid epoch for '' @ fst kv))
      | Some n \<Rightarrow> seq (modify (set_epoch (fst kv) n)) (load_entries kvs))"

definition load_document :: "json \<Rightarrow> (epoch_store, unit) prog" where
  "load_document doc =
     (if doc = JNull then Throw TypeFault
      else if obj_get doc ''version'' \<noteq> Some (JNum (Num 1)) then Throw (JsError ''Invalid epoch document'')
      else (case Option.bind (obj_get doc ''epochs'') object_entries of
              None \<Rightarrow> Throw (JsError ''Invalid epoch document'')
            | Some kvs \<Rightarrow> seq (modify (epochs_update (\<lambda>_. []))) (load_entries kvs)))"

definition load :: "epoch_config \<Rightarrow> (epoch_store, unit) prog" where
  "load cfg = try_catch
     (bind (call_data (FsReadFile (ec_path cfg))) (\<lambda>d.
        case json_parse d of None \<Rightarrow> Throw (JsError ''SyntaxError'') | Some doc \<Rightarrow> load_document doc))
     (\<lambda>e. if e \<noteq> Errno ''ENOENT'' then Throw e else skip)"

section \<open>Persisting\<close>

definition epoch_document :: "epoch_store \<Rightarrow> json" where
  "epoch_document s = JObj [(''version'', JNum (Num 1)),
     (''epochs'', JObj (map (\<lambda>(i, e). (i, JNum (Num e))) (epochs s)))]"

definition temporary_name :: "epoch_config \<Rightarrow> int \<Rightarrow> string" where
  "temporary_name cfg now =
     path_join [path_dirname (ec_path cfg),
       ''.'' @ int_text (ec_pid cfg) @ ''.'' @ int_text now @ ''.epochs.tmp'']"

definition persist :: "epoch_config \<Rightarrow> (epoch_store, unit) prog" where
  "persist cfg =
     seq (call_unit (FsMkdir (path_dirname (ec_path cfg)) True))
     (bind (call_int DateNow) (\<lambda>now.
     let temporary = temporary_name cfg now in
     seq (call_unit (FsOpen temporary ''wx''))
     (seq (try_finally
             (Read (\<lambda>s. seq (call_unit (FileWrite temporary (JsonText (epoch_document s))))
                (call_unit (FileSync temporary))))
             (call_unit (FileClose temporary)))
     (seq (call_unit (FsRename temporary (ec_path cfg)))
     (seq (call_unit (FsOpen (path_dirname (ec_path cfg)) ''r''))
        (try_finally (call_unit (FileSync (path_dirname (ec_path cfg))))
           (call_unit (FileClose (path_dirname (ec_path cfg)))))))))) "

section \<open>Accepting an epoch\<close>

record accepted =
  acc_previous :: int
  acc_advanced :: bool

definition stale_error :: "string \<Rightarrow> int \<Rightarrow> int \<Rightarrow> js_error" where
  "stale_error i requested previous = firemig Fenced
     (''Epoch '' @ int_text requested @ '' is stale; worker has accepted '' @ int_text previous)
     False
     (Some (JObj [(''sandboxId'', JStr i), (''requestedEpoch'', JNum (Num requested)),
        (''acceptedEpoch'', JNum (Num previous))]))
     (Some 409)"

definition accept_body :: "epoch_config \<Rightarrow> string \<Rightarrow> int \<Rightarrow> (epoch_store, accepted) prog" where
  "accept_body cfg i requested =
     bind (gets (\<lambda>s. get_epoch s i)) (\<lambda>previous.
       if requested < previous then Throw (stale_error i requested previous)
       else seq
         (if requested > previous then
            seq (modify (set_epoch i requested))
              (try_catch (persist cfg)
                 (\<lambda>e. seq (modify (if previous = 0 then delete_epoch i else set_epoch i previous)) (Throw e)))
          else skip)
         (Return \<lparr>acc_previous = previous, acc_advanced = requested > previous\<rparr>))"

definition accept :: "epoch_config \<Rightarrow> string \<Rightarrow> js_number \<Rightarrow> (epoch_store, accepted) prog" where
  "accept cfg i requestedEpoch =
     (if \<not> is_safe_integer requestedEpoch \<or> num_val requestedEpoch < 0
      then Throw (JsError ''Invalid epoch'')
      else Yield (\<lambda>s. \<not> mutating s)
        (seq (modify (mutating_update (\<lambda>_. True)))
           (try_finally (accept_body cfg i (num_val requestedEpoch))
              (modify (mutating_update (\<lambda>_. False))))))"

section \<open>Facts about the table\<close>

lemma get_set_epoch [simp]: "get_epoch (set_epoch i e s) j = (if j = i then e else get_epoch s j)"
  by (simp add: get_epoch_def set_epoch_def update_conv')

lemma get_delete_epoch [simp]: "get_epoch (delete_epoch i s) j = (if j = i then 0 else get_epoch s j)"
  by (simp add: get_epoch_def delete_epoch_def delete_conv')

lemma epoch_store_frame [simp]:
  "mutating (set_epoch i e s) = mutating s" "mutating (delete_epoch i s) = mutating s"
  "get_epoch (s\<lparr>mutating := b\<rparr>) = get_epoch s" "get_epoch (mutating_update f s) = get_epoch s"
  by (simp_all add: set_epoch_def delete_epoch_def get_epoch_def fun_eq_iff)

text \<open>Persisting does not change the store in memory, and never waits for a promise.\<close>

lemma quiet_persist: "quiet (persist cfg)"
  unfolding persist_def Let_def by (intro quiet_bind quiet_try_finally) auto

text \<open>
  What \<open>accept\<close> comes to when the store is free: the four ways it can end.
\<close>

lemma run_accept:
  assumes "\<not> mutating s"
  shows "run E (accept cfg i (Num e)) s l =
    (if \<not> is_safe_integer (Num e) \<or> e < 0 then (Raised (JsError ''Invalid epoch''), s, l)
     else if e < get_epoch s i then (Raised (stale_error i e (get_epoch s i)), s, l)
     else if e = get_epoch s i then (Value \<lparr>acc_previous = e, acc_advanced = False\<rparr>, s, l)
     else (case run E (persist cfg) (set_epoch i e (s\<lparr>mutating := True\<rparr>)) l of
             (Value _, _, l') \<Rightarrow>
               (Value \<lparr>acc_previous = get_epoch s i, acc_advanced = True\<rparr>, set_epoch i e s, l')
           | (Raised x, _, l') \<Rightarrow>
               (Raised x, (if get_epoch s i = 0 then delete_epoch i else set_epoch i (get_epoch s i))
                  (set_epoch i e s), l')
           | (Blocked, s', l') \<Rightarrow> (Blocked, s', l')))"
proof -
  have free: "s\<lparr>mutating := False\<rparr> = s" using assms by simp
  show ?thesis
    by (rule quiet_runE [OF quiet_persist, of E cfg "set_epoch i e (s\<lparr>mutating := True\<rparr>)" l])
      (simp_all add: accept_def accept_body_def run_simps set_epoch_def delete_epoch_def free assms)
qed

section \<open>Properties\<close>

text \<open>The table is well formed: no sandbox twice, every epoch a safe natural number.\<close>

definition store_ok :: "epoch_store \<Rightarrow> bool" where
  "store_ok s \<longleftrightarrow> distinct (map fst (epochs s))
     \<and> list_all (\<lambda>(i, e). 0 \<le> e \<and> e \<le> max_safe) (epochs s) \<and> \<not> mutating s"

lemma store_ok_set: "store_ok s \<Longrightarrow> 0 \<le> e \<Longrightarrow> e \<le> max_safe \<Longrightarrow> store_ok (set_epoch i e s)"
  by (simp add: store_ok_def set_epoch_def distinct_update update_all)

lemma store_ok_delete: "store_ok s \<Longrightarrow> store_ok (delete_epoch i s)"
  by (simp add: store_ok_def delete_epoch_def distinct_delete delete_all)

lemma store_ok_range: "store_ok s \<Longrightarrow> 0 \<le> get_epoch s i \<and> get_epoch s i \<le> max_safe"
  by (auto simp: store_ok_def get_epoch_def list_all_iff max_safe_def split: option.split
      dest!: map_of_SomeD)

text \<open>The effect of a successful \<open>persist\<close>: the order of its calls.\<close>

lemma run_persist_log:
  assumes "run E (persist cfg) s l = (Value u, s', l')"
  shows "\<exists>now. let d = path_dirname (ec_path cfg); t = temporary_name cfg now in
     l' = l @ [FsMkdir d True, DateNow, FsOpen t ''wx'', FileWrite t (JsonText (epoch_document s)),
       FileSync t, FileClose t, FsRename t (ec_path cfg), FsOpen d ''r'', FileSync d, FileClose d]"
  using assms
  by (auto simp: persist_def Let_def run_ok)

text \<open>
  C28: accepting an epoch. A stale epoch is refused as \<open>FENCED\<close> without touching the table
  or the disk; success records exactly the requested epoch for that sandbox and reports
  whether it moved; any failure, a failed write to disk included, leaves every sandbox's
  accepted epoch as it was; and the call always settles.
\<close>

theorem accept_spec:
  assumes "\<not> mutating s" and "run E (accept cfg i (Num e)) s l = (r, s', l')"
  shows "r \<noteq> Blocked \<and> \<not> mutating s'
    \<and> (\<forall>a. r = Value a \<longrightarrow> get_epoch s i \<le> e \<and> acc_previous a = get_epoch s i
          \<and> acc_advanced a = (get_epoch s i < e) \<and> get_epoch s' = (get_epoch s)(i := e))
    \<and> (\<forall>x. r = Raised x \<longrightarrow> get_epoch s' = get_epoch s)
    \<and> (0 \<le> e \<and> e \<le> max_safe \<and> e < get_epoch s i \<longrightarrow>
          r = Raised (stale_error i e (get_epoch s i)) \<and> s' = s \<and> l' = l)"
proof (cases "is_safe_integer (Num e) \<and> 0 \<le> e \<and> get_epoch s i < e")
  case True
  show ?thesis
    using assms True
    by (rule_tac quiet_runE [OF quiet_persist, of E cfg "set_epoch i e (s\<lparr>mutating := True\<rparr>)" l])
      (auto simp: run_accept fun_eq_iff split: if_splits)
next
  case False
  then show ?thesis
    using assms by (auto simp: run_accept fun_eq_iff max_safe_def split: if_splits)
qed

theorem accept_spec_witness:
  "result (run calm (accept \<lparr>ec_path = ''/w/epochs.json'', ec_pid = 7\<rparr> ''a'' (Num 3))
     \<lparr>epochs = [(''a'', 5)], mutating = False\<rparr> []) = Raised (stale_error ''a'' 3 5)"
proof -
  let ?s = "\<lparr>epochs = [(''a'', 5)], mutating = False\<rparr>"
  let ?x = "run calm (accept \<lparr>ec_path = ''/w/epochs.json'', ec_pid = 7\<rparr> ''a'' (Num 3)) ?s []"
  obtain r s' l' where x: "?x = (r, s', l')" by (cases ?x)
  have "get_epoch ?s ''a'' = 5" by (simp add: get_epoch_def)
  then show ?thesis using accept_spec [OF _ x] x by (simp add: max_safe_def)
qed

text \<open>
  C29: durability. Before \<open>accept\<close> reports that it advanced the epoch, the whole table has been
  written to a fresh temporary file, flushed, renamed over the store's file, and the directory
  flushed, in that order; and a worker that starts again and loads what was written has
  accepted that epoch, and every other sandbox's.
\<close>

lemma load_entries_run:
  assumes "list_all (\<lambda>(i, e). 0 \<le> e \<and> e \<le> max_safe) es" and "distinct (map fst (epochs s @ es))"
  shows "run E (load_entries (map (\<lambda>(i, e). (i, JNum (Num e))) es)) s l
    = (Value (), s\<lparr>epochs := epochs s @ es\<rparr>, l)"
  using assms
proof (induction es arbitrary: s)
  case (Cons x es)
  obtain i e where x: "x = (i, e)" by (cases x)
  with Cons.prems have "i \<notin> fst ` set (epochs s)" by auto
  then have "set_epoch i e s = s\<lparr>epochs := epochs s @ [x]\<rparr>"
    by (simp add: set_epoch_def x update_fresh)
  then show ?case using Cons by (simp add: x max_safe_def)
qed simp

lemma load_roundtrip:
  assumes "store_ok s" and "E l (FsReadFile (ec_path cfg)) = OkData (JsonText (epoch_document s))"
  shows "run E (load cfg) s0 l = (Value (), s0\<lparr>epochs := epochs s\<rparr>, l @ [FsReadFile (ec_path cfg)])"
  using assms load_entries_run [of "epochs s" "s0\<lparr>epochs := []\<rparr>" E "l @ [FsReadFile (ec_path cfg)]"]
  by (simp add: load_def load_document_def epoch_document_def call_data_def run_simps store_ok_def)

theorem accept_durable:
  assumes "store_ok s" and "run E (accept cfg i (Num e)) s l = (Value a, s', l')"
    and "acc_advanced a"
  shows "\<exists>d t content pre. l' = l @ pre @ [FileWrite t content, FileSync t, FileClose t,
        FsRename t (ec_path cfg), FsOpen d ''r'', FileSync d, FileClose d]
      \<and> (\<forall>E' l0 s0. E' l0 (FsReadFile (ec_path cfg)) = OkData content \<longrightarrow>
           (\<exists>s1. run E' (load cfg) s0 l0 = (Value (), s1, l0 @ [FsReadFile (ec_path cfg)])
              \<and> get_epoch s1 = (get_epoch s)(i := e)))"
proof -
  have free: "\<not> mutating s" using assms(1) by (simp add: store_ok_def)
  let ?s = "set_epoch i e (s\<lparr>mutating := True\<rparr>)"
  have e: "0 \<le> e" "e \<le> max_safe" "get_epoch s i < e"
    using assms(2,3) free by (auto simp: run_accept max_safe_def split: if_splits)
  obtain u s1 where p: "run E (persist cfg) ?s l = (Value u, s1, l')"
    using assms(2,3) free e
    by (auto simp: run_accept split: if_splits prod.splits outcome.splits)
  from run_persist_log [OF p] obtain d t where log: "l' = l @ [FsMkdir d True, DateNow, FsOpen t ''wx'']
      @ [FileWrite t (JsonText (epoch_document ?s)), FileSync t, FileClose t,
         FsRename t (ec_path cfg), FsOpen d ''r'', FileSync d, FileClose d]"
    by (auto simp: Let_def)
  have doc: "epoch_document ?s = epoch_document (set_epoch i e s)"
    by (simp add: epoch_document_def set_epoch_def)
  have ok: "store_ok (set_epoch i e s)" using store_ok_set assms(1) e by simp
  have "\<exists>s1. run E' (load cfg) s0 l0 = (Value (), s1, l0 @ [FsReadFile (ec_path cfg)])
      \<and> get_epoch s1 = (get_epoch s)(i := e)"
    if "E' l0 (FsReadFile (ec_path cfg)) = OkData (JsonText (epoch_document ?s))" for E' l0 s0
    using load_roundtrip [OF ok, of E' l0 cfg s0] that doc
    by (simp add: get_epoch_def set_epoch_def fun_eq_iff update_conv')
  with log show ?thesis by blast
qed

theorem accept_durable_witness:
  "\<exists>d t content pre. calls (run calm (accept \<lparr>ec_path = ''/w/epochs.json'', ec_pid = 7\<rparr> ''a'' (Num 6))
       \<lparr>epochs = [(''a'', 5)], mutating = False\<rparr> [])
     = pre @ [FileWrite t content, FileSync t, FileClose t,
        FsRename t ''/w/epochs.json'', FsOpen d ''r'', FileSync d, FileClose d]"
proof -
  let ?s = "\<lparr>epochs = [(''a'', 5)], mutating = False\<rparr>"
  let ?cfg = "\<lparr>ec_path = ''/w/epochs.json'', ec_pid = 7\<rparr>"
  have ok: "store_ok ?s" by (simp add: store_ok_def max_safe_def)
  obtain a s' l' where x: "run calm (accept ?cfg ''a'' (Num 6)) ?s [] = (Value a, s', l')"
      and "acc_advanced a"
    by (simp add: run_accept get_epoch_def max_safe_def persist_def Let_def call_int_def run_simps)
  with accept_durable [OF ok x] show ?thesis by auto
qed

text \<open>
  Fencing never goes back. Over any sequence of requests, with any platform failures in
  between, the accepted epoch of every sandbox never decreases, and the table stays well
  formed.
\<close>

primrec accept_all :: "environment \<Rightarrow> epoch_config \<Rightarrow> (string \<times> js_number) list \<Rightarrow> epoch_store \<Rightarrow>
    syscall list \<Rightarrow> epoch_store" where
  "accept_all E cfg [] s l = s"
| "accept_all E cfg (q # qs) s l =
     (case run E (accept cfg (fst q) (snd q)) s l of (_, s', l') \<Rightarrow> accept_all E cfg qs s' l')"

lemma accept_step:
  assumes "store_ok s" and "run E (accept cfg i n) s l = (r, s', l')"
  shows "store_ok s' \<and> get_epoch s j \<le> get_epoch s' j"
proof (cases n)
  case NotInteger
  then show ?thesis using assms by (simp add: accept_def)
next
  case (Num e)
  have free: "\<not> mutating s" using assms(1) by (simp add: store_ok_def)
  have undo: "store_ok ((if get_epoch s i = 0 then delete_epoch i else set_epoch i (get_epoch s i))
      (set_epoch i e s))" if "0 \<le> e" "e \<le> max_safe"
    using store_ok_set store_ok_delete store_ok_range assms(1) that by simp
  show ?thesis
    using assms Num undo store_ok_set [OF assms(1)]
    by (rule_tac quiet_runE [OF quiet_persist, of E cfg "set_epoch i e (s\<lparr>mutating := True\<rparr>)" l])
      (auto simp: run_accept free max_safe_def split: if_splits)
qed

lemma epochs_never_regress:
  assumes "store_ok s"
  shows "store_ok (accept_all E cfg qs s l) \<and> get_epoch s i \<le> get_epoch (accept_all E cfg qs s l) i"
  using assms
proof (induction qs arbitrary: s l)
  case (Cons q qs)
  obtain r s' l' where x: "run E (accept cfg (fst q) (snd q)) s l = (r, s', l')"
    by (cases "run E (accept cfg (fst q) (snd q)) s l")
  from accept_step [OF Cons.prems x] have "store_ok s'" "get_epoch s i \<le> get_epoch s' i" by auto
  with Cons.IH [of s' l'] x show ?case by auto
qed simp

end
