(* ===== verification/Ownership.thy ===== *)
theory Ownership
  imports Prelude
begin

text \<open>
  The contract of an ownership table: who owns a key, how a key is claimed, how it is freed.
  The worker keeps two such tables (networks and relay ports); what follows from the three
  laws is proved here once.
\<close>

locale ownership =
  fixes owner :: "'s \<Rightarrow> 'k \<Rightarrow> 'o option"
    and claim :: "'k \<Rightarrow> 'o \<Rightarrow> 's \<Rightarrow> 's"
    and free :: "'k \<Rightarrow> 's \<Rightarrow> 's"
  assumes owner_claim: "owner (claim k x s) k' = (if k' = k then Some x else owner s k')"
    and owner_free: "owner (free k s) k' = (if k' = k then None else owner s k')"
begin

text \<open>\<open>x\<close> owns every key of a list; \<open>x\<close> could take every key of a list.\<close>

definition owns_all :: "'s \<Rightarrow> 'o \<Rightarrow> 'k list \<Rightarrow> bool" where
  "owns_all s x ks \<longleftrightarrow> (\<forall>k\<in>set ks. owner s k = Some x)"

definition available_to :: "'s \<Rightarrow> 'o \<Rightarrow> 'k list \<Rightarrow> bool" where
  "available_to s x ks \<longleftrightarrow> (\<forall>k\<in>set ks. owner s k = None \<or> owner s k = Some x)"

lemma owner_claims:
  "owner (fold (\<lambda>k. claim k x) ks s) k = (if k \<in> set ks then Some x else owner s k)"
  by (induction ks arbitrary: s) (auto simp: owner_claim)

lemma owner_release:
  "owner (fold (\<lambda>k s. if owner s k = Some x then free k s else s) ks s) k
     = (if k \<in> set ks \<and> owner s k = Some x then None else owner s k)"
  by (induction ks arbitrary: s) (auto simp: owner_free)

lemma owns_claims: "owns_all (fold (\<lambda>k. claim k x) ks s) x ks"
  by (simp add: owns_all_def owner_claims)

text \<open>Claiming what is available disturbs no other owner.\<close>

lemma claims_frame:
  "available_to s x ks \<Longrightarrow> owns_all s y js \<Longrightarrow> owns_all (fold (\<lambda>k. claim k x) ks s) y js"
  by (auto simp: owns_all_def available_to_def owner_claims)

text \<open>Releasing one's own keys disturbs no other owner.\<close>

lemma release_frame:
  "y \<noteq> x \<Longrightarrow> owns_all s y js \<Longrightarrow>
     owns_all (fold (\<lambda>k s. if owner s k = Some x then free k s else s) ks s) y js"
  by (auto simp: owns_all_def owner_release)

lemma owners_disjoint: "owns_all s x ks \<Longrightarrow> owns_all s y js \<Longrightarrow> x \<noteq> y \<Longrightarrow> set ks \<inter> set js = {}"
  by (auto simp: owns_all_def)

end

end
