(* ===== verification/Network.thy ===== *)
theory Network
  imports Epochs Ownership
begin

text \<open>
  \<open>runtime/network.ts\<close> and \<open>worker/core/worker-allocator.ts\<close>: the deterministic network
  identity of a sandbox, the deterministic relay port, and the table that keeps two
  sandboxes from using the same namespace, interface, subnet or port. SHA-256 of
  \<open>node:crypto\<close> is an argument \<open>sha\<close>, from the hashed text to the 32 bytes.
\<close>

section \<open>Network identities\<close>

record network_identity =
  netns :: string
  hostVeth :: string
  hostAddress :: string
  namespaceAddress :: string
  subnet :: string

definition hex_char :: "nat \<Rightarrow> char" where
  "hex_char d = ''0123456789abcdef'' ! d"

definition hex_byte :: "nat \<Rightarrow> string" where
  "hex_byte b = [hex_char (b div 16), hex_char (b mod 16)]"

definition hex_text :: "nat list \<Rightarrow> string" where
  "hex_text bs = concat (map hex_byte bs)"

text \<open>What is relied on of SHA-256: a digest is 32 bytes.\<close>

definition digest_ok :: "(string \<Rightarrow> nat list) \<Rightarrow> bool" where
  "digest_ok sha \<longleftrightarrow> (\<forall>t. length (sha t) = 32 \<and> list_all (\<lambda>b. b < 256) (sha t))"

definition hash_input :: "string \<Rightarrow> string \<Rightarrow> string \<Rightarrow> string" where
  "hash_input workerId sandboxId salt =
     workerId @ [CHR 0x00] @ sandboxId @ [CHR 0x00] @ salt"

definition ip_text :: "nat \<Rightarrow> nat \<Rightarrow> nat \<Rightarrow> string" where
  "ip_text a b c = ''10.'' @ nat_text a @ ''.'' @ nat_text b @ ''.'' @ nat_text c @ ''/30''"

definition deriveNetworkIdentity ::
    "(string \<Rightarrow> nat list) \<Rightarrow> string \<Rightarrow> string \<Rightarrow> js_number \<Rightarrow> js_error + network_identity" where
  "deriveNetworkIdentity sha workerId sandboxId tries =
     (if \<not> is_safe_integer tries \<or> num_val tries < 0
      then Inl (JsError ''Invalid network allocation attempt'')
      else
        (let digest = sha (hash_input workerId sandboxId (int_text (num_val tries)));
             name = take 11 (hex_text digest);
             second = 64 + digest ! 6 mod 64;
             third = digest ! 7;
             fourth = (digest ! 8 mod 64) * 4
         in Inr \<lparr>netns = ''fmn'' @ name, hostVeth = ''fmv'' @ name,
              hostAddress = ip_text second third (fourth + 1),
              namespaceAddress = ip_text second third (fourth + 2),
              subnet = ip_text second third fourth\<rparr>))"

definition addressWithoutPrefix :: "string \<Rightarrow> string" where
  "addressWithoutPrefix a = hd (split_on CHR ''/'' a)"

text \<open>\<open>digest.readUInt32BE(0)\<close>.\<close>

definition read_u32 :: "nat list \<Rightarrow> nat" where
  "read_u32 d = ((d ! 0 * 256 + d ! 1) * 256 + d ! 2) * 256 + d ! 3"

definition valid_port :: "js_number \<Rightarrow> bool" where
  "valid_port p \<longleftrightarrow> is_integer p \<and> 1 \<le> num_val p \<and> num_val p \<le> 65535"

definition deterministicHostPort ::
    "(string \<Rightarrow> nat list) \<Rightarrow> js_number \<Rightarrow> string \<Rightarrow> string \<Rightarrow> js_number \<Rightarrow> js_error + int" where
  "deterministicHostPort sha portBase workerId sandboxId guestPort =
     (if \<not> valid_port portBase then Inl (JsError ''portBase must be between 1 and 65535'')
      else if \<not> valid_port guestPort then Inl (JsError ''Invalid guest port'')
      else
        (let available = 65536 - num_val portBase;
             digest = sha (hash_input workerId sandboxId (int_text (num_val guestPort)))
         in Inr (num_val portBase + int (read_u32 digest) mod available)))"

section \<open>The allocator\<close>

datatype sandbox_mode = BootMode | RestoreMode

text \<open>The body of a create request (\<open>CreateWorkerSandboxRequest\<close>).\<close>

record create_request =
  cr_id :: string
  cr_epoch :: js_number
  cr_cpu :: js_number
  cr_memoryMb :: js_number
  cr_mode :: "sandbox_mode option"
  cr_kernelPath :: "string option"
  cr_rootfsPath :: "string option"
  cr_kernel :: "string option"
  cr_rootfs :: "string option"
  cr_netns :: "string option"
  cr_hostVeth :: "string option"
  cr_hostAddress :: "string option"
  cr_namespaceAddress :: "string option"
  cr_mtu :: "int option"

record allocator =
  networkOwners :: "string \<rightharpoonup> string"
  portOwners :: "(int \<times> string) list"

definition MAX_INTERFACE_NAME :: nat where
  "MAX_INTERFACE_NAME = 15"

definition DEFAULT_PORT_BASE :: int where
  "DEFAULT_PORT_BASE = 20000"

abbreviation orelse :: "'a option \<Rightarrow> 'a \<Rightarrow> 'a" where
  "orelse x d \<equiv> (case x of None \<Rightarrow> d | Some v \<Rightarrow> v)"

definition networkKeys :: "network_identity \<Rightarrow> string list" where
  "networkKeys n =
     [''netns:'' @ netns n, ''veth:'' @ hostVeth n,
      ''subnet:'' @ addressWithoutPrefix (hostAddress n) @ '':'' @ addressWithoutPrefix (namespaceAddress n)]"

definition deriveNetwork ::
    "(string \<Rightarrow> nat list) \<Rightarrow> string \<Rightarrow> create_request \<Rightarrow> nat \<Rightarrow> js_error + network_identity" where
  "deriveNetwork sha workerId q tries =
     (case deriveNetworkIdentity sha workerId (cr_id q) (Num (int tries)) of
        Inl e \<Rightarrow> Inl e
      | Inr d \<Rightarrow> Inr \<lparr>netns = orelse (cr_netns q) (netns d), hostVeth = orelse (cr_hostVeth q) (hostVeth d),
          hostAddress = orelse (cr_hostAddress q) (hostAddress d),
          namespaceAddress = orelse (cr_namespaceAddress q) (namespaceAddress d), subnet = subnet d\<rparr>)"

definition pinned :: "create_request \<Rightarrow> bool" where
  "pinned q \<longleftrightarrow> cr_netns q \<noteq> None \<or> cr_hostVeth q \<noteq> None \<or> cr_hostAddress q \<noteq> None
     \<or> cr_namespaceAddress q \<noteq> None"

definition collides :: "allocator \<Rightarrow> string \<Rightarrow> string list \<Rightarrow> bool" where
  "collides a i keys \<longleftrightarrow>
     list_ex (\<lambda>k. case networkOwners a k of None \<Rightarrow> False | Some ow \<Rightarrow> ow \<noteq> i) keys"

definition claim_network :: "string \<Rightarrow> string \<Rightarrow> allocator \<Rightarrow> allocator" where
  "claim_network k i a = a\<lparr>networkOwners := (networkOwners a)(k \<mapsto> i)\<rparr>"

definition free_network :: "string \<Rightarrow> allocator \<Rightarrow> allocator" where
  "free_network k a = a\<lparr>networkOwners := map_delete k (networkOwners a)\<rparr>"

definition pinned_collision_error :: js_error where
  "pinned_collision_error =
     firemig NoCapacity ''Requested network allocation collides with another sandbox'' True None (Some 409)"

definition network_exhausted_error :: js_error where
  "network_exhausted_error =
     firemig NoCapacity ''Unable to allocate a collision-free sandbox network'' True None (Some 503)"

definition name_length_error :: js_error where
  "name_length_error = JsError ''Network namespace and host veth names must be at most 15 characters''"

primrec network_attempts ::
    "(string \<Rightarrow> nat list) \<Rightarrow> string \<Rightarrow> create_request \<Rightarrow> allocator \<Rightarrow> nat list \<Rightarrow>
       (js_error + network_identity \<times> string list) \<times> allocator" where
  "network_attempts sha workerId q a [] = (Inl network_exhausted_error, a)"
| "network_attempts sha workerId q a (tries # rest) =
     (case deriveNetwork sha workerId q tries of
        Inl e \<Rightarrow> (Inl e, a)
      | Inr network \<Rightarrow>
          if MAX_INTERFACE_NAME < length (netns network) \<or> MAX_INTERFACE_NAME < length (hostVeth network)
          then (Inl name_length_error, a)
          else
            (let keys = networkKeys network; collision = collides a (cr_id q) keys in
             if collision \<and> \<not> pinned q then network_attempts sha workerId q a rest
             else if collision then (Inl pinned_collision_error, a)
             else (Inr (network, keys), fold (\<lambda>k. claim_network k (cr_id q)) keys a)))"

definition allocateNetwork ::
    "(string \<Rightarrow> nat list) \<Rightarrow> string \<Rightarrow> create_request \<Rightarrow> allocator \<Rightarrow>
       (js_error + network_identity \<times> string list) \<times> allocator" where
  "allocateNetwork sha workerId q a = network_attempts sha workerId q a [0..<1024]"

definition releaseNetwork :: "string \<Rightarrow> string list \<Rightarrow> allocator \<Rightarrow> allocator" where
  "releaseNetwork i keys a =
     fold (\<lambda>k a. if networkOwners a k = Some i then free_network k a else a) keys a"

definition port_owner :: "allocator \<Rightarrow> int \<Rightarrow> string option" where
  "port_owner a p = map_of (portOwners a) p"

definition claim_port :: "int \<Rightarrow> string \<Rightarrow> allocator \<Rightarrow> allocator" where
  "claim_port p ow a = a\<lparr>portOwners := AList.update p ow (portOwners a)\<rparr>"

definition releasePort :: "int \<Rightarrow> allocator \<Rightarrow> allocator" where
  "releasePort p a = a\<lparr>portOwners := AList.delete p (portOwners a)\<rparr>"

definition releasePorts :: "string \<Rightarrow> allocator \<Rightarrow> allocator" where
  "releasePorts i a = a\<lparr>portOwners := filter (\<lambda>(p, ow). \<not> starts_with ow (i @ '':'')) (portOwners a)\<rparr>"

definition owner_text :: "string \<Rightarrow> int \<Rightarrow> string" where
  "owner_text i guest = i @ '':'' @ int_text guest"

definition no_ports_error :: js_error where
  "no_ports_error = firemig NoCapacity ''No worker relay ports are available'' True None (Some 503)"

primrec port_offsets :: "int \<Rightarrow> int \<Rightarrow> int \<Rightarrow> string \<Rightarrow> allocator \<Rightarrow> nat list \<Rightarrow> (js_error + int) \<times> allocator" where
  "port_offsets base preferred available ow a [] = (Inl no_ports_error, a)"
| "port_offsets base preferred available ow a (off # offs) =
     (let p = base + (preferred - base + int off) mod available in
      case port_owner a p of
        None \<Rightarrow> (Inr p, claim_port p ow a)
      | Some other \<Rightarrow>
          if other = ow then (Inr p, claim_port p ow a)
          else port_offsets base preferred available ow a offs)"

definition allocatePort ::
    "(string \<Rightarrow> nat list) \<Rightarrow> js_number option \<Rightarrow> string \<Rightarrow> string \<Rightarrow> js_number \<Rightarrow> allocator \<Rightarrow>
       (js_error + int) \<times> allocator" where
  "allocatePort sha configured workerId i guest a =
     (let portBase = orelse configured (Num DEFAULT_PORT_BASE) in
      case deterministicHostPort sha portBase workerId i guest of
        Inl e \<Rightarrow> (Inl e, a)
      | Inr preferred \<Rightarrow>
          (let base = num_val portBase; available = 65536 - base in
           port_offsets base preferred available (owner_text i (num_val guest)) a
             [0..<nat available]))"

section \<open>Derived identities\<close>

lemma hex_text_length: "length (hex_text bs) = 2 * length bs"
  by (induction bs) (simp_all add: hex_text_def hex_byte_def)

definition is_hex :: "char \<Rightarrow> bool" where
  "is_hex c \<longleftrightarrow> c \<in> set ''0123456789abcdef''"

lemma is_hex_char: "d < 16 \<Longrightarrow> is_hex (hex_char d)"
  unfolding is_hex_def hex_char_def by (intro nth_mem) simp

lemma hex_text_chars: "list_all (\<lambda>b. b < 256) bs \<Longrightarrow> list_all is_hex (hex_text bs)"
  by (induction bs) (auto simp: hex_text_def hex_byte_def is_hex_char)

lemma hex_alnum: "is_hex c \<Longrightarrow> is_alnum c"
  unfolding is_hex_def is_alnum_def by auto

lemma derived_name_ok:
  assumes "digest_ok sha" and "pre \<in> {''fmn'', ''fmv''}"
  shows "length (pre @ take 11 (hex_text (sha t))) = 14 \<and> safeIdentifier (pre @ take 11 (hex_text (sha t)))"
proof -
  have d: "length (sha t) = 32" "list_all (\<lambda>b. b < 256) (sha t)"
    using assms(1) by (auto simp: digest_ok_def)
  have alnum: "is_alnum c" if "c \<in> set (take 11 (hex_text (sha t)))" for c
    using in_set_takeD [OF that] hex_text_chars [OF d(2)] by (simp add: list_all_iff hex_alnum)
  have letters: "is_alnum CHR ''f'' \<and> is_alnum CHR ''m'' \<and> is_alnum CHR ''n'' \<and> is_alnum CHR ''v''"
    by (simp add: is_alnum_def)
  have "list_all (\<lambda>c. is_alnum c \<or> c = CHR ''_'' \<or> c = CHR ''-'') (take 11 (hex_text (sha t)))"
    using alnum by (simp add: list_all_iff)
  then show ?thesis
    using assms(2) letters d(1) by (auto simp: safeIdentifier_def hex_text_length)
qed

text \<open>
  Every derived network identity is one Linux accepts. The names are identifiers of 14
  characters (an interface name has at most 15), the subnet is an aligned \<open>/30\<close> inside
  \<open>10.64.0.0/10\<close>, and the host and the namespace have its two usable addresses.
\<close>

lemma derived_identity_valid:
  assumes "digest_ok sha" and "0 \<le> k" and "k \<le> max_safe"
  shows "\<exists>n a b c. deriveNetworkIdentity sha workerId sandboxId (Num k) = Inr n
    \<and> safeIdentifier (netns n) \<and> length (netns n) \<le> MAX_INTERFACE_NAME
    \<and> safeIdentifier (hostVeth n) \<and> length (hostVeth n) \<le> MAX_INTERFACE_NAME
    \<and> 64 \<le> a \<and> a \<le> 127 \<and> b \<le> 255 \<and> c \<le> 252 \<and> 4 dvd c
    \<and> subnet n = ip_text a b c \<and> hostAddress n = ip_text a b (c + 1)
    \<and> namespaceAddress n = ip_text a b (c + 2)"
proof -
  let ?d = "sha (hash_input workerId sandboxId (int_text k))"
  have d: "length ?d = 32" "list_all (\<lambda>b. b < 256) ?d" using assms(1) by (auto simp: digest_ok_def)
  then have "?d ! 7 < 256" by (simp add: list_all_length)
  then have b: "?d ! 7 \<le> 255" by simp
  have mods: "x mod 64 \<le> 63" for x :: nat by (simp add: less_Suc_eq_le [symmetric])
  have a: "64 + ?d ! 6 mod 64 \<le> 127" using mods [of "?d ! 6"] by simp
  have c: "(?d ! 8 mod 64) * 4 \<le> 252" using mods [of "?d ! 8"] by simp
  have names: "safeIdentifier (''fmn'' @ take 11 (hex_text ?d))" "safeIdentifier (''fmv'' @ take 11 (hex_text ?d))"
    using derived_name_ok [OF assms(1)] by blast+
  show ?thesis
    using assms(2,3) a b c names
    by (intro exI [of _ "64 + ?d ! 6 mod 64"] exI [of _ "?d ! 7"] exI [of _ "(?d ! 8 mod 64) * 4"] exI)
      (auto simp: deriveNetworkIdentity_def Let_def MAX_INTERFACE_NAME_def hex_text_length d(1) max_safe_def)
qed

text \<open>A concrete hash for closed instances: 32 bytes that depend on the length of the input.\<close>

definition toy_sha :: "string \<Rightarrow> nat list" where
  "toy_sha t = replicate 32 (length t mod 256)"

lemma toy_sha_ok: "digest_ok toy_sha"
  by (simp add: digest_ok_def toy_sha_def list_all_iff)

section \<open>Relay ports\<close>

interpretation nets: ownership networkOwners claim_network free_network
  by unfold_locales (auto simp: claim_network_def free_network_def)

interpretation ports: ownership port_owner claim_port releasePort
  by unfold_locales
    (auto simp: port_owner_def claim_port_def releasePort_def update_conv' delete_conv')

lemma port_offsets_spec:
  assumes "0 < available" and "port_offsets base preferred available ow a offs = (r, a')"
  shows "(\<exists>p. r = Inr p \<and> base \<le> p \<and> p < base + available
            \<and> (port_owner a p = None \<or> port_owner a p = Some ow) \<and> a' = claim_port p ow a)
    \<or> (r = Inl no_ports_error \<and> a' = a \<and>
        (\<forall>n\<in>set offs. \<exists>x. port_owner a (base + (preferred - base + int n) mod available) = Some x \<and> x \<noteq> ow))"
  using assms(2)
proof (induction offs)
  case (Cons n offs)
  let ?p = "base + (preferred - base + int n) mod available"
  have range: "base \<le> ?p" "?p < base + available"
    using assms(1) by simp_all
  show ?case
  proof (cases "port_owner a ?p")
    case None
    with Cons.prems range show ?thesis by (auto simp: Let_def)
  next
    case (Some x)
    show ?thesis
    proof (cases "x = ow")
      case True
      with Cons.prems Some range show ?thesis by (auto simp: Let_def)
    next
      case False
      with Cons.prems Some have "port_offsets base preferred available ow a offs = (r, a')"
        by (simp add: Let_def)
      from Cons.IH [OF this] Some False show ?thesis by auto
    qed
  qed
qed simp

text \<open>Every port of the range is tried.\<close>

lemma offsets_cover:
  assumes "0 < available" and "base \<le> p" and "p < base + available"
  shows "\<exists>n\<in>set [0..<nat available]. base + (preferred - base + int n) mod available = p"
proof -
  let ?n = "(p - preferred) mod available"
  have n: "0 \<le> ?n" "?n < available" using assms(1) by simp_all
  have "(preferred - base + ?n) mod available = (preferred - base + (p - preferred)) mod available"
    by (simp add: mod_add_right_eq)
  also have "\<dots> = (p - base) mod available" by simp
  also have "\<dots> = p - base" using assms(2,3) by simp
  finally have "base + (preferred - base + int (nat ?n)) mod available = p" using n by simp
  then show ?thesis using n by (intro bexI [of _ "nat ?n"]) auto
qed

text \<open>A configured base port as the constructor of the worker admits it.\<close>

definition configured_base :: "js_number option \<Rightarrow> int" where
  "configured_base c = num_val (orelse c (Num DEFAULT_PORT_BASE))"

lemma allocatePort_cases:
  assumes "allocatePort sha c workerId i (Num g) a = (r, a')"
  shows "(\<exists>m. r = Inl (JsError m) \<and> a' = a)
    \<or> (1 \<le> configured_base c \<and> configured_base c \<le> 65535 \<and> 1 \<le> g \<and> g \<le> 65535 \<and>
        (\<exists>preferred. port_offsets (configured_base c) preferred (65536 - configured_base c)
           (owner_text i g) a [0..<nat (65536 - configured_base c)] = (r, a')))"
  using assms
  by (auto simp: allocatePort_def deterministicHostPort_def configured_base_def Let_def valid_port_def
      split: if_splits)

text \<open>
  Relay ports. A port handed out lies between the configured base and 65535, was free or
  already this exposure's own, and belongs to it afterwards; every other port keeps its
  owner. \<open>NO_CAPACITY\<close> is reported only when every port of the range belongs to some other
  exposure, and an error changes nothing.
\<close>

lemma port_allocation_spec:
  assumes "allocatePort sha c workerId i (Num g) a = (r, a')"
  shows "(\<forall>p. r = Inr p \<longrightarrow> configured_base c \<le> p \<and> p \<le> 65535
        \<and> (port_owner a p = None \<or> port_owner a p = Some (owner_text i g))
        \<and> (\<forall>q. port_owner a' q = (if q = p then Some (owner_text i g) else port_owner a q)))
    \<and> (\<forall>e. r = Inl e \<longrightarrow> a' = a)
    \<and> (r = Inl no_ports_error \<longrightarrow>
        (\<forall>p. configured_base c \<le> p \<and> p \<le> 65535 \<longrightarrow>
           (\<exists>x. port_owner a p = Some x \<and> x \<noteq> owner_text i g)))"
proof -
  have noerr: "Inl (JsError m) \<noteq> (Inl no_ports_error :: js_error + int)" for m
    by (simp add: no_ports_error_def firemig_def)
  from allocatePort_cases [OF assms] show ?thesis
  proof
    assume "\<exists>m. r = Inl (JsError m) \<and> a' = a"
    then show ?thesis using noerr by auto
  next
    let ?b = "configured_base c"
    assume valid: "1 \<le> ?b \<and> ?b \<le> 65535 \<and> 1 \<le> g \<and> g \<le> 65535 \<and> (\<exists>preferred.
      port_offsets ?b preferred (65536 - ?b) (owner_text i g) a [0..<nat (65536 - ?b)] = (r, a'))"
    then obtain preferred where offs:
      "port_offsets ?b preferred (65536 - ?b) (owner_text i g) a [0..<nat (65536 - ?b)] = (r, a')" by blast
    have av: "0 < 65536 - ?b" using valid by simp
    have cover: "\<exists>n\<in>set [0..<nat (65536 - ?b)]. ?b + (preferred - ?b + int n) mod (65536 - ?b) = p"
      if "?b \<le> p" "p \<le> 65535" for p
      using offsets_cover [OF av, of ?b p preferred] that by simp
    from port_offsets_spec [OF av offs] show ?thesis
    proof
      assume "\<exists>p. r = Inr p \<and> ?b \<le> p \<and> p < ?b + (65536 - ?b) \<and>
        (port_owner a p = None \<or> port_owner a p = Some (owner_text i g)) \<and> a' = claim_port p (owner_text i g) a"
      then show ?thesis by (auto simp: ports.owner_claim)
    next
      assume full: "r = Inl no_ports_error \<and> a' = a \<and> (\<forall>n\<in>set [0..<nat (65536 - ?b)].
        \<exists>x. port_owner a (?b + (preferred - ?b + int n) mod (65536 - ?b)) = Some x \<and> x \<noteq> owner_text i g)"
      then have "\<exists>x. port_owner a p = Some x \<and> x \<noteq> owner_text i g" if "?b \<le> p" "p \<le> 65535" for p
        using cover [OF that] by metis
      with full show ?thesis by auto
    qed
  qed
qed

text \<open>Asking again for the same exposure gives the same port and changes nothing.\<close>

lemma port_offsets_again:
  assumes "0 < available" and "port_offsets base preferred available ow a offs = (Inr p, a')"
  shows "fst (port_offsets base preferred available ow a' offs) = Inr p"
  using assms(2)
proof (induction offs)
  case (Cons n offs)
  let ?p = "base + (preferred - base + int n) mod available"
  show ?case
  proof (cases "port_owner a ?p = None \<or> port_owner a ?p = Some ow")
    case True
    then have "p = ?p" "a' = claim_port ?p ow a"
      using Cons.prems by (auto simp: Let_def)
    then show ?thesis by (simp add: Let_def ports.owner_claim)
  next
    case False
    then obtain x where x: "port_owner a ?p = Some x" "x \<noteq> ow" by auto
    with Cons.prems have rest: "port_offsets base preferred available ow a offs = (Inr p, a')"
      by (simp add: Let_def)
    from port_offsets_spec [OF assms(1) rest] x have "port_owner a' ?p = Some x"
      by (auto simp: ports.owner_claim)
    with x Cons.IH [OF rest] show ?thesis by (simp add: Let_def)
  qed
qed simp

section \<open>Networks\<close>

text \<open>\<open>i\<close> holds a network: it owns the namespace, the interface and the address pair.\<close>

definition holds_network :: "allocator \<Rightarrow> string \<Rightarrow> string list \<Rightarrow> bool" where
  "holds_network a i keys \<longleftrightarrow> (\<forall>k\<in>set keys. networkOwners a k = Some i)"

lemma holds_network_owns: "holds_network a i keys = nets.owns_all a i keys"
  by (simp add: holds_network_def nets.owns_all_def)

lemma not_collides: "\<not> collides a i keys \<longleftrightarrow> nets.available_to a i keys"
proof -
  have "(\<not> (case x of None \<Rightarrow> False | Some ow \<Rightarrow> ow \<noteq> i)) \<longleftrightarrow> (x = None \<or> x = Some i)" for x
    by (cases x) auto
  then show ?thesis by (simp add: collides_def nets.available_to_def list_ex_iff)
qed

lemma network_attempts_spec:
  assumes "network_attempts sha w q a ks = (r, a')"
  shows "(\<exists>n. r = Inr (n, networkKeys n) \<and> nets.available_to a (cr_id q) (networkKeys n)
        \<and> length (netns n) \<le> MAX_INTERFACE_NAME \<and> length (hostVeth n) \<le> MAX_INTERFACE_NAME
        \<and> a' = fold (\<lambda>k. claim_network k (cr_id q)) (networkKeys n) a)
    \<or> (\<exists>e. r = Inl e \<and> a' = a)"
  using assms
proof (induction ks)
  case (Cons k ks)
  then show ?case
    by (auto simp: Let_def not_collides split: sum.splits if_splits)
qed auto

lemma networkKeys_disjoint:
  assumes "set (networkKeys n) \<inter> set (networkKeys m) = {}"
  shows "netns n \<noteq> netns m \<and> hostVeth n \<noteq> hostVeth m
    \<and> (addressWithoutPrefix (hostAddress n), addressWithoutPrefix (namespaceAddress n))
      \<noteq> (addressWithoutPrefix (hostAddress m), addressWithoutPrefix (namespaceAddress m))"
  using assms by (auto simp: networkKeys_def)

text \<open>
  C31: no two sandboxes share a network. When an allocation succeeds, the sandbox holds the
  namespace, the host interface and the address pair it was given, their names fit Linux's
  limit, every other sandbox still holds what it held, and nothing it was given is in use by
  another; when it fails, nothing has changed.
\<close>

theorem network_allocation_exclusive:
  assumes "allocateNetwork sha w q a = (r, a')"
  shows "(\<forall>n keys. r = Inr (n, keys) \<longrightarrow> keys = networkKeys n \<and> holds_network a' (cr_id q) keys
        \<and> length (netns n) \<le> MAX_INTERFACE_NAME \<and> length (hostVeth n) \<le> MAX_INTERFACE_NAME
        \<and> (\<forall>j m. j \<noteq> cr_id q \<and> holds_network a j (networkKeys m) \<longrightarrow>
             holds_network a' j (networkKeys m) \<and> netns n \<noteq> netns m \<and> hostVeth n \<noteq> hostVeth m
             \<and> (addressWithoutPrefix (hostAddress n), addressWithoutPrefix (namespaceAddress n))
               \<noteq> (addressWithoutPrefix (hostAddress m), addressWithoutPrefix (namespaceAddress m))))
    \<and> (\<forall>e. r = Inl e \<longrightarrow> a' = a)"
proof -
  consider (given) n where "r = Inr (n, networkKeys n)" "nets.available_to a (cr_id q) (networkKeys n)"
      "length (netns n) \<le> MAX_INTERFACE_NAME" "length (hostVeth n) \<le> MAX_INTERFACE_NAME"
      "a' = fold (\<lambda>k. claim_network k (cr_id q)) (networkKeys n) a"
    | (failed) e where "r = Inl e" "a' = a"
    using network_attempts_spec [OF assms [unfolded allocateNetwork_def]] by blast
  then show ?thesis
  proof cases
    case given
    have own: "nets.owns_all a' (cr_id q) (networkKeys n)"
      using given(5) nets.owns_claims by simp
    have other: "nets.owns_all a' j js \<and> set (networkKeys n) \<inter> set js = {}"
      if "j \<noteq> cr_id q" "nets.owns_all a j js" for j js
    proof -
      have "nets.owns_all a' j js" using nets.claims_frame [OF given(2) that(2)] given(5) by simp
      with nets.owners_disjoint [OF own this] that(1) show ?thesis by auto
    qed
    show ?thesis
      using given(1,3,4) own other networkKeys_disjoint by (auto simp: holds_network_owns)
  next
    case failed
    then show ?thesis by simp
  qed
qed

definition plain_request :: "string \<Rightarrow> create_request" where
  "plain_request i = \<lparr>cr_id = i, cr_epoch = Num 1, cr_cpu = Num 2, cr_memoryMb = Num 1024,
     cr_mode = Some RestoreMode, cr_kernelPath = None, cr_rootfsPath = None, cr_kernel = None,
     cr_rootfs = None, cr_netns = None, cr_hostVeth = None, cr_hostAddress = None,
     cr_namespaceAddress = None, cr_mtu = None\<rparr>"

theorem network_allocation_exclusive_witness:
  "fst (allocateNetwork toy_sha ''w'' ((plain_request ''a'')\<lparr>cr_netns := Some ''ns1''\<rparr>)
       \<lparr>networkOwners = [''netns:ns1'' \<mapsto> ''b''], portOwners = []\<rparr>) = Inl pinned_collision_error
   \<and> snd (allocateNetwork toy_sha ''w'' ((plain_request ''a'')\<lparr>cr_netns := Some ''ns1''\<rparr>)
       \<lparr>networkOwners = [''netns:ns1'' \<mapsto> ''b''], portOwners = []\<rparr>)
     = \<lparr>networkOwners = [''netns:ns1'' \<mapsto> ''b''], portOwners = []\<rparr>"
proof -
  let ?q = "(plain_request ''a'')\<lparr>cr_netns := Some ''ns1''\<rparr>"
  let ?a = "\<lparr>networkOwners = [''netns:ns1'' \<mapsto> ''b''], portOwners = []\<rparr>"
  have range: "[0..<1024] = 0 # [Suc 0..<1024]" by (rule upt_conv_Cons) simp
  have r: "fst (allocateNetwork toy_sha ''w'' ?q ?a) = Inl pinned_collision_error"
    unfolding allocateNetwork_def range
    by (simp add: deriveNetwork_def deriveNetworkIdentity_def plain_request_def pinned_def
        collides_def networkKeys_def MAX_INTERFACE_NAME_def max_safe_def Let_def)
  then obtain a' where "allocateNetwork toy_sha ''w'' ?q ?a = (Inl pinned_collision_error, a')"
    by (cases "allocateNetwork toy_sha ''w'' ?q ?a") auto
  with network_allocation_exclusive [OF this] r show ?thesis by simp
qed

text \<open>
  Releasing: exactly the keys still owned are freed, and other sandboxes keep theirs.
\<close>

lemma releaseNetwork_owner:
  "networkOwners (releaseNetwork i keys a) k
     = (if k \<in> set keys \<and> networkOwners a k = Some i then None else networkOwners a k)"
  unfolding releaseNetwork_def by (rule nets.owner_release)

lemma releaseNetwork_keeps:
  "j \<noteq> i \<Longrightarrow> holds_network a j js \<Longrightarrow> holds_network (releaseNetwork i keys a) j js"
  by (auto simp: holds_network_def releaseNetwork_owner)

text \<open>
  The port table as the worker fills it: no port twice, every owner of the form
  \<open>id:guestPort\<close> with an identifier, which has no colon.
\<close>

definition port_table_ok :: "allocator \<Rightarrow> bool" where
  "port_table_ok a \<longleftrightarrow> distinct (map fst (portOwners a))
     \<and> (\<forall>(p, ow) \<in> set (portOwners a). \<exists>j g. CHR '':'' \<notin> set j \<and> ow = owner_text j g)"

lemma owner_text_prefix:
  assumes "CHR '':'' \<notin> set i" and "CHR '':'' \<notin> set j"
  shows "starts_with (owner_text j g) (i @ '':'') \<longleftrightarrow> j = i"
proof
  assume "starts_with (owner_text j g) (i @ '':'')"
  then obtain t where "j @ CHR '':'' # int_text g = i @ CHR '':'' # t"
    by (auto simp: starts_with_def prefix_def owner_text_def)
  then have "takeWhile (\<lambda>c. c \<noteq> CHR '':'') (j @ CHR '':'' # int_text g)
      = takeWhile (\<lambda>c. c \<noteq> CHR '':'') (i @ CHR '':'' # t)" by simp
  moreover have "takeWhile (\<lambda>c. c \<noteq> CHR '':'') (k @ CHR '':'' # u) = k" if "CHR '':'' \<notin> set k" for k u
    using that by (induction k) auto
  ultimately show "j = i" using assms by simp
qed (simp add: starts_with_def owner_text_def)

text \<open>
  Releasing a sandbox's ports frees all of its ports and no other sandbox's, although the
  code finds them by a prefix of the owner's text: \<open>sbx-1\<close> does not release \<open>sbx-10\<close>.
\<close>

lemma release_ports_exact:
  assumes "port_table_ok a" and "CHR '':'' \<notin> set i" and "CHR '':'' \<notin> set j"
  shows "(port_owner a p = Some (owner_text i g) \<longrightarrow> port_owner (releasePorts i a) p = None)
    \<and> (j \<noteq> i \<and> port_owner a p = Some (owner_text j g) \<longrightarrow>
         port_owner (releasePorts i a) p = Some (owner_text j g))
    \<and> port_table_ok (releasePorts i a)"
proof -
  have dist: "distinct (map fst (filter P (portOwners a)))" for P
    using assms(1) by (auto simp: port_table_ok_def distinct_map inj_on_def)
  have look: "port_owner b p = Some x \<longleftrightarrow> (p, x) \<in> set (portOwners b)"
    if "distinct (map fst (portOwners b))" for b x
    using that by (simp add: port_owner_def)
  have da: "distinct (map fst (portOwners a))" using assms(1) by (simp add: port_table_ok_def)
  have dr: "distinct (map fst (portOwners (releasePorts i a)))"
    using dist by (simp add: releasePorts_def)
  have gone: "port_owner (releasePorts i a) p = None" if "port_owner a p = Some (owner_text i g)"
  proof (cases "port_owner (releasePorts i a) p")
    case (Some x)
    then have "(p, x) \<in> set (portOwners a)" "\<not> starts_with x (i @ '':'')"
      using look [OF dr] by (auto simp: releasePorts_def)
    with that look [OF da] owner_text_prefix [OF assms(2) assms(2)] show ?thesis
      by (metis option.inject)
  qed
  have kept: "port_owner (releasePorts i a) p = Some (owner_text j g)"
    if "j \<noteq> i" "port_owner a p = Some (owner_text j g)"
    using that look [OF da] look [OF dr] owner_text_prefix [OF assms(2,3)]
    by (auto simp: releasePorts_def)
  have ok: "port_table_ok (releasePorts i a)"
    using assms(1) dr by (auto simp: port_table_ok_def releasePorts_def)
  from gone kept ok show ?thesis by blast
qed

end
