(* ===== verification/Promises.thy ===== *)
theory Promises
  imports Async
begin

text \<open>
  Promises as data: what a promise made by the program has been settled with so far. The
  locale \<open>settling\<close> is the contract of the code inside a \<open>new Promise\<close>: it
  reacts to events one after the other, and the first outcome stays.
\<close>

section \<open>Promises\<close>

datatype 'a promise = Pending | Fulfilled 'a | Rejected js_error

text \<open>A promise is settled once: a later \<open>resolve\<close> or \<open>reject\<close> has no effect.\<close>

fun settle_promise :: "'a promise \<Rightarrow> 'a promise \<Rightarrow> 'a promise" where
  "settle_promise v Pending = v"
| "settle_promise v p = p"

fun promise_result :: "'a promise \<Rightarrow> js_error + 'a" where
  "promise_result (Fulfilled v) = Inr v"
| "promise_result (Rejected e) = Inl e"
| "promise_result Pending = Inl Unsettled"

lemma settle_promise_settled: "p \<noteq> Pending \<Longrightarrow> settle_promise v p = p"
  by (cases p) simp_all

section \<open>Promises settled by events\<close>

locale settling =
  fixes advance :: "'s \<Rightarrow> 'e \<Rightarrow> 's"
    and outcome :: "'s \<Rightarrow> 'a promise"
  assumes kept: "outcome s \<noteq> Pending \<Longrightarrow> outcome (advance s e) = outcome s"
begin

lemma settled_kept: "outcome s \<noteq> Pending \<Longrightarrow> outcome (foldl advance s es) = outcome s"
  by (induction es arbitrary: s) (simp_all add: kept)

lemma settled_by: "outcome (advance (foldl advance s xs) e) = v \<Longrightarrow> v \<noteq> Pending \<Longrightarrow>
    outcome (foldl advance s (xs @ e # ys)) = v"
  using settled_kept [of "advance (foldl advance s xs) e" ys] by simp

text \<open>An outcome is the work of one event, the first to settle.\<close>

lemma settled_at:
  "outcome s = Pending \<Longrightarrow> outcome (foldl advance s es) = v \<Longrightarrow> v \<noteq> Pending \<Longrightarrow>
    \<exists>xs e ys. es = xs @ e # ys \<and> outcome (foldl advance s xs) = Pending
      \<and> outcome (advance (foldl advance s xs) e) = v"
proof (induction es rule: rev_induct)
  case Nil
  then show ?case by simp
next
  case (snoc e es)
  show ?case
  proof (cases "outcome (foldl advance s es) = Pending")
    case True
    with snoc.prems(2) show ?thesis by force
  next
    case False
    with snoc.prems kept [of "foldl advance s es" e] have "outcome (foldl advance s es) = v" by simp
    from snoc.IH [OF snoc.prems(1) this snoc.prems(3)] obtain xs e' ys where
      "es = xs @ e' # ys" "outcome (foldl advance s xs) = Pending" "outcome (advance (foldl advance s xs) e') = v" by blast
    then have "es @ [e] = xs @ e' # (ys @ [e])" "outcome (foldl advance s xs) = Pending"
      "outcome (advance (foldl advance s xs) e') = v" by simp_all
    then show ?thesis by blast
  qed
qed

end

end
