(* ===== verification/Adapters.thy ===== *)
theory Adapters
  imports Network Promises
begin

text \<open>
  The adapters that answer the calls of the model with Node's own events:
  \<open>processResult\<close> and \<open>nodeProcessAdapter.run\<close> of \<open>platform/adapters.ts\<close>,
  \<open>nodeUnixHttpTransport\<close> of \<open>runtime/unix-http.ts\<close>, \<open>sleep\<close> of
  \<open>runtime/backoff.ts\<close> and the TCP relay of \<open>runtime/relay.ts\<close>. Each is the state its
  handlers share and one step per event it listens to; which events arrive, and in which
  order, is up to the process, the peer or the clock.
\<close>

section \<open>A spawned process\<close>

record process_exit =
  ex_code :: "int option"
  ex_signal :: "string option"

datatype child_event =
    SpawnError js_error
  | Exited "int option" "string option"

record spawned_process =
  sp_pid :: int
  sp_exited :: "process_exit promise"

definition processResult :: "int option \<Rightarrow> js_error + spawned_process" where
  "processResult pid = (case pid of
     None \<Rightarrow> Inl (JsError ''Spawned process did not receive a PID'')
   | Some n \<Rightarrow> Inr \<lparr>sp_pid = n, sp_exited = Pending\<rparr>)"

fun exited_step :: "spawned_process \<Rightarrow> child_event \<Rightarrow> spawned_process" where
  "exited_step p (SpawnError e) = p\<lparr>sp_exited := settle_promise (Rejected e) (sp_exited p)\<rparr>"
| "exited_step p (Exited code signal) =
     p\<lparr>sp_exited := settle_promise (Fulfilled \<lparr>ex_code = code, ex_signal = signal\<rparr>) (sp_exited p)\<rparr>"

interpretation exits: settling exited_step sp_exited
proof unfold_locales
  fix p :: spawned_process and e
  assume "sp_exited p \<noteq> Pending"
  then show "sp_exited (exited_step p e) = sp_exited p" by (cases e) (simp_all add: settle_promise_settled)
qed

section \<open>A command run to its end\<close>

record run_output =
  ro_stdout :: string
  ro_stderr :: string

record run_child =
  rc_stdout :: "string list"
  rc_stderr :: "string list"
  rc_result :: "run_output promise"

definition new_child :: run_child where
  "new_child = \<lparr>rc_stdout = [], rc_stderr = [], rc_result = Pending\<rparr>"

datatype run_event =
    Stdout string
  | Stderr string
  | ChildError js_error
  | ChildClosed "int option" "string option"

text \<open>\<open>code ?? signal\<close>, which prints as \<open>null\<close> when both are.\<close>

definition exit_text :: "int option \<Rightarrow> string option \<Rightarrow> string" where
  "exit_text code signal = (case code of Some n \<Rightarrow> int_text n | None \<Rightarrow> orelse signal ''null'')"

definition exit_promise :: "string \<Rightarrow> int option \<Rightarrow> string option \<Rightarrow> run_output \<Rightarrow> run_output promise" where
  "exit_promise program code signal r =
     (if code = Some 0 then Fulfilled r
      else Rejected (JsError (program @ '' exited with '' @ exit_text code signal @ '': '' @ trim (ro_stderr r))))"

fun run_step :: "string \<Rightarrow> run_child \<Rightarrow> run_event \<Rightarrow> run_child" where
  "run_step program c (Stdout chunk) = c\<lparr>rc_stdout := rc_stdout c @ [chunk]\<rparr>"
| "run_step program c (Stderr chunk) = c\<lparr>rc_stderr := rc_stderr c @ [chunk]\<rparr>"
| "run_step program c (ChildError e) = c\<lparr>rc_result := settle_promise (Rejected e) (rc_result c)\<rparr>"
| "run_step program c (ChildClosed code signal) = c\<lparr>rc_result := settle_promise
     (exit_promise program code signal \<lparr>ro_stdout = concat (rc_stdout c), ro_stderr = concat (rc_stderr c)\<rparr>)
     (rc_result c)\<rparr>"

interpretation runs: settling "run_step program" rc_result for program
proof unfold_locales
  fix c :: run_child and e
  assume "rc_result c \<noteq> Pending"
  then show "rc_result (run_step program c e) = rc_result c" by (cases e) (simp_all add: settle_promise_settled)
qed

primrec out_chunks :: "run_event \<Rightarrow> string" where
  "out_chunks (Stdout chunk) = chunk"
| "out_chunks (Stderr chunk) = []"
| "out_chunks (ChildError e) = []"
| "out_chunks (ChildClosed code signal) = []"

primrec err_chunks :: "run_event \<Rightarrow> string" where
  "err_chunks (Stdout chunk) = []"
| "err_chunks (Stderr chunk) = chunk"
| "err_chunks (ChildError e) = []"
| "err_chunks (ChildClosed code signal) = []"

lemma run_collects:
  "concat (rc_stdout (foldl (run_step program) c es)) = concat (rc_stdout c) @ concat (map out_chunks es)
   \<and> concat (rc_stderr (foldl (run_step program) c es)) = concat (rc_stderr c) @ concat (map err_chunks es)"
proof (induction es arbitrary: c)
  case Nil
  show ?case by simp
next
  case (Cons e es)
  show ?case by (cases e) (simp_all add: Cons.IH)
qed

definition only_output :: "run_event \<Rightarrow> bool" where
  "only_output e \<longleftrightarrow> (case e of Stdout _ \<Rightarrow> True | Stderr _ \<Rightarrow> True | _ \<Rightarrow> False)"

lemma run_waits: "list_all only_output es \<Longrightarrow> rc_result (foldl (run_step program) c es) = rc_result c"
proof (induction es arbitrary: c)
  case Nil
  show ?case by simp
next
  case (Cons e es)
  then show ?case by (cases e) (simp_all add: only_output_def)
qed

text \<open>
  A command that only wrote before it closed is answered with all it wrote, cut in whatever
  chunks, and fails on every other exit code and on a signal.
\<close>

lemma run_answers:
  assumes "list_all only_output es"
  shows "rc_result (foldl (run_step program) new_child (es @ ChildClosed code signal # rest)) =
    exit_promise program code signal \<lparr>ro_stdout = concat (map out_chunks es), ro_stderr = concat (map err_chunks es)\<rparr>"
proof (rule runs.settled_by)
  show "rc_result (run_step program (foldl (run_step program) new_child es) (ChildClosed code signal)) =
    exit_promise program code signal \<lparr>ro_stdout = concat (map out_chunks es), ro_stderr = concat (map err_chunks es)\<rparr>"
    using run_waits [OF assms, of program new_child] run_collects [of program new_child es] by (simp add: new_child_def)
  show "exit_promise program code signal r \<noteq> Pending" for r by (simp add: exit_promise_def)
qed

section \<open>A timer that a signal can cut short\<close>

text \<open>The signal is given or not and may have been aborted; the reason of an abort is an error.\<close>

record sleeping =
  sl_result :: "unit promise"
  sl_delay :: bool
  sl_signal :: bool

definition sleep :: "js_error option option \<Rightarrow> sleeping" where
  "sleep signal = (case signal of
     Some (Some reason) \<Rightarrow> \<lparr>sl_result = Rejected reason, sl_delay = False, sl_signal = False\<rparr>
   | _ \<Rightarrow> \<lparr>sl_result = Pending, sl_delay = True, sl_signal = (signal \<noteq> None)\<rparr>)"

datatype sleep_event = Elapsed | SignalFired js_error

definition sleep_cleanup :: "sleeping \<Rightarrow> sleeping" where
  "sleep_cleanup s = s\<lparr>sl_delay := False, sl_signal := False\<rparr>"

fun sleep_step :: "sleeping \<Rightarrow> sleep_event \<Rightarrow> sleeping" where
  "sleep_step s Elapsed = (if sl_delay s
     then (sleep_cleanup s)\<lparr>sl_result := settle_promise (Fulfilled ()) (sl_result s)\<rparr> else s)"
| "sleep_step s (SignalFired reason) = (if sl_signal s
     then (sleep_cleanup s)\<lparr>sl_result := settle_promise (Rejected reason) (sl_result s)\<rparr> else s)"

interpretation sleeps: settling sleep_step sl_result
proof unfold_locales
  fix s :: sleeping and e
  assume "sl_result s \<noteq> Pending"
  then show "sl_result (sleep_step s e) = sl_result s" by (cases e) (simp_all add: settle_promise_settled sleep_cleanup_def)
qed

text \<open>The first event decides, and no listener is left behind.\<close>

lemma sleep_ends:
  "sl_result (foldl sleep_step (sleep (Some None)) (e # es)) =
     (case e of Elapsed \<Rightarrow> Fulfilled () | SignalFired reason \<Rightarrow> Rejected reason)"
proof -
  have "sl_result (sleep_step (sleep (Some None)) e) = (case e of Elapsed \<Rightarrow> Fulfilled () | SignalFired r \<Rightarrow> Rejected r)"
    by (cases e) (simp_all add: sleep_def sleep_cleanup_def)
  with sleeps.settled_by [of "sleep (Some None)" "[]" e] show ?thesis by (cases e) simp_all
qed

lemma sleep_leaves_nothing:
  "sl_result (s :: sleeping) = Pending \<longleftrightarrow> sl_delay s \<Longrightarrow> sl_signal s \<longrightarrow> sl_delay s \<Longrightarrow>
   let t = foldl sleep_step s es in (sl_result t = Pending \<longleftrightarrow> sl_delay t) \<and> (sl_signal t \<longrightarrow> sl_delay t)"
proof (induction es arbitrary: s)
  case Nil
  then show ?case by simp
next
  case (Cons e es)
  show ?case unfolding foldl_Cons
    by (rule Cons.IH; cases e) (use Cons.prems in \<open>auto simp: sleep_cleanup_def\<close>)
qed

section \<open>A request over a Unix socket\<close>

record unix_request =
  ur_socketPath :: string
  ur_method :: string
  ur_path :: string
  ur_headers :: "(string \<times> string) list"
  ur_body :: "string option"
  ur_timeoutMs :: int

record unix_response =
  us_statusCode :: int
  us_headers :: "(string \<times> string) list"
  us_body :: string

text \<open>
  \<open>uc_response\<close> is the response whose listeners are installed. \<open>ResponseCut\<close> is the
  response closing before its end, which Node reports to the response alone, where nothing listens.
\<close>

record unix_call =
  uc_written :: "string list"
  uc_response :: "(int option \<times> (string \<times> string) list) option"
  uc_chunks :: "string list"
  uc_destroyed :: bool
  uc_result :: "unix_response promise"

datatype unix_event =
    Responded "int option" "(string \<times> string) list"
  | ReceivedChunk string
  | ResponseEnd
  | ResponseCut
  | IdleTimeout
  | CallError js_error

definition nodeUnixHttpTransport :: "unix_request \<Rightarrow> unix_call" where
  "nodeUnixHttpTransport q = \<lparr>uc_written = (case ur_body q of None \<Rightarrow> [] | Some b \<Rightarrow> [b]),
     uc_response = None, uc_chunks = [], uc_destroyed = False, uc_result = Pending\<rparr>"

definition timeout_error :: "unix_request \<Rightarrow> js_error" where
  "timeout_error q = JsError (''Firecracker API timed out after '' @ int_text (ur_timeoutMs q) @ ''ms'')"

fun unix_step :: "unix_request \<Rightarrow> unix_call \<Rightarrow> unix_event \<Rightarrow> unix_call" where
  "unix_step q c (Responded status hs) = c\<lparr>uc_response := Some (status, hs)\<rparr>"
| "unix_step q c (ReceivedChunk chunk) =
     (if uc_response c = None then c else c\<lparr>uc_chunks := uc_chunks c @ [chunk]\<rparr>)"
| "unix_step q c ResponseEnd = (case uc_response c of
     None \<Rightarrow> c
   | Some (status, hs) \<Rightarrow> c\<lparr>uc_result := settle_promise (Fulfilled
       \<lparr>us_statusCode = orelse status 500, us_headers = hs, us_body = concat (uc_chunks c)\<rparr>) (uc_result c)\<rparr>)"
| "unix_step q c ResponseCut = c"
| "unix_step q c IdleTimeout = c\<lparr>uc_destroyed := True,
     uc_result := settle_promise (Rejected (timeout_error q)) (uc_result c)\<rparr>"
| "unix_step q c (CallError e) = c\<lparr>uc_result := settle_promise (Rejected e) (uc_result c)\<rparr>"

interpretation unix: settling "unix_step q" uc_result for q
proof unfold_locales
  fix c :: unix_call and e
  assume "uc_result c \<noteq> Pending"
  then show "uc_result (unix_step q c e) = uc_result c"
    by (cases e) (auto simp: settle_promise_settled split: option.splits)
qed

lemma unix_chunks:
  "uc_response c \<noteq> None \<Longrightarrow> foldl (unix_step q) c (map ReceivedChunk cs) = c\<lparr>uc_chunks := uc_chunks c @ cs\<rparr>"
  by (induction cs arbitrary: c) simp_all

lemma unix_answers:
  "uc_result (foldl (unix_step q) (nodeUnixHttpTransport q)
      (Responded status hs # map ReceivedChunk cs @ ResponseEnd # rest)) =
    Fulfilled \<lparr>us_statusCode = orelse status 500, us_headers = hs, us_body = concat cs\<rparr>"
proof -
  let ?c = "nodeUnixHttpTransport q"
  have "foldl (unix_step q) ?c (Responded status hs # map ReceivedChunk cs) =
      ?c\<lparr>uc_response := Some (status, hs), uc_chunks := cs\<rparr>"
    by (simp add: unix_chunks nodeUnixHttpTransport_def)
  then have "uc_result (unix_step q (foldl (unix_step q) ?c (Responded status hs # map ReceivedChunk cs)) ResponseEnd) =
      Fulfilled \<lparr>us_statusCode = orelse status 500, us_headers = hs, us_body = concat cs\<rparr>"
    by (simp add: nodeUnixHttpTransport_def)
  from unix.settled_by [OF this] show ?thesis by simp
qed

text \<open>A response that is cut short settles nothing: the call hangs for good.\<close>

lemma unix_hangs: "ResponseEnd \<notin> set es \<Longrightarrow> IdleTimeout \<notin> set es \<Longrightarrow> \<forall>e. CallError e \<notin> set es \<Longrightarrow>
    uc_result (foldl (unix_step q) c es) = uc_result c"
proof (induction es arbitrary: c)
  case Nil
  show ?case by simp
next
  case (Cons e es)
  then have "uc_result (foldl (unix_step q) (unix_step q c e) es) = uc_result (unix_step q c e)" by auto
  moreover have "uc_result (unix_step q c e) = uc_result c" using Cons.prems by (cases e) auto
  ultimately show ?case by simp
qed

section \<open>The relay of a port\<close>

text \<open>
  A connection is numbered in the order it was accepted and has two ends, each piped to the
  other. \<open>rl_received\<close> is what an end delivered and \<open>rl_written\<close> what was written to it.
\<close>

datatype relay_end = Client nat | Upstream nat

fun peer :: "relay_end \<Rightarrow> relay_end" where
  "peer (Client n) = Upstream n"
| "peer (Upstream n) = Client n"

fun connection_of :: "relay_end \<Rightarrow> nat" where
  "connection_of (Client n) = n"
| "connection_of (Upstream n) = n"

definition both_ends :: "nat \<Rightarrow> relay_end set" where
  "both_ends n = {Client n, Upstream n}"

record node_relay =
  rl_listening :: bool
  rl_accepted :: nat
  rl_sockets :: "relay_end set"
  rl_destroyed :: "relay_end set"
  rl_received :: "relay_end \<Rightarrow> string"
  rl_written :: "relay_end \<Rightarrow> string"

definition new_relay :: node_relay where
  "new_relay = \<lparr>rl_listening = True, rl_accepted = 0, rl_sockets = {}, rl_destroyed = {},
     rl_received = (\<lambda>_. []), rl_written = (\<lambda>_. [])\<rparr>"

definition nodeRelayFactory :: "js_error option \<Rightarrow> js_error + node_relay" where
  "nodeRelayFactory listen_error = (case listen_error of
     Some e \<Rightarrow> Inl e
   | None \<Rightarrow> Inr new_relay)"

datatype relay_event =
    Accepted
  | Arrived relay_end string
  | SocketError relay_end
  | SocketClosed relay_end

definition closeBoth :: "nat \<Rightarrow> node_relay \<Rightarrow> node_relay" where
  "closeBoth n s = s\<lparr>rl_destroyed := rl_destroyed s \<union> both_ends n,
     rl_sockets := rl_sockets s - both_ends n\<rparr>"

text \<open>A destroyed socket delivers nothing and a write to it is lost.\<close>

fun relay_step :: "node_relay \<Rightarrow> relay_event \<Rightarrow> node_relay" where
  "relay_step s Accepted = (if rl_listening s
     then s\<lparr>rl_accepted := rl_accepted s + 1,
       rl_sockets := rl_sockets s \<union> both_ends (rl_accepted s)\<rparr> else s)"
| "relay_step s (Arrived e d) = (if connection_of e < rl_accepted s \<and> e \<notin> rl_destroyed s
     then s\<lparr>rl_received := (rl_received s)(e := rl_received s e @ d),
       rl_written := (if peer e \<in> rl_destroyed s then rl_written s
         else (rl_written s)(peer e := rl_written s (peer e) @ d))\<rparr> else s)"
| "relay_step s (SocketError e) = (if connection_of e < rl_accepted s then closeBoth (connection_of e) s else s)"
| "relay_step s (SocketClosed e) = (if connection_of e < rl_accepted s then closeBoth (connection_of e) s else s)"

text \<open>\<open>NodeRelayHandle.close\<close>, which rejects when the server was not listening any more.\<close>

definition relay_close :: "node_relay \<Rightarrow> node_relay \<times> js_error option" where
  "relay_close s = (s\<lparr>rl_destroyed := rl_destroyed s \<union> rl_sockets s, rl_sockets := {}, rl_listening := False\<rparr>,
     if rl_listening s then None else Some (JsError ''Server is not running.''))"

text \<open>Both ends of a connection are open or both destroyed, and bytes pass unchanged.\<close>

definition relay_ok :: "node_relay \<Rightarrow> bool" where
  "relay_ok s \<longleftrightarrow> (\<forall>e. (e \<in> rl_sockets s \<longleftrightarrow> connection_of e < rl_accepted s \<and> e \<notin> rl_destroyed s)
     \<and> (e \<in> rl_destroyed s \<longrightarrow> connection_of e < rl_accepted s)
     \<and> (e \<in> rl_destroyed s \<longleftrightarrow> peer e \<in> rl_destroyed s)
     \<and> rl_written s (peer e) = rl_received s e)"

lemma peer_peer [simp]: "peer (peer e) = e"
  by (cases e) simp_all

lemma connection_of_peer [simp]: "connection_of (peer e) = connection_of e"
  by (cases e) simp_all

lemma peer_eq_iff: "peer e = e' \<longleftrightarrow> e = peer e'"
  by auto

lemma in_both_ends [simp]: "e \<in> both_ends n \<longleftrightarrow> connection_of e = n"
  by (cases e) (auto simp: both_ends_def)

lemma closeBoth_ok: "relay_ok s \<Longrightarrow> n < rl_accepted s \<Longrightarrow> relay_ok (closeBoth n s)"
  unfolding relay_ok_def closeBoth_def by simp

lemma accepted_ok:
  assumes "relay_ok s"
  shows "relay_ok (relay_step s Accepted)"
proof -
  have "e \<notin> rl_destroyed s" if "connection_of e = rl_accepted s" for e
    using assms that unfolding relay_ok_def by (metis less_irrefl)
  with assms show ?thesis unfolding relay_ok_def by (simp add: less_Suc_eq) metis
qed

lemma arrived_ok:
  assumes "relay_ok s"
  shows "relay_ok (relay_step s (Arrived e d))"
proof (cases "connection_of e < rl_accepted s \<and> e \<notin> rl_destroyed s")
  case False
  with assms show ?thesis by auto
next
  case True
  with assms have "peer e \<notin> rl_destroyed s" unfolding relay_ok_def by blast
  with True assms show ?thesis unfolding relay_ok_def by (auto simp: peer_eq_iff)
qed

lemma relay_step_ok:
  assumes "relay_ok s"
  shows "relay_ok (relay_step s e)"
  by (cases e) (use assms accepted_ok arrived_ok closeBoth_ok in auto)

lemma relay_steps_ok: "relay_ok s \<Longrightarrow> relay_ok (foldl relay_step s es)"
  by (induction es arbitrary: s) (simp_all add: relay_step_ok)

lemma relay_close_ok: "relay_ok s \<Longrightarrow> relay_ok (fst (relay_close s))"
  unfolding relay_ok_def relay_close_def by auto

lemma new_relay_ok: "relay_ok new_relay"
  by (simp add: new_relay_def relay_ok_def)

text \<open>A closed relay has no open socket and takes none.\<close>

definition relay_down :: "node_relay \<Rightarrow> bool" where
  "relay_down s \<longleftrightarrow> relay_ok s \<and> \<not> rl_listening s \<and> rl_sockets s = {}"

lemma relay_down_step:
  assumes "relay_down s"
  shows "relay_down (relay_step s e) \<and> rl_written (relay_step s e) = rl_written s"
proof -
  have ok: "relay_ok (relay_step s e)" using assms relay_step_ok by (simp add: relay_down_def)
  have "\<not> rl_listening (relay_step s e) \<and> rl_sockets (relay_step s e) = {}"
    using assms by (cases e) (auto simp: relay_down_def closeBoth_def)
  moreover have "rl_written (relay_step s e) = rl_written s"
  proof (cases e)
    case (Arrived x d)
    have "x \<in> rl_destroyed s" if "connection_of x < rl_accepted s"
      using assms that unfolding relay_down_def relay_ok_def by blast
    with Arrived show ?thesis by auto
  qed (use assms in \<open>auto simp: relay_down_def closeBoth_def\<close>)
  ultimately show ?thesis using ok by (simp add: relay_down_def)
qed

lemma relay_down_steps:
  "relay_down s \<Longrightarrow> relay_down (foldl relay_step s es) \<and> rl_written (foldl relay_step s es) = rl_written s"
  by (induction es arbitrary: s) (simp_all add: relay_down_step)

lemma no_accepts: "\<not> rl_listening s \<Longrightarrow> rl_accepted (foldl relay_step s es) = rl_accepted s"
proof (induction es arbitrary: s)
  case Nil
  show ?case by simp
next
  case (Cons e es)
  then have "\<not> rl_listening (relay_step s e) \<and> rl_accepted (relay_step s e) = rl_accepted s"
    by (cases e) (auto simp: closeBoth_def)
  then show ?case using Cons.IH [of "relay_step s e"] by simp
qed

lemma every_end: "e \<in> range Client \<union> range Upstream"
  by (cases e) auto


end
