(* ===== verification/Planning.thy ===== *)
theory Planning
  imports Paths Network
begin

text \<open>
  \<open>planning/command-plan.ts\<close>, \<open>network-plan.ts\<close>, \<open>port-plan.ts\<close> and
  \<open>process-plan.ts\<close>: the command lines the worker runs. A plan is a pure function of its
  options that either throws or yields the commands in order.
\<close>

record command_plan =
  cp_file :: string
  cp_args :: "string list"

definition cmd :: "string \<Rightarrow> string list \<Rightarrow> command_plan" where
  "cmd f as = \<lparr>cp_file = f, cp_args = as\<rparr>"

definition nsExec :: "string \<Rightarrow> string list \<Rightarrow> command_plan" where
  "nsExec ns as = cmd ''ip'' ([''netns'', ''exec'', ns] @ as)"

section \<open>Networks\<close>

record network_plan_options =
  np_sandboxId :: string
  np_netns :: string
  np_hostVeth :: string
  np_hostAddress :: string
  np_namespaceAddress :: string
  np_tapName :: "string option"
  np_mtu :: "int option"

definition nft_chain :: "string \<Rightarrow> string \<Rightarrow> string \<Rightarrow> string \<Rightarrow> string \<Rightarrow> string list" where
  "nft_chain family tabl name ty priority =
     [''nft'', ''add'', ''chain'', family, tabl, name, ''{'', ''type'', ty, ''hook'', name,
      ''priority'', priority, '';'', ''policy'', ''accept'', '';'', ''}'']"

definition peer_veth :: "string \<Rightarrow> string" where
  "peer_veth veth = ''p'' @ drop 1 veth"

text \<open>A sequence of checks: the first that throws.\<close>

fun first_error :: "(js_error + unit) list \<Rightarrow> js_error + unit" where
  "first_error [] = Inr ()"
| "first_error (Inl e # cs) = Inl e"
| "first_error (Inr u # cs) = first_error cs"

definition networkCreatePlan :: "network_plan_options \<Rightarrow> js_error + command_plan list" where
  "networkCreatePlan q =
     (case first_error [assertIdentifier (np_sandboxId q) ''sandbox id'',
          assertIdentifier (np_netns q) ''network namespace'',
          assertIdentifier (np_hostVeth q) ''host veth''] of
        Inl e \<Rightarrow> Inl e
      | Inr _ \<Rightarrow>
         (let ns = np_netns q; veth = np_hostVeth q; tap = orelse (np_tapName q) ''fmtap0'';
              mtu = int_text (orelse (np_mtu q) 1500); peer = peer_veth veth
          in Inr
            [cmd ''ip'' [''netns'', ''add'', ns],
             cmd ''ip'' [''link'', ''add'', veth, ''type'', ''veth'', ''peer'', ''name'', peer],
             cmd ''ip'' [''link'', ''set'', peer, ''netns'', ns],
             nsExec ns [''ip'', ''link'', ''set'', peer, ''name'', ''fmv0''],
             cmd ''ip'' [''addr'', ''add'', np_hostAddress q, ''dev'', veth],
             cmd ''ip'' [''link'', ''set'', veth, ''mtu'', mtu, ''up''],
             nsExec ns [''ip'', ''addr'', ''add'', np_namespaceAddress q, ''dev'', ''fmv0''],
             nsExec ns [''ip'', ''link'', ''set'', ''fmv0'', ''mtu'', mtu, ''up''],
             nsExec ns [''ip'', ''tuntap'', ''add'', ''dev'', tap, ''mode'', ''tap''],
             nsExec ns [''ip'', ''addr'', ''add'', ''172.16.0.1/30'', ''dev'', tap],
             nsExec ns [''ip'', ''link'', ''set'', tap, ''mtu'', mtu, ''up''],
             nsExec ns [''sysctl'', ''-w'', ''net.ipv4.ip_forward=1''],
             nsExec ns [''nft'', ''add'', ''table'', ''ip'', ''nat''],
             nsExec ns (nft_chain ''ip'' ''nat'' ''prerouting'' ''nat'' ''dstnat''),
             nsExec ns (nft_chain ''ip'' ''nat'' ''postrouting'' ''nat'' ''srcnat''),
             nsExec ns [''nft'', ''add'', ''table'', ''inet'', ''filter''],
             nsExec ns (nft_chain ''inet'' ''filter'' ''forward'' ''filter'' ''filter'')]))"

definition networkDeletePlan :: "string \<Rightarrow> string \<Rightarrow> js_error + command_plan list" where
  "networkDeletePlan ns veth =
     (case first_error [assertIdentifier ns ''network namespace'', assertIdentifier veth ''host veth''] of
        Inl e \<Rightarrow> Inl e
      | Inr _ \<Rightarrow> Inr [cmd ''ip'' [''netns'', ''delete'', ns], cmd ''ip'' [''link'', ''delete'', veth]])"

section \<open>Ports\<close>

definition GUEST_ADDRESS :: string where
  "GUEST_ADDRESS = ''172.16.0.2''"

definition CLAMPED_MSS :: string where
  "CLAMPED_MSS = ''1360''"

text \<open>
  \<open>namespaceAddress\<close> is an argument of the source that its body does not use; the tap
  is the default argument \<open>fmtap0\<close>, which no caller overrides.
\<close>

definition exposePortPlan :: "string \<Rightarrow> string \<Rightarrow> js_number \<Rightarrow> js_error + command_plan list" where
  "exposePortPlan ns namespaceAddr guestPort =
     (case assertIdentifier ns ''network namespace'' of
        Inl e \<Rightarrow> Inl e
      | Inr _ \<Rightarrow>
         if \<not> valid_port guestPort then Inl (JsError ''Invalid guest port'')
         else
           (let port = int_text (num_val guestPort) in Inr
             [nsExec ns ([''nft'', ''add'', ''rule'', ''ip'', ''nat'', ''prerouting'']
                @ [''iifname'', ''fmv0'', ''tcp'', ''dport'', port]
                @ [''dnat'', ''to'', GUEST_ADDRESS @ '':'' @ port]),
              nsExec ns ([''nft'', ''add'', ''rule'', ''ip'', ''nat'', ''postrouting'']
                @ [''oifname'', ''fmtap0'', ''ip'', ''daddr'', GUEST_ADDRESS, ''masquerade'']),
              nsExec ns ([''nft'', ''add'', ''rule'', ''inet'', ''filter'', ''forward'']
                @ [''tcp'', ''flags'', ''syn'', ''tcp'', ''option'', ''maxseg'', ''size'', ''set'', CLAMPED_MSS])]))"

section \<open>Processes\<close>

definition mount_namespace_arg :: "int \<Rightarrow> string" where
  "mount_namespace_arg pid = ''--mount=/proc/'' @ int_text pid @ ''/ns/mnt''"

definition mountNamespaceSetupPlan :: "int \<Rightarrow> sandbox_paths \<Rightarrow> js_error + command_plan list" where
  "mountNamespaceSetupPlan pid p =
     (if \<not> is_safe_integer (Num pid) \<or> pid \<le> 0 then Inl (JsError ''Invalid mount namespace PID'')
      else
        (let pre = [mount_namespace_arg pid, ''--''] in Inr
          [cmd ''nsenter'' (pre @ [''mkdir'', ''-p'', canonicalDirectory p]),
           cmd ''nsenter'' (pre @ [''mount'', ''--bind'', physicalDirectory p, canonicalDirectory p])]))"

definition firecrackerLaunchPlan :: "int \<Rightarrow> string \<Rightarrow> string \<Rightarrow> string \<Rightarrow> js_error + command_plan" where
  "firecrackerLaunchPlan pid ns binary socket =
     (case assertIdentifier ns ''network namespace'' of
        Inl e \<Rightarrow> Inl e
      | Inr _ \<Rightarrow> Inr (cmd ''nsenter'' [mount_namespace_arg pid, ''--net=/var/run/netns/'' @ ns, ''--'',
          binary, ''--api-sock'', socket]))"

section \<open>Properties\<close>

lemma first_error_Inr: "first_error cs = Inr u \<longleftrightarrow> list_all (\<lambda>c. \<exists>u. c = Inr u) cs"
  by (induction cs rule: first_error.induct) auto

lemma assertIdentifier_ok: "(assertIdentifier v f = Inr u) \<longleftrightarrow> safeIdentifier v"
  by (simp add: assertIdentifier_def)

text \<open>
  What a command of the plans may touch outside a namespace: the namespace and the
  interface pair of one sandbox.
\<close>

definition host_targets :: "command_plan \<Rightarrow> string list" where
  "host_targets c =
     (case cp_args c of
        [a, b, x] \<Rightarrow> if a = ''netns'' \<or> a = ''link'' \<and> b = ''delete'' then [x] else []
      | a # b # x # r \<Rightarrow>
          if a = ''netns'' then [x]
          else if a = ''link'' \<and> b = ''add'' then [x, last r]
          else if a = ''link'' \<and> b = ''set'' then [x]
          else if a = ''addr'' then [last r] else []
      | _ \<Rightarrow> [])"

lemma host_targets_nsExec: "host_targets (nsExec ns as) = [ns]"
  by (cases as) (simp_all add: host_targets_def nsExec_def cmd_def)

lemma host_targets_ip:
  "host_targets (cmd f [''netns'', ''add'', x]) = [x]"
  "host_targets (cmd f [''link'', ''add'', x, ''type'', ''veth'', ''peer'', ''name'', y]) = [x, y]"
  "host_targets (cmd f (''link'' # ''set'' # x # y # as)) = [x]"
  "host_targets (cmd f [''addr'', ''add'', y, ''dev'', x]) = [x]"
  by (simp_all add: host_targets_def cmd_def)

lemma cp_file_simps: "cp_file (cmd f as) = f" "cp_file (nsExec ns as) = ''ip''"
  by (simp_all add: cmd_def nsExec_def)

text \<open>
  The plans that set up and tear down a sandbox's network touch nothing on the host but
  that sandbox's own namespace, host interface and peer interface; they refuse names that
  are not identifiers (a name beginning with a dash would be read as an option of
  \<open>ip\<close>); and the teardown removes exactly what the first two setup commands create.
\<close>

lemma network_plans_confined:
  assumes "networkCreatePlan q = Inr plans"
  shows "safeIdentifier (np_sandboxId q) \<and> safeIdentifier (np_netns q) \<and> safeIdentifier (np_hostVeth q)
    \<and> list_all (\<lambda>c. cp_file c = ''ip'' \<and> host_targets c \<noteq> []
         \<and> set (host_targets c) \<subseteq> {np_netns q, np_hostVeth q, peer_veth (np_hostVeth q)}) plans
    \<and> (\<exists>rest link. plans = cmd ''ip'' [''netns'', ''add'', np_netns q]
         # cmd ''ip'' ([''link'', ''add'', np_hostVeth q] @ link) # rest)
    \<and> networkDeletePlan (np_netns q) (np_hostVeth q) =
         Inr [cmd ''ip'' [''netns'', ''delete'', np_netns q], cmd ''ip'' [''link'', ''delete'', np_hostVeth q]]"
proof -
  have ids: "safeIdentifier (np_sandboxId q) \<and> safeIdentifier (np_netns q) \<and> safeIdentifier (np_hostVeth q)"
    using assms
    by (auto simp: networkCreatePlan_def first_error_Inr assertIdentifier_ok split: sum.splits)
  then have ok: "assertIdentifier (np_sandboxId q) f = Inr ()" "assertIdentifier (np_netns q) f = Inr ()"
    "assertIdentifier (np_hostVeth q) f = Inr ()" for f
    by (simp_all add: assertIdentifier_def)
  have del: "networkDeletePlan (np_netns q) (np_hostVeth q) =
      Inr [cmd ''ip'' [''netns'', ''delete'', np_netns q], cmd ''ip'' [''link'', ''delete'', np_hostVeth q]]"
    by (simp only: networkDeletePlan_def ok first_error.simps sum.case)
  have plans: "plans = (case networkCreatePlan q of Inr cs \<Rightarrow> cs)" using assms by simp
  have shape: "\<exists>rest link. plans = cmd ''ip'' [''netns'', ''add'', np_netns q]
         # cmd ''ip'' ([''link'', ''add'', np_hostVeth q] @ link) # rest"
    unfolding plans by (simp only: networkCreatePlan_def ok first_error.simps sum.case Let_def)
      (simp add: cmd_def)
  have "list_all (\<lambda>c. cp_file c = ''ip'' \<and> host_targets c \<noteq> []
         \<and> set (host_targets c) \<subseteq> {np_netns q, np_hostVeth q, peer_veth (np_hostVeth q)}) plans"
    unfolding plans
    by (simp only: networkCreatePlan_def ok first_error.simps sum.case Let_def list.pred_inject
        host_targets_nsExec host_targets_ip cp_file_simps)
      simp
  with ids shape del show ?thesis by blast
qed

end
