(* ===== verification/Processes.thy ===== *)
theory Processes
  imports Planning Async
begin

text \<open>
  \<open>platform/processes.ts\<close> and \<open>runtime/relay.ts\<close>: the processes of a sandbox (the
  holder of its mount namespace and Firecracker) and the TCP relays of its exposed ports.
  A spawned process is its pid and a relay handle its listening port. The relays of a sandbox
  live in a \<open>Map\<close> of their own that \<open>start\<close> holds across an \<open>await\<close>; these
  maps are modelled with addresses.
\<close>

section \<open>Processes\<close>

record sandbox_processes =
  ps_mountNamespace :: int
  ps_firecracker :: int

type_synonym process_table = "string \<rightharpoonup> sandbox_processes"

definition startMountNamespace :: "('s, int) prog" where
  "startMountNamespace = call_int (ProcSpawn ''unshare''
     [''--mount'', ''--propagation'', ''private'', ''--'', ''sleep'', ''infinity''])"

definition runPlans :: "command_plan list \<Rightarrow> ('s, unit) prog" where
  "runPlans plans = for_each plans (\<lambda>c. call_unit (ProcRun (cp_file c) (cp_args c)))"

definition copySparse :: "string \<Rightarrow> string \<Rightarrow> ('s, unit) prog" where
  "copySparse source destination = call_unit (ProcRun ''cp''
     [''--sparse=always'', ''--reflink=auto'', ''--'', source, destination])"

definition launch :: "string \<Rightarrow> int \<Rightarrow> command_plan \<Rightarrow> (process_table, int) prog" where
  "launch i mountPid plan =
     Read (\<lambda>ps. if ps i \<noteq> None then Throw (JsError (''Sandbox '' @ i @ '' already has a process''))
       else bind (call_int (ProcSpawn (cp_file plan) (cp_args plan))) (\<lambda>pid.
         seq (modify (\<lambda>ps. ps(i \<mapsto> \<lparr>ps_mountNamespace = mountPid, ps_firecracker = pid\<rparr>)))
           (Return pid)))"

text \<open>\<open>kill\<close> reports failure as \<open>false\<close>, which the source ignores.\<close>

definition proc_kill :: "int \<Rightarrow> ('s, unit) prog" where
  "proc_kill pid = Call (ProcKill pid) (\<lambda>_. skip)"

text \<open>\<open>Promise.allSettled\<close> of two exits: both are awaited and rejections are dropped.\<close>

definition settled :: "('s, 'a) prog \<Rightarrow> ('s, unit) prog" where
  "settled p = bind (attempt p) (\<lambda>_. skip)"

definition stop :: "string \<Rightarrow> (process_table, unit) prog" where
  "stop i = Read (\<lambda>ps. case ps i of
       None \<Rightarrow> skip
     | Some p \<Rightarrow>
         seq (proc_kill (ps_firecracker p))
         (seq (proc_kill (ps_mountNamespace p))
         (seq (settled (call_unit (ProcExited (ps_firecracker p))))
         (seq (settled (call_unit (ProcExited (ps_mountNamespace p))))
           (modify (map_delete i))))))"

definition running :: "process_table \<Rightarrow> string \<Rightarrow> bool" where
  "running ps i \<longleftrightarrow> ps i \<noteq> None"

section \<open>Relays\<close>

record relay_table =
  relayOf :: "string \<rightharpoonup> nat"
  relayMaps :: "nat \<Rightarrow> (js_number \<times> int) list"
  nextMap :: nat

definition no_relays :: relay_table where
  "no_relays = \<lparr>relayOf = Map.empty, relayMaps = (\<lambda>_. []), nextMap = 0\<rparr>"

definition fresh_map :: "(relay_table, nat) prog" where
  "fresh_map = bind (gets nextMap) (\<lambda>m.
     seq (modify (\<lambda>s. s\<lparr>relayMaps := (relayMaps s)(m := []), nextMap := m + 1\<rparr>)) (Return m))"

definition start :: "string \<Rightarrow> js_number \<Rightarrow> int \<Rightarrow> string \<Rightarrow> (relay_table, unit) prog" where
  "start i guestPort hostPort targetHost =
     bind (bind (gets (\<lambda>s. relayOf s i)) (\<lambda>known.
       case known of None \<Rightarrow> fresh_map | Some m \<Rightarrow> Return m)) (\<lambda>m.
     bind (gets (\<lambda>s. map_of (relayMaps s m) guestPort)) (\<lambda>old.
       if old \<noteq> None then skip
       else
         seq (call_unit (RelayListen hostPort targetHost (num_val guestPort)))
         (seq (modify (\<lambda>s. s\<lparr>relayMaps := (relayMaps s)(m := AList.update guestPort hostPort (relayMaps s m))\<rparr>))
           (modify (\<lambda>s. s\<lparr>relayOf := (relayOf s)(i \<mapsto> m)\<rparr>)))))"

definition stopSandbox :: "string \<Rightarrow> (relay_table, unit) prog" where
  "stopSandbox i = bind (gets (\<lambda>s. relayOf s i)) (\<lambda>known.
     case known of
       None \<Rightarrow> skip
     | Some m \<Rightarrow> bind (gets (\<lambda>s. relayMaps s m)) (\<lambda>handles.
         seq (for_each handles (\<lambda>(guest, handle). settled (call_unit (RelayClose handle))))
           (modify (\<lambda>s. s\<lparr>relayOf := map_delete i (relayOf s)\<rparr>))))"

section \<open>Runs\<close>

lemma quiet_settled [intro!]: "quiet p \<Longrightarrow> quiet (settled p)"
  unfolding settled_def by (intro quiet_bind quiet_attempt) simp_all

lemma quiet_proc_kill [simp]: "quiet (proc_kill pid)"
  by (simp add: proc_kill_def)

lemma quiet_runPlans [simp]: "quiet (runPlans plans)"
  unfolding runPlans_def by (intro quiet_for_each) simp

lemma quiet_copySparse [simp]: "quiet (copySparse a b)"
  by (simp add: copySparse_def)

lemma quiet_startMountNamespace [simp]: "quiet startMountNamespace"
  by (simp add: startMountNamespace_def)

lemma run_settled:
  "run E (settled p) s l = (case run E p s l of
     (Value a, s', l') \<Rightarrow> (Value (), s', l')
   | (Raised e, s', l') \<Rightarrow> (Value (), s', l')
   | (Blocked, s', l') \<Rightarrow> (Blocked, s', l'))"
  by (simp add: settled_def run_bind run_attempt split: prod.splits outcome.splits)

lemma run_settled_call [run_simps]:
  "run E (settled (call_unit c)) s l = (Value (), s, l @ [c])"
  by (simp add: run_settled run_call_unit split: reply.splits)

lemma run_proc_kill [run_simps]: "run E (proc_kill pid) s l = (Value (), s, l @ [ProcKill pid])"
  by (simp add: proc_kill_def)

lemma run_runPlans_Value [run_ok]:
  "run E (runPlans plans) s l = (Value u, s', l') \<Longrightarrow>
     s' = s \<and> l' = l @ map (\<lambda>c. ProcRun (cp_file c) (cp_args c)) plans"
proof (induction plans arbitrary: l)
  case (Cons c plans)
  then have "run E (runPlans plans) s (l @ [ProcRun (cp_file c) (cp_args c)]) = (Value u, s', l')"
    by (auto simp: runPlans_def run_ok)
  from Cons.IH [OF this] show ?case by simp
qed (simp add: runPlans_def)

text \<open>Stopping kills both processes, waits for both and forgets them, whatever is reported.\<close>

lemma run_stop [run_simps]:
  "run E (stop i) ps l = (Value (), map_delete i ps,
     (case ps i of None \<Rightarrow> l
      | Some p \<Rightarrow> l @ [ProcKill (ps_firecracker p), ProcKill (ps_mountNamespace p),
          ProcExited (ps_firecracker p), ProcExited (ps_mountNamespace p)]))"
  by (cases "ps i") (auto simp: stop_def run_simps map_delete_def)

lemma run_closes:
  "run E (for_each hs (\<lambda>(g, h). settled (call_unit (RelayClose h)))) s l
     = (Value (), s, l @ map (\<lambda>(g, h). RelayClose h) hs)"
  by (induction hs arbitrary: l) (auto simp: run_simps)

text \<open>Stopping a sandbox's relays closes every handle of its map, whatever is reported.\<close>

lemma run_stopSandbox [run_simps]:
  "run E (stopSandbox i) s l = (Value (),
     (case relayOf s i of None \<Rightarrow> s | Some m \<Rightarrow> s\<lparr>relayOf := map_delete i (relayOf s)\<rparr>),
     l @ (case relayOf s i of None \<Rightarrow> [] | Some m \<Rightarrow> map (\<lambda>(g, h). RelayClose h) (relayMaps s m)))"
  by (cases "relayOf s i") (simp_all add: stopSandbox_def run_simps run_closes)

section \<open>Properties\<close>

text \<open>The handles that stopping the sandbox would close.\<close>

definition live_handles :: "relay_table \<Rightarrow> string \<Rightarrow> int list" where
  "live_handles s i = (case relayOf s i of None \<Rightarrow> [] | Some m \<Rightarrow> map snd (relayMaps s m))"

text \<open>Every registered map was allocated, and no map belongs to two sandboxes.\<close>

definition relays_ok :: "relay_table \<Rightarrow> bool" where
  "relays_ok s \<longleftrightarrow> (\<forall>i m. relayOf s i = Some m \<longrightarrow> m < nextMap s)
     \<and> (\<forall>i j m. relayOf s i = Some m \<and> relayOf s j = Some m \<longrightarrow> i = j)"

text \<open>The map \<open>start\<close> works on, and the table with it.\<close>

definition start_map :: "relay_table \<Rightarrow> string \<Rightarrow> nat \<times> relay_table" where
  "start_map s i = (case relayOf s i of
     None \<Rightarrow> (nextMap s, s\<lparr>relayMaps := (relayMaps s)(nextMap s := []), nextMap := nextMap s + 1\<rparr>)
   | Some m \<Rightarrow> (m, s))"

definition register :: "nat \<Rightarrow> string \<Rightarrow> js_number \<Rightarrow> int \<Rightarrow> relay_table \<Rightarrow> relay_table" where
  "register m i g h s = s\<lparr>relayMaps := (relayMaps s)(m := AList.update g h (relayMaps s m)),
     relayOf := (relayOf s)(i \<mapsto> m)\<rparr>"

lemma run_start:
  "run E (start i g h host) s l =
     (if map_of (relayMaps (snd (start_map s i)) (fst (start_map s i))) g \<noteq> None
      then (Value (), snd (start_map s i), l)
      else (case E l (RelayListen h host (num_val g)) of
          Fail e \<Rightarrow> (Raised e, snd (start_map s i), l @ [RelayListen h host (num_val g)])
        | _ \<Rightarrow> (Value (), register (fst (start_map s i)) i g h (snd (start_map s i)),
            l @ [RelayListen h host (num_val g)])))"
proof (cases "relayOf s i")
  case None
  then show ?thesis
    by (cases "E l (RelayListen h host (num_val g))")
      (simp_all add: start_def fresh_map_def start_map_def register_def run_simps)
next
  case (Some m)
  then show ?thesis
    by (cases "map_of (relayMaps s m) g"; cases "E l (RelayListen h host (num_val g))")
      (simp_all add: start_def start_map_def register_def run_simps)
qed

lemma start_Value:
  assumes "run E (start i g h host) s l = (Value u, s', l')"
  shows "(\<exists>m old. relayOf s i = Some m \<and> map_of (relayMaps s m) g = Some old \<and> s' = s \<and> l' = l)
    \<or> (l' = l @ [RelayListen h host (num_val g)]
        \<and> map_of (relayMaps (snd (start_map s i)) (fst (start_map s i))) g = None
        \<and> s' = register (fst (start_map s i)) i g h (snd (start_map s i)))"
proof (cases "map_of (relayMaps (snd (start_map s i)) (fst (start_map s i))) g")
  case None
  with assms show ?thesis by (auto simp: run_start split: reply.splits)
next
  case (Some old)
  then show ?thesis
    using assms by (cases "relayOf s i") (simp_all add: run_start start_map_def)
qed

text \<open>
  A relay started alone is registered: after \<open>start\<close> returns, \<open>stopSandbox\<close> closes the
  new port and every port the sandbox had, other sandboxes' relays are as they were, and a
  guest port that already has a relay gets no second one.
\<close>

lemma relay_start_registers:
  assumes "run E (start i g h host) s l = (Value u, s', l')" and "relays_ok s"
  shows "relays_ok s'
    \<and> (\<exists>m. relayOf s' i = Some m \<and> map_of (relayMaps s' m) g \<noteq> None)
    \<and> set (live_handles s i) \<subseteq> set (live_handles s' i)
    \<and> (\<forall>j. j \<noteq> i \<longrightarrow> live_handles s' j = live_handles s j)
    \<and> (l' = l \<and> s' = s \<or>
       l' = l @ [RelayListen h host (num_val g)] \<and> h \<in> set (live_handles s' i)
       \<and> (\<forall>t. calls (run E (stopSandbox i) s' t) = t @ map RelayClose (live_handles s' i)))"
proof -
  have closes: "calls (run E (stopSandbox i) x t) = t @ map RelayClose (live_handles x i)" for x t
    by (cases "relayOf x i") (auto simp: run_stopSandbox live_handles_def)
  have upd: "g \<notin> fst ` set xs \<Longrightarrow> AList.update g h xs = xs @ [(g, h)]" for xs
    by (induction xs) auto
  from start_Value [OF assms(1)] show ?thesis
  proof
    assume "\<exists>m old. relayOf s i = Some m \<and> map_of (relayMaps s m) g = Some old \<and> s' = s \<and> l' = l"
    then show ?thesis using assms(2) by auto
  next
    let ?m = "fst (start_map s i)" and ?s0 = "snd (start_map s i)"
    assume new: "l' = l @ [RelayListen h host (num_val g)] \<and> map_of (relayMaps ?s0 ?m) g = None
        \<and> s' = register ?m i g h ?s0"
    then have l': "l' = l @ [RelayListen h host (num_val g)]" by blast
    have other: "relayOf s j \<noteq> Some ?m" if "j \<noteq> i" for j
      using assms(2) that by (cases "relayOf s i") (auto simp: relays_ok_def start_map_def)
    have ok: "relays_ok s'"
      using new assms(2) other
      by (cases "relayOf s i") (auto simp: relays_ok_def register_def start_map_def split: if_splits intro: less_SucI)
    have "set (live_handles s i) \<subseteq> set (live_handles s' i) \<and> h \<in> set (live_handles s' i)"
      using new by (cases "relayOf s i")
        (auto simp: live_handles_def upd map_of_eq_None_iff register_def start_map_def)
    moreover have "live_handles s' j = live_handles s j" if "j \<noteq> i" for j
      using new other [OF that] that
      by (cases "relayOf s i") (auto simp: live_handles_def register_def start_map_def split: option.split)
    moreover have "\<exists>m. relayOf s' i = Some m \<and> map_of (relayMaps s' m) g \<noteq> None"
      using new by (simp add: register_def update_conv')
    ultimately show ?thesis using ok l' closes by blast
  qed
qed

text \<open>
  Two concurrent exposures of different ports on a sandbox that has no relay yet lose one
  of the two relays: both calls find no map, each makes its own, and the second registration
  overwrites the first. Both requests succeed, both ports listen, and \<open>stopSandbox\<close>, which
  fencing relies on, will never close the first one.
\<close>

lemma concurrent_relay_lost:
  assumes "p \<noteq> q" and "h \<noteq> k"
  shows "\<exists>s. sched_reach {start i p h host, start i q k host} ((no_relays, []), [])
      ((s, [RelayListen h host (num_val p), RelayListen k host (num_val q)]),
       [Finished (Inr ()), Finished (Inr ())])
    \<and> live_handles s i = [k]
    \<and> (\<forall>E l. RelayClose h \<notin> set (drop (length l) (calls (run E (stopSandbox i) s l))))"
proof -
  let ?P = "{start i p h host, start i q k host}"
  let ?body = "\<lambda>m g x. seq (modify (\<lambda>s. s\<lparr>relayMaps := (relayMaps s)(m := AList.update g x (relayMaps s m))\<rparr>))
           (modify (\<lambda>s. s\<lparr>relayOf := (relayOf s)(i \<mapsto> m)\<rparr>)) :: (relay_table, unit) prog"
  let ?k = "\<lambda>m g x r. case r of Fail e \<Rightarrow> Throw e | _ \<Rightarrow> ?body m g x"
  let ?l1 = "[RelayListen h host (num_val p)]"
  let ?l2 = "[RelayListen h host (num_val p), RelayListen k host (num_val q)]"
  let ?s1 = "no_relays\<lparr>nextMap := 1\<rparr>"
  let ?s2 = "no_relays\<lparr>nextMap := 2\<rparr>"
  let ?s3 = "?s2\<lparr>relayMaps := (\<lambda>_. [])(0 := [(p, h)]), relayOf := [i \<mapsto> 0]\<rparr>"
  let ?s4 = "?s3\<lparr>relayMaps := (\<lambda>_. [])(0 := [(p, h)], 1 := [(q, k)]), relayOf := [i \<mapsto> 1]\<rparr>"
  have start: "\<exists>c. advance (start i g x host) s l =
      (Waiting (RelayListen x host (num_val g)) c,
       s\<lparr>relayMaps := (relayMaps s)(nextMap s := []), nextMap := nextMap s + 1\<rparr>,
       l @ [RelayListen x host (num_val g)])
     \<and> (\<forall>s' l'. advance (c Ok) s' l' = (Finished (Inr ()),
          s'\<lparr>relayMaps := (relayMaps s')(nextMap s := AList.update g x (relayMaps s' (nextMap s))),
             relayOf := (relayOf s')(i \<mapsto> nextMap s)\<rparr>, l'))"
    if "relayOf s i = None" for g x s l
    using that by (simp add: start_def fresh_map_def call_unit_def)
  have z: "relayOf no_relays i = None" "relayOf ?s1 i = None" by (simp_all add: no_relays_def)
  obtain c where c: "advance (start i p h host) no_relays [] = (Waiting (RelayListen h host (num_val p)) c, ?s1, ?l1)"
    and c2: "\<And>s' l'. advance (c Ok) s' l' = (Finished (Inr ()),
          s'\<lparr>relayMaps := (relayMaps s')(0 := AList.update p h (relayMaps s' 0)),
             relayOf := (relayOf s')(i \<mapsto> 0)\<rparr>, l')"
    using start [OF z(1), of p h "[]"] by (auto simp: no_relays_def fun_upd_idem)
  obtain d where d: "advance (start i q k host) ?s1 ?l1 = (Waiting (RelayListen k host (num_val q)) d, ?s2, ?l2)"
    and d2: "\<And>s' l'. advance (d Ok) s' l' = (Finished (Inr ()),
          s'\<lparr>relayMaps := (relayMaps s')(1 := AList.update q k (relayMaps s' 1)),
             relayOf := (relayOf s')(i \<mapsto> 1)\<rparr>, l')"
    using start [OF z(2), of q k ?l1] by (auto simp: no_relays_def fun_upd_idem)
  have a1: "sched_step ?P ((no_relays, []), []) ((?s1, ?l1), [Waiting (RelayListen h host (num_val p)) c])"
    using sched_step.arrive [of _ ?P, OF _ c, of "[]"] by simp
  have a2: "sched_step ?P ((?s1, ?l1), [Waiting (RelayListen h host (num_val p)) c])
     ((?s2, ?l2), [Waiting (RelayListen h host (num_val p)) c, Waiting (RelayListen k host (num_val q)) d])"
    using sched_step.arrive [of _ ?P, OF _ d, of "[Waiting (RelayListen h host (num_val p)) c]"] by simp
  have a3: "sched_step ?P ((?s2, ?l2), [Waiting (RelayListen h host (num_val p)) c, Waiting (RelayListen k host (num_val q)) d])
     ((?s3, ?l2), [Finished (Inr ()), Waiting (RelayListen k host (num_val q)) d])"
    using sched_step.answer [of 0 "[Waiting (RelayListen h host (num_val p)) c, Waiting (RelayListen k host (num_val q)) d]"
      _ c Ok ?s2 ?l2 _ _ _ ?P, OF _ _ c2] by (simp add: no_relays_def)
  have a4: "sched_step ?P ((?s3, ?l2), [Finished (Inr ()), Waiting (RelayListen k host (num_val q)) d])
     ((?s4, ?l2), [Finished (Inr ()), Finished (Inr ())])"
    using sched_step.answer [of 1 "[Finished (Inr ()), Waiting (RelayListen k host (num_val q)) d]"
      _ d Ok ?s3 ?l2 _ _ _ ?P, OF _ _ d2] by simp
  have "sched_reach ?P ((no_relays, []), []) ((?s4, ?l2), [Finished (Inr ()), Finished (Inr ())])"
    by (rule sched_reach.more [OF sched_reach.more [OF sched_reach.more [OF sched_reach.more
          [OF sched_reach.here a1] a2] a3] a4])
  moreover have "live_handles ?s4 i = [k]" by (simp add: live_handles_def)
  moreover have "RelayClose h \<notin> set (drop (length l) (calls (run E (stopSandbox i) ?s4 l)))" for E l
    using assms(2) by (simp add: run_stopSandbox)
  ultimately show ?thesis by blast
qed

end
