(* ===== verification/Firecracker.thy ===== *)
theory Firecracker
  imports Async Network
begin

text \<open>
  \<open>runtime/firecracker-payloads.ts\<close> and \<open>runtime/firecracker.ts\<close>: the requests the worker
  sends to the API socket of a Firecracker process. A client is its socket path. The reply
  to a request is its status and body; a body is raw text or the text of a JSON value.
\<close>

section \<open>Payloads\<close>

record boot_configuration =
  bc_kernelPath :: string
  bc_rootfsPath :: string
  bc_vsockPath :: string
  bc_vcpuCount :: int
  bc_memSizeMib :: int
  bc_bootArgs :: "string option"
  bc_cpuTemplate :: "string option"
  bc_guestMac :: "string option"
  bc_tapName :: "string option"
  bc_mtu :: "int option"

record load_snapshot_request =
  ls_snapshotPath :: string
  ls_memoryPath :: string
  ls_resume :: "bool option"
  ls_clockRealtime :: "bool option"
  ls_networkOverride :: "(string \<times> string) option"
  ls_vsockOverride :: "string option"

definition DEFAULT_BOOT_ARGS :: string where
  "DEFAULT_BOOT_ARGS = ''console=ttyS0 reboot=k panic=1 pci=off ip=172.16.0.2::172.16.0.1:255.255.255.252::eth0:off''"

text \<open>A spread of an optional member: \<open>...(v === undefined ? {} : \{ k: v \})\<close>.\<close>

definition opt_member :: "string \<Rightarrow> ('a \<Rightarrow> json) \<Rightarrow> 'a option \<Rightarrow> (string \<times> json) list" where
  "opt_member k f v = (case v of None \<Rightarrow> [] | Some x \<Rightarrow> [(k, f x)])"

abbreviation jint :: "int \<Rightarrow> json" where
  "jint n \<equiv> JNum (Num n)"

definition bootSourcePayload :: "boot_configuration \<Rightarrow> json" where
  "bootSourcePayload c = JObj
     [(''kernel_image_path'', JStr (bc_kernelPath c)),
      (''boot_args'', JStr (orelse (bc_bootArgs c) DEFAULT_BOOT_ARGS))]"

definition rootfsDrivePayload :: "boot_configuration \<Rightarrow> json" where
  "rootfsDrivePayload c = JObj
     [(''drive_id'', JStr ''rootfs''), (''path_on_host'', JStr (bc_rootfsPath c)),
      (''is_root_device'', JBool True), (''is_read_only'', JBool False),
      (''cache_type'', JStr ''Writeback'')]"

definition networkInterfacePayload :: "boot_configuration \<Rightarrow> json" where
  "networkInterfacePayload c = JObj
     ([(''iface_id'', JStr ''eth0''), (''host_dev_name'', JStr (orelse (bc_tapName c) ''fmtap0'')),
       (''guest_mac'', JStr (orelse (bc_guestMac c) ''06:00:ac:10:00:02'')),
       (''rx_rate_limiter'', JNull), (''tx_rate_limiter'', JNull)]
      @ opt_member ''mtu'' jint (bc_mtu c))"

definition machineConfigPayload :: "boot_configuration \<Rightarrow> json" where
  "machineConfigPayload c = JObj
     ([(''vcpu_count'', jint (bc_vcpuCount c)), (''mem_size_mib'', jint (bc_memSizeMib c)),
       (''smt'', JBool False), (''huge_pages'', JStr ''None''), (''track_dirty_pages'', JBool False)]
      @ opt_member ''cpu_template'' JStr (bc_cpuTemplate c))"

definition loadSnapshotPayload :: "load_snapshot_request \<Rightarrow> json" where
  "loadSnapshotPayload q = JObj
     ([(''snapshot_path'', JStr (ls_snapshotPath q)),
       (''mem_backend'', JObj [(''backend_path'', JStr (ls_memoryPath q)), (''backend_type'', JStr ''File'')]),
       (''resume_vm'', JBool (orelse (ls_resume q) False))]
      @ opt_member ''clock_realtime'' JBool (ls_clockRealtime q)
      @ opt_member ''network_overrides''
          (\<lambda>(i, d). JArr [JObj [(''iface_id'', JStr i), (''host_dev_name'', JStr d)]]) (ls_networkOverride q)
      @ opt_member ''vsock_override'' (\<lambda>p. JObj [(''uds_path'', JStr p)]) (ls_vsockOverride q))"

section \<open>The client\<close>

fun decodeErrorBody :: "text_data \<Rightarrow> json" where
  "decodeErrorBody (JsonText j) = j"
| "decodeErrorBody (Bytes s) = JStr s"

definition firecracker_error :: "string \<Rightarrow> string \<Rightarrow> int \<Rightarrow> text_data \<Rightarrow> js_error" where
  "firecracker_error meth path status body = firemig FirecrackerApi
     (''Firecracker '' @ meth @ '' '' @ path @ '' returned '' @ int_text status)
     (500 \<le> status) (Some (JObj [(''response'', decodeErrorBody body)])) (Some (nat status))"

definition fc_request :: "string \<Rightarrow> string \<Rightarrow> string \<Rightarrow> json \<Rightarrow> ('s, unit) prog" where
  "fc_request socket meth path body =
     bind (call_status (UnixHttp socket meth path body)) (\<lambda>(status, answer).
       if 200 \<le> status \<and> status < 300 then skip
       else Throw (firecracker_error meth path status answer))"

definition fc_put :: "string \<Rightarrow> string \<Rightarrow> json \<Rightarrow> ('s, unit) prog" where
  "fc_put socket path body = fc_request socket ''PUT'' path body"

definition fc_patch :: "string \<Rightarrow> string \<Rightarrow> json \<Rightarrow> ('s, unit) prog" where
  "fc_patch socket path body = fc_request socket ''PATCH'' path body"

definition fc_configure :: "string \<Rightarrow> boot_configuration \<Rightarrow> ('s, unit) prog" where
  "fc_configure socket c =
     seq (fc_put socket ''/boot-source'' (bootSourcePayload c))
     (seq (fc_put socket ''/drives/rootfs'' (rootfsDrivePayload c))
     (seq (fc_put socket ''/network-interfaces/eth0'' (networkInterfacePayload c))
     (seq (fc_put socket ''/vsock'' (JObj [(''guest_cid'', jint 3), (''uds_path'', JStr (bc_vsockPath c))]))
       (fc_put socket ''/machine-config'' (machineConfigPayload c)))))"

definition fc_start :: "string \<Rightarrow> ('s, unit) prog" where
  "fc_start socket = fc_put socket ''/actions'' (JObj [(''action_type'', JStr ''InstanceStart'')])"

text \<open>The two state changes of a running machine, as the calls they are.\<close>

definition pause_call :: "string \<Rightarrow> syscall" where
  "pause_call socket = UnixHttp socket ''PATCH'' ''/vm'' (JObj [(''state'', JStr ''Paused'')])"

definition resume_call :: "string \<Rightarrow> syscall" where
  "resume_call socket = UnixHttp socket ''PATCH'' ''/vm'' (JObj [(''state'', JStr ''Resumed'')])"

definition fc_pause :: "string \<Rightarrow> ('s, unit) prog" where
  "fc_pause socket = fc_patch socket ''/vm'' (JObj [(''state'', JStr ''Paused'')])"

definition fc_resume :: "string \<Rightarrow> ('s, unit) prog" where
  "fc_resume socket = fc_patch socket ''/vm'' (JObj [(''state'', JStr ''Resumed'')])"

definition fc_createSnapshot :: "string \<Rightarrow> string \<Rightarrow> string \<Rightarrow> ('s, unit) prog" where
  "fc_createSnapshot socket snapshotPath memFile = fc_put socket ''/snapshot/create'' (JObj
     [(''snapshot_type'', JStr ''Full''), (''snapshot_path'', JStr snapshotPath),
      (''mem_file_path'', JStr memFile)])"

definition fc_loadSnapshot :: "string \<Rightarrow> load_snapshot_request \<Rightarrow> ('s, unit) prog" where
  "fc_loadSnapshot socket q = fc_put socket ''/snapshot/load'' (loadSnapshotPayload q)"

section \<open>Facts\<close>

lemma quiet_fc_request [simp]: "quiet (fc_request socket meth path body)"
  unfolding fc_request_def by (intro quiet_bind) (simp_all split: prod.split)

lemma quiet_fc [simp]:
  "quiet (fc_put socket path body)" "quiet (fc_patch socket path body)" "quiet (fc_start socket)"
  "quiet (fc_pause socket)" "quiet (fc_resume socket)" "quiet (fc_createSnapshot socket a b)"
  "quiet (fc_loadSnapshot socket q)"
  by (simp_all add: fc_put_def fc_patch_def fc_start_def fc_pause_def fc_resume_def
      fc_createSnapshot_def fc_loadSnapshot_def)

lemma quiet_fc_configure [simp]: "quiet (fc_configure socket c)"
  unfolding fc_configure_def by (intro quiet_bind) simp_all

text \<open>A request leaves exactly one call in the log, and fails unless the status is 2xx.\<close>

lemma run_fc_request [run_simps]:
  "run E (fc_request socket meth path body) s l =
     (case E l (UnixHttp socket meth path body) of
        Fail e \<Rightarrow> (Raised e, s, l @ [UnixHttp socket meth path body])
      | OkStatus status answer \<Rightarrow>
          ((if 200 \<le> status \<and> status < 300 then Value () else Raised (firecracker_error meth path status answer)),
            s, l @ [UnixHttp socket meth path body])
      | _ \<Rightarrow> (Raised TypeFault, s, l @ [UnixHttp socket meth path body]))"
  by (cases "E l (UnixHttp socket meth path body)")
    (simp_all add: fc_request_def run_bind call_status_def)

definition accepted_status :: "reply \<Rightarrow> bool" where
  "accepted_status r = (case r of OkStatus n d \<Rightarrow> 200 \<le> n \<and> n < 300 | _ \<Rightarrow> False)"

lemma run_fc_request_Value [run_ok]:
  "run E (fc_request socket meth path body) s l = (Value u, s', l') \<longleftrightarrow>
     s' = s \<and> l' = l @ [UnixHttp socket meth path body]
       \<and> accepted_status (E l (UnixHttp socket meth path body))"
  by (auto simp: run_fc_request accepted_status_def split: reply.splits if_splits)

lemma run_fc_resume_Value [run_ok]:
  "run E (fc_resume socket) s l = (Value u, s', l') \<longleftrightarrow>
     s' = s \<and> l' = l @ [resume_call socket] \<and> accepted_status (E l (resume_call socket))"
  by (simp add: fc_resume_def fc_patch_def run_fc_request_Value resume_call_def)

lemma run_fc_pause_Value [run_ok]:
  "run E (fc_pause socket) s l = (Value u, s', l') \<longleftrightarrow>
     s' = s \<and> l' = l @ [pause_call socket] \<and> accepted_status (E l (pause_call socket))"
  by (simp add: fc_pause_def fc_patch_def run_fc_request_Value pause_call_def)

lemma resume_call_neq [simp]:
  "resume_call s \<noteq> pause_call t" "pause_call t \<noteq> resume_call s"
  "(resume_call s = resume_call t) = (s = t)" "(pause_call s = pause_call t) = (s = t)"
  by (simp_all add: resume_call_def pause_call_def)

section \<open>Properties\<close>

definition configure_bodies :: "boot_configuration \<Rightarrow> (string \<times> json) list" where
  "configure_bodies c =
     [(''/boot-source'', bootSourcePayload c), (''/drives/rootfs'', rootfsDrivePayload c),
      (''/network-interfaces/eth0'', networkInterfacePayload c),
      (''/vsock'', JObj [(''guest_cid'', jint 3), (''uds_path'', JStr (bc_vsockPath c))]),
      (''/machine-config'', machineConfigPayload c),
      (''/actions'', JObj [(''action_type'', JStr ''InstanceStart'')])]"

definition put_all :: "string \<Rightarrow> (string \<times> json) list \<Rightarrow> ('s, unit) prog" where
  "put_all socket qs = for_each qs (\<lambda>(path, body). fc_put socket path body)"

definition put_call :: "string \<Rightarrow> string \<times> json \<Rightarrow> syscall" where
  "put_call socket q = UnixHttp socket ''PUT'' (fst q) (snd q)"

lemma bind_bind: "bind (bind p f) g = bind p (\<lambda>x. bind (f x) g)"
  by (induction p) auto

lemma bind_Return: "bind p Return = p"
  by (induction p) auto

lemma configure_start_put_all:
  "seq (fc_configure socket c) (fc_start socket) = put_all socket (configure_bodies c)"
  by (simp add: fc_configure_def fc_start_def put_all_def configure_bodies_def bind_bind bind_Return)

text \<open>What a refused request raises.\<close>

definition refusal :: "string \<Rightarrow> reply \<Rightarrow> js_error" where
  "refusal path r = (case r of
     Fail e \<Rightarrow> e
   | OkStatus status body \<Rightarrow> firecracker_error ''PUT'' path status body
   | _ \<Rightarrow> TypeFault)"

lemma run_put_all:
  obtains (finished) "run E (put_all socket qs) s l = (Value (), s, l @ map (put_call socket) qs)"
      "\<forall>k < length qs. accepted_status (E (l @ map (put_call socket) (take k qs)) (put_call socket (qs ! k)))"
  | (refused) k where "k < length qs"
      "run E (put_all socket qs) s l =
        (Raised (refusal (fst (qs ! k)) (E (l @ map (put_call socket) (take k qs)) (put_call socket (qs ! k)))), s,
         l @ map (put_call socket) (take (Suc k) qs))"
      "\<not> accepted_status (E (l @ map (put_call socket) (take k qs)) (put_call socket (qs ! k)))"
      "\<forall>j < k. accepted_status (E (l @ map (put_call socket) (take j qs)) (put_call socket (qs ! j)))"
proof (induction qs arbitrary: l thesis)
  case Nil
  then show ?case by (simp add: put_all_def)
next
  case (Cons q qs)
  let ?r = "E l (put_call socket q)"
  have head: "run E (put_all socket (q # qs)) s l =
      (if accepted_status ?r then run E (put_all socket qs) s (l @ [put_call socket q])
       else (Raised (refusal (fst q) ?r), s, l @ [put_call socket q]))"
    by (cases q; cases ?r)
      (simp_all add: put_all_def run_simps fc_put_def put_call_def accepted_status_def refusal_def)
  show ?case
  proof (cases "accepted_status ?r")
    case False
    then show ?thesis using Cons.prems(2) [of 0] head by simp
  next
    case True
    show ?thesis
    proof (rule Cons.IH [of "l @ [put_call socket q]"])
      assume "run E (put_all socket qs) s (l @ [put_call socket q])
          = (Value (), s, (l @ [put_call socket q]) @ map (put_call socket) qs)"
        and "\<forall>k < length qs. accepted_status (E ((l @ [put_call socket q]) @ map (put_call socket) (take k qs))
              (put_call socket (qs ! k)))"
      then show ?thesis
        using Cons.prems(1) head True by (simp add: All_less_Suc2)
    next
      fix k
      assume "k < length qs"
        and "run E (put_all socket qs) s (l @ [put_call socket q]) =
          (Raised (refusal (fst (qs ! k)) (E ((l @ [put_call socket q]) @ map (put_call socket) (take k qs))
             (put_call socket (qs ! k)))), s,
           (l @ [put_call socket q]) @ map (put_call socket) (take (Suc k) qs))"
        and "\<not> accepted_status (E ((l @ [put_call socket q]) @ map (put_call socket) (take k qs))
           (put_call socket (qs ! k)))"
        and "\<forall>j < k. accepted_status (E ((l @ [put_call socket q]) @ map (put_call socket) (take j qs))
           (put_call socket (qs ! j)))"
      then show ?thesis
        using Cons.prems(2) [of "Suc k"] head True by (simp add: All_less_Suc2)
    qed
  qed
qed

text \<open>
  Configuring and starting a machine. It is started only after all five of its parts
  were accepted with a 2xx status, in the order the API needs; the first refused part ends
  the sequence, so that nothing is sent after it, and its error is reported (a
  \<open>FIRECRACKER_API_ERROR\<close> for a refused status).
\<close>

lemma configure_start_spec:
  assumes "run E (seq (fc_configure socket c) (fc_start socket)) s l = (r, s', l')"
  shows "\<exists>k \<le> length (configure_bodies c).
    s' = s \<and> l' = l @ map (put_call socket) (take k (configure_bodies c))
    \<and> (r = Value () \<longrightarrow> k = length (configure_bodies c)
         \<and> (\<forall>j < k. accepted_status (E (l @ map (put_call socket) (take j (configure_bodies c)))
               (put_call socket (configure_bodies c ! j)))))
    \<and> (r \<noteq> Value () \<longrightarrow> 0 < k
         \<and> r = Raised (refusal (fst (configure_bodies c ! (k - 1)))
             (E (l @ map (put_call socket) (take (k - 1) (configure_bodies c)))
               (put_call socket (configure_bodies c ! (k - 1)))))
         \<and> (\<forall>j < k - 1. accepted_status (E (l @ map (put_call socket) (take j (configure_bodies c)))
               (put_call socket (configure_bodies c ! j)))))"
proof (rule run_put_all [of E socket "configure_bodies c" s l])
  assume "run E (put_all socket (configure_bodies c)) s l =
      (Value (), s, l @ map (put_call socket) (configure_bodies c))"
    and "\<forall>k < length (configure_bodies c). accepted_status
      (E (l @ map (put_call socket) (take k (configure_bodies c))) (put_call socket (configure_bodies c ! k)))"
  with assms show ?thesis
    by (intro exI [of _ "length (configure_bodies c)"]) (auto simp: configure_start_put_all)
next
  fix k
  assume "k < length (configure_bodies c)"
    and "run E (put_all socket (configure_bodies c)) s l =
        (Raised (refusal (fst (configure_bodies c ! k))
            (E (l @ map (put_call socket) (take k (configure_bodies c))) (put_call socket (configure_bodies c ! k)))), s,
         l @ map (put_call socket) (take (Suc k) (configure_bodies c)))"
    and "\<forall>j < k. accepted_status
      (E (l @ map (put_call socket) (take j (configure_bodies c))) (put_call socket (configure_bodies c ! j)))"
  with assms show ?thesis
    by (intro exI [of _ "Suc k"]) (auto simp: configure_start_put_all)
qed

text \<open>A platform that refuses the third request.\<close>

definition refuse_third :: environment where
  "refuse_third l c = (if length l = 2 then OkStatus 400 (Bytes ''bad'') else calm l c)"

definition small_machine :: boot_configuration where
  "small_machine = \<lparr>bc_kernelPath = ''/k'', bc_rootfsPath = ''/r'', bc_vsockPath = ''/v'', bc_vcpuCount = 2,
     bc_memSizeMib = 512, bc_bootArgs = None, bc_cpuTemplate = None, bc_guestMac = None, bc_tapName = None,
     bc_mtu = None\<rparr>"

end
