(* ===== verification/Guest.thy ===== *)
theory Guest
  imports Async Network
begin

text \<open>
  \<open>runtime/vsock.ts\<close>: calls to the agent inside the guest. \<open>readLine\<close> is modelled over
  the events of its socket; the client's calls are programs in which a whole \<open>readLine\<close> is
  one request to the platform. A client is its socket path. The values the guest sends are
  JSON of any shape; a member the client's types declare to be a string and that is not one
  is read as absent.
\<close>

section \<open>Framing\<close>

datatype socket_event = Data string | SocketError js_error | SocketEnd

definition newline :: char where
  "newline = CHR 0x0A"

definition strip_cr :: "string \<Rightarrow> string" where
  "strip_cr t = (if t \<noteq> [] \<and> last t = CHR 0x0D then butlast t else t)"

text \<open>
  The line and the events that are left: what follows the newline in the last chunk is put
  back. A socket that falls silent never settles the promise.
\<close>

fun read_line :: "string \<Rightarrow> socket_event list \<Rightarrow> (js_error + string) \<times> socket_event list" where
  "read_line buffered [] = (Inl Unsettled, [])"
| "read_line buffered (Data chunk # es) =
     (case index_of newline (buffered @ chunk) of
        None \<Rightarrow> read_line (buffered @ chunk) es
      | Some n \<Rightarrow>
          (Inr (strip_cr (take n (buffered @ chunk))),
           (let remainder = drop (n + 1) (buffered @ chunk)
            in if remainder = [] then es else Data remainder # es)))"
| "read_line buffered (SocketError e # es) = (Inl e, es)"
| "read_line buffered (SocketEnd # es) = (Inl (JsError ''Connection ended before a complete line''), es)"

definition readLine :: "socket_event list \<Rightarrow> (js_error + string) \<times> socket_event list" where
  "readLine es = read_line [] es"

section \<open>Requests\<close>

definition guest_port :: int where
  "guest_port = 5000"

definition digits_text :: "string \<Rightarrow> bool" where
  "digits_text ds \<longleftrightarrow> ds \<noteq> [] \<and> list_all is_digit ds"

text \<open>\<open>/^OK(?: \d+)?$/\<close>\<close>

fun handshake_ok :: "text_data \<Rightarrow> bool" where
  "handshake_ok (Bytes t) = (t = ''OK'' \<or> (\<exists>ds\<in>{drop 3 t}. t = ''OK '' @ ds \<and> digits_text ds))"
| "handshake_ok (JsonText j) = False"

text \<open>The text of a line, for the message of an error; a JSON line is abbreviated.\<close>

fun line_text :: "text_data \<Rightarrow> string" where
  "line_text (Bytes t) = t"
| "line_text (JsonText j) = ''(JSON)''"

fun truthy :: "json option \<Rightarrow> bool" where
  "truthy None = False"
| "truthy (Some JNull) = False"
| "truthy (Some (JBool b)) = b"
| "truthy (Some (JNum n)) = (n \<noteq> Num 0)"
| "truthy (Some (JStr t)) = (t \<noteq> [])"
| "truthy (Some _) = True"

definition str_or :: "json option \<Rightarrow> string \<Rightarrow> string" where
  "str_or v d = (case v of Some (JStr t) \<Rightarrow> t | _ \<Rightarrow> d)"

definition opt_obj_get :: "json option \<Rightarrow> string \<Rightarrow> json option" where
  "opt_obj_get v k = Option.bind v (\<lambda>j. obj_get j k)"

definition guest_error :: "json option \<Rightarrow> js_error" where
  "guest_error err = FiremigError
     \<lparr>err_code = str_or (opt_obj_get err ''code'') (code_text GuestAgent),
      err_message = str_or (opt_obj_get err ''message'') ''Guest agent request failed'',
      err_retryable = False, err_details = None\<rparr> None"

definition decode_response :: "string \<Rightarrow> json \<Rightarrow> js_error + json option" where
  "decode_response uid response =
     (if response = JNull then Inl TypeFault
      else if obj_get response ''id'' \<noteq> Some (JStr uid)
      then Inl (JsError ''Guest agent returned a mismatched request id'')
      else if \<not> truthy (obj_get response ''ok'') then Inl (guest_error (obj_get response ''error''))
      else Inr (obj_get response ''result''))"

text \<open>\<open>socket.write\<close> and \<open>socket.destroy\<close> do not throw.\<close>

definition tell :: "syscall \<Rightarrow> ('s, unit) prog" where
  "tell c = Call c (\<lambda>_. skip)"

definition request_line :: "string \<Rightarrow> string \<Rightarrow> json \<Rightarrow> text_data" where
  "request_line uid meth params = JsonText (JObj [(''id'', JStr uid), (''method'', JStr meth), (''params'', params)])"

definition guest_exchange :: "string \<Rightarrow> string \<Rightarrow> json \<Rightarrow> ('s, json option) prog" where
  "guest_exchange socket meth params =
     seq (tell (VsockSend socket (Bytes (''CONNECT '' @ int_text guest_port @ [newline]))))
     (bind (call_data (VsockReadLine socket)) (\<lambda>handshake.
       if \<not> handshake_ok handshake then Throw (JsError (''Invalid vsock handshake: '' @ line_text handshake))
       else bind (call_text RandomUuid) (\<lambda>uid.
         seq (tell (VsockSend socket (request_line uid meth params)))
         (bind (call_data (VsockReadLine socket)) (\<lambda>line.
           case json_parse line of
             None \<Rightarrow> Throw (JsError ''SyntaxError'')
           | Some response \<Rightarrow> settle (decode_response uid response))))))"

definition guest_call :: "string \<Rightarrow> string \<Rightarrow> json \<Rightarrow> ('s, json option) prog" where
  "guest_call socket meth params =
     seq (call_unit (VsockConnect socket))
       (try_finally (guest_exchange socket meth params) (tell (VsockDestroy socket)))"

definition guest_ready :: "string \<Rightarrow> ('s, json option) prog" where
  "guest_ready socket = guest_call socket ''ready'' (JObj [])"

definition guest_runCommand :: "string \<Rightarrow> json \<Rightarrow> ('s, json option) prog" where
  "guest_runCommand socket params = guest_call socket ''run_command'' params"

definition guest_writeFile :: "string \<Rightarrow> json \<Rightarrow> ('s, json option) prog" where
  "guest_writeFile socket params = guest_call socket ''write_file'' params"

definition guest_syncClock :: "string \<Rightarrow> ('s, json option) prog" where
  "guest_syncClock socket = bind (call_int DateNow) (\<lambda>now.
     guest_call socket ''sync_clock'' (JObj [(''unixTimeNs'', JNum (Num (now * 1000000)))]))"

text \<open>\<open>ready.bootId\<close>: reading a member of \<open>undefined\<close> or \<open>null\<close> throws.\<close>

fun boot_id_of :: "json option \<Rightarrow> js_error + string option" where
  "boot_id_of None = Inl TypeFault"
| "boot_id_of (Some JNull) = Inl TypeFault"
| "boot_id_of (Some j) = Inr (case obj_get j ''bootId'' of Some (JStr b) \<Rightarrow> Some b | _ \<Rightarrow> None)"

section \<open>Facts\<close>

lemma quiet_tell [simp]: "quiet (tell c)"
  by (simp add: tell_def)

lemma run_tell [run_simps]: "run E (tell c) s l = (Value (), s, l @ [c])"
  by (simp add: tell_def)

lemma quiet_guest_exchange [simp]: "quiet (guest_exchange socket meth params)"
  unfolding guest_exchange_def by (intro quiet_bind) (auto split: option.split)

lemma quiet_guest_call [simp]: "quiet (guest_call socket meth params)"
  unfolding guest_call_def by (intro quiet_bind quiet_try_finally) simp_all

lemma quiet_guest [simp]:
  "quiet (guest_ready socket)" "quiet (guest_runCommand socket p)" "quiet (guest_writeFile socket p)"
  "quiet (guest_syncClock socket)"
  unfolding guest_ready_def guest_runCommand_def guest_writeFile_def guest_syncClock_def
  by (auto intro!: quiet_bind)

section \<open>Properties\<close>

lemma index_of_append: "c \<notin> set xs \<Longrightarrow> index_of c (xs @ c # ys) = Some (length xs)"
  by (induction xs) auto

lemma read_line_framing:
  assumes "buffered @ concat chunks = line @ newline # rest" and "newline \<notin> set line"
    and "newline \<notin> set buffered"
  shows "\<exists>left. read_line buffered (map Data chunks @ es) = (Inr (strip_cr line), map Data left @ es)
    \<and> concat left = rest"
  using assms
proof (induction chunks arbitrary: buffered)
  case Nil
  then show ?case by (metis append_Nil2 concat.simps(1) in_set_conv_decomp)
next
  case (Cons c cs)
  show ?case
  proof (cases "newline \<in> set (buffered @ c)")
    case False
    then have "index_of newline (buffered @ c) = None" by (simp only: index_of_None not_False_eq_True)
    with Cons.IH [of "buffered @ c"] Cons.prems False show ?thesis by simp
  next
    case True
    then obtain n where n: "index_of newline (buffered @ c) = Some n"
      using index_of_None by (metis option.exhaust)
    note at = index_of_Some [OF n]
    have split: "buffered @ c = take n (buffered @ c) @ newline # drop (n + 1) (buffered @ c)"
      using at id_take_nth_drop by (metis Suc_eq_plus1)
    have eq: "take n (buffered @ c) @ newline # (drop (n + 1) (buffered @ c) @ concat cs) = line @ newline # rest"
      using Cons.prems(1) split by (metis append.assoc append_Cons concat.simps(2))
    have "newline \<notin> set (take n (buffered @ c))" using at by blast
    then have line: "take n (buffered @ c) = line"
      using eq assms(2)
      by (metis index_of_append length_append_singleton append_eq_append_conv option.inject)
    then have rest: "drop (n + 1) (buffered @ c) @ concat cs = rest" using eq by simp
    show ?thesis
    proof (cases "drop (n + 1) (buffered @ c) = []")
      case True
      then show ?thesis using n line rest by (intro exI [of _ cs]) (simp add: Let_def)
    next
      case False
      then show ?thesis
        using n line rest by (intro exI [of _ "drop (n + 1) (buffered @ c) # cs"]) (simp add: Let_def)
    qed
  qed
qed

text \<open>
  C34: the framing of guest lines does not depend on how the bytes arrive: however the stream
  is cut into chunks, \<open>readLine\<close> yields the bytes before the first newline, less one final
  carriage return, and leaves exactly the bytes after it for the next call.
\<close>

theorem readLine_chunk_independent:
  assumes "concat chunks = line @ newline # rest" and "newline \<notin> set line"
  shows "\<exists>left. readLine (map Data chunks @ es) = (Inr (strip_cr line), map Data left @ es)
    \<and> concat left = rest"
  unfolding readLine_def using assms by (intro read_line_framing) simp_all

theorem readLine_chunk_independent_witness:
  "fst (readLine (map Data [''O'', ''K'' @ [CHR 0x0D], newline # ''{}'', [newline]])) = Inr ''OK''"
proof -
  have "concat [''O'', ''K'' @ [CHR 0x0D], newline # ''{}'', [newline]]
      = (''OK'' @ [CHR 0x0D]) @ newline # (''{}'' @ [newline])" by simp
  from readLine_chunk_independent [OF this, of "[]"] show ?thesis
    by (auto simp: newline_def strip_cr_def)
qed

text \<open>
  A call to the guest agent. It returns a value only after a valid handshake and a
  response that carries the identifier of this very request and is marked \<open>ok\<close>, and
  then the value is that response's result. Once connected, the socket is destroyed on every
  path, errors included, as the last thing done; the call changes no state.
\<close>

lemma guest_call_spec:
  assumes "run E (guest_call socket meth params) s l = (r, s', l')"
  shows "s' = s \<and> r \<noteq> Blocked
    \<and> (l' = l @ [VsockConnect socket] \<and> (\<exists>e. r = Raised e)
       \<or> (\<exists>mid. l' = l @ [VsockConnect socket] @ mid @ [VsockDestroy socket]))
    \<and> (\<forall>v. r = Value v \<longrightarrow> (\<exists>uid handshake response.
        l' = l @ [VsockConnect socket,
               VsockSend socket (Bytes (''CONNECT '' @ int_text guest_port @ [newline])),
               VsockReadLine socket, RandomUuid, VsockSend socket (request_line uid meth params),
               VsockReadLine socket, VsockDestroy socket]
        \<and> handshake_ok handshake \<and> response \<noteq> JNull \<and> obj_get response ''id'' = Some (JStr uid)
        \<and> truthy (obj_get response ''ok'') \<and> v = obj_get response ''result''))"
proof -
  have q: "s' = s \<and> r \<noteq> Blocked"
    using quiet_run [OF quiet_guest_call, of E socket meth params s l] assms by simp
  have ends: "l' = l @ [VsockConnect socket] \<and> (\<exists>e. r = Raised e)
       \<or> (\<exists>mid. l' = l @ [VsockConnect socket] @ mid @ [VsockDestroy socket])"
  proof (cases "\<exists>e. E l (VsockConnect socket) = Fail e")
    case True
    then show ?thesis using assms by (auto simp: guest_call_def run_bind run_call_unit)
  next
    case False
    then have c: "run E (call_unit (VsockConnect socket)) s l = (Value (), s, l @ [VsockConnect socket])"
      by (simp add: run_call_unit split: reply.split)
    obtain t where "calls (run E (guest_exchange socket meth params) s (l @ [VsockConnect socket]))
        = (l @ [VsockConnect socket]) @ t"
      using run_extends [of E "guest_exchange socket meth params" s "l @ [VsockConnect socket]"] by blast
    with c assms show ?thesis
      by (cases rule: quiet_runE [OF quiet_guest_exchange, of E socket meth params s "l @ [VsockConnect socket]"])
        (auto simp: guest_call_def run_bind run_finally run_tell)
  qed
  have "\<exists>uid handshake response.
        l' = l @ [VsockConnect socket,
               VsockSend socket (Bytes (''CONNECT '' @ int_text guest_port @ [newline])),
               VsockReadLine socket, RandomUuid, VsockSend socket (request_line uid meth params),
               VsockReadLine socket, VsockDestroy socket]
        \<and> handshake_ok handshake \<and> response \<noteq> JNull \<and> obj_get response ''id'' = Some (JStr uid)
        \<and> truthy (obj_get response ''ok'') \<and> v = obj_get response ''result''" if "r = Value v" for v
  proof -
    from assms that obtain s1 l1 where x:
        "run E (guest_exchange socket meth params) s (l @ [VsockConnect socket]) = (Value v, s1, l1)"
      and l': "l' = l1 @ [VsockDestroy socket]"
      by (auto simp: guest_call_def run_ok run_tell)
    from x obtain handshake uid line response where "handshake_ok handshake"
      and "l1 = l @ [VsockConnect socket,
               VsockSend socket (Bytes (''CONNECT '' @ int_text guest_port @ [newline])),
               VsockReadLine socket, RandomUuid, VsockSend socket (request_line uid meth params),
               VsockReadLine socket]"
      and "json_parse line = Some response" and "decode_response uid response = Inr v"
      by (auto simp: guest_exchange_def run_ok run_tell split: if_splits option.splits)
    with l' show ?thesis
      by (auto simp: decode_response_def split: if_splits)
  qed
  with q ends show ?thesis by blast
qed


text \<open>A guest that answers one request: identifier \<open>7\<close>, result \<open>true\<close>.\<close>

fun answering :: environment where
  "answering l (VsockReadLine p) =
     (if RandomUuid \<in> set l then OkData (JsonText (JObj [(''id'', JStr ''7''), (''ok'', JBool True), (''result'', JBool True)]))
      else OkData (Bytes ''OK 1024''))"
| "answering l RandomUuid = OkText ''7''"
| "answering l c = Ok"

end
