(* ===== verification/Waiting.thy ===== *)
theory Waiting
  imports Guest Paths
begin

text \<open>
  \<open>worker/snapshot/worker-files.ts\<close>: describing and syncing snapshot files, waiting for a
  file to appear and for the guest agent to answer. The reply to \<open>FsWatch\<close> holds the events
  the watcher will deliver and how it ends: the timeout, the exit of the process that should
  create the file, an error, or none.
\<close>

section \<open>Describing and syncing artifacts\<close>

definition describeArtifact :: "(string \<Rightarrow> nat list) \<Rightarrow> artifact_kind \<Rightarrow> string \<Rightarrow> ('s, artifact_descriptor) prog" where
  "describeArtifact sha kind path =
     bind (call_stat (FsStat path)) (\<lambda>(size, isFile).
     bind (call_chunks (FsReadStream path None)) (\<lambda>(chunks, broken).
       case broken of
         Some e \<Rightarrow> Throw e
       | None \<Rightarrow> Return \<lparr>ad_kind = kind, ad_name = path_basename path, ad_size = size,
           ad_sha256 = hex_text (sha (concat chunks))\<rparr>))"

definition describeSharedArtifact :: "artifact_kind \<Rightarrow> string \<Rightarrow> ('s, artifact_descriptor) prog" where
  "describeSharedArtifact kind path =
     bind (call_stat (FsStat path)) (\<lambda>(size, isFile).
       Return \<lparr>ad_kind = kind, ad_name = path_basename path, ad_size = size,
         ad_sha256 = ''shared-link:'' @ kind_text kind @ '':'' @ int_text size\<rparr>)"

definition sync_path :: "string \<Rightarrow> ('s, unit) prog" where
  "sync_path path = seq (call_unit (FsOpen path ''r''))
     (try_finally (call_unit (FileSync path)) (call_unit (FileClose path)))"

text \<open>\<open>new Set(xs)\<close>, in order of first insertion.\<close>

definition js_set :: "'a list \<Rightarrow> 'a list" where
  "js_set xs = rev (remdups (rev xs))"

definition syncSnapshotFiles :: "string list \<Rightarrow> ('s, unit) prog" where
  "syncSnapshotFiles paths =
     seq (for_each paths sync_path) (for_each (js_set (map path_dirname paths)) sync_path)"

section \<open>Waiting for a file\<close>

definition fileExists :: "string \<Rightarrow> ('s, bool) prog" where
  "fileExists path = try_catch (seq (call_stat (FsStat path)) (Return True))
     (\<lambda>e. if e = Errno ''ENOENT'' then Return False else Throw e)"

definition watch_result :: "string \<Rightarrow> watch_end \<Rightarrow> ('s, unit) prog" where
  "watch_result path how = (case how of
     WatchTimedOut \<Rightarrow> Throw (JsError (''Timed out waiting for '' @ path))
   | WatchProcessExited code \<Rightarrow>
       Throw (JsError (''Process exited before creating '' @ path @ '': '' @ code))
   | WatchFailed e \<Rightarrow> Throw e
   | WatchEnded \<Rightarrow> skip)"

primrec watch_events :: "string \<Rightarrow> string option list \<Rightarrow> watch_end \<Rightarrow> ('s, unit) prog" where
  "watch_events path [] how = watch_result path how"
| "watch_events path (filename # evs) how =
     (if filename \<noteq> None \<and> filename \<noteq> Some (path_basename path) then watch_events path evs how
      else bind (fileExists path) (\<lambda>there. if there then skip else watch_events path evs how))"

text \<open>The watcher is made before the second look, so that no creation is missed.\<close>

definition waitForFile :: "string \<Rightarrow> ('s, unit) prog" where
  "waitForFile path =
     bind (fileExists path) (\<lambda>there.
       if there then skip
       else bind (call_events (FsWatch (path_dirname path))) (\<lambda>(evs, how).
         bind (fileExists path) (\<lambda>there.
           if there then skip else watch_events path evs how)))"

section \<open>Waiting for the guest\<close>

text \<open>\<open>String(error)\<close>.\<close>

fun error_string :: "js_error option \<Rightarrow> string" where
  "error_string None = ''undefined''"
| "error_string (Some (FiremigError b st)) = ''FiremigError: '' @ err_message b"
| "error_string (Some (JsError m)) = ''Error: '' @ m"
| "error_string (Some (Errno c)) = ''Error: '' @ c"
| "error_string (Some TypeFault) = ''TypeError''"
| "error_string (Some Unsettled) = ''undefined''"

definition guest_not_ready :: "js_error option \<Rightarrow> js_error" where
  "guest_not_ready lastError = firemig GuestAgent ''Guest agent did not become ready'' True
     (Some (JObj [(''cause'', JStr (error_string lastError))])) (Some 503)"

text \<open>The loop, with fuel; running out is the error \<open>Unsettled\<close>, which is never thrown.\<close>

fun guest_loop :: "nat \<Rightarrow> string \<Rightarrow> int \<Rightarrow> js_error option \<Rightarrow> ('s, json option) prog" where
  "guest_loop 0 socket deadline lastError = Throw Unsettled"
| "guest_loop (Suc n) socket deadline lastError =
     bind (call_int DateNow) (\<lambda>now.
       if deadline - now \<le> 0 then Throw (guest_not_ready lastError)
       else bind (attempt (guest_ready socket)) (\<lambda>r. case r of
         Inr v \<Rightarrow> Return v
       | Inl e \<Rightarrow> bind (call_int DateNow) (\<lambda>now.
           let backoffMs = min 100 (deadline - now)
           in seq (if 0 < backoffMs then call_unit (SleepFor backoffMs) else skip)
                (guest_loop n socket deadline (Some e)))))"

definition guest_fuel :: "int \<Rightarrow> nat" where
  "guest_fuel timeoutMs = Suc (nat ((timeoutMs + 99) div 100))"

definition waitForGuest :: "string \<Rightarrow> int \<Rightarrow> ('s, json option) prog" where
  "waitForGuest socket timeoutMs =
     bind (call_int DateNow) (\<lambda>now. guest_loop (guest_fuel timeoutMs) socket (now + timeoutMs) None)"

section \<open>Facts\<close>

lemma quiet_describe [simp]: "quiet (describeArtifact sha k p)" "quiet (describeSharedArtifact k p)"
  unfolding describeArtifact_def describeSharedArtifact_def
  by (auto intro!: quiet_bind split: prod.split option.split)

lemma quiet_sync [simp]: "quiet (sync_path p)" "quiet (syncSnapshotFiles ps)"
  unfolding syncSnapshotFiles_def sync_path_def
  by (auto intro!: quiet_bind quiet_for_each quiet_try_finally)

lemma quiet_fileExists [simp]: "quiet (fileExists p)"
  unfolding fileExists_def by (auto intro!: quiet_bind quiet_try_catch)

lemma quiet_watch_events [simp]: "quiet (watch_events p evs how)"
  by (induction evs) (auto simp: watch_result_def intro!: quiet_bind split: watch_end.split)

lemma quiet_waitForFile [simp]: "quiet (waitForFile p)"
  unfolding waitForFile_def by (auto intro!: quiet_bind split: prod.split)

lemma quiet_guest_loop [simp]: "quiet (guest_loop n socket deadline e)"
  by (induction n arbitrary: e) (auto simp: Let_def intro!: quiet_bind quiet_attempt split: sum.split)

lemma quiet_waitForGuest [simp]: "quiet (waitForGuest socket t)"
  unfolding waitForGuest_def by (auto intro!: quiet_bind)

text \<open>
  What is relied on of the clock: it does not go backwards, and a sleep lasts at least as
  long as it was asked to.
\<close>

definition clock_ok :: "environment \<Rightarrow> (syscall list \<Rightarrow> int) \<Rightarrow> bool" where
  "clock_ok E now \<longleftrightarrow> (\<forall>l. E l DateNow = OkInt (now l))
     \<and> (\<forall>l c. now l \<le> now (l @ [c]))
     \<and> (\<forall>l d. E l (SleepFor d) = Ok \<and> now l + d \<le> now (l @ [SleepFor d]))"

lemma clock_mono: "clock_ok E now \<Longrightarrow> now l \<le> now (l @ t)"
proof (induction t arbitrary: l)
  case (Cons c t)
  from Cons.IH [OF Cons.prems, of "l @ [c]"] Cons.prems show ?case
    by (auto simp: clock_ok_def intro: order_trans)
qed simp

lemma clock_sleep: "clock_ok E now \<Longrightarrow> now l + d \<le> now (l @ [SleepFor d])"
  by (simp add: clock_ok_def)

lemma guest_loop_ends:
  assumes clock: "clock_ok E now" and fuel: "deadline - now l \<le> 100 * int n"
  shows "(\<exists>v l'. run E (guest_loop (Suc n) socket deadline e) s l = (Value v, s, l'))
    \<or> (\<exists>x l'. run E (guest_loop (Suc n) socket deadline e) s l = (Raised (guest_not_ready x), s, l')
         \<and> deadline \<le> now l')"
  using fuel
proof (induction n arbitrary: l e)
  case 0
  have "run E (guest_loop (Suc 0) socket deadline e) s l = (Raised (guest_not_ready e), s, l @ [DateNow])"
    using clock 0 by (simp add: run_bind call_int_def clock_ok_def)
  then show ?case using clock_mono [OF clock, of l "[DateNow]"] 0 by auto
next
  case (Suc n)
  have date: "run E (call_int DateNow) s k = (Value (now k), s, k @ [DateNow])" for k
    using clock by (simp add: call_int_def clock_ok_def)
  show ?case
  proof (cases "deadline \<le> now l")
    case True
    then have "run E (guest_loop (Suc (Suc n)) socket deadline e) s l
        = (Raised (guest_not_ready e), s, l @ [DateNow])"
      by (simp add: run_bind date)
    then show ?thesis using clock_mono [OF clock, of l "[DateNow]"] True by auto
  next
    case False
    obtain t where t: "calls (run E (guest_ready socket) s (l @ [DateNow])) = (l @ [DateNow]) @ t"
      using run_extends [of E "guest_ready socket" s "l @ [DateNow]"] by blast
    show ?thesis
    proof (cases rule: quiet_runE [OF quiet_guest(1), of E socket s "l @ [DateNow]"])
      case (1 v l1)
      then show ?thesis using False by (simp add: run_bind run_attempt date)
    next
      case (2 x l1)
      let ?b = "min 100 (deadline - now l1)"
      let ?l2 = "l1 @ [DateNow] @ (if 0 < ?b then [SleepFor ?b] else [])"
      have l1: "now l \<le> now l1" using clock_mono [OF clock, of l "DateNow # t"] t 2 by simp
      have "run E (guest_loop (Suc (Suc n)) socket deadline e) s l
          = run E (guest_loop (Suc n) socket deadline (Some x)) s ?l2"
        using False 2 clock
        by (simp add: run_bind run_attempt date run_call_unit Let_def clock_ok_def del: guest_loop.simps(2))
          (simp add: run_bind run_attempt date run_call_unit Let_def clock_ok_def)
      moreover have "deadline - now ?l2 \<le> 100 * int n"
      proof (cases "0 < ?b")
        case True
        have "now l1 \<le> now (l1 @ [DateNow])" by (rule clock_mono [OF clock])
        moreover have "now (l1 @ [DateNow]) + ?b \<le> now ((l1 @ [DateNow]) @ [SleepFor ?b])"
          by (rule clock_sleep [OF clock])
        ultimately show ?thesis using True Suc.prems l1 by (simp split: if_splits)
      next
        case False
        then show ?thesis using clock_mono [OF clock, of l1 "[DateNow]"] by simp
      qed
      ultimately show ?thesis using Suc.IH [of ?l2 "Some x"] by simp
    qed
  qed
qed


text \<open>A guest that never connects, and a clock that advances by its sleeps only.\<close>

fun slept :: "syscall list \<Rightarrow> int" where
  "slept [] = 0"
| "slept (SleepFor d # l) = max 0 d + slept l"
| "slept (_ # l) = slept l"

fun dead_guest :: environment where
  "dead_guest l DateNow = OkInt (slept l)"
| "dead_guest l (SleepFor d) = Ok"
| "dead_guest l c = Fail (Errno ''ECONNREFUSED'')"

lemma slept_append: "slept (l @ [c]) = slept l + slept [c]"
  by (induction l rule: slept.induct) simp_all


end
