(* ===== verification/Artifacts.thy ===== *)
theory Artifacts
  imports Async Network Paths
begin

text \<open>
  \<open>artifacts/manifest.ts\<close>, \<open>artifact-range.ts\<close>, \<open>artifact-partial.ts\<close> and
  \<open>transfer.ts\<close>: the compatibility check of a snapshot, the source's range requests, and
  the destination's resumable pull. The running SHA-256 \<open>hash\<close> of the source is the bytes
  it was fed (\<open>sha\<close> of the whole, at \<open>digest\<close>).
\<close>

section \<open>Compatibility\<close>

record host_compatibility =
  hc_firecrackerVersion :: string
  hc_firecrackerDigest :: string
  hc_snapshotFormatVersion :: string
  hc_hostKernelVersion :: string
  hc_architecture :: string
  hc_cpuVendor :: string
  hc_cpuModel :: string
  hc_cpuFamily :: string
  hc_cpuStepping :: string
  hc_guestKernelDigest :: string
  hc_cpuTemplate :: string
  hc_smt :: bool
  hc_hugePages :: huge_pages

fun bool_text :: "bool \<Rightarrow> string" where
  "bool_text True = ''true''"
| "bool_text False = ''false''"

fun huge_text :: "huge_pages \<Rightarrow> string" where
  "huge_text NoHugePages = ''None''"
| "huge_text Huge2M = ''2M''"

definition compat_checks :: "compat_manifest \<Rightarrow> host_compatibility \<Rightarrow> (string \<times> string \<times> string) list" where
  "compat_checks m h =
     [(''Firecracker version'', m_firecrackerVersion m, hc_firecrackerVersion h),
      (''Firecracker digest'', m_firecrackerDigest m, hc_firecrackerDigest h),
      (''snapshot format'', m_snapshotFormatVersion m, hc_snapshotFormatVersion h),
      (''host kernel'', m_hostKernelVersion m, hc_hostKernelVersion h),
      (''CPU architecture'', cpu_architecture (m_cpu m), hc_architecture h),
      (''CPU vendor'', cpu_vendor (m_cpu m), hc_cpuVendor h),
      (''CPU model'', cpu_model (m_cpu m), hc_cpuModel h),
      (''CPU family'', cpu_family (m_cpu m), hc_cpuFamily h),
      (''CPU stepping'', cpu_stepping (m_cpu m), hc_cpuStepping h),
      (''guest kernel'', m_guestKernelDigest m, hc_guestKernelDigest h),
      (''CPU template'', m_cpuTemplate m, hc_cpuTemplate h),
      (''SMT'', bool_text (m_smt m), bool_text (hc_smt h)),
      (''huge pages'', huge_text (m_hugePages m), huge_text (hc_hugePages h))]"

definition compatibilityProblems :: "compat_manifest \<Rightarrow> host_compatibility \<Rightarrow> string list" where
  "compatibilityProblems m h =
     map (\<lambda>(name, source, destination). name @ '': source='' @ source @ '' destination='' @ destination)
       (filter (\<lambda>(name, source, destination). source \<noteq> destination) (compat_checks m h))"

definition problem_details :: "string list \<Rightarrow> json" where
  "problem_details ps = JObj [(''problems'', JArr (map JStr ps))]"

definition consumed_error :: js_error where
  "consumed_error = firemig SnapshotConsumed ''Snapshot has already been consumed'' False None (Some 409)"

definition incompatible_error :: "string list \<Rightarrow> js_error" where
  "incompatible_error ps = firemig IncompatibleDestination
     ''Destination is incompatible with the snapshot'' False (Some (problem_details ps)) (Some 412)"

definition assertCompatible :: "compat_manifest \<Rightarrow> host_compatibility \<Rightarrow> js_error + unit" where
  "assertCompatible m h =
     (if m_consumed m then Inl consumed_error
      else (let problems = compatibilityProblems m h
            in if problems \<noteq> [] then Inl (incompatible_error problems) else Inr ()))"

section \<open>Ranges\<close>

record artifact_range =
  rg_start :: int
  rg_end :: int

record artifact_serve =
  as_status :: nat
  as_headers :: "(string \<times> string) list"
  as_range :: "int \<times> int"

definition rangeError :: "string \<Rightarrow> js_error" where
  "rangeError m = firemig ArtifactRangeInvalid m False None (Some 416)"

text \<open>
  \<open>/^bytes=(\d+)-(\d*)$/\<close>: the two groups. \<open>Number\<close> of a run of digits is its value;
  from \<open>2\<^sup>5\<^sup>3\<close> on the source sees a rounded number, which is not a safe integer either.
\<close>

definition range_match :: "string \<Rightarrow> (string \<times> string) option" where
  "range_match header =
     (if \<not> starts_with header ''bytes='' then None
      else (case split_on CHR ''-'' (drop 6 header) of
          [a, b] \<Rightarrow> if a \<noteq> [] \<and> list_all is_digit a \<and> list_all is_digit b then Some (a, b) else None
        | _ \<Rightarrow> None))"

definition parseRangeHeader :: "string option \<Rightarrow> int \<Rightarrow> js_error + artifact_range option" where
  "parseRangeHeader header bytes =
     (case header of
        None \<Rightarrow> Inr None
      | Some h \<Rightarrow>
          (case range_match h of
             None \<Rightarrow> Inl (rangeError ''Invalid Range header'')
           | Some (a, b) \<Rightarrow>
               (let first = int (digits_nat a);
                    requestedEnd = (if b = [] then bytes - 1 else int (digits_nat b))
                in if \<not> is_safe_integer (Num first) \<or> \<not> is_safe_integer (Num requestedEnd) \<or> first < 0
                      \<or> first \<ge> bytes \<or> requestedEnd < first
                   then Inl (rangeError ''Range is outside the artifact'')
                   else Inr (Some \<lparr>rg_start = first, rg_end = min requestedEnd (bytes - 1)\<rparr>))))"

definition serve_headers :: "int \<Rightarrow> int \<Rightarrow> int \<Rightarrow> bool \<Rightarrow> artifact_descriptor \<Rightarrow> (string \<times> string) list" where
  "serve_headers lo hi bytes partially d =
     [(''accept-ranges'', ''bytes''), (''content-type'', ''application/octet-stream''),
      (''content-length'', int_text (hi - lo + 1)), (''x-artifact-sha256'', ad_sha256 d)]
     @ (if partially
        then [(''content-range'', ''bytes '' @ int_text lo @ ''-'' @ int_text hi @ ''/'' @ int_text bytes)]
        else [])"

text \<open>\<open>createReadStream\<close> refuses a range that ends before it starts, that of an empty file.\<close>

definition openArtifactRange :: "string \<Rightarrow> artifact_descriptor \<Rightarrow> string option \<Rightarrow> ('s, artifact_serve) prog" where
  "openArtifactRange path d header =
     bind (call_stat (FsStat path)) (\<lambda>(size, isFile).
       if \<not> isFile \<or> size \<noteq> ad_size d then Throw (JsError ''Artifact changed after manifest creation'')
       else bind (settle (parseRangeHeader header size)) (\<lambda>range.
         let lo = (case range of None \<Rightarrow> 0 | Some r \<Rightarrow> rg_start r);
             hi = (case range of None \<Rightarrow> size - 1 | Some r \<Rightarrow> rg_end r)
         in if hi < lo then Throw (Errno ''ERR_OUT_OF_RANGE'')
            else Return \<lparr>as_status = (if range = None then 200 else 206),
              as_headers = serve_headers lo hi size (range \<noteq> None) d,
              as_range = (lo, hi)\<rparr>))"

text \<open>The bytes \<open>createReadStream(path, \{ start, end \})\<close> yields of a file's content.\<close>

definition slice :: "int \<Rightarrow> int \<Rightarrow> string \<Rightarrow> string" where
  "slice lo hi content = take (nat (hi - lo + 1)) (drop (nat lo) content)"

section \<open>The pull\<close>

record pull_options =
  pull_url :: string
  pull_destination :: string
  pull_descriptor :: artifact_descriptor
  pull_headers :: "(string \<times> string) list"

text \<open>
  The offset to resume at and the bytes hashed so far; the bytes read before an error stay
  in the hash.
\<close>

definition resumeFromPartial :: "string \<Rightarrow> int \<Rightarrow> ('s, int \<times> string) prog" where
  "resumeFromPartial partialPath declaredSize =
     try_catch
       (bind (call_stat (FsStat partialPath)) (\<lambda>(size, isFile).
          if \<not> isFile \<or> declaredSize < size
          then seq (call_unit (FsRm partialPath)) (Return (0, []))
          else bind (call_chunks (FsReadStream partialPath None)) (\<lambda>(chunks, broken).
            case broken of
              None \<Rightarrow> Return (size, concat chunks)
            | Some e \<Rightarrow> if e \<noteq> Errno ''ENOENT'' then Throw e else Return (0, concat chunks))))
       (\<lambda>e. if e \<noteq> Errno ''ENOENT'' then Throw e else Return (0, []))"

definition hash_mismatch_error :: "artifact_descriptor \<Rightarrow> int \<Rightarrow> string \<Rightarrow> js_error" where
  "hash_mismatch_error d received digest = firemig ArtifactHashMismatch
     ''Transferred artifact failed size or SHA-256 verification'' True
     (Some (JObj [(''expectedSize'', JNum (Num (ad_size d))), (''actualSize'', JNum (Num received)),
        (''expectedSha256'', JStr (ad_sha256 d)), (''actualSha256'', JStr digest)]))
     (Some 422)"

definition verifyOrDiscard :: "(string \<Rightarrow> nat list) \<Rightarrow> string \<Rightarrow> artifact_descriptor \<Rightarrow> int \<Rightarrow> string \<Rightarrow> ('s, unit) prog" where
  "verifyOrDiscard sha partialPath d received hashed =
     (let digest = hex_text (sha hashed)
      in if received = ad_size d \<and> digest = ad_sha256 d then skip
         else seq (call_unit (FsRm partialPath)) (Throw (hash_mismatch_error d received digest)))"

definition commitArtifact :: "string \<Rightarrow> string \<Rightarrow> ('s, unit) prog" where
  "commitArtifact partialPath destinationPath =
     seq (call_unit (FsRename partialPath destinationPath))
     (seq (call_unit (FsOpen (path_dirname destinationPath) ''r''))
        (try_finally (call_unit (FileSync (path_dirname destinationPath)))
           (call_unit (FileClose (path_dirname destinationPath)))))"

definition overflow_error :: js_error where
  "overflow_error = JsError ''Artifact source sent more bytes than declared''"

text \<open>The loop over the body's chunks; \<open>broken\<close> is the error that cut the body short.\<close>

primrec write_chunks :: "string \<Rightarrow> int \<Rightarrow> string list \<Rightarrow> js_error option \<Rightarrow> int \<Rightarrow> string \<Rightarrow> ('s, int \<times> string) prog" where
  "write_chunks partialPath declared [] broken off hashed =
     (case broken of Some e \<Rightarrow> Throw e | None \<Rightarrow> Return (off, hashed))"
| "write_chunks partialPath declared (chunk # chunks) broken off hashed =
     seq (call_unit (FileWrite partialPath (Bytes chunk)))
       (if declared < off + int (length chunk) then Throw overflow_error
        else write_chunks partialPath declared chunks broken (off + int (length chunk)) (hashed @ chunk))"

definition writeBody :: "pull_options \<Rightarrow> string \<Rightarrow> string \<Rightarrow> int \<Rightarrow> string list \<times> js_error option \<Rightarrow> ('s, int \<times> string) prog" where
  "writeBody q partialPath hashed resumedAt body =
     seq (call_unit (FsOpen partialPath (if resumedAt = 0 then ''w'' else ''a'')))
       (try_finally
          (bind (write_chunks partialPath (ad_size (pull_descriptor q)) (fst body) (snd body) resumedAt hashed)
             (\<lambda>x. seq (call_unit (FileSync partialPath)) (Return x)))
          (call_unit (FileClose partialPath)))"

definition source_status_error :: "int \<Rightarrow> int \<Rightarrow> js_error" where
  "source_status_error status required = firemig TransferInterrupted
     (''Artifact source returned '' @ int_text status @ ''; expected '' @ int_text required) True None None"

definition source_hash_error :: js_error where
  "source_hash_error = firemig ArtifactHashMismatch ''Source manifest hash changed'' False None (Some 409)"

definition download_headers :: "pull_options \<Rightarrow> int \<Rightarrow> (string \<times> string) list" where
  "download_headers q resumedAt = pull_headers q
     @ (if resumedAt = 0 then [] else [(''range'', ''bytes='' @ int_text resumedAt @ ''-'')])"

definition downloadRemainder :: "pull_options \<Rightarrow> string \<Rightarrow> string \<Rightarrow> int \<Rightarrow> ('s, int \<times> string) prog" where
  "downloadRemainder q partialPath hashed resumedAt =
     bind (call_http (HttpGet (pull_url q) (download_headers q resumedAt))) (\<lambda>response.
       let requiredStatus = (if resumedAt = 0 then 200 else 206) in
       case (http_status response = requiredStatus, http_body response) of
         (True, Some body) \<Rightarrow>
           (if http_hash response \<noteq> None \<and> http_hash response \<noteq> Some (ad_sha256 (pull_descriptor q))
            then Throw source_hash_error
            else writeBody q partialPath hashed resumedAt body)
       | _ \<Rightarrow> Throw (source_status_error (http_status response) requiredStatus))"

definition partial_path :: "string \<Rightarrow> string" where
  "partial_path p = p @ ''.partial''"

text \<open>The result is the offset resumed at and the number of bytes written.\<close>

definition pullArtifact :: "(string \<Rightarrow> nat list) \<Rightarrow> pull_options \<Rightarrow> ('s, int \<times> int) prog" where
  "pullArtifact sha q =
     (let partialPath = partial_path (pull_destination q); d = pull_descriptor q in
      seq (call_unit (FsMkdir (path_dirname (pull_destination q)) True))
      (bind (resumeFromPartial partialPath (ad_size d)) (\<lambda>(resumedAt, hashed).
       bind (if resumedAt < ad_size d then downloadRemainder q partialPath hashed resumedAt
             else Return (resumedAt, hashed)) (\<lambda>(received, hashed).
       seq (verifyOrDiscard sha partialPath d received hashed)
       (seq (commitArtifact partialPath (pull_destination q))
         (Return (resumedAt, received - resumedAt)))))))"

section \<open>Several operations with one abort signal\<close>

text \<open>
  \<open>runAbortableOperations\<close>. The operations are started together; they are run here in the
  order of the list, each to its end. The abort signal is the error of the first that failed.
\<close>

primrec run_tasks :: "(js_error option \<Rightarrow> ('s, 'a) prog) list \<Rightarrow> js_error option \<Rightarrow> ('s, (js_error + 'a) list) prog" where
  "run_tasks [] aborted = Return []"
| "run_tasks (task # tasks) aborted =
     bind (attempt (task aborted)) (\<lambda>r.
     bind (run_tasks tasks (case (aborted, r) of (None, Inl e) \<Rightarrow> Some e | _ \<Rightarrow> aborted)) (\<lambda>rs.
       Return (r # rs)))"

primrec first_rejected :: "(js_error + 'a) list \<Rightarrow> js_error option" where
  "first_rejected [] = None"
| "first_rejected (r # rs) = (case r of Inl e \<Rightarrow> Some e | Inr _ \<Rightarrow> first_rejected rs)"

definition fulfilled :: "(js_error + 'a) list \<Rightarrow> 'a list" where
  "fulfilled rs = List.map_filter (\<lambda>r. case r of Inl _ \<Rightarrow> None | Inr v \<Rightarrow> Some v) rs"

definition runAbortableOperations :: "(js_error option \<Rightarrow> ('s, 'a) prog) list \<Rightarrow> ('s, 'a list) prog" where
  "runAbortableOperations tasks =
     bind (run_tasks tasks None) (\<lambda>rs.
       case first_rejected rs of Some e \<Rightarrow> Throw e | None \<Rightarrow> Return (fulfilled rs))"

section \<open>Compatibility is exactly equality of the thirteen facts\<close>

lemma bool_text_eq: "(bool_text a = bool_text b) = (a = b)"
  by (cases a; cases b) simp_all

lemma huge_text_eq: "(huge_text a = huge_text b) = (a = b)"
  by (cases a; cases b) simp_all

lemma no_problems: "compatibilityProblems m h = [] \<longleftrightarrow> list_all (\<lambda>(n, a, b). a = b) (compat_checks m h)"
  by (auto simp: compatibilityProblems_def filter_empty_conv list_all_iff)

text \<open>
  A destination accepts a snapshot exactly when it was not consumed and the host agrees
  with its source in all thirteen facts: Firecracker's version and digest, the snapshot
  format, both kernels, the five facts of the CPU, the CPU template, SMT and huge pages. It
  refuses a consumed one as \<open>SNAPSHOT_CONSUMED\<close> first, and any difference as
  \<open>INCOMPATIBLE_DESTINATION\<close> with one line for each difference.
\<close>

lemma assertCompatible_exact:
  "assertCompatible m h =
     (if m_consumed m then Inl consumed_error
      else if m_firecrackerVersion m = hc_firecrackerVersion h \<and> m_firecrackerDigest m = hc_firecrackerDigest h
        \<and> m_snapshotFormatVersion m = hc_snapshotFormatVersion h \<and> m_hostKernelVersion m = hc_hostKernelVersion h
        \<and> m_cpu m = \<lparr>cpu_architecture = hc_architecture h, cpu_vendor = hc_cpuVendor h, cpu_model = hc_cpuModel h,
            cpu_family = hc_cpuFamily h, cpu_stepping = hc_cpuStepping h\<rparr>
        \<and> m_guestKernelDigest m = hc_guestKernelDigest h \<and> m_cpuTemplate m = hc_cpuTemplate h
        \<and> m_smt m = hc_smt h \<and> m_hugePages m = hc_hugePages h
      then Inr ()
      else Inl (incompatible_error (compatibilityProblems m h)))
   \<and> length (compatibilityProblems m h) = length (filter (\<lambda>(n, a, b). a \<noteq> b) (compat_checks m h))"
proof -
  have "compatibilityProblems m h = [] \<longleftrightarrow>
      m_firecrackerVersion m = hc_firecrackerVersion h \<and> m_firecrackerDigest m = hc_firecrackerDigest h
      \<and> m_snapshotFormatVersion m = hc_snapshotFormatVersion h \<and> m_hostKernelVersion m = hc_hostKernelVersion h
      \<and> m_cpu m = \<lparr>cpu_architecture = hc_architecture h, cpu_vendor = hc_cpuVendor h, cpu_model = hc_cpuModel h,
          cpu_family = hc_cpuFamily h, cpu_stepping = hc_cpuStepping h\<rparr>
      \<and> m_guestKernelDigest m = hc_guestKernelDigest h \<and> m_cpuTemplate m = hc_cpuTemplate h
      \<and> m_smt m = hc_smt h \<and> m_hugePages m = hc_hugePages h"
    unfolding no_problems compat_checks_def
    by (cases "m_cpu m") (auto simp: bool_text_eq huge_text_eq)
  then show ?thesis
    by (simp add: assertCompatible_def Let_def compatibilityProblems_def)
qed

section \<open>Ranges\<close>

text \<open>
  A byte range the source serves lies inside the artifact, is not empty, and is
  announced with its exact length; a header is either honoured, or refused with status 416,
  or absent. A malformed header is never served as the whole file.
\<close>

lemma parseRangeHeader_bounds:
  "case parseRangeHeader header (int (length content)) of
     Inl e \<Rightarrow> header \<noteq> None \<and> error_status_of e = Some 416 \<and> has_code e ArtifactRangeInvalid
   | Inr None \<Rightarrow> header = None
   | Inr (Some r) \<Rightarrow> header \<noteq> None \<and> 0 \<le> rg_start r \<and> rg_start r \<le> rg_end r \<and> rg_end r < int (length content)
       \<and> int (length (slice (rg_start r) (rg_end r) content)) = rg_end r - rg_start r + 1"
  by (auto simp: parseRangeHeader_def rangeError_def Let_def slice_def split: option.split)

text \<open>
  C33: what is served lies inside the file. The range of a stream is not empty and within the
  file, the length announced is the number of bytes that follow, and without a \<open>Range\<close> header
  they are the whole file; a header that cannot be honoured is refused with status 416 and never
  served as the whole file.
\<close>

theorem served_range_bounds:
  assumes "E l (FsStat path) = OkStat (int (length content)) True"
  shows "case result (run E (openArtifactRange path d header) s l) of
      Value v \<Rightarrow> (case as_range v of (lo, hi) \<Rightarrow>
        ad_size d = int (length content) \<and> 0 \<le> lo \<and> lo \<le> hi \<and> hi < int (length content)
        \<and> map_of (as_headers v) ''content-length'' = Some (int_text (int (length (slice lo hi content))))
        \<and> (if header = None then as_status v = 200 \<and> slice lo hi content = content
           else as_status v = 206 \<and> map_of (as_headers v) ''content-range''
             = Some (''bytes '' @ int_text lo @ ''-'' @ int_text hi @ ''/'' @ int_text (int (length content)))))
    | Raised e \<Rightarrow> ad_size d \<noteq> int (length content)
        \<or> (if header = None then content = [] else error_status_of e = Some 416 \<and> has_code e ArtifactRangeInvalid)
    | Blocked \<Rightarrow> False"
proof (cases "parseRangeHeader header (int (length content))")
  case (Inl e)
  with parseRangeHeader_bounds [of header content] assms show ?thesis
    by (auto simp: openArtifactRange_def run_bind call_stat_def run_settle)
next
  case (Inr rng)
  show ?thesis
  proof (cases rng)
    case None
    with Inr parseRangeHeader_bounds [of header content] assms show ?thesis
      by (cases "ad_size d = int (length content)"; cases content)
        (simp_all add: openArtifactRange_def run_bind call_stat_def run_settle Let_def serve_headers_def slice_def)
  next
    case (Some r)
    with Inr parseRangeHeader_bounds [of header content] assms show ?thesis
      by (auto simp: openArtifactRange_def run_bind call_stat_def run_settle Let_def serve_headers_def)
  qed
qed

theorem served_range_bounds_witness:
  "\<exists>v. result (run (\<lambda>_ _. OkStat 3 True) (openArtifactRange ''/a'' \<lparr>ad_kind = MemFile, ad_name = ''a'', ad_size = 3, ad_sha256 = ''h''\<rparr>
      (Some ''bytes=1-9'')) () []) = Value v \<and> as_range v = (1, 2)
    \<and> (case as_range v of (lo, hi) \<Rightarrow> map_of (as_headers v) ''content-length'' = Some (int_text (int (length (slice lo hi ''abc'')))))"
proof -
  let ?d = "\<lparr>ad_kind = MemFile, ad_name = ''a'', ad_size = 3, ad_sha256 = ''h''\<rparr> :: artifact_descriptor"
  have "parseRangeHeader (Some ''bytes=1-9'') 3 = Inr (Some \<lparr>rg_start = 1, rg_end = 2\<rparr>)" by code_simp
  then obtain v where v: "result (run (\<lambda>_ _. OkStat 3 True) (openArtifactRange ''/a'' ?d (Some ''bytes=1-9'')) () []) = Value v"
      "as_range v = (1, 2)"
    by (simp add: openArtifactRange_def run_bind call_stat_def run_settle Let_def)
  show ?thesis
    using served_range_bounds [of "\<lambda>_ _. OkStat 3 True" "[]" "''/a''" "''abc''" ?d "Some ''bytes=1-9''" "()"] v by auto
qed

lemma range_header_understood:
  assumes "0 \<le> n" and "n < bytes" and "bytes \<le> max_safe + 1"
  shows "parseRangeHeader (Some (''bytes='' @ int_text n @ ''-'')) bytes
    = Inr (Some \<lparr>rg_start = n, rg_end = bytes - 1\<rparr>)"
proof -
  have digits: "list_all is_digit (nat_text (nat n))" "nat_text (nat n) \<noteq> []"
    by (simp_all add: nat_text_digits)
  have "CHR ''-'' \<notin> set (nat_text (nat n))"
  proof
    assume "CHR ''-'' \<in> set (nat_text (nat n))"
    with digits have "is_digit CHR ''-''" by (simp add: list_all_iff)
    with not_digit_dash show False by blast
  qed
  then have "split_on CHR ''-'' (nat_text (nat n) @ ''-'') = [nat_text (nat n), []]"
    using split_on_append [of "CHR ''-''" "nat_text (nat n)" "[]"] by simp
  then have "range_match (''bytes='' @ int_text n @ ''-'') = Some (nat_text (nat n), [])"
    using assms digits by (simp add: range_match_def int_text_def starts_with_def)
  then show ?thesis
    using assms by (simp add: parseRangeHeader_def Let_def max_safe_def digits_nat_text)
qed

section \<open>The pull, on a disk\<close>

text \<open>
  The files a log of successful calls leaves: the meaning of the file requests, for stating
  what a pull does to the disk.
\<close>

type_synonym disk = "string \<rightharpoonup> string"

fun disk_step :: "disk \<Rightarrow> syscall \<Rightarrow> disk" where
  "disk_step f (FsOpen p flags) =
     (if flags = ''w'' then f(p \<mapsto> [])
      else if flags = ''a'' then f(p \<mapsto> orelse (f p) []) else f)"
| "disk_step f (FileWrite p d) =
     (case (f p, d) of (Some c, Bytes b) \<Rightarrow> f(p \<mapsto> c @ b) | _ \<Rightarrow> f)"
| "disk_step f (FsRm p) = map_delete p f"
| "disk_step f (FsRename a b) = (case f a of None \<Rightarrow> f | Some c \<Rightarrow> (map_delete a f)(b \<mapsto> c))"
| "disk_step f _ = f"

definition disk_after :: "disk \<Rightarrow> syscall list \<Rightarrow> disk" where
  "disk_after f l = foldl disk_step f l"

lemma disk_after_simps [simp]:
  "disk_after f [] = f" "disk_after f (l @ [c]) = disk_step (disk_after f l) c"
  "disk_after f (c # l) = disk_after (disk_step f c) l"
  "disk_after f (l @ l') = disk_after (disk_after f l) l'"
  by (simp_all add: disk_after_def)

text \<open>
  An honest file system: what it reports of a file agrees with what was written to it, and a
  file that is not there cannot be renamed. It may refuse any request.
\<close>

definition honest_disk :: "environment \<Rightarrow> disk \<Rightarrow> bool" where
  "honest_disk E f \<longleftrightarrow>
     (\<forall>l p n. E l (FsStat p) = OkStat n True \<longrightarrow> (\<exists>c. disk_after f l p = Some c \<and> n = int (length c)))
   \<and> (\<forall>l p. E l (FsStat p) = Fail (Errno ''ENOENT'') \<longrightarrow> disk_after f l p = None)
   \<and> (\<forall>l p cs. E l (FsReadStream p None) = OkChunks cs None \<longrightarrow> disk_after f l p = Some (concat cs))
   \<and> (\<forall>l p. E l (FsReadStream p None) = Fail (Errno ''ENOENT'') \<longrightarrow> disk_after f l p = None)
   \<and> (\<forall>l p cs. E l (FsReadStream p None) = OkChunks cs (Some (Errno ''ENOENT'')) \<longrightarrow>
        cs = [] \<and> disk_after f l p = None)
   \<and> (\<forall>l a b. disk_after f l a = None \<longrightarrow> (\<exists>e. E l (FsRename a b) = Fail e))"

lemma honestD:
  assumes "honest_disk E f"
  shows "E l (FsStat p) = OkStat n True \<Longrightarrow> \<exists>c. disk_after f l p = Some c \<and> n = int (length c)"
    and "E l (FsStat p) = Fail (Errno ''ENOENT'') \<Longrightarrow> disk_after f l p = None"
    and "E l (FsReadStream p None) = OkChunks cs None \<Longrightarrow> disk_after f l p = Some (concat cs)"
    and "E l (FsReadStream p None) = Fail (Errno ''ENOENT'') \<Longrightarrow> disk_after f l p = None"
    and "E l (FsReadStream p None) = OkChunks cs (Some (Errno ''ENOENT'')) \<Longrightarrow> disk_after f l p = None"
    and "disk_after f l p = None \<Longrightarrow> \<exists>e. E l (FsRename p b) = Fail e"
  using assms unfolding honest_disk_def by blast+

lemma write_chunks_Value:
  assumes "run E (write_chunks p declared chunks broken off hashed) s l = (Value (off', hashed'), s', l')"
  shows "s' = s \<and> broken = None \<and> hashed' = hashed @ concat chunks
    \<and> off' = off + int (length (concat chunks)) \<and> (chunks \<noteq> [] \<longrightarrow> off' \<le> declared)
    \<and> l' = l @ map (\<lambda>c. FileWrite p (Bytes c)) chunks"
  using assms
proof (induction chunks arbitrary: off hashed l)
  case Nil
  then show ?case by (auto split: option.splits)
next
  case (Cons c cs)
  then have "off + int (length c) \<le> declared"
    "run E (write_chunks p declared cs broken (off + int (length c)) (hashed @ c)) s (l @ [FileWrite p (Bytes c)])
      = (Value (off', hashed'), s', l')"
    by (auto simp: run_ok split: if_splits)
  with Cons.IH [OF this(2)] show ?case by auto
qed

lemma disk_writes:
  "f p = Some h \<Longrightarrow> disk_after f (map (\<lambda>c. FileWrite p (Bytes c)) chunks) = f(p \<mapsto> h @ concat chunks)"
  by (induction chunks arbitrary: f h) (auto simp: fun_upd_idem)

lemma writeBody_Value:
  assumes "run E (writeBody q p hashed off (chunks, broken)) s l = (Value (off', hashed'), s', l')"
  shows "hashed' = hashed @ concat chunks \<and> off' = off + int (length (concat chunks))
    \<and> l' = l @ [FsOpen p (if off = 0 then ''w'' else ''a'')] @ map (\<lambda>c. FileWrite p (Bytes c)) chunks
         @ [FileSync p, FileClose p]"
  using assms by (auto simp: writeBody_def run_ok dest!: write_chunks_Value)

lemma run_call_chunks_Value [run_ok]:
  "run E (call_chunks c) s l = (Value x, s', l') \<longleftrightarrow>
     s' = s \<and> l' = l @ [c] \<and> E l c = OkChunks (fst x) (snd x)"
  by (auto simp: call_chunks_def split: reply.splits)

lemma resumeFromPartial_Value:
  assumes "honest_disk E f" and "run E (resumeFromPartial p declared) s l = (Value (n, h), s', l')"
  shows "s' = s \<and> n = int (length h) \<and> (n = 0 \<or> n \<le> declared)
    \<and> (disk_after f l' p = None \<and> h = [] \<or> disk_after f l' p = Some h)
    \<and> (n \<noteq> 0 \<longrightarrow> disk_after f l p = Some h)
    \<and> (\<forall>x. x \<noteq> p \<longrightarrow> disk_after f l' x = disk_after f l x)"
proof -
  note honest = honestD [OF assms(1)]
  show ?thesis
  proof (cases "E l (FsStat p)")
    case (OkStat size isFile)
    let ?l = "l @ [FsStat p]"
    show ?thesis
    proof (cases "\<not> isFile \<or> declared < size")
      case True
      then show ?thesis
        using assms(2) OkStat
        by (cases "E ?l (FsRm p)")
          (auto simp: resumeFromPartial_def run_try_catch run_bind call_stat_def run_call_unit split: if_splits)
    next
      case False
      then obtain c where c: "disk_after f l p = Some c" "size = int (length c)"
        using honest(1) [of l p size] OkStat by auto
      show ?thesis
      proof (cases "E ?l (FsReadStream p None)")
        case (OkChunks cs broken)
        show ?thesis
        proof (cases broken)
          case None
          with OkChunks honest(3) have "disk_after f ?l p = Some (concat cs)" by blast
          with c have "concat cs = c" by simp
          with c None OkChunks OkStat False assms(2) show ?thesis
            by (auto simp: resumeFromPartial_def run_try_catch run_bind call_stat_def call_chunks_def)
        next
          case (Some e)
          show ?thesis
          proof (cases "e = Errno ''ENOENT''")
            case True
            with OkChunks Some honest(5) have "disk_after f ?l p = None" by blast
            with c show ?thesis by simp
          next
            case False
            with Some OkChunks OkStat \<open>\<not> (\<not> isFile \<or> declared < size)\<close> assms(2) show ?thesis
              by (auto simp: resumeFromPartial_def run_try_catch run_bind call_stat_def call_chunks_def)
          qed
        qed
      next
        case (Fail e)
        show ?thesis
        proof (cases "e = Errno ''ENOENT''")
          case True
          with Fail honest(4) have "disk_after f ?l p = None" by blast
          with c show ?thesis by simp
        next
          case False
          with Fail OkStat \<open>\<not> (\<not> isFile \<or> declared < size)\<close> assms(2) show ?thesis
            by (auto simp: resumeFromPartial_def run_try_catch run_bind call_stat_def call_chunks_def)
        qed
      qed (use OkStat False assms(2) in
          \<open>auto simp: resumeFromPartial_def run_try_catch run_bind call_stat_def call_chunks_def\<close>)
    qed
  next
    case (Fail e)
    show ?thesis
    proof (cases "e = Errno ''ENOENT''")
      case True
      with Fail honest(2) have "disk_after f l p = None" by blast
      with Fail True assms(2) show ?thesis
        by (auto simp: resumeFromPartial_def run_try_catch run_bind call_stat_def)
    next
      case False
      with Fail assms(2) show ?thesis
        by (auto simp: resumeFromPartial_def run_try_catch run_bind call_stat_def)
    qed
  qed (use assms(2) in \<open>auto simp: resumeFromPartial_def run_try_catch run_bind call_stat_def\<close>)
qed

lemma downloadRemainder_Value:
  assumes "run E (downloadRemainder q p hashed n) s l = (Value (received, hashed'), s', l')"
  shows "\<exists>body. hashed' = hashed @ concat body \<and> received = n + int (length (concat body))
    \<and> l' = l @ [HttpGet (pull_url q) (download_headers q n), FsOpen p (if n = 0 then ''w'' else ''a'')]
         @ map (\<lambda>c. FileWrite p (Bytes c)) body @ [FileSync p, FileClose p]"
proof -
  from assms obtain response body l1 where
      "run E (writeBody q p hashed n body) s (l @ [HttpGet (pull_url q) (download_headers q n)])
        = (Value (received, hashed'), s', l')"
    by (auto simp: downloadRemainder_def run_ok Let_def split: bool.splits option.splits if_splits)
  from writeBody_Value [of E q p hashed n "fst body" "snd body", simplified, OF this] show ?thesis
    by (intro exI [of _ "fst body"]) simp
qed


section \<open>Source and destination together\<close>

text \<open>What a source answers with, for an artifact with this descriptor and content.\<close>

definition source_reply :: "artifact_descriptor \<Rightarrow> string \<Rightarrow> (string \<times> string) list \<Rightarrow> http_response" where
  "source_reply d content headers =
     (case parseRangeHeader (map_of headers ''range'') (int (length content)) of
        Inl e \<Rightarrow> \<lparr>http_status = 416, http_hash = None, http_body = Some ([], None)\<rparr>
      | Inr rng \<Rightarrow>
          (let lo = (case rng of None \<Rightarrow> 0 | Some r \<Rightarrow> rg_start r);
               hi = (case rng of None \<Rightarrow> int (length content) - 1 | Some r \<Rightarrow> rg_end r)
           in \<lparr>http_status = (if rng = None then 200 else 206), http_hash = Some (ad_sha256 d),
                http_body = Some ([slice lo hi content], None)\<rparr>))"

text \<open>It is the status, the hash and the range of \<open>openArtifactRange\<close>, unless the file is empty.\<close>

lemma source_reply_openArtifactRange:
  assumes "run E (openArtifactRange path d (map_of headers ''range'')) s l = (Value v, s', l')"
    and "E l (FsStat path) = OkStat (int (length content)) True"
  shows "source_reply d content headers = \<lparr>http_status = int (as_status v),
     http_hash = map_of (as_headers v) ''x-artifact-sha256'',
     http_body = Some ([slice (fst (as_range v)) (snd (as_range v)) content], None)\<rparr>"
  using assms
  by (cases "parseRangeHeader (map_of headers ''range'') (int (length content))")
    (auto simp: openArtifactRange_def source_reply_def run_bind call_stat_def run_settle Let_def
      serve_headers_def split: if_splits option.splits)

text \<open>A working disk beside whatever answers the downloads; then a source that serves \<open>content\<close>.\<close>

type_synonym source = "string \<Rightarrow> (string \<times> string) list \<Rightarrow> http_response"

fun disk_with :: "disk \<Rightarrow> source \<Rightarrow> environment" where
  "disk_with f g l (FsStat p) =
     (case disk_after f l p of None \<Rightarrow> Fail (Errno ''ENOENT'') | Some c \<Rightarrow> OkStat (int (length c)) True)"
| "disk_with f g l (FsReadStream p r) =
     (case disk_after f l p of None \<Rightarrow> Fail (Errno ''ENOENT'') | Some c \<Rightarrow> OkChunks [c] None)"
| "disk_with f g l (FsRename a b) =
     (if disk_after f l a = None then Fail (Errno ''ENOENT'') else Ok)"
| "disk_with f g l (HttpGet u h) = OkHttp (g u h)"
| "disk_with f g l c = Ok"

definition disk_env :: "disk \<Rightarrow> artifact_descriptor \<Rightarrow> string \<Rightarrow> environment" where
  "disk_env f d content = disk_with f (\<lambda>u h. source_reply d content h)"

lemma disk_env_honest: "honest_disk (disk_env f d content) f"
  by (auto simp: honest_disk_def disk_env_def split: option.splits)

text \<open>What is kept of a partial file: nothing if it is longer than the artifact.\<close>

definition kept :: "disk \<Rightarrow> string \<Rightarrow> nat \<Rightarrow> string" where
  "kept f p n = (case f p of None \<Rightarrow> [] | Some c \<Rightarrow> if n < length c then [] else c)"

lemma source_remainder:
  assumes "n < length content" and "int (length content) \<le> max_safe" and "map_of headers ''range'' = None"
  shows "source_reply d content (headers @ (if n = 0 then [] else [(''range'', ''bytes='' @ int_text (int n) @ ''-'')]))
    = \<lparr>http_status = (if n = 0 then 200 else 206), http_hash = Some (ad_sha256 d),
        http_body = Some ([drop n content], None)\<rparr>"
proof (cases "n = 0")
  case True
  then show ?thesis
    using assms by (simp add: source_reply_def parseRangeHeader_def slice_def)
next
  case False
  have "parseRangeHeader (Some (''bytes='' @ int_text (int n) @ ''-'')) (int (length content))
      = Inr (Some \<lparr>rg_start = int n, rg_end = int (length content) - 1\<rparr>)"
    using assms by (intro range_header_understood) simp_all
  moreover have "slice (int n) (int (length content) - 1) content = drop n content"
    using assms(1) by (simp add: slice_def)
  ultimately show ?thesis
    using False assms(3) by (simp add: source_reply_def map_add_def)
qed

lemma pull_on_disk:
  fixes f :: disk and l :: "syscall list"
  assumes "content \<noteq> []" and "int (length content) \<le> max_safe"
    and d: "pull_descriptor q = d" "ad_size d = int (length content)"
    and headers: "map_of (pull_headers q) ''range'' = None"
    and served: "\<forall>n. g (pull_url q) (download_headers q n) = source_reply d content (download_headers q n)"
  defines "p \<equiv> partial_path (pull_destination q)"
  defines "old \<equiv> kept (disk_after f l) p (length content)"
  defines "got \<equiv> old @ drop (length old) content"
  shows "\<exists>l'. if hex_text (sha got) = ad_sha256 d
    then run (disk_with f g) (pullArtifact sha q) s l
           = (Value (int (length old), int (length content) - int (length old)), s, l')
         \<and> disk_after f l' = (map_delete p (disk_after f l))(pull_destination q \<mapsto> got)
    else run (disk_with f g) (pullArtifact sha q) s l
           = (Raised (hash_mismatch_error d (int (length content)) (hex_text (sha got))), s, l')
         \<and> disk_after f l' = map_delete p (disk_after f l)"
proof -
  let ?E = "disk_with f g" and ?n = "length old"
  let ?l0 = "l @ [FsMkdir (path_dirname (pull_destination q)) True]"
  have "\<exists>l1. run ?E (resumeFromPartial p (ad_size d)) s ?l0 = (Value (int ?n, old), s, l1)
      \<and> (\<forall>x. x \<noteq> p \<longrightarrow> disk_after f l1 x = disk_after f l x)
      \<and> (disk_after f l1 p = Some old \<or> disk_after f l1 p = None \<and> old = [])"
    using d(2)
    by (cases "disk_after f l p")
      (auto simp: resumeFromPartial_def run_try_catch run_bind call_stat_def call_chunks_def run_call_unit
        old_def kept_def)
  then obtain l1 where resume: "run ?E (resumeFromPartial p (ad_size d)) s ?l0 = (Value (int ?n, old), s, l1)"
    and frame1: "\<And>x. x \<noteq> p \<Longrightarrow> disk_after f l1 x = disk_after f l x"
    and part1: "disk_after f l1 p = Some old \<or> disk_after f l1 p = None \<and> old = []" by blast
  have n: "?n \<le> length content" by (simp add: old_def kept_def split: option.split)
  have "\<exists>l2. run ?E (if int ?n < ad_size d then downloadRemainder q p old (int ?n) else Return (int ?n, old)) s l1
        = (Value (int (length content), got), s, l2)
      \<and> disk_after f l2 = (disk_after f l1)(p \<mapsto> got)"
  proof (cases "?n < length content")
    case True
    have reply: "source_reply d content (download_headers q (int ?n))
        = \<lparr>http_status = (if ?n = 0 then 200 else 206), http_hash = Some (ad_sha256 d),
            http_body = Some ([drop ?n content], None)\<rparr>"
      using source_remainder [OF True assms(2) headers] by (simp add: download_headers_def)
    show ?thesis
      using True part1 d n
      by (auto simp: downloadRemainder_def writeBody_def run_bind call_http_def served reply run_call_unit
          run_finally got_def Let_def split: option.split)
  next
    case False
    with n assms(1) have "old \<noteq> []" "got = old" "length old = length content" by (auto simp: got_def)
    with part1 False d show ?thesis by (auto simp: fun_upd_idem)
  qed
  then obtain l2 where body: "run ?E (if int ?n < ad_size d then downloadRemainder q p old (int ?n)
          else Return (int ?n, old)) s l1 = (Value (int (length content), got), s, l2)"
    and disk2: "disk_after f l2 = (disk_after f l1)(p \<mapsto> got)" by blast
  have upto: "run ?E (pullArtifact sha q) s l =
     run ?E (seq (verifyOrDiscard sha p d (int (length content)) got)
       (seq (commitArtifact p (pull_destination q))
         (Return (int ?n, int (length content) - int ?n)))) s l2"
  proof -
    have mkdir: "run ?E (call_unit (FsMkdir (path_dirname (pull_destination q)) True)) s l = (Value (), s, ?l0)"
      by (simp add: run_call_unit)
    show ?thesis
      unfolding pullArtifact_def Let_def d(1) p_def [symmetric]
      by (simp only: run_bind [of _ "call_unit (FsMkdir (path_dirname (pull_destination q)) True)"] mkdir
          run_bind [of _ "resumeFromPartial p (ad_size d)"] resume prod.case outcome.case
          run_bind [of _ "if int ?n < ad_size d then downloadRemainder q p old (int ?n)
             else Return (int ?n, old)"] body)
  qed
  have neq: "p \<noteq> pull_destination q" by (simp add: p_def partial_path_def)
  have frame: "map_delete p ((disk_after f l1)(p \<mapsto> got)) = map_delete p (disk_after f l)"
    using frame1 by (auto simp: fun_eq_iff)
  show ?thesis
  proof (cases "hex_text (sha got) = ad_sha256 d")
    case True
    then show ?thesis
      using d disk2 neq frame
      by (simp add: upto verifyOrDiscard_def commitArtifact_def run_bind run_call_unit run_finally)
  next
    case False
    then show ?thesis
      using d disk2 frame by (simp add: upto verifyOrDiscard_def run_bind run_call_unit)
  qed
qed

lemma pull_from_prefix:
  assumes "content \<noteq> []" and "int (length content) \<le> max_safe"
    and "ad_size (pull_descriptor q) = int (length content)"
    and "ad_sha256 (pull_descriptor q) = hex_text (sha content)"
    and "map_of (pull_headers q) ''range'' = None"
    and "\<forall>n. g (pull_url q) (download_headers q n) = source_reply (pull_descriptor q) content (download_headers q n)"
    and "n \<le> length content"
    and "disk_after f l (partial_path (pull_destination q)) = (if n = 0 then None else Some (take n content))"
  shows "\<exists>l'. run (disk_with f g) (pullArtifact sha q) s l = (Value (int n, int (length content) - int n), s, l')
    \<and> disk_after f l' = (map_delete (partial_path (pull_destination q)) (disk_after f l))(pull_destination q \<mapsto> content)"
proof -
  have "kept (disk_after f l) (partial_path (pull_destination q)) (length content) = take n content"
    using assms(7,8) by (simp add: kept_def)
  moreover have "take n content @ drop (length (take n content)) content = content"
    using assms(7) by simp
  ultimately show ?thesis
    using pull_on_disk [where f = f and g = g and l = l and sha = sha and s = s, OF assms(1,2) refl assms(3,5,6)] assms(4,7)
    by (auto simp: min_absorb2)
qed

text \<open>
  An interrupted transfer resumes where it stopped. When the partial file holds a prefix
  of the artifact, the pull asks the source for exactly the rest, the source understands the
  request, and the destination ends with the artifact, having written only the missing bytes.
\<close>

lemma pull_completes:
  assumes "content \<noteq> []" and "int (length content) \<le> max_safe"
    and "ad_size (pull_descriptor q) = int (length content)"
    and "ad_sha256 (pull_descriptor q) = hex_text (sha content)"
    and "map_of (pull_headers q) ''range'' = None"
    and "n \<le> length content"
    and "disk_after f l (partial_path (pull_destination q)) = (if n = 0 then None else Some (take n content))"
  shows "\<exists>l'. run (disk_env f (pull_descriptor q) content) (pullArtifact sha q) s l
      = (Value (int n, int (length content) - int n), s, l')
    \<and> disk_after f l' (pull_destination q) = Some content"
proof -
  let ?g = "\<lambda>u h. source_reply (pull_descriptor q) content h" and ?p = "partial_path (pull_destination q)"
  have "\<exists>l'. run (disk_with f ?g) (pullArtifact sha q) s l = (Value (int n, int (length content) - int n), s, l')
      \<and> disk_after f l' = (map_delete ?p (disk_after f l))(pull_destination q \<mapsto> content)"
    by (rule pull_from_prefix) (use assms in simp_all)
  then show ?thesis by (auto simp: disk_env_def)
qed

text \<open>
  A damaged partial file does not block a transfer. Whatever the partial file holds, the
  first pull either commits content with the declared size and SHA-256, or fails with the
  retryable \<open>ARTIFACT_HASH_MISMATCH\<close> and removes the partial file, and then the second
  pull delivers the artifact.
\<close>

lemma damaged_partial_heals:
  assumes "content \<noteq> []" and "int (length content) \<le> max_safe"
    and "ad_size (pull_descriptor q) = int (length content)"
    and "ad_sha256 (pull_descriptor q) = hex_text (sha content)"
    and "map_of (pull_headers q) ''range'' = None"
  shows "\<exists>r l'. run (disk_env f (pull_descriptor q) content) (pullArtifact sha q) s l = (r, s, l')
    \<and> (case r of
        Value x \<Rightarrow> (\<exists>c. disk_after f l' (pull_destination q) = Some c
          \<and> length c = length content \<and> hex_text (sha c) = hex_text (sha content))
      | Raised e \<Rightarrow> has_code e ArtifactHashMismatch
          \<and> (\<exists>l''. run (disk_env f (pull_descriptor q) content) (pullArtifact sha q) s l'
                = (Value (0, int (length content)), s, l'')
              \<and> disk_after f l'' (pull_destination q) = Some content)
      | Blocked \<Rightarrow> False)"
proof -
  let ?p = "partial_path (pull_destination q)"
  define old where "old = kept (disk_after f l) ?p (length content)"
  define got where "got = old @ drop (length old) content"
  have n: "length old \<le> length content" by (simp add: old_def kept_def split: option.split)
  have first: "\<exists>l'. if hex_text (sha got) = ad_sha256 (pull_descriptor q)
    then run (disk_env f (pull_descriptor q) content) (pullArtifact sha q) s l
           = (Value (int (length old), int (length content) - int (length old)), s, l')
         \<and> disk_after f l' = (map_delete ?p (disk_after f l))(pull_destination q \<mapsto> got)
    else run (disk_env f (pull_descriptor q) content) (pullArtifact sha q) s l
           = (Raised (hash_mismatch_error (pull_descriptor q) (int (length content)) (hex_text (sha got))), s, l')
         \<and> disk_after f l' = map_delete ?p (disk_after f l)"
    unfolding old_def got_def disk_env_def by (rule pull_on_disk) (use assms in simp_all)
  show ?thesis
  proof (cases "hex_text (sha got) = ad_sha256 (pull_descriptor q)")
    case True
    moreover have "length got = length content" using n by (simp add: got_def)
    ultimately show ?thesis using first assms(4) by auto
  next
    case False
    with first obtain l' where l':
      "run (disk_env f (pull_descriptor q) content) (pullArtifact sha q) s l
         = (Raised (hash_mismatch_error (pull_descriptor q) (int (length content)) (hex_text (sha got))), s, l')"
      "disk_after f l' = map_delete ?p (disk_after f l)" by auto
    then have "disk_after f l' ?p = (if 0 = (0::nat) then None else Some (take 0 content))" by simp
    from pull_completes [where n = 0 and l = l' and f = f and s = s and content = content and sha = sha and q = q,
        OF assms le0 this] l'(1)
    show ?thesis by (auto simp: hash_mismatch_error_def)
  qed
qed

text \<open>Closed instances: an artifact of three bytes, and a digest that tells lengths apart.\<close>

definition small_pull :: "string \<Rightarrow> pull_options" where
  "small_pull digest = \<lparr>pull_url = ''http://a'', pull_destination = ''/d/x'',
     pull_descriptor = \<lparr>ad_kind = StateFile, ad_name = ''x'', ad_size = 3, ad_sha256 = digest\<rparr>,
     pull_headers = []\<rparr>"


end
