(* ===== verification/Calculus.thy ===== *)
theory Calculus
  imports Processes Firecracker Waiting Artifacts
begin

text \<open>
  A weakest-precondition calculus for programs run alone: \<open>wp p Q X s l\<close> holds when, from
  state \<open>s\<close> and log \<open>l\<close>, whatever the platform answers, \<open>p\<close> never waits for ever and
  ends with a value in \<open>Q\<close> or an error in \<open>X\<close>.
\<close>

type_synonym ('s, 'a) post = "'a \<Rightarrow> 's \<Rightarrow> syscall list \<Rightarrow> bool"

primrec wp :: "('s, 'a) prog \<Rightarrow> ('s, 'a) post \<Rightarrow> ('s, js_error) post \<Rightarrow> 's \<Rightarrow> syscall list \<Rightarrow> bool" where
  "wp (Return v) Q X s l = Q v s l"
| "wp (Throw e) Q X s l = X e s l"
| "wp (Read k) Q X s l = wp (k s) Q X s l"
| "wp (Write u p) Q X s l = wp p Q X (u s) l"
| "wp (Call c k) Q X s l = (\<forall>r. wp (k r) Q X s (l @ [c]))"
| "wp (Yield g p) Q X s l = (g s \<and> wp p Q X s l)"

named_theorems wp_simps

lemma wp_bind [wp_simps]: "wp (bind p f) Q X = wp p (\<lambda>v. wp (f v) Q X) X"
  by (induction p) (auto simp: fun_eq_iff)

lemma wp_ends [simp]:
  "wp (Return v) Q X = Q v" "wp (Throw e) Q X = X e" "wp (Yield (\<lambda>_. True) p) Q X = wp p Q X"
  by (simp_all add: fun_eq_iff)

lemma wp_Write [wp_simps]: "wp (Write u p) Q X = (\<lambda>s. wp p Q X (u s))"
  by (simp add: fun_eq_iff)

lemma wp_attempt [wp_simps]: "wp (attempt p) Q X = wp p (\<lambda>v. Q (Inr v)) (\<lambda>e. Q (Inl e))"
  by (induction p) (auto simp: fun_eq_iff)

lemma wp_settle [wp_simps]: "wp (settle r) Q X = (case r of Inl e \<Rightarrow> X e | Inr v \<Rightarrow> Q v)"
  by (cases r) simp_all

lemma wp_await [wp_simps]: "wp (await p) Q X = wp p Q X"
  by (simp add: await_def wp_bind wp_attempt wp_settle)

lemma wp_mono:
  "wp p Q X s l \<Longrightarrow> (\<And>v s l. Q v s l \<Longrightarrow> Q' v s l) \<Longrightarrow> (\<And>e s l. X e s l \<Longrightarrow> X' e s l) \<Longrightarrow> wp p Q' X' s l"
  by (induction p arbitrary: s l) auto

lemma wp_settled [wp_simps]: "wp (settled p) Q X = wp p (\<lambda>_. Q ()) (\<lambda>_. Q ())"
  by (simp add: settled_def wp_bind wp_attempt)

lemma wp_try_catch [wp_simps]:
  "wp (try_catch p h) Q X = wp p Q (\<lambda>e. wp (h e) Q X)"
  by (simp add: try_catch_def wp_bind wp_attempt)

lemma wp_try_finally [wp_simps]:
  "wp (try_finally p q) Q X = wp p (\<lambda>v. wp q (\<lambda>_. Q v) X) (\<lambda>e. wp q (\<lambda>_. X e) X)"
  by (simp add: try_finally_def wp_bind wp_attempt wp_settle)

lemma wp_guard_throw [wp_simps]: "wp (guard_throw b e) Q X s l = (if b then X e s l else Q () s l)"
  by (simp add: guard_throw_def)

text \<open>Soundness: what \<open>wp\<close> promises, every run keeps.\<close>

lemma wp_run:
  "wp p Q X s l \<Longrightarrow> (case run E p s l of
      (Value v, s', l') \<Rightarrow> Q v s' l' | (Raised e, s', l') \<Rightarrow> X e s' l' | (Blocked, s', l') \<Rightarrow> False)"
  by (induction p arbitrary: s l) auto

text \<open>Completeness: a promise kept by every run, against every platform, is one of \<open>wp\<close>.\<close>

lemma run_env_cong:
  "(\<And>t c. E (l @ t) c = F (l @ t) c) \<Longrightarrow> run E p s l = run F p s l"
proof (induction p arbitrary: s l)
  case (Call c k)
  have "E l c = F l c" using Call.prems [of "[]"] by simp
  moreover have "run E (k (F l c)) s (l @ [c]) = run F (k (F l c)) s (l @ [c])"
    by (rule Call.IH [OF rangeI]) (use Call.prems [of "c # t" for t] in simp)
  ultimately show ?case by simp
qed (simp_all add: rangeI)

lemma run_wp:
  "(\<And>E. case run E p s l of
      (Value v, s', l') \<Rightarrow> Q v s' l' | (Raised e, s', l') \<Rightarrow> X e s' l' | (Blocked, s', l') \<Rightarrow> False) \<Longrightarrow>
   wp p Q X s l"
proof (induction p arbitrary: s l)
  case (Call c k)
  show ?case
  proof (simp, intro allI)
    fix r
    show "wp (k r) Q X s (l @ [c])"
    proof (rule Call.IH [OF rangeI])
      fix E
      let ?F = "\<lambda>l' (c' :: syscall). if l' = l then r else E l' c'"
      have "run ?F (k r) s (l @ [c]) = run E (k r) s (l @ [c])"
        by (rule run_env_cong) simp
      with Call.prems [of ?F] show "case run E (k r) s (l @ [c]) of
          (Value v, s', l') \<Rightarrow> Q v s' l' | (Raised e, s', l') \<Rightarrow> X e s' l' | (Blocked, s', l') \<Rightarrow> False"
        by simp
    qed
  qed
next
  case (Read k)
  from Read.prems show ?case by (simp add: Read.IH [OF rangeI])
next
  case (Yield g p)
  show ?case
  proof (cases "g s")
    case True
    with Yield.prems show ?thesis by (simp add: Yield.IH)
  next
    case False
    with Yield.prems [of undefined] show ?thesis by simp
  qed
qed simp_all

lemma wp_runD:
  assumes "wp p (\<lambda>_. I) (\<lambda>_. I) s l"
  shows "I (final (run E p s l)) (calls (run E p s l)) \<and> result (run E p s l) \<noteq> Blocked"
  using wp_run [OF assms, of E] by (cases "run E p s l"; cases "fst (run E p s l)") auto

section \<open>The calls of a program\<close>

text \<open>Calls that drive a machine: requests to the API socket of a Firecracker process.\<close>

fun vm_call :: "syscall \<Rightarrow> bool" where
  "vm_call (UnixHttp socket meth path body) = True"
| "vm_call _ = False"

abbreviation no_vm :: "syscall \<Rightarrow> bool" where
  "no_vm c \<equiv> \<not> vm_call c"

text \<open>\<open>asks P p\<close>: every call \<open>p\<close> may issue satisfies \<open>P\<close>.\<close>

primrec asks :: "(syscall \<Rightarrow> bool) \<Rightarrow> ('s, 'a) prog \<Rightarrow> bool" where
  "asks P (Return v) = True"
| "asks P (Throw e) = True"
| "asks P (Read k) = (\<forall>s. asks P (k s))"
| "asks P (Write u p) = asks P p"
| "asks P (Call c k) = (P c \<and> (\<forall>r. asks P (k r)))"
| "asks P (Yield g p) = asks P p"

lemma asks_bind [intro!]: "asks P p \<Longrightarrow> (\<And>v. asks P (f v)) \<Longrightarrow> asks P (bind p f)"
  by (induction p) auto

lemma asks_attempt [intro!]: "asks P p \<Longrightarrow> asks P (attempt p)"
  by (induction p) auto

lemma asks_settle [simp]: "asks P (settle r)"
  by (cases r) simp_all

lemma asks_await [intro!]: "asks P p \<Longrightarrow> asks P (await p)"
  unfolding await_def by (intro asks_bind asks_attempt) simp_all

lemma asks_settled [intro!]: "asks P p \<Longrightarrow> asks P (settled p)"
  unfolding settled_def by (intro asks_bind asks_attempt) simp_all

lemma asks_try_catch [intro!]: "asks P p \<Longrightarrow> (\<And>e. asks P (h e)) \<Longrightarrow> asks P (try_catch p h)"
  unfolding try_catch_def by (intro asks_bind asks_attempt) (simp_all split: sum.split)

lemma asks_try_finally [intro!]: "asks P p \<Longrightarrow> asks P q \<Longrightarrow> asks P (try_finally p q)"
  unfolding try_finally_def by (intro asks_bind asks_attempt) simp_all

lemma asks_for_each [intro!]: "(\<And>x. x \<in> set xs \<Longrightarrow> asks P (f x)) \<Longrightarrow> asks P (for_each xs f)"
  by (induction xs) auto

lemma asks_zoom [intro!]: "asks P p \<Longrightarrow> asks P (zoom g u p)"
  by (induction p) auto

lemma asks_calls [simp]:
  "asks P (call_unit c) = P c" "asks P (call_text c) = P c" "asks P (call_data c) = P c"
  "asks P (call_stat c) = P c" "asks P (call_int c) = P c" "asks P (call_chunks c) = P c"
  "asks P (call_events c) = P c" "asks P (call_status c) = P c" "asks P (call_http c) = P c"
  "asks P (tell c) = P c"
  by (auto simp: call_defs tell_def split: reply.split)

lemma asks_fc_request [simp]: "asks P (fc_request k m path b) = P (UnixHttp k m path b)"
  by (auto simp: fc_request_def call_status_def split: reply.split prod.split)

text \<open>A quiet program ends in the state it began in; its log grows by calls it may issue.\<close>

lemma wp_quiet_asks:
  "quiet p \<Longrightarrow> asks P p \<Longrightarrow> (\<And>v t. list_all P t \<Longrightarrow> Q v s (l @ t)) \<Longrightarrow>
     (\<And>e t. list_all P t \<Longrightarrow> X e s (l @ t)) \<Longrightarrow> wp p Q X s l"
proof (induction p arbitrary: l)
  case (Return v)
  from Return(3) [of "[]"] show ?case by simp
next
  case (Throw e)
  from Throw(4) [of "[]"] show ?case by simp
next
  case (Call c k)
  show ?case
  proof (simp, intro allI)
    fix r
    show "wp (k r) Q X s (l @ [c])"
    proof (rule Call.IH)
      show "Q v s ((l @ [c]) @ t)" if "list_all P t" for v t
        using Call.prems(3) [of "c # t"] that Call.prems(2) by simp
      show "X e s ((l @ [c]) @ t)" if "list_all P t" for e t
        using Call.prems(4) [of "c # t"] that Call.prems(2) by simp
    qed (use Call.prems in auto)
  qed
qed auto

lemma asks_True [simp]: "asks (\<lambda>_. True) p"
  by (induction p) auto

lemma wp_quiet: "quiet p \<Longrightarrow> (\<And>v t. Q v s (l @ t)) \<Longrightarrow> (\<And>e t. X e s (l @ t)) \<Longrightarrow> wp p Q X s l"
  by (rule wp_quiet_asks [of p "\<lambda>_. True"]) auto

section \<open>What a program leaves alone\<close>

text \<open>\<open>leaves f p\<close>: no write of \<open>p\<close> changes the part \<open>f\<close> of the state.\<close>

primrec leaves :: "('s \<Rightarrow> 'f) \<Rightarrow> ('s, 'a) prog \<Rightarrow> bool" where
  "leaves f (Return v) = True"
| "leaves f (Throw e) = True"
| "leaves f (Read k) = (\<forall>s. leaves f (k s))"
| "leaves f (Write u p) = ((\<forall>s. f (u s) = f s) \<and> leaves f p)"
| "leaves f (Call c k) = (\<forall>r. leaves f (k r))"
| "leaves f (Yield g p) = leaves f p"

named_theorems leaves_rules

lemma leaves_quiet: "quiet p \<Longrightarrow> leaves f p"
  by (induction p) auto

lemma leaves_bind [leaves_rules]: "leaves f p \<Longrightarrow> (\<And>v. leaves f (g v)) \<Longrightarrow> leaves f (bind p g)"
  by (induction p) auto

lemma leaves_attempt [leaves_rules]: "leaves f p \<Longrightarrow> leaves f (attempt p)"
  by (induction p) auto

lemma leaves_basic [leaves_rules]: "leaves f (Return v)" "leaves f (Throw e)" "leaves f (settle r)"
  by (simp_all add: leaves_quiet)

lemma leaves_Read [leaves_rules]: "(\<And>s. leaves f (k s)) \<Longrightarrow> leaves f (Read k)"
  by simp

lemma leaves_if [leaves_rules]: "leaves f p \<Longrightarrow> leaves f q \<Longrightarrow> leaves f (if b then p else q)"
  by simp

lemma leaves_await [leaves_rules]: "leaves f p \<Longrightarrow> leaves f (await p)"
  unfolding await_def
  by (rule leaves_bind [OF leaves_attempt], assumption) (simp add: leaves_quiet)

lemma leaves_try_catch [leaves_rules]: "leaves f p \<Longrightarrow> (\<And>e. leaves f (h e)) \<Longrightarrow> leaves f (try_catch p h)"
  unfolding try_catch_def by (intro leaves_rules) (auto intro: leaves_rules split: sum.split)

lemma leaves_zoom: "(\<And>u t. f (upd u t) = f t) \<Longrightarrow> leaves f (zoom get upd p)"
  by (induction p) auto

lemma leaves_run: "leaves f p \<Longrightarrow> f (final (run E p s l)) = f s"
  by (induction p arbitrary: s l) auto

section \<open>The parts of the worker with a state of their own\<close>

lemma wp_stopSandbox:
  assumes "\<And>s' t. list_all no_vm t \<Longrightarrow> Q () s' (l @ t)"
  shows "wp (stopSandbox i) Q X s l"
proof (rule run_wp)
  fix E
  have "list_all no_vm (map (\<lambda>(g, h). RelayClose h) hs)" for hs :: "(js_number \<times> int) list"
    by (induction hs) auto
  then show "case run E (stopSandbox i) s l of
      (Value v, s', l') \<Rightarrow> Q v s' l' | (Raised e, s', l') \<Rightarrow> X e s' l' | (Blocked, s', l') \<Rightarrow> False"
    using assms by (auto simp: run_stopSandbox split: option.split)
qed

lemma wp_stop:
  assumes "\<And>t. list_all no_vm t \<Longrightarrow> Q () (map_delete i s) (l @ t)"
  shows "wp (stop i) Q X s l"
proof (rule run_wp)
  fix E
  show "case run E (stop i) s l of
      (Value v, s', l') \<Rightarrow> Q v s' l' | (Raised e, s', l') \<Rightarrow> X e s' l' | (Blocked, s', l') \<Rightarrow> False"
    using assms [of "[]"] assms by (auto simp: run_stop split: option.split)
qed

lemma wp_start:
  assumes "\<And>s' t. list_all no_vm t \<Longrightarrow> Q () s' (l @ t)" and "\<And>e s' t. list_all no_vm t \<Longrightarrow> X e s' (l @ t)"
  shows "wp (start i g h host) Q X s l"
proof (rule run_wp)
  fix E
  show "case run E (start i g h host) s l of
      (Value v, s', l') \<Rightarrow> Q v s' l' | (Raised e, s', l') \<Rightarrow> X e s' l' | (Blocked, s', l') \<Rightarrow> False"
    using assms(1) [of "[]"] assms by (auto simp: run_start split: reply.split)
qed

end
