(* ===== verification/Worker_Core.thy ===== *)
theory Worker_Core
  imports Calculus
begin

text \<open>
  \<open>worker/core/worker-core.ts\<close>, \<open>worker-types.ts\<close> and \<open>worker-errors.ts\<close>: the state
  all handlers of a worker share and the guard they go through. A handler keeps a reference
  to the \<open>SandboxRecord\<close> it looked up and uses it across its \<open>await\<close>s, while the table
  entry may be deleted or replaced: records are therefore objects of a store, and the table
  maps identifiers to addresses. What \<open>core.configuration\<close> and Node provide is a
  \<open>worker_config\<close>, an argument of every handler.
\<close>

section \<open>Configuration and state\<close>

record worker_config =
  wc_workerId :: string
  wc_region :: string
  wc_workerRoot :: string
  wc_canonicalRoot :: "string option"
  wc_firecrackerBinary :: string
  wc_kernelPath :: string
  wc_baseRootfsPath :: string
  wc_proxyHost :: string
  wc_portBase :: "js_number option"
  wc_peerUrls :: "(string \<rightharpoonup> string) option"
  wc_peerAuthToken :: "string option"
  wc_sharedWorkerRoot :: "string option"
  wc_hostCompatibility :: host_compatibility
  wc_sha :: "string \<Rightarrow> nat list"
  wc_pid :: int
  wc_cwd :: string

record sandbox_record =
  sr_info :: sandbox_info
  sr_paths :: sandbox_paths
  sr_netns :: string
  sr_hostVeth :: string
  sr_namespaceAddress :: string
  sr_guest :: string
  sr_firecracker :: string
  sr_generation :: int
  sr_artifacts :: "artifact_kind \<rightharpoonup> artifact_descriptor"
  sr_loadedMigrationId :: "string option"
  sr_networkKeys :: "string list"
  sr_quarantinePath :: "string option"

record snapshot_request =
  sq_migrationId :: string
  sq_epoch :: int

datatype prepare_stage = Reserve | Prestage

fun stage_text :: "prepare_stage \<Rightarrow> string" where
  "stage_text Reserve = ''reserve''"
| "stage_text Prestage = ''prestage''"

record prepare_request =
  pr_migrationId :: string
  pr_stage :: prepare_stage
  pr_source :: string
  pr_destination :: string
  pr_sandboxId :: string
  pr_cpu :: js_number
  pr_memoryMb :: js_number
  pr_bootId :: "string option"

record reservation =
  rv_request :: prepare_request
  rv_epoch :: int
  rv_prepared :: bool
  rv_preparing :: "nat option"

record transfer_request =
  tr_migrationId :: string
  tr_source :: string
  tr_manifest :: compat_manifest

text \<open>
  The state. \<open>c_heap\<close> and \<open>c_next\<close> are the record objects; \<open>c_promises\<close> the settled
  outcomes of the promises kept in \<open>MigrationReservation.preparing\<close>.
\<close>

record core =
  c_epochs :: epoch_store
  c_sandboxes :: "string \<rightharpoonup> nat"
  c_heap :: "nat \<Rightarrow> sandbox_record"
  c_next :: nat
  c_consumed :: "string set"
  c_migrations :: "string \<rightharpoonup> reservation"
  c_manifests :: "string \<rightharpoonup> compat_manifest"
  c_allocator :: allocator
  c_processes :: process_table
  c_relays :: relay_table
  c_promises :: "nat \<rightharpoonup> js_error + unit"
  c_nextPromise :: nat

definition path_model_of :: "worker_config \<Rightarrow> path_model" where
  "path_model_of cfg = make_path_model (wc_cwd cfg) (wc_workerRoot cfg) (wc_canonicalRoot cfg)"

definition epoch_config_of :: "worker_config \<Rightarrow> epoch_config" where
  "epoch_config_of cfg = \<lparr>ec_path = wc_workerRoot cfg @ ''/epochs.json'', ec_pid = wc_pid cfg\<rparr>"

text \<open>The check of the constructor; a worker that fails it does not start.\<close>

definition core_config_check :: "worker_config \<Rightarrow> js_error + unit" where
  "core_config_check cfg =
     (case wc_portBase cfg of
        None \<Rightarrow> Inr ()
      | Some p \<Rightarrow> if \<not> valid_port p then Inl (JsError ''portBase must be between 1 and 65535'') else Inr ())"

section \<open>Errors\<close>

definition workerBadRequest :: "string \<Rightarrow> js_error" where
  "workerBadRequest m = firemig BadRequest m False None (Some 400)"

definition conflict :: "error_code \<Rightarrow> string \<Rightarrow> nat \<Rightarrow> js_error" where
  "conflict c m st = firemig c m False None (Some st)"

definition sandboxNotFound :: "string \<Rightarrow> js_error" where
  "sandboxNotFound i = firemig NotFound (''Sandbox '' @ i @ '' was not found'') False None (Some 404)"

definition fencedError :: "string \<Rightarrow> int \<Rightarrow> int \<Rightarrow> js_error" where
  "fencedError i requested acceptedEp = firemig Fenced (''Sandbox '' @ i @ '' is fenced'') False
     (Some (JObj [(''requestedEpoch'', JNum (Num requested)), (''acceptedEpoch'', JNum (Num acceptedEp))]))
     (Some 409)"

definition stateMismatch :: "sandbox_state \<Rightarrow> sandbox_state \<Rightarrow> js_error" where
  "stateMismatch expected actual = firemig BadRequest
     (''Sandbox must be '' @ state_text expected @ ''; it is '' @ state_text actual) False None (Some 409)"

definition validateMachineSize :: "js_number \<Rightarrow> js_number \<Rightarrow> js_error + unit" where
  "validateMachineSize cpu memoryMb =
     (if \<not> is_integer cpu \<or> num_val cpu < 1 \<or> 32 < num_val cpu
      then Inl (workerBadRequest ''cpu must be an integer from 1 to 32'')
      else if \<not> is_integer memoryMb \<or> num_val memoryMb < 128 \<or> 262144 < num_val memoryMb
      then Inl (workerBadRequest ''memoryMb must be an integer from 128 to 262144'')
      else Inr ())"

definition totalArtifactBytes :: "compat_manifest \<Rightarrow> int" where
  "totalArtifactBytes m = fold (\<lambda>k total. total + ad_size (m_artifacts m k)) ARTIFACT_KINDS 0"

section \<open>Access to the parts of the state\<close>

definition on_epochs :: "(epoch_store, 'a) prog \<Rightarrow> (core, 'a) prog" where
  "on_epochs = zoom c_epochs c_epochs_update"

definition on_processes :: "(process_table, 'a) prog \<Rightarrow> (core, 'a) prog" where
  "on_processes = zoom c_processes c_processes_update"

definition on_relays :: "(relay_table, 'a) prog \<Rightarrow> (core, 'a) prog" where
  "on_relays = zoom c_relays c_relays_update"

interpretation epochs_field: field c_epochs c_epochs_update
  by unfold_locales (simp_all add: comp_def)

interpretation processes_field: field c_processes c_processes_update
  by unfold_locales (simp_all add: comp_def)

interpretation relays_field: field c_relays c_relays_update
  by unfold_locales (simp_all add: comp_def)

text \<open>Reading and writing the object at an address.\<close>

definition at_rec :: "nat \<Rightarrow> (sandbox_record \<Rightarrow> (core, 'a) prog) \<Rightarrow> (core, 'a) prog" where
  "at_rec a k = Read (\<lambda>c. k (c_heap c a))"

definition put_record :: "nat \<Rightarrow> (sandbox_record \<Rightarrow> sandbox_record) \<Rightarrow> (core, unit) prog" where
  "put_record a f = modify (\<lambda>c. c\<lparr>c_heap := (c_heap c)(a := f (c_heap c a))\<rparr>)"

definition put_info :: "nat \<Rightarrow> (sandbox_info \<Rightarrow> sandbox_info) \<Rightarrow> (core, unit) prog" where
  "put_info a f = put_record a (\<lambda>r. r\<lparr>sr_info := f (sr_info r)\<rparr>)"

abbreviation rec_state :: "sandbox_record \<Rightarrow> sandbox_state" where
  "rec_state r \<equiv> info_state (sr_info r)"

abbreviation rec_epoch :: "sandbox_record \<Rightarrow> int" where
  "rec_epoch r \<equiv> info_epoch (sr_info r)"

section \<open>The guard\<close>

definition record_of :: "string \<Rightarrow> (core, nat) prog" where
  "record_of i = Read (\<lambda>c. case c_sandboxes c i of None \<Rightarrow> Throw (sandboxNotFound i) | Some a \<Rightarrow> Return a)"

definition downHostVeth :: "nat \<Rightarrow> (core, unit) prog" where
  "downHostVeth a = at_rec a (\<lambda>r. runPlans [cmd ''ip'' [''link'', ''set'', sr_hostVeth r, ''down'']])"

definition fence_info :: "int \<Rightarrow> sandbox_info \<Rightarrow> sandbox_info" where
  "fence_info epoch i = i\<lparr>info_state := FencedState, info_epoch := epoch\<rparr>"

definition fenceQuietly :: "nat \<Rightarrow> string \<Rightarrow> int \<Rightarrow> (core, unit) prog" where
  "fenceQuietly a i epoch = at_rec a (\<lambda>r.
     seq (put_info a (fence_info epoch))
     (seq (await (on_relays (stopSandbox i)))
     (seq (settled (downHostVeth a))
       (if rec_state r = Running then settled (fc_pause (sr_firecracker r)) else skip))))"

definition mutableRecord :: "worker_config \<Rightarrow> string \<Rightarrow> int \<Rightarrow> sandbox_state option \<Rightarrow> (core, nat) prog" where
  "mutableRecord cfg i epoch expected =
     bind (record_of i) (\<lambda>a.
     bind (await (on_epochs (accept (epoch_config_of cfg) i (Num epoch)))) (\<lambda>acc.
     at_rec a (\<lambda>r.
       if acc_advanced acc \<and> rec_state r \<noteq> Booting
       then seq (await (fenceQuietly a i epoch)) (Throw (fencedError i epoch epoch))
       else if rec_state r = FencedState \<or> epoch < rec_epoch r
       then Throw (fencedError i epoch (rec_epoch r))
       else case expected of
           Some st \<Rightarrow> if rec_state r \<noteq> st then Throw (stateMismatch st (rec_state r)) else Return a
         | None \<Rightarrow> Return a)))"

definition runCleanupPlans :: "string \<Rightarrow> string \<Rightarrow> (core, unit) prog" where
  "runCleanupPlans ns veth =
     bind (settle (networkDeletePlan ns veth)) (\<lambda>plans.
       for_each plans (\<lambda>p. settled (runPlans [p])))"

section \<open>The calculus on the core\<close>

lemma wp_zoom_epochs [wp_simps]:
  "wp (on_epochs p) Q X c l
     = wp p (\<lambda>v s. Q v (c\<lparr>c_epochs := s\<rparr>)) (\<lambda>e s. X e (c\<lparr>c_epochs := s\<rparr>)) (c_epochs c) l"
  unfolding on_epochs_def by (induction p arbitrary: c l) simp_all

lemma wp_zoom_processes [wp_simps]:
  "wp (on_processes p) Q X c l
     = wp p (\<lambda>v s. Q v (c\<lparr>c_processes := s\<rparr>)) (\<lambda>e s. X e (c\<lparr>c_processes := s\<rparr>)) (c_processes c) l"
  unfolding on_processes_def by (induction p arbitrary: c l) simp_all

lemma wp_zoom_relays [wp_simps]:
  "wp (on_relays p) Q X c l
     = wp p (\<lambda>v s. Q v (c\<lparr>c_relays := s\<rparr>)) (\<lambda>e s. X e (c\<lparr>c_relays := s\<rparr>)) (c_relays c) l"
  unfolding on_relays_def by (induction p arbitrary: c l) simp_all

lemma wp_at_rec [wp_simps]: "wp (at_rec a k) Q X c l = wp (k (c_heap c a)) Q X c l"
  by (simp add: at_rec_def)

lemma wp_put_record [wp_simps]:
  "wp (put_record a f) Q X c l = Q () (c\<lparr>c_heap := (c_heap c)(a := f (c_heap c a))\<rparr>) l"
  by (simp add: put_record_def)

lemma wp_put_info [wp_simps]:
  "wp (put_info a f) Q X c l = Q () (c\<lparr>c_heap := (c_heap c)(a := (c_heap c a)\<lparr>sr_info := f (sr_info (c_heap c a))\<rparr>)\<rparr>) l"
  by (simp add: put_info_def wp_put_record)

lemma wp_record_of [wp_simps]:
  "wp (record_of i) Q X c l = (case c_sandboxes c i of None \<Rightarrow> X (sandboxNotFound i) c l | Some a \<Rightarrow> Q a c l)"
  by (simp add: record_of_def split: option.split)

lemma asks_persist: "asks no_vm (persist cfg)"
  unfolding persist_def Let_def by (intro asks_bind asks_try_finally) (auto intro!: asks_bind)

lemma asks_runPlans [simp]: "(\<And>f as. P (ProcRun f as)) \<Longrightarrow> asks P (runPlans plans)"
  unfolding runPlans_def by (intro asks_for_each) simp

lemma wp_accept:
  assumes ok: "store_ok s"
    and same: "0 \<le> e \<Longrightarrow> e = get_epoch s i \<Longrightarrow> Q \<lparr>acc_previous = e, acc_advanced = False\<rparr> s l"
    and adv: "\<And>t. get_epoch s i < e \<Longrightarrow> e \<le> max_safe \<Longrightarrow> list_all no_vm t \<Longrightarrow>
        store_ok (set_epoch i e s) \<Longrightarrow> Q \<lparr>acc_previous = get_epoch s i, acc_advanced = True\<rparr> (set_epoch i e s) (l @ t)"
    and stale: "e < get_epoch s i \<Longrightarrow> X (stale_error i e (get_epoch s i)) s l"
    and err: "\<And>x s' t. store_ok s' \<Longrightarrow> get_epoch s' = get_epoch s \<Longrightarrow> list_all no_vm t \<Longrightarrow> X x s' (l @ t)"
  shows "wp (accept cfg i (Num e)) Q X s l"
proof -
  have free: "\<not> mutating s" "s\<lparr>mutating := False\<rparr> = s" using ok by (simp_all add: store_ok_def)
  have X0: "X x s l" for x using err [OF ok refl, of "[]"] by simp
  show ?thesis
  proof (cases "\<not> is_safe_integer (Num e) \<or> e < 0")
    case True
    then show ?thesis using X0 by (simp add: accept_def)
  next
    case False
    then have e: "0 \<le> e" "e \<le> max_safe" by simp_all
    have unset: "set_epoch i e (s\<lparr>mutating := True\<rparr>)\<lparr>mutating := False\<rparr> = set_epoch i e s"
      using free(1) by (cases s) (simp add: set_epoch_def)
    have oks: "store_ok (set_epoch i e s)" by (rule store_ok_set [OF ok e])
    have fail: "store_ok ((if get_epoch s i = 0 then delete_epoch i else set_epoch i (get_epoch s i)) (set_epoch i e s))
       \<and> get_epoch ((if get_epoch s i = 0 then delete_epoch i else set_epoch i (get_epoch s i)) (set_epoch i e s)) = get_epoch s"
      using store_ok_delete [OF oks] store_ok_set [OF oks] store_ok_range [OF ok, of i] by auto
    have reset: "((if get_epoch s i = 0 then delete_epoch i else set_epoch i (get_epoch s i))
          (set_epoch i e (s\<lparr>mutating := True\<rparr>)))\<lparr>mutating := False\<rparr>
        = (if get_epoch s i = 0 then delete_epoch i else set_epoch i (get_epoch s i)) (set_epoch i e s)"
      using free(1) by (cases s) (simp add: set_epoch_def delete_epoch_def)
    consider "e < get_epoch s i" | "e = get_epoch s i" | "get_epoch s i < e" by linarith
    then have "wp (try_finally (accept_body cfg i e) (modify (mutating_update (\<lambda>_. False)))) Q X (s\<lparr>mutating := True\<rparr>) l"
    proof cases
      case 1
      show ?thesis
        unfolding accept_body_def using 1 stale by (simp add: wp_simps free(2))
    next
      case 2
      show ?thesis
        unfolding accept_body_def using 2 e same by (simp add: wp_simps free(2))
    next
      case 3
      have p: "wp (persist cfg) (\<lambda>_ s' l'. Q \<lparr>acc_previous = get_epoch s i, acc_advanced = True\<rparr> (s'\<lparr>mutating := False\<rparr>) l')
          (\<lambda>x s' l'. X x (((if get_epoch s i = 0 then delete_epoch i else set_epoch i (get_epoch s i)) s')\<lparr>mutating := False\<rparr>) l')
          (set_epoch i e (s\<lparr>mutating := True\<rparr>)) l"
        by (rule wp_quiet_asks [OF quiet_persist asks_persist])
          (use 3 e oks fail adv err in \<open>simp_all only: unset reset\<close>)
      show ?thesis
        unfolding accept_body_def using 3 p by (auto simp: wp_simps elim!: wp_mono)
    qed
    then show ?thesis using False free by (simp add: accept_def wp_simps)
  qed
qed

end
