(* ===== verification/Worker_Inv.thy ===== *)
theory Worker_Inv
  imports Worker_Core
begin

text \<open>
  The invariant of a worker between requests, the relation every request respects, and the
  calculus' rules for the guard.
\<close>

section \<open>The invariant\<close>

text \<open>
  A record belongs to its identifier and its epoch was accepted. A machine that was restored
  from a snapshot runs only after the snapshot was marked consumed, and none is marked loaded
  before it is.
\<close>

definition record_ok :: "core \<Rightarrow> string \<Rightarrow> sandbox_record \<Rightarrow> bool" where
  "record_ok c i r \<longleftrightarrow> info_id (sr_info r) = i
     \<and> rec_epoch r \<le> get_epoch (c_epochs c) i
     \<and> (\<forall>m. rec_state r = Running \<and> sr_loadedMigrationId r = Some m \<longrightarrow> m \<in> c_consumed c)
     \<and> (rec_state r = Booting \<longrightarrow> sr_loadedMigrationId r = None)"

definition core_ok :: "core \<Rightarrow> bool" where
  "core_ok c \<longleftrightarrow> store_ok (c_epochs c)
     \<and> (\<forall>i a. c_sandboxes c i = Some a \<longrightarrow> a < c_next c \<and> record_ok c i (c_heap c a))"

text \<open>A reservation whose destination is being prepared; an idle worker has none.\<close>

definition pending :: "core \<Rightarrow> string \<Rightarrow> bool" where
  "pending c k \<longleftrightarrow> Option.bind (c_migrations c k) rv_preparing \<noteq> None"

lemma pending_frame [simp]:
  "pending (c\<lparr>c_heap := h\<rparr>) k = pending c k" "pending (c\<lparr>c_next := n\<rparr>) k = pending c k"
  "pending (c\<lparr>c_consumed := ms\<rparr>) k = pending c k" "pending (c\<lparr>c_sandboxes := sb\<rparr>) k = pending c k"
  "pending (c\<lparr>c_epochs := es\<rparr>) k = pending c k"
  by (simp_all add: pending_def)

definition idle :: "core \<Rightarrow> bool" where
  "idle c \<longleftrightarrow> (\<forall>k. \<not> pending c k)"

definition empty_core :: core where
  "empty_core = \<lparr>c_epochs = \<lparr>epochs = [], mutating = False\<rparr>, c_sandboxes = Map.empty,
     c_heap = (\<lambda>_. undefined), c_next = 0, c_consumed = {}, c_migrations = Map.empty,
     c_manifests = Map.empty, c_allocator = \<lparr>networkOwners = Map.empty, portOwners = []\<rparr>,
     c_processes = Map.empty, c_relays = no_relays, c_promises = Map.empty, c_nextPromise = 0\<rparr>"

lemma empty_core_ok: "core_ok empty_core"
  and empty_core_idle: "idle empty_core"
  by (simp_all add: core_ok_def empty_core_def store_ok_def idle_def pending_def)

lemma core_okD:
  assumes "core_ok c" and "c_sandboxes c i = Some a"
  shows "a < c_next c" "record_ok c i (c_heap c a)" "info_id (sr_info (c_heap c a)) = i"
    "rec_epoch (c_heap c a) \<le> get_epoch (c_epochs c) i"
  using assms by (auto simp: core_ok_def record_ok_def)

lemma core_ok_store: "core_ok c \<Longrightarrow> store_ok (c_epochs c)"
  by (simp add: core_ok_def)

text \<open>Two identifiers never share a record.\<close>

lemma core_ok_inj: "core_ok c \<Longrightarrow> c_sandboxes c i = Some a \<Longrightarrow> c_sandboxes c j = Some a \<Longrightarrow> i = j"
  by (metis core_okD(3))

text \<open>What of the state the invariant of a record looks at.\<close>

lemma record_ok_frame:
  "record_ok c i r \<Longrightarrow> get_epoch (c_epochs c) i \<le> get_epoch (c_epochs c') i \<Longrightarrow>
     c_consumed c \<subseteq> c_consumed c' \<Longrightarrow> record_ok c' i r"
  by (auto simp: record_ok_def)

lemma core_ok_put:
  assumes "core_ok c" and "c_sandboxes c i = Some a" and "record_ok c i r"
  shows "core_ok (c\<lparr>c_heap := (c_heap c)(a := r)\<rparr>)"
proof -
  have same: "record_ok (c\<lparr>c_heap := h\<rparr>) j x = record_ok c j x" for h j x
    by (simp add: record_ok_def)
  have "b < c_next c \<and> record_ok c j (if b = a then r else c_heap c b)" if "c_sandboxes c j = Some b" for j b
  proof (cases "b = a")
    case True
    with that core_ok_inj [OF assms(1,2), of j] assms(3) core_okD(1) [OF assms(1,2)] show ?thesis by simp
  next
    case False
    with core_okD(1,2) [OF assms(1) that] show ?thesis by simp
  qed
  then show ?thesis using assms(1) by (simp add: core_ok_def same)
qed

text \<open>An object that is in no table entry may change freely.\<close>

lemma core_ok_put_loose:
  assumes "core_ok c" and "\<And>i. c_sandboxes c i \<noteq> Some a"
  shows "core_ok (c\<lparr>c_heap := (c_heap c)(a := r)\<rparr>)"
proof -
  have same: "record_ok (c\<lparr>c_heap := h\<rparr>) j x = record_ok c j x" for h j x
    by (simp add: record_ok_def)
  have "b < c_next c \<and> record_ok c j (if b = a then r else c_heap c b)" if "c_sandboxes c j = Some b" for j b
    using core_okD(1,2) [OF assms(1) that] assms(2) [of j] that by (cases "b = a") simp_all
  then show ?thesis using assms(1) by (simp add: core_ok_def same)
qed

lemma core_ok_frame:
  assumes "core_ok c" and "store_ok (c_epochs c')"
    and "c_sandboxes c' = c_sandboxes c" "c_heap c' = c_heap c" "c_next c' = c_next c"
    and "\<And>i. get_epoch (c_epochs c) i \<le> get_epoch (c_epochs c') i"
    and "c_consumed c \<subseteq> c_consumed c'"
  shows "core_ok c'"
proof -
  have "record_ok c' i (c_heap c a)" if "c_sandboxes c i = Some a" for i a
    by (rule record_ok_frame [OF core_okD(2) [OF assms(1) that] assms(6,7)])
  then show ?thesis using assms(1-5) by (simp add: core_ok_def)
qed

section \<open>The relation\<close>

text \<open>
  How one record may change: its machine and its sockets never do, its epoch only grows, the
  mark of a loaded snapshot stays, and a fenced record stays fenced; with \<open>q\<close> it may also
  have been moved to quarantine.
\<close>

definition rec_step :: "bool \<Rightarrow> sandbox_record \<Rightarrow> sandbox_record \<Rightarrow> bool" where
  "rec_step q r r' \<longleftrightarrow> sr_firecracker r' = sr_firecracker r
     \<and> rec_epoch r \<le> rec_epoch r'
     \<and> (\<forall>m. sr_loadedMigrationId r = Some m \<longrightarrow> sr_loadedMigrationId r' = Some m)
     \<and> (rec_state r = FencedState \<longrightarrow> rec_state r' = FencedState \<or> q \<and> rec_state r' = Quarantined)"

text \<open>
  How a worker may change, and what it may have asked for: epochs and consumed snapshots only
  grow, records change as above, no reservation is left in preparation, and a machine that
  existed was resumed only if its record was not fenced.
\<close>

definition evolves :: "bool \<Rightarrow> core \<Rightarrow> syscall list \<Rightarrow> core \<Rightarrow> syscall list \<Rightarrow> bool" where
  "evolves q c l c' l' \<longleftrightarrow>
     (\<forall>i. get_epoch (c_epochs c) i \<le> get_epoch (c_epochs c') i)
   \<and> c_consumed c \<subseteq> c_consumed c'
   \<and> c_next c \<le> c_next c'
   \<and> (\<forall>a < c_next c. rec_step q (c_heap c a) (c_heap c' a))
   \<and> (\<forall>k. pending c' k \<longrightarrow> pending c k)
   \<and> (\<exists>t. l' = l @ t \<and> (\<forall>k. resume_call k \<in> set t \<longrightarrow>
        (\<exists>a < c_next c'. sr_firecracker (c_heap c' a) = k
           \<and> (a < c_next c \<longrightarrow> rec_state (c_heap c a) \<noteq> FencedState))))"

abbreviation good :: "bool \<Rightarrow> core \<Rightarrow> syscall list \<Rightarrow> core \<Rightarrow> syscall list \<Rightarrow> bool" where
  "good q c l c' l' \<equiv> core_ok c' \<and> evolves q c l c' l'"

lemma rec_step_refl [simp]: "rec_step q r r"
  by (simp add: rec_step_def)

lemma rec_step_trans: "rec_step False r r' \<Longrightarrow> rec_step q r' r'' \<Longrightarrow> rec_step q r r''"
  by (auto simp: rec_step_def)

lemma evolves_refl [simp]: "evolves q c l c l"
  by (simp add: evolves_def)

lemma evolves_trans:
  assumes "evolves False c l c1 l1" and "evolves q c1 l1 c2 l2"
  shows "evolves q c l c2 l2"
proof -
  obtain t u where t: "l1 = l @ t" "\<forall>k. resume_call k \<in> set t \<longrightarrow>
        (\<exists>a < c_next c1. sr_firecracker (c_heap c1 a) = k \<and> (a < c_next c \<longrightarrow> rec_state (c_heap c a) \<noteq> FencedState))"
    and u: "l2 = l1 @ u" "\<forall>k. resume_call k \<in> set u \<longrightarrow>
        (\<exists>a < c_next c2. sr_firecracker (c_heap c2 a) = k \<and> (a < c_next c1 \<longrightarrow> rec_state (c_heap c1 a) \<noteq> FencedState))"
    using assms by (auto simp: evolves_def)
  have "\<exists>a < c_next c2. sr_firecracker (c_heap c2 a) = k \<and> (a < c_next c \<longrightarrow> rec_state (c_heap c a) \<noteq> FencedState)"
    if "resume_call k \<in> set (t @ u)" for k
  proof (cases "resume_call k \<in> set t")
    case True
    with t(2) obtain a where "a < c_next c1" "sr_firecracker (c_heap c1 a) = k"
      "a < c_next c \<longrightarrow> rec_state (c_heap c a) \<noteq> FencedState" by blast
    with assms(2) show ?thesis
      by (intro exI [of _ a]) (auto simp: evolves_def rec_step_def)
  next
    case False
    with that u(2) obtain a where a: "a < c_next c2" "sr_firecracker (c_heap c2 a) = k"
      "a < c_next c1 \<longrightarrow> rec_state (c_heap c1 a) \<noteq> FencedState" by auto
    with assms(1) show ?thesis
      by (intro exI [of _ a]) (auto simp: evolves_def rec_step_def)
  qed
  moreover have "l2 = l @ t @ u" using t u by simp
  moreover have "rec_step q (c_heap c a) (c_heap c2 a)" if "a < c_next c" for a
    using assms that by (auto simp: evolves_def intro: rec_step_trans less_le_trans)
  ultimately show ?thesis
    using assms by (auto simp: evolves_def intro: order_trans)
qed

lemma evolves_weaken: "evolves False c l c' l' \<Longrightarrow> evolves q c l c' l'"
  unfolding evolves_def rec_step_def by blast

text \<open>The three ways to take a step: asking, changing one record, changing what records do not see.\<close>

abbreviation no_resume :: "syscall \<Rightarrow> bool" where
  "no_resume c \<equiv> \<forall>k. c \<noteq> resume_call k"

lemma no_vm_no_resume: "list_all no_vm t \<Longrightarrow> list_all no_resume t"
  by (induction t) (auto simp: resume_call_def)

lemma evolves_calls: "list_all no_resume t \<Longrightarrow> evolves q c l c (l @ t)"
  by (auto simp: evolves_def list_all_iff)

lemma evolves_put: "rec_step q (c_heap c a) r \<Longrightarrow> evolves q c l (c\<lparr>c_heap := (c_heap c)(a := r)\<rparr>) l"
  by (simp add: evolves_def pending_def)

lemma evolves_frame:
  "c_heap c' = c_heap c \<Longrightarrow> c_next c' = c_next c \<Longrightarrow> c_migrations c' = c_migrations c \<Longrightarrow>
     (\<And>i. get_epoch (c_epochs c) i \<le> get_epoch (c_epochs c') i) \<Longrightarrow> c_consumed c \<subseteq> c_consumed c' \<Longrightarrow>
     list_all no_resume t \<Longrightarrow> evolves q c l c' (l @ t)"
  by (auto simp: evolves_def list_all_iff pending_def)

section \<open>Rules\<close>

text \<open>Asking the platform, without driving a machine to resume.\<close>

lemma wp_ask:
  "quiet p \<Longrightarrow> asks no_resume p \<Longrightarrow> (\<And>v t. list_all no_resume t \<Longrightarrow> Q v c (l @ t)) \<Longrightarrow>
     (\<And>e t. list_all no_resume t \<Longrightarrow> X e c (l @ t)) \<Longrightarrow> wp p Q X c l"
  by (rule wp_quiet_asks)

lemma no_resume_set: "list_all no_resume t \<Longrightarrow> resume_call k \<notin> set t"
  by (auto simp: list_all_iff)

lemma evolves_log: "evolves q c l c' l' \<Longrightarrow> list_all no_resume t \<Longrightarrow> evolves q c l c' (l' @ t)"
  using no_resume_set [of t] by (auto simp: evolves_def)

lemma good_asked: "good q c l c' l' \<Longrightarrow> list_all no_resume t \<Longrightarrow> good q c l c' (l' @ t)"
  using evolves_log by blast

lemma good_trans: "good False c l c1 l1 \<Longrightarrow> good q c1 l1 c2 l2 \<Longrightarrow> good q c l c2 l2"
  using evolves_trans by blast

lemma good_put:
  "good False c l c' l' \<Longrightarrow> c_sandboxes c' i = Some a \<Longrightarrow> record_ok c' i r \<Longrightarrow> rec_step q (c_heap c' a) r \<Longrightarrow>
     good q c l (c'\<lparr>c_heap := (c_heap c')(a := r)\<rparr>) l'"
  using core_ok_put evolves_put evolves_trans by blast

text \<open>Changing only what no record looks at: processes, relays, manifests, the allocator, promises.\<close>

lemma good_aside:
  assumes "good q c l c' l'" and "list_all no_resume t"
    and "c_epochs c2 = c_epochs c'" "c_sandboxes c2 = c_sandboxes c'" "c_heap c2 = c_heap c'"
      "c_next c2 = c_next c'" "c_consumed c2 = c_consumed c'" "c_migrations c2 = c_migrations c'"
  shows "good q c l c2 (l' @ t)"
proof -
  have "core_ok c2"
    by (rule core_ok_frame [of c' c2]) (use assms in \<open>simp_all add: core_ok_store\<close>)
  moreover have "evolves q c l c2 l'"
    using assms by (simp add: evolves_def pending_def)
  then have "evolves q c l c2 (l' @ t)"
    using assms(2) by (rule evolves_log)
  ultimately show ?thesis by simp
qed

lemma core_ok_epochs:
  assumes "core_ok c" and "store_ok s" and "\<And>i. get_epoch (c_epochs c) i \<le> get_epoch s i"
  shows "core_ok (c\<lparr>c_epochs := s\<rparr>)"
  by (rule core_ok_frame [OF assms(1)]) (simp_all add: assms(2,3))

lemma good_epochs:
  "core_ok c \<Longrightarrow> store_ok s \<Longrightarrow> (\<And>i. get_epoch (c_epochs c) i \<le> get_epoch s i) \<Longrightarrow> list_all no_resume t \<Longrightarrow>
     good q c l (c\<lparr>c_epochs := s\<rparr>) (l @ t)"
  by (auto intro: core_ok_epochs evolves_frame)

text \<open>Accepting an epoch on the core.\<close>

lemma wp_core_accept:
  assumes ok: "core_ok c"
    and Q: "\<And>acc c' l'. good False c l c' l' \<Longrightarrow> c_heap c' = c_heap c \<Longrightarrow> c_sandboxes c' = c_sandboxes c \<Longrightarrow>
        c_next c' = c_next c \<Longrightarrow> c_allocator c' = c_allocator c \<Longrightarrow> c_consumed c' = c_consumed c \<Longrightarrow>
        c_migrations c' = c_migrations c \<Longrightarrow>
        e = get_epoch (c_epochs c') i \<Longrightarrow> 0 \<le> e \<Longrightarrow> Q acc c' l'"
    and X: "\<And>x c' l'. good False c l c' l' \<Longrightarrow> c_heap c' = c_heap c \<Longrightarrow> c_sandboxes c' = c_sandboxes c \<Longrightarrow> X x c' l'"
  shows "wp (on_epochs (accept cfg i (Num e))) Q X c l"
  unfolding wp_zoom_epochs
proof (rule wp_accept [OF core_ok_store [OF ok]])
  show "Q \<lparr>acc_previous = e, acc_advanced = False\<rparr> (c\<lparr>c_epochs := c_epochs c\<rparr>) l"
    if "0 \<le> e" "e = get_epoch (c_epochs c) i"
    using that by (intro Q) (simp_all add: ok)
  show "Q \<lparr>acc_previous = get_epoch (c_epochs c) i, acc_advanced = True\<rparr>
      (c\<lparr>c_epochs := set_epoch i e (c_epochs c)\<rparr>) (l @ t)"
    if "get_epoch (c_epochs c) i < e" "list_all no_vm t" "store_ok (set_epoch i e (c_epochs c))" for t
    by (intro Q good_epochs)
      (use that ok no_vm_no_resume store_ok_range [OF core_ok_store [OF ok], of i] in auto)
  show "X (stale_error i e (get_epoch (c_epochs c) i)) (c\<lparr>c_epochs := c_epochs c\<rparr>) l"
    by (intro X) (simp_all add: ok)
  show "X x (c\<lparr>c_epochs := s'\<rparr>) (l @ t)"
    if "store_ok s'" "get_epoch s' = get_epoch (c_epochs c)" "list_all no_vm t" for x s' t
    by (intro X good_epochs) (use that ok no_vm_no_resume in auto)
qed

text \<open>Fencing a record: it is fenced first, whatever happens to the rest.\<close>

definition fenced_record :: "int \<Rightarrow> sandbox_record \<Rightarrow> sandbox_record" where
  "fenced_record e r = r\<lparr>sr_info := fence_info e (sr_info r)\<rparr>"

lemma fenced_record_simps [simp]:
  "rec_state (fenced_record e r) = FencedState" "rec_epoch (fenced_record e r) = e"
  "sr_firecracker (fenced_record e r) = sr_firecracker r"
  "sr_loadedMigrationId (fenced_record e r) = sr_loadedMigrationId r"
  "sr_quarantinePath (fenced_record e r) = sr_quarantinePath r"
  "sr_networkKeys (fenced_record e r) = sr_networkKeys r"
  "info_id (sr_info (fenced_record e r)) = info_id (sr_info r)"
  by (simp_all add: fenced_record_def fence_info_def)

lemma record_ok_fenced: "record_ok c i r \<Longrightarrow> e \<le> get_epoch (c_epochs c) i \<Longrightarrow> record_ok c i (fenced_record e r)"
  by (simp add: record_ok_def)

lemma rec_step_fenced: "rec_epoch r \<le> e \<Longrightarrow> rec_step q r (fenced_record e r)"
  by (simp add: rec_step_def)

lemma asks_no_resume [simp]:
  "asks no_resume (downHostVeth a)" "asks no_resume (runPlans ps)" "asks no_resume (fc_pause k)"
  "asks no_resume (fc_createSnapshot k x y)" "asks no_resume (fc_configure k b)" "asks no_resume (fc_start k)"
  "asks no_resume (fc_loadSnapshot k q)"
  by (auto simp: downHostVeth_def at_rec_def fc_pause_def fc_patch_def resume_call_def
      fc_createSnapshot_def fc_put_def fc_configure_def fc_start_def fc_loadSnapshot_def intro!: asks_bind)

lemma quiet_downHostVeth [simp]: "quiet (downHostVeth a)"
  by (simp add: downHostVeth_def at_rec_def)

lemma wp_fence_record:
  assumes g: "good False c l c' l'" and a: "c_sandboxes c' i = Some a" and e: "e = get_epoch (c_epochs c') i"
    and Q: "\<And>c2 l2. good False c l c2 l2 \<Longrightarrow> c_heap c2 a = fenced_record e (c_heap c' a) \<Longrightarrow>
        c_sandboxes c2 = c_sandboxes c' \<Longrightarrow> c_epochs c2 = c_epochs c' \<Longrightarrow> Q () c2 l2"
  shows "wp (seq (put_info a (fence_info e)) (await (on_relays (stopSandbox j)))) Q X c' l'"
  unfolding wp_simps wp_put_info wp_zoom_relays
proof (rule wp_stopSandbox)
  fix s' t
  assume t: "list_all no_vm t"
  let ?c1 = "c'\<lparr>c_heap := (c_heap c')(a := fenced_record e (c_heap c' a))\<rparr>"
  have r: "record_ok c' i (c_heap c' a)" using core_okD(2) g a by blast
  have "good False c l ?c1 l'"
    by (rule good_put [OF g a]) (use r e in \<open>auto intro: record_ok_fenced rec_step_fenced simp: record_ok_def\<close>)
  then have "good False c l (?c1\<lparr>c_relays := s'\<rparr>) (l' @ t)"
    by (rule good_aside) (use t no_vm_no_resume in auto)
  then show "Q () (c'\<lparr>c_heap := (c_heap c')(a := (c_heap c' a)\<lparr>sr_info := fence_info e (sr_info (c_heap c' a))\<rparr>)\<rparr>
      \<lparr>c_relays := s'\<rparr>) (l' @ t)"
    by (intro Q) (simp_all add: fenced_record_def)
qed

lemma wp_fenceQuietly:
  assumes g: "good False c l c' l'" and a: "c_sandboxes c' i = Some a" and e: "e = get_epoch (c_epochs c') i"
    and Q: "\<And>c2 l2. good False c l c2 l2 \<Longrightarrow> Q () c2 l2"
  shows "wp (fenceQuietly a i e) Q X c' l'"
proof -
  have split: "fenceQuietly a i e = at_rec a (\<lambda>r. seq (seq (put_info a (fence_info e)) (await (on_relays (stopSandbox i))))
     (seq (settled (downHostVeth a)) (if rec_state r = Running then settled (fc_pause (sr_firecracker r)) else skip)))"
    by (simp add: fenceQuietly_def bind_bind)
  have rest: "wp (seq (settled (downHostVeth a)) (if b then settled (fc_pause k) else skip)) Q X c2 l2"
    if "good False c l c2 l2" for c2 l2 b k
  proof -
    have two: "wp (if b then settled (fc_pause k) else skip) Q X c2 (l2 @ t)" if "list_all no_resume t" for t
    proof (cases b)
      case True
      show ?thesis
        unfolding if_P [OF True] wp_settled
        by (rule wp_ask) (use \<open>good False c l c2 l2\<close> that in \<open>simp_all add: Q good_asked evolves_log\<close>)
    next
      case False
      then show ?thesis using \<open>good False c l c2 l2\<close> that by (simp add: Q good_asked evolves_log)
    qed
    show ?thesis
      unfolding wp_bind wp_settled by (rule wp_ask) (simp_all add: two)
  qed
  show ?thesis
    unfolding split wp_at_rec wp_bind [of "seq x y" for x y]
    by (rule wp_fence_record [OF g a e]) (rule rest)
qed

text \<open>
  The guard. When it lets a request pass, nothing but the epoch table has changed, the record
  is there and not fenced, the request's epoch is the accepted one and not below the record's.
\<close>

lemma wp_mutableRecord:
  assumes ok: "core_ok c"
    and X: "\<And>x c' l'. good False c l c' l' \<Longrightarrow> X x c' l'"
    and Q: "\<And>a c' l'. good False c l c' l' \<Longrightarrow> c_sandboxes c' i = Some a \<Longrightarrow> c_heap c' = c_heap c \<Longrightarrow>
        c_sandboxes c' = c_sandboxes c \<Longrightarrow> e = get_epoch (c_epochs c') i \<Longrightarrow> rec_epoch (c_heap c' a) \<le> e \<Longrightarrow>
        rec_state (c_heap c' a) \<noteq> FencedState \<Longrightarrow> record_ok c' i (c_heap c' a) \<Longrightarrow>
        (case expected of None \<Rightarrow> True | Some st \<Rightarrow> rec_state (c_heap c' a) = st) \<Longrightarrow> Q a c' l'"
  shows "wp (mutableRecord cfg i e expected) Q X c l"
proof (cases "c_sandboxes c i")
  case None
  then show ?thesis using ok by (simp add: mutableRecord_def wp_simps X)
next
  case (Some a)
  show ?thesis
    unfolding mutableRecord_def wp_bind wp_record_of Some option.case wp_await
  proof (rule wp_core_accept [OF ok])
    fix acc c' l'
    assume g: "good False c l c' l'" and same: "c_heap c' = c_heap c" "c_sandboxes c' = c_sandboxes c"
      and e: "e = get_epoch (c_epochs c') i"
    have a: "c_sandboxes c' i = Some a" using same Some by simp
    have r: "record_ok c' i (c_heap c' a)" using core_okD(2) g a by blast
    show "wp (at_rec a (\<lambda>r.
       if acc_advanced acc \<and> rec_state r \<noteq> Booting
       then seq (await (fenceQuietly a i e)) (Throw (fencedError i e e))
       else if rec_state r = FencedState \<or> e < rec_epoch r
       then Throw (fencedError i e (rec_epoch r))
       else case expected of
           Some st \<Rightarrow> if rec_state r \<noteq> st then Throw (stateMismatch st (rec_state r)) else Return a
         | None \<Rightarrow> Return a)) Q X c' l'"
    proof (cases "acc_advanced acc \<and> rec_state (c_heap c' a) \<noteq> Booting")
      case True
      then show ?thesis
        unfolding wp_at_rec by (simp add: wp_bind wp_await wp_fenceQuietly [OF g a e] X)
    next
      case False
      then show ?thesis
        using g a same e r X Q unfolding wp_at_rec
        by (auto split: option.split)
    qed
  qed (rule X)
qed

section \<open>Handlers, step by step\<close>

text \<open>
  A handler that has passed the guard works on the record of \<open>i\<close> at \<open>a\<close>. \<open>stays\<close>: a
  step after which it still does, and \<open>P\<close> of the record still holds; \<open>ends\<close>: a rest of
  the handler that leaves a good state. The rules follow the shape of the program.
\<close>

definition cursor :: "core \<Rightarrow> syscall list \<Rightarrow> string \<Rightarrow> nat \<Rightarrow> (core \<Rightarrow> sandbox_record \<Rightarrow> bool) \<Rightarrow>
    core \<Rightarrow> syscall list \<Rightarrow> bool" where
  "cursor c l i a P c' l' \<longleftrightarrow> good False c l c' l' \<and> c_sandboxes c' i = Some a \<and> P c' (c_heap c' a)"

definition stays :: "core \<Rightarrow> syscall list \<Rightarrow> string \<Rightarrow> nat \<Rightarrow> (core \<Rightarrow> sandbox_record \<Rightarrow> bool) \<Rightarrow> (core, 'a) prog \<Rightarrow> bool" where
  "stays c l i a P p \<longleftrightarrow> (\<forall>c' l'. cursor c l i a P c' l' \<longrightarrow>
     wp p (\<lambda>_. cursor c l i a P) (\<lambda>_. cursor c l i a P) c' l')"

definition ends :: "bool \<Rightarrow> core \<Rightarrow> syscall list \<Rightarrow> string \<Rightarrow> nat \<Rightarrow> (core \<Rightarrow> sandbox_record \<Rightarrow> bool) \<Rightarrow> (core, 'a) prog \<Rightarrow> bool" where
  "ends q c l i a P p \<longleftrightarrow> (\<forall>c' l'. cursor c l i a P c' l' \<longrightarrow>
     wp p (\<lambda>_. good q c l) (\<lambda>_. good q c l) c' l')"

named_theorems handler_rules

lemma good_weaken: "good False c l c' l' \<Longrightarrow> good q c l c' l'"
  using evolves_weaken by blast

lemma cursor_record: "cursor c l i a P c' l' \<Longrightarrow> record_ok c' i (c_heap c' a)"
  by (auto simp: cursor_def core_okD(2))

lemma stays_Return [handler_rules]: "stays c l i a P (Return v)"
  by (simp add: stays_def)

lemma stays_Throw [handler_rules]: "stays c l i a P (Throw e)"
  by (simp add: stays_def cursor_def)

lemma stays_settle [handler_rules]: "stays c l i a P (settle r)"
  by (cases r) (simp_all add: stays_Return stays_Throw)

lemma stays_quiet: "quiet p \<Longrightarrow> asks no_resume p \<Longrightarrow> stays c l i a P p"
  unfolding stays_def
proof (intro allI impI)
  fix c' l'
  assume q: "quiet p" "asks no_resume p" and at: "cursor c l i a P c' l'"
  show "wp p (\<lambda>_. cursor c l i a P) (\<lambda>_. cursor c l i a P) c' l'"
    by (rule wp_ask [OF q]) (use at in \<open>auto simp: cursor_def intro: evolves_log\<close>)
qed

lemma stays_bind [handler_rules]: "stays c l i a P p \<Longrightarrow> (\<And>v. stays c l i a P (f v)) \<Longrightarrow> stays c l i a P (bind p f)"
  unfolding stays_def wp_bind by (blast intro: wp_mono)

lemma stays_try_catch [handler_rules]:
  "stays c l i a P p \<Longrightarrow> (\<And>e. stays c l i a P (h e)) \<Longrightarrow> stays c l i a P (try_catch p h)"
  unfolding stays_def wp_try_catch by (blast intro: wp_mono)

lemma stays_if [handler_rules]: "(b \<Longrightarrow> stays c l i a P p) \<Longrightarrow> (\<not> b \<Longrightarrow> stays c l i a P q) \<Longrightarrow> stays c l i a P (if b then p else q)"
  by simp

lemma stays_await [handler_rules]: "stays c l i a P p \<Longrightarrow> stays c l i a P (await p)"
  by (simp add: stays_def wp_await)

lemma stays_at_rec [handler_rules]: "(\<And>r. stays c l i a P (k r)) \<Longrightarrow> stays c l i a P (at_rec b k)"
  by (simp add: stays_def wp_at_rec)

lemma stays_Read [handler_rules]: "(\<And>c0. stays c l i a P (k c0)) \<Longrightarrow> stays c l i a P (Read k)"
  by (simp add: stays_def)

lemma stays_put [handler_rules]:
  assumes "\<And>c r. P c r \<Longrightarrow> record_ok c i r \<Longrightarrow> record_ok c i (f r)"
    and "\<And>c r. P c r \<Longrightarrow> record_ok c i r \<Longrightarrow> rec_step False r (f r)"
    and "\<And>c r. P c r \<Longrightarrow> P c (f r)" and "\<And>c h r. P (c\<lparr>c_heap := h\<rparr>) r = P c r"
  shows "stays c l i a P (put_record a f)"
  unfolding stays_def wp_put_record
proof (intro allI impI)
  fix c' l'
  assume at: "cursor c l i a P c' l'"
  then have g: "good False c l c' l'" "c_sandboxes c' i = Some a" "P c' (c_heap c' a)"
    by (simp_all add: cursor_def)
  from good_put [OF g(1,2) assms(1,2)] g(3) cursor_record [OF at] assms(3,4) g(2)
  show "cursor c l i a P (c'\<lparr>c_heap := (c_heap c')(a := f (c_heap c' a))\<rparr>) l'"
    by (simp add: cursor_def)
qed

lemma ends_stays: "stays c l i a P p \<Longrightarrow> ends q c l i a P p"
  unfolding stays_def ends_def
proof (intro allI impI)
  fix c' l'
  assume "\<forall>c' l'. cursor c l i a P c' l' \<longrightarrow> wp p (\<lambda>_. cursor c l i a P) (\<lambda>_. cursor c l i a P) c' l'"
    and "cursor c l i a P c' l'"
  then have "wp p (\<lambda>_. cursor c l i a P) (\<lambda>_. cursor c l i a P) c' l'" by blast
  then show "wp p (\<lambda>_. good q c l) (\<lambda>_. good q c l) c' l'"
    by (rule wp_mono) (auto simp: cursor_def intro: evolves_weaken)
qed

lemma ends_bind: "stays c l i a P p \<Longrightarrow> (\<And>v. ends q c l i a P (f v)) \<Longrightarrow> ends q c l i a P (bind p f)"
  unfolding stays_def ends_def wp_bind
proof (intro allI impI)
  fix c' l'
  assume p: "\<forall>c' l'. cursor c l i a P c' l' \<longrightarrow> wp p (\<lambda>_. cursor c l i a P) (\<lambda>_. cursor c l i a P) c' l'"
    and f: "\<And>v. \<forall>c' l'. cursor c l i a P c' l' \<longrightarrow> wp (f v) (\<lambda>_. good q c l) (\<lambda>_. good q c l) c' l'"
    and "cursor c l i a P c' l'"
  then have "wp p (\<lambda>_. cursor c l i a P) (\<lambda>_. cursor c l i a P) c' l'" by blast
  then show "wp p (\<lambda>v. wp (f v) (\<lambda>_. good q c l) (\<lambda>_. good q c l)) (\<lambda>_. good q c l) c' l'"
    by (rule wp_mono) (use f evolves_weaken in \<open>auto simp: cursor_def\<close>)
qed

lemma ends_await: "ends q c l i a P p \<Longrightarrow> ends q c l i a P (await p)"
  by (simp add: ends_def wp_await)

lemma ends_at_rec: "(\<And>c0. P c0 (c_heap c0 a) \<Longrightarrow> ends q c l i a P (k (c_heap c0 a))) \<Longrightarrow> ends q c l i a P (at_rec a k)"
  by (simp add: ends_def wp_at_rec cursor_def)

lemma ends_put:
  assumes "\<And>c r. P c r \<Longrightarrow> record_ok c i r \<Longrightarrow> record_ok c i (f r)"
    and "\<And>c r. P c r \<Longrightarrow> record_ok c i r \<Longrightarrow> rec_step q r (f r)"
  shows "ends q c l i a P (put_record a f)"
  unfolding ends_def wp_put_record
proof (intro allI impI)
  fix c' l'
  assume at: "cursor c l i a P c' l'"
  then have g: "good False c l c' l'" "c_sandboxes c' i = Some a" "P c' (c_heap c' a)"
    by (simp_all add: cursor_def)
  from good_put [OF g(1,2) assms(1,2)] g(3) cursor_record [OF at]
  show "good q c l (c'\<lparr>c_heap := (c_heap c')(a := f (c_heap c' a))\<rparr>) l'" by simp
qed

text \<open>A write after which the record satisfies \<open>P'\<close>.\<close>

lemma ends_put_then:
  assumes "\<And>c r. P c r \<Longrightarrow> record_ok c i r \<Longrightarrow> record_ok c i (f r)"
    and "\<And>c r. P c r \<Longrightarrow> record_ok c i r \<Longrightarrow> rec_step False r (f r)"
    and "\<And>c h r. P c r \<Longrightarrow> P' (c\<lparr>c_heap := h\<rparr>) (f r)"
    and "\<And>v. ends q c l i a P' (g v)"
  shows "ends q c l i a P (bind (put_record a f) g)"
  unfolding ends_def wp_bind wp_put_record
proof (intro allI impI)
  fix c' l'
  assume at: "cursor c l i a P c' l'"
  then have g: "good False c l c' l'" "c_sandboxes c' i = Some a" "P c' (c_heap c' a)"
    by (simp_all add: cursor_def)
  have "cursor c l i a P' (c'\<lparr>c_heap := (c_heap c')(a := f (c_heap c' a))\<rparr>) l'"
    using good_put [OF g(1,2) assms(1,2)] g(2,3) cursor_record [OF at] assms(3) by (simp add: cursor_def)
  with assms(4) show "wp (g ()) (\<lambda>_. good q c l) (\<lambda>_. good q c l)
      (c'\<lparr>c_heap := (c_heap c')(a := f (c_heap c' a))\<rparr>) l'"
    by (simp add: ends_def)
qed

text \<open>What the guard hands to the rest of the handler.\<close>

definition admitted :: "string \<Rightarrow> int \<Rightarrow> sandbox_state option \<Rightarrow> core \<Rightarrow> sandbox_record \<Rightarrow> bool" where
  "admitted i e expected c r \<longleftrightarrow> e = get_epoch (c_epochs c) i \<and> rec_epoch r \<le> e \<and> rec_state r \<noteq> FencedState
     \<and> (case expected of None \<Rightarrow> True | Some st \<Rightarrow> rec_state r = st)"

abbreviation safe_prog :: "bool \<Rightarrow> (core, 'a) prog \<Rightarrow> bool" where
  "safe_prog q p \<equiv> \<forall>c l. core_ok c \<longrightarrow> wp p (\<lambda>_. good q c l) (\<lambda>_. good q c l) c l"

lemma safe_guarded:
  assumes "\<And>c l a. ends q c l i a (admitted i e expected) (f a)"
  shows "safe_prog q (bind (await (mutableRecord cfg i e expected)) f)"
proof (intro allI impI)
  fix c l
  assume ok: "core_ok c"
  show "wp (bind (await (mutableRecord cfg i e expected)) f) (\<lambda>_. good q c l) (\<lambda>_. good q c l) c l"
    unfolding wp_bind wp_await
  proof (rule wp_mutableRecord [OF ok])
    fix x c' l'
    assume "good False c l c' l'"
    then show "good q c l c' l'" by (rule good_weaken)
  next
    fix a c' l'
    assume "good False c l c' l'" "c_sandboxes c' i = Some a" "e = get_epoch (c_epochs c') i"
      "rec_epoch (c_heap c' a) \<le> e" "rec_state (c_heap c' a) \<noteq> FencedState"
      "case expected of None \<Rightarrow> True | Some st \<Rightarrow> rec_state (c_heap c' a) = st"
    then have "cursor c l i a (admitted i e expected) c' l'" by (simp add: cursor_def admitted_def)
    with assms show "wp (f a) (\<lambda>_. good q c l) (\<lambda>_. good q c l) c' l'" by (simp add: ends_def)
  qed
qed

end
