(* ===== verification/Worker_Snapshot.thy ===== *)
theory Worker_Snapshot
  imports Worker_Inv
begin

text \<open>
  \<open>worker/snapshot/worker-artifact-paths.ts\<close>, \<open>worker-manifest.ts\<close> and
  \<open>worker-snapshot.ts\<close>: the artifacts of a record, its compatibility manifest and the
  creation of a snapshot. The three artifacts, which the source describes together, are
  described in their order, and a failure of one ends the rest.
\<close>

section \<open>Artifacts\<close>

fun artifactPath :: "sandbox_record \<Rightarrow> artifact_kind \<Rightarrow> string" where
  "artifactPath r StateFile = statePath (sr_paths r)"
| "artifactPath r MemFile = memoryPath (sr_paths r)"
| "artifactPath r DiskFile = physicalRootfs (sr_paths r)"

definition artifact_missing_error :: "artifact_kind \<Rightarrow> js_error" where
  "artifact_missing_error kind = firemig NotFound (''Artifact '' @ kind_text kind @ '' is unavailable'') False
     None (Some 404)"

definition readArtifact :: "string \<Rightarrow> artifact_kind \<Rightarrow> (core, string \<times> artifact_descriptor) prog" where
  "readArtifact i kind = bind (record_of i) (\<lambda>a. at_rec a (\<lambda>r.
     case sr_artifacts r kind of
       None \<Rightarrow> Throw (artifact_missing_error kind)
     | Some d \<Rightarrow> Return (artifactPath r kind, d)))"

section \<open>Manifests\<close>

definition TAP_NAME :: string where
  "TAP_NAME = ''fmtap0''"

definition buildManifest :: "worker_config \<Rightarrow> string \<Rightarrow> snapshot_request \<Rightarrow> sandbox_record \<Rightarrow>
    (artifact_kind \<Rightarrow> artifact_descriptor) \<Rightarrow> compat_manifest" where
  "buildManifest cfg i q r artifacts =
     (let host = wc_hostCompatibility cfg in
      \<lparr>m_migrationId = sq_migrationId q, m_sandboxId = i, m_sourceEpoch = sq_epoch q,
       m_firecrackerVersion = hc_firecrackerVersion host, m_firecrackerDigest = hc_firecrackerDigest host,
       m_snapshotFormatVersion = hc_snapshotFormatVersion host, m_hostKernelVersion = hc_hostKernelVersion host,
       m_cpu = \<lparr>cpu_architecture = hc_architecture host, cpu_vendor = hc_cpuVendor host,
         cpu_model = hc_cpuModel host, cpu_family = hc_cpuFamily host, cpu_stepping = hc_cpuStepping host\<rparr>,
       m_guestKernelDigest = hc_guestKernelDigest host, m_cpuTemplate = hc_cpuTemplate host,
       m_vcpuCount = info_cpu (sr_info r), m_memSizeMib = info_memoryMb (sr_info r),
       m_smt = hc_smt host, m_hugePages = hc_hugePages host,
       m_driveCanonicalPath = canonicalRootfs (sr_paths r), m_tapName = TAP_NAME,
       m_vsockCanonicalPath = canonicalVsock (sr_paths r), m_artifacts = artifacts,
       m_ports = Some (orelse (info_ports (sr_info r)) []), m_consumed = False\<rparr>)"

definition reservation_problems :: "compat_manifest \<Rightarrow> sandbox_record \<Rightarrow> string list" where
  "reservation_problems m r =
     (if m_vcpuCount m \<noteq> info_cpu (sr_info r)
      then [''vcpu_count does not match the destination reservation''] else [])
   @ (if m_memSizeMib m \<noteq> info_memoryMb (sr_info r)
      then [''mem_size_mib does not match the destination reservation''] else [])
   @ (if m_driveCanonicalPath m \<noteq> canonicalRootfs (sr_paths r)
      then [''canonical drive path does not match''] else [])
   @ (if m_vsockCanonicalPath m \<noteq> canonicalVsock (sr_paths r)
      then [''canonical vsock path does not match''] else [])
   @ (if m_tapName m \<noteq> TAP_NAME then [''TAP name does not match''] else [])"

definition reservation_error :: "string list \<Rightarrow> js_error" where
  "reservation_error ps = firemig IncompatibleDestination
     ''Snapshot resources do not match the destination reservation'' False (Some (problem_details ps)) (Some 412)"

definition validateManifest :: "worker_config \<Rightarrow> compat_manifest \<Rightarrow> (core, unit) prog" where
  "validateManifest cfg m =
     seq (settle (assertCompatible m (wc_hostCompatibility cfg)))
       (Read (\<lambda>c. case c_sandboxes c (m_sandboxId m) of
          None \<Rightarrow> skip
        | Some a \<Rightarrow> at_rec a (\<lambda>r.
            let problems = reservation_problems m r
            in if problems \<noteq> [] then Throw (reservation_error problems) else skip)))"

section \<open>Snapshots\<close>

definition describe :: "worker_config \<Rightarrow> artifact_kind \<Rightarrow> string \<Rightarrow> ('s, artifact_descriptor) prog" where
  "describe cfg kind path =
     (if wc_sharedWorkerRoot cfg \<noteq> None then describeSharedArtifact kind path
      else describeArtifact (wc_sha cfg) kind path)"

definition three_artifacts :: "artifact_descriptor \<Rightarrow> artifact_descriptor \<Rightarrow> artifact_descriptor \<Rightarrow>
    artifact_kind \<Rightarrow> artifact_descriptor" where
  "three_artifacts st mem disk k = (case k of StateFile \<Rightarrow> st | MemFile \<Rightarrow> mem | DiskFile \<Rightarrow> disk)"

definition createSnapshot :: "worker_config \<Rightarrow> string \<Rightarrow> snapshot_request \<Rightarrow> (core, compat_manifest) prog" where
  "createSnapshot cfg i q =
     bind (await (mutableRecord cfg i (sq_epoch q) (Some Paused))) (\<lambda>a.
     seq (put_record a (\<lambda>r. r\<lparr>sr_generation := sr_generation r + 1\<rparr>))
     (at_rec a (\<lambda>r0.
      bind (settle (sandbox_paths_of (path_model_of cfg) i (Num (sr_generation r0)))) (\<lambda>generated.
      seq (await (fc_createSnapshot (sr_firecracker r0) (statePath generated) (memoryPath generated)))
      (seq (if wc_sharedWorkerRoot cfg = None
            then at_rec a (\<lambda>r. await (syncSnapshotFiles [statePath generated, memoryPath generated, physicalRootfs (sr_paths r)]))
            else skip)
      (bind (await (describe cfg StateFile (statePath generated))) (\<lambda>st.
       bind (await (describe cfg MemFile (memoryPath generated))) (\<lambda>mem.
       bind (at_rec a (\<lambda>r. await (describe cfg DiskFile (physicalRootfs (sr_paths r))))) (\<lambda>disk.
       seq (put_record a (\<lambda>r. r\<lparr>sr_paths := generated,
              sr_artifacts := (\<lambda>k. Some (three_artifacts st mem disk k))\<rparr>))
         (at_rec a (\<lambda>r. Return (buildManifest cfg i q r (three_artifacts st mem disk)))))))))))))"

section \<open>The invariant is kept\<close>

lemma wp_validateManifest:
  assumes "Q () c l" and "\<And>e. X e c l"
  shows "wp (validateManifest cfg m) Q X c l"
  using assms unfolding validateManifest_def
  by (auto simp: wp_simps Let_def split: sum.split option.split)

lemma record_ok_other:
  "record_ok c i (r\<lparr>sr_generation := n\<rparr>) = record_ok c i r"
  "record_ok c i (r\<lparr>sr_paths := p\<rparr>) = record_ok c i r"
  "record_ok c i (r\<lparr>sr_artifacts := d\<rparr>) = record_ok c i r"
  "record_ok c i (r\<lparr>sr_info := (sr_info r)\<lparr>info_ports := ps\<rparr>\<rparr>) = record_ok c i r"
  "record_ok c i (r\<lparr>sr_info := (sr_info r)\<lparr>info_bootId := b\<rparr>\<rparr>) = record_ok c i r"
  by (simp_all add: record_ok_def)

lemma rec_step_other [simp]:
  "rec_step q r (r\<lparr>sr_generation := n\<rparr>)"
  "rec_step q r (r\<lparr>sr_paths := p, sr_artifacts := d\<rparr>)"
  "rec_step q r (r\<lparr>sr_artifacts := d\<rparr>)"
  "rec_step q r (r\<lparr>sr_info := (sr_info r)\<lparr>info_ports := ps\<rparr>\<rparr>)"
  "rec_step q r (r\<lparr>sr_info := (sr_info r)\<lparr>info_bootId := b\<rparr>\<rparr>)"
  by (simp_all add: rec_step_def)

lemma asks_no_resume_files [simp]:
  "asks no_resume (syncSnapshotFiles ps)" "asks no_resume (describe cfg k p)" "asks no_resume (sync_path p)"
  by (auto simp: syncSnapshotFiles_def sync_path_def describe_def describeSharedArtifact_def describeArtifact_def
      resume_call_def intro!: asks_bind asks_for_each asks_try_finally split: prod.split option.split)

lemma quiet_describe_any [simp]: "quiet (describe cfg k p)"
  by (simp add: describe_def)

lemmas stays_files [handler_rules] =
  stays_quiet [of "fc_createSnapshot k x y" for k x y] stays_quiet [of "syncSnapshotFiles ps" for ps]
  stays_quiet [of "describe cfg k x" for cfg k x]

lemma safe_createSnapshot: "safe_prog False (createSnapshot cfg i q)"
  unfolding createSnapshot_def
  by (intro safe_guarded ends_stays handler_rules)
    (simp_all add: record_ok_other admitted_def)

end
