(* ===== verification/Worker_Lifecycle.thy ===== *)
theory Worker_Lifecycle
  imports Worker_Snapshot
begin

text \<open>
  \<open>worker/lifecycle/worker-lifecycle.ts\<close>, \<open>worker-phases.ts\<close> and
  \<open>worker/migration/worker-verify.ts\<close>: pausing, loading, resuming, fencing and
  quarantining a sandbox, and the coordinator's phases on top of them.
  The actions \<open>fenceSandbox\<close> starts together run in their order here.
\<close>

section \<open>Lifecycle\<close>

definition set_state :: "sandbox_state \<Rightarrow> sandbox_record \<Rightarrow> sandbox_record" where
  "set_state st r = r\<lparr>sr_info := (sr_info r)\<lparr>info_state := st\<rparr>\<rparr>"

definition pauseSandbox :: "worker_config \<Rightarrow> string \<Rightarrow> int \<Rightarrow> (core, unit) prog" where
  "pauseSandbox cfg i epoch =
     bind (await (mutableRecord cfg i epoch None)) (\<lambda>a.
     seq (at_rec a (\<lambda>r. await (fc_pause (sr_firecracker r))))
       (put_record a (set_state Paused)))"

definition missing_artifact_error :: "artifact_kind \<Rightarrow> js_error" where
  "missing_artifact_error kind = conflict ArtifactHashMismatch
     (''Verified '' @ kind_text kind @ '' artifact is missing or does not match the manifest'') 422"

definition artifact_matches :: "artifact_descriptor option \<Rightarrow> artifact_descriptor \<Rightarrow> bool" where
  "artifact_matches registered expected =
     (case registered of None \<Rightarrow> False
      | Some d \<Rightarrow> ad_sha256 d = ad_sha256 expected \<and> ad_size d = ad_size expected)"

primrec check_artifacts :: "(artifact_kind \<rightharpoonup> artifact_descriptor) \<Rightarrow> compat_manifest \<Rightarrow> artifact_kind list \<Rightarrow>
    js_error + unit" where
  "check_artifacts registered m [] = Inr ()"
| "check_artifacts registered m (k # ks) =
     (if \<not> artifact_matches (registered k) (m_artifacts m k) then Inl (missing_artifact_error k)
      else check_artifacts registered m ks)"

definition load_request :: "worker_config \<Rightarrow> sandbox_record \<Rightarrow> load_snapshot_request" where
  "load_request cfg r = \<lparr>ls_snapshotPath = statePath (sr_paths r), ls_memoryPath = memoryPath (sr_paths r),
     ls_resume = Some False,
     ls_clockRealtime = Some (hc_architecture (wc_hostCompatibility cfg) = ''x64''),
     ls_networkOverride = None, ls_vsockOverride = None\<rparr>"

definition loadSnapshot :: "worker_config \<Rightarrow> string \<Rightarrow> int \<Rightarrow> compat_manifest \<Rightarrow> (core, unit) prog" where
  "loadSnapshot cfg i epoch m =
     seq (validateManifest cfg m)
     (seq (guard_throw (m_sandboxId m \<noteq> i) (workerBadRequest ''Manifest sandbox id does not match''))
     (seq (guard_throw (epoch \<noteq> m_sourceEpoch m + 1)
             (conflict BadRequest ''Restore epoch must be exactly sourceEpoch + 1'' 409))
     (Read (\<lambda>c. if m_migrationId m \<in> c_consumed c
        then Throw (conflict SnapshotConsumed ''Snapshot has already resumed once'' 409)
        else bind (record_of i) (\<lambda>e. at_rec e (\<lambda>existing.
          if sr_loadedMigrationId existing = Some (m_migrationId m) \<and> rec_state existing = Paused then skip
          else bind (await (mutableRecord cfg i epoch (Some Booting))) (\<lambda>a.
            seq (at_rec a (\<lambda>r. settle (check_artifacts (sr_artifacts r) m ARTIFACT_KINDS)))
            (seq (at_rec a (\<lambda>r. await (fc_loadSnapshot (sr_firecracker r) (load_request cfg r))))
              (put_record a (\<lambda>r. (set_state Paused r)\<lparr>sr_loadedMigrationId := Some (m_migrationId m)\<rparr>))))))))))"

definition set_running :: "int \<Rightarrow> sandbox_record \<Rightarrow> sandbox_record" where
  "set_running epoch r = r\<lparr>sr_info := (sr_info r)\<lparr>info_state := Running, info_epoch := epoch\<rparr>\<rparr>"

definition set_bootId :: "string option \<Rightarrow> sandbox_record \<Rightarrow> sandbox_record" where
  "set_bootId b r = r\<lparr>sr_info := (sr_info r)\<lparr>info_bootId := b\<rparr>\<rparr>"

definition consume_loaded :: "nat \<Rightarrow> (core, unit) prog" where
  "consume_loaded a = at_rec a (\<lambda>r. case sr_loadedMigrationId r of
     None \<Rightarrow> skip
   | Some m \<Rightarrow> Read (\<lambda>c.
       if m \<in> c_consumed c then Throw (conflict SnapshotConsumed ''Snapshot resume was already issued'' 409)
       else modify (\<lambda>c. c\<lparr>c_consumed := insert m (c_consumed c)\<rparr>)))"

definition after_resume :: "nat \<Rightarrow> (core, unit) prog" where
  "after_resume a =
     seq (at_rec a (\<lambda>r. await (guest_syncClock (sr_guest r))))
     (bind (at_rec a (\<lambda>r. await (waitForGuest (sr_guest r) 10000))) (\<lambda>ready.
      bind (settle (boot_id_of ready)) (\<lambda>b. put_record a (set_bootId b))))"

definition resumeSandbox :: "worker_config \<Rightarrow> string \<Rightarrow> int \<Rightarrow> (core, unit) prog" where
  "resumeSandbox cfg i epoch =
     bind (await (mutableRecord cfg i epoch (Some Paused))) (\<lambda>a.
     seq (consume_loaded a)
     (seq (at_rec a (\<lambda>r. await (fc_resume (sr_firecracker r))))
     (seq (put_record a (set_running epoch))
       (after_resume a))))"

definition first_failure :: "js_error + unit \<Rightarrow> js_error + unit \<Rightarrow> js_error + unit" where
  "first_failure x y = (case x of Inl e \<Rightarrow> Inl e | Inr _ \<Rightarrow> y)"

definition fence_actions :: "nat \<Rightarrow> bool \<Rightarrow> (core, unit) prog" where
  "fence_actions a wasRunning =
     bind (attempt (downHostVeth a)) (\<lambda>x.
     bind (if wasRunning then at_rec a (\<lambda>r. attempt (fc_pause (sr_firecracker r))) else Return (Inr ())) (\<lambda>y.
       settle (first_failure x y)))"

definition fenceSandbox :: "worker_config \<Rightarrow> string \<Rightarrow> int \<Rightarrow> (core, unit) prog" where
  "fenceSandbox cfg i epoch =
     bind (record_of i) (\<lambda>a.
     seq (await (on_epochs (accept (epoch_config_of cfg) i (Num epoch))))
     (at_rec a (\<lambda>r.
       seq (seq (put_info a (fence_info epoch)) (await (on_relays (stopSandbox i))))
         (fence_actions a (rec_state r = Running)))))"

definition set_quarantined :: "int \<Rightarrow> string \<Rightarrow> sandbox_record \<Rightarrow> sandbox_record" where
  "set_quarantined epoch destination r =
     r\<lparr>sr_info := (sr_info r)\<lparr>info_state := Quarantined, info_epoch := epoch\<rparr>,
       sr_quarantinePath := Some destination\<rparr>"

definition on_allocator :: "(allocator \<Rightarrow> allocator) \<Rightarrow> (core, unit) prog" where
  "on_allocator f = modify (\<lambda>c. c\<lparr>c_allocator := f (c_allocator c)\<rparr>)"

text \<open>The move of the directory and what follows it, once everything was stopped.\<close>

definition quarantine_move :: "string \<Rightarrow> nat \<Rightarrow> int \<Rightarrow> string \<Rightarrow> (core, string) prog" where
  "quarantine_move i a epoch migrationId =
     bind (at_rec a (\<lambda>r. settle (quarantinePathOf (sr_paths r) migrationId))) (\<lambda>destination.
     seq (call_unit (FsMkdir (path_dirname destination) True))
     (seq (at_rec a (\<lambda>r. call_unit (FsRename (physicalDirectory (sr_paths r)) destination)))
     (seq (put_record a (set_quarantined epoch destination))
     (seq (at_rec a (\<lambda>r. on_allocator (releaseNetwork i (sr_networkKeys r))))
     (seq (on_allocator (releasePorts i))
       (Return destination))))))"

definition quarantineSandbox :: "worker_config \<Rightarrow> string \<Rightarrow> int \<Rightarrow> string \<Rightarrow> (core, string) prog" where
  "quarantineSandbox cfg i epoch migrationId =
     bind (record_of i) (\<lambda>a. at_rec a (\<lambda>r0.
       if rec_state r0 = Quarantined \<and> sr_quarantinePath r0 \<noteq> None then Return (the (sr_quarantinePath r0))
       else
         seq (await (on_epochs (accept (epoch_config_of cfg) i (Num epoch))))
         (seq (at_rec a (\<lambda>r. guard_throw (epoch < rec_epoch r) (fencedError i epoch (rec_epoch r))))
         (seq (await (on_processes (stop i)))
         (seq (await (on_relays (stopSandbox i)))
         (seq (at_rec a (\<lambda>r. await (runCleanupPlans (sr_netns r) (sr_hostVeth r))))
           (quarantine_move i a epoch migrationId)))))))"

section \<open>The coordinator's phases\<close>

definition probeMigration :: "worker_config \<Rightarrow> string \<Rightarrow> int \<Rightarrow> (core, json) prog" where
  "probeMigration cfg i epoch =
     bind (await (mutableRecord cfg i epoch (Some Running))) (\<lambda>a.
     bind (at_rec a (\<lambda>r. await (guest_ready (sr_guest r)))) (\<lambda>ready.
     bind (settle (boot_id_of ready)) (\<lambda>b.
       Return (JObj ([(''path'', JStr ''SAFE''), (''verdict'', JStr ''SAFE''), (''ready'', JBool True)]
         @ opt_member ''bootId'' JStr b @ [(''serialFullSnapshot'', JBool True)])))))"

definition precopyMigration :: "worker_config \<Rightarrow> string \<Rightarrow> int \<Rightarrow> (core, json) prog" where
  "precopyMigration cfg i epoch =
     seq (await (mutableRecord cfg i epoch (Some Running)))
       (Return (JObj [(''skipped'', JBool True), (''reason'', JStr ''serial_full_snapshot''),
          (''bytesTotal'', jint 0), (''bytesTransferred'', jint 0)]))"

definition pauseMigration :: "worker_config \<Rightarrow> string \<Rightarrow> int \<Rightarrow> (core, unit) prog" where
  "pauseMigration cfg i epoch =
     bind (record_of i) (\<lambda>a. at_rec a (\<lambda>r.
       if rec_state r = Paused then skip else await (pauseSandbox cfg i epoch)))"

definition snapshot_reused_error :: js_error where
  "snapshot_reused_error = conflict IdempotencyKeyConflict ''Snapshot migration id was reused'' 409"

definition snapshotMigration :: "worker_config \<Rightarrow> string \<Rightarrow> snapshot_request \<Rightarrow> (core, compat_manifest \<times> int) prog" where
  "snapshotMigration cfg i q = Read (\<lambda>c.
     case c_manifests c (sq_migrationId q) of
       Some cached \<Rightarrow>
         if m_sandboxId cached \<noteq> i \<or> m_sourceEpoch cached \<noteq> sq_epoch q then Throw snapshot_reused_error
         else Return (cached, totalArtifactBytes cached)
     | None \<Rightarrow> bind (await (createSnapshot cfg i q)) (\<lambda>m.
         seq (modify (\<lambda>c. c\<lparr>c_manifests := (c_manifests c)(sq_migrationId q \<mapsto> m)\<rparr>))
           (Return (m, totalArtifactBytes m))))"

definition resumeMigration :: "worker_config \<Rightarrow> string \<Rightarrow> int \<Rightarrow> (core, unit) prog" where
  "resumeMigration cfg i epoch =
     bind (record_of i) (\<lambda>a. at_rec a (\<lambda>r.
       if rec_state r = Running then skip else await (resumeSandbox cfg i epoch)))"

definition migration_key :: "string \<Rightarrow> string \<Rightarrow> string" where
  "migration_key i m = i @ '':'' @ m"

definition bootid_mismatch_error :: "string \<Rightarrow> string option \<Rightarrow> js_error" where
  "bootid_mismatch_error expected actual = firemig GuestAgent ''Restored guest boot ID does not match the source''
     False (Some (JObj ([(''expectedBootId'', JStr expected)] @ opt_member ''actualBootId'' JStr actual))) (Some 409)"

definition expected_bootId :: "core \<Rightarrow> string \<Rightarrow> string \<Rightarrow> sandbox_record \<Rightarrow> string option" where
  "expected_bootId c i migrationId r =
     (case Option.bind (c_migrations c (migration_key i migrationId)) (\<lambda>v. pr_bootId (rv_request v)) of
        Some b \<Rightarrow> Some b | None \<Rightarrow> info_bootId (sr_info r))"

text \<open>The result is the guest's boot id, the expected one and the ports.\<close>

definition verifyMigration :: "worker_config \<Rightarrow> string \<Rightarrow> int \<Rightarrow> string \<Rightarrow>
    (core, string option \<times> string option \<times> port_exposure list) prog" where
  "verifyMigration cfg i epoch migrationId =
     bind (await (mutableRecord cfg i epoch (Some Running))) (\<lambda>a.
     bind (at_rec a (\<lambda>r. await (guest_ready (sr_guest r)))) (\<lambda>ready.
     Read (\<lambda>c. at_rec a (\<lambda>r.
       bind (settle (case expected_bootId c i migrationId r of
           None \<Rightarrow> boot_id_of ready
         | Some x \<Rightarrow> (case boot_id_of ready of
               Inl e \<Rightarrow> Inl e
             | Inr b \<Rightarrow> if b \<noteq> Some x then Inl (bootid_mismatch_error x b) else Inr b))) (\<lambda>b.
         Return (b, expected_bootId c i migrationId r, orelse (info_ports (sr_info r)) []))))))"

definition cannot_roll_back_error :: "sandbox_state \<Rightarrow> js_error" where
  "cannot_roll_back_error st = firemig BadRequest (''Cannot roll back sandbox in '' @ state_text st) False None (Some 409)"

definition rollbackMigration :: "worker_config \<Rightarrow> string \<Rightarrow> int \<Rightarrow> bool \<Rightarrow> (core, unit) prog" where
  "rollbackMigration cfg i epoch repairClock =
     bind (record_of i) (\<lambda>a. at_rec a (\<lambda>r.
       if sr_loadedMigrationId r \<noteq> None
       then Throw (conflict Fenced ''Rollback may only resume the source VM'' 409)
       else if rec_state r = Paused then await (resumeSandbox cfg i epoch)
       else if rec_state r \<noteq> Running then Throw (cannot_roll_back_error (rec_state r))
       else if repairClock then seq (await (guest_syncClock (sr_guest r))) skip
       else skip))"

definition fenceAndCleanup :: "worker_config \<Rightarrow> string \<Rightarrow> int \<Rightarrow> string \<Rightarrow> (core, string) prog" where
  "fenceAndCleanup cfg i epoch migrationId =
     bind (record_of i) (\<lambda>a. at_rec a (\<lambda>r.
       if rec_state r = Quarantined \<and> sr_quarantinePath r \<noteq> None then Return (the (sr_quarantinePath r))
       else seq (await (fenceSandbox cfg i epoch)) (await (quarantineSandbox cfg i epoch migrationId))))"

section \<open>What the handlers ask for\<close>

lemma asks_mono: "asks P p \<Longrightarrow> (\<And>c. P c \<Longrightarrow> Q c) \<Longrightarrow> asks Q p"
  by (induction p) auto

lemma asks_guest_call: "asks no_vm (guest_call k m ps)"
  unfolding guest_call_def guest_exchange_def
  by (intro asks_bind asks_try_finally) (auto intro!: asks_bind split: option.split)

lemma asks_guest [simp]:
  "asks no_vm (guest_ready k)" "asks no_vm (guest_syncClock k)" "asks no_vm (guest_runCommand k j)"
  "asks no_vm (guest_writeFile k j)"
  by (auto simp: guest_ready_def guest_syncClock_def guest_runCommand_def guest_writeFile_def
      intro!: asks_guest_call asks_bind)

lemma asks_guest_loop: "asks no_vm (guest_loop n k d e)"
  by (induction n arbitrary: e) (auto simp: Let_def intro!: asks_bind asks_attempt split: sum.split)

lemma asks_waitForGuest [simp]: "asks no_vm (waitForGuest k t)"
  unfolding waitForGuest_def by (intro asks_bind asks_guest_loop) simp

lemma no_vm_asks: "asks no_vm p \<Longrightarrow> asks no_resume p"
  by (erule asks_mono) (auto simp: resume_call_def)

lemma asks_runCleanupPlans [simp]: "asks no_vm (runCleanupPlans ns veth)"
  unfolding runCleanupPlans_def by (auto intro!: asks_bind asks_for_each asks_settled)

lemma quiet_runCleanupPlans [simp]: "quiet (runCleanupPlans ns veth)"
  unfolding runCleanupPlans_def by (auto intro!: quiet_bind quiet_for_each quiet_settled)

lemmas stays_leaves [handler_rules] =
  stays_quiet [of "fc_pause k" for k] stays_quiet [of "fc_loadSnapshot k q" for k q]
  stays_quiet [OF quiet_guest(1) no_vm_asks, of k for k]
  stays_quiet [OF quiet_guest(4) no_vm_asks, of k for k]
  stays_quiet [OF quiet_waitForGuest no_vm_asks, of k t for k t]

section \<open>The handlers keep the invariant\<close>

lemma record_ok_paused: "record_ok c i r \<Longrightarrow> record_ok c i (set_state Paused r)"
  by (simp add: record_ok_def set_state_def)

lemma rec_step_paused: "rec_state r \<noteq> FencedState \<Longrightarrow> rec_step q r (set_state Paused r)"
  by (simp add: rec_step_def set_state_def)

lemma safe_pauseSandbox: "safe_prog False (pauseSandbox cfg i e)"
  unfolding pauseSandbox_def
  by (intro safe_guarded ends_bind ends_put handler_rules)
    (simp_all add: record_ok_paused rec_step_paused admitted_def)

lemma safe_Throw [simp]: "safe_prog q (Throw e)" and safe_Return [simp]: "safe_prog q (Return v)"
  by simp_all

lemma safe_bind_quiet:
  assumes "quiet p" and "asks no_resume p" and f: "\<And>v. safe_prog q (f v)"
  shows "safe_prog q (bind p f)"
proof (intro allI impI)
  fix c l
  assume ok: "core_ok c"
  show "wp (bind p f) (\<lambda>_. good q c l) (\<lambda>_. good q c l) c l"
    unfolding wp_bind
  proof (rule wp_ask [OF assms(1,2)])
    fix v t
    assume t: "list_all no_resume t"
    have "wp (f v) (\<lambda>_. good q c (l @ t)) (\<lambda>_. good q c (l @ t)) c (l @ t)" using f ok by blast
    then show "wp (f v) (\<lambda>_. good q c l) (\<lambda>_. good q c l) c (l @ t)"
      by (rule wp_mono) (use ok t in \<open>auto intro: evolves_trans [OF evolves_calls]\<close>)
  next
    fix e t
    assume "list_all no_resume t"
    then show "good q c l c (l @ t)" using ok by (simp add: evolves_calls)
  qed
qed

lemma safe_Read: "(\<And>c. core_ok c \<Longrightarrow> safe_prog q (k c)) \<Longrightarrow> safe_prog q (Read k)"
  by simp

lemma safe_record_of:
  assumes "\<And>a r. safe_prog q (f a)"
  shows "safe_prog q (bind (record_of i) f)"
  using assms by (auto simp: wp_simps split: option.split)

lemma safe_at_rec: "(\<And>r. safe_prog q (k r)) \<Longrightarrow> safe_prog q (at_rec a k)"
  by (simp add: wp_at_rec)

lemma safe_await: "safe_prog q p \<Longrightarrow> safe_prog q (await p)"
  by (simp add: wp_await)

lemma safe_if: "(b \<Longrightarrow> safe_prog q p) \<Longrightarrow> (\<not> b \<Longrightarrow> safe_prog q p') \<Longrightarrow> safe_prog q (if b then p else p')"
  by simp

lemma quiet_validateManifest [simp]: "quiet (validateManifest cfg m)"
  unfolding validateManifest_def
  by (auto simp: at_rec_def Let_def intro!: quiet_bind split: option.split)

lemma asks_validateManifest [simp]: "asks P (validateManifest cfg m)"
  unfolding validateManifest_def
  by (auto simp: at_rec_def Let_def intro!: asks_bind split: option.split)

lemma asks_guard_throw [simp]: "asks P (guard_throw b e)"
  by (simp add: guard_throw_def)

lemma safe_loadSnapshot: "safe_prog False (loadSnapshot cfg i e m)"
  unfolding loadSnapshot_def
  by (intro safe_bind_quiet safe_Read safe_if safe_record_of safe_at_rec safe_guarded ends_bind ends_put
      handler_rules quiet_validateManifest asks_validateManifest quiet_guard_throw asks_guard_throw safe_Throw safe_Return)
    (auto simp: record_ok_def rec_step_def set_state_def admitted_def)

text \<open>Resuming: the snapshot is marked consumed before the machine is resumed.\<close>

definition consumed_if_loaded :: "core \<Rightarrow> sandbox_record \<Rightarrow> bool" where
  "consumed_if_loaded c r \<longleftrightarrow> (\<forall>m. sr_loadedMigrationId r = Some m \<longrightarrow> m \<in> c_consumed c)"

lemma ends_consume:
  assumes "\<And>c r s. P c r \<Longrightarrow> P (c\<lparr>c_consumed := s\<rparr>) r"
    and "\<And>v. ends q c l i a (\<lambda>c r. P c r \<and> consumed_if_loaded c r) (g v)"
  shows "ends q c l i a P (bind (consume_loaded a) g)"
  unfolding ends_def
proof (intro allI impI)
  fix c' l'
  assume at: "cursor c l i a P c' l'"
  let ?P = "\<lambda>c r. P c r \<and> consumed_if_loaded c r"
  have g: "wp (g ()) (\<lambda>_. good q c l) (\<lambda>_. good q c l) c2 l'" if "cursor c l i a ?P c2 l'" for c2
    using assms(2) that by (simp add: ends_def)
  show "wp (bind (consume_loaded a) g) (\<lambda>_. good q c l) (\<lambda>_. good q c l) c' l'"
  proof (cases "sr_loadedMigrationId (c_heap c' a)")
    case None
    with at have "cursor c l i a ?P c' l'" by (simp add: cursor_def consumed_if_loaded_def)
    then show ?thesis using None by (simp add: consume_loaded_def wp_simps g)
  next
    case (Some m)
    show ?thesis
    proof (cases "m \<in> c_consumed c'")
      case True
      then show ?thesis
        using Some at evolves_weaken by (auto simp: consume_loaded_def wp_simps cursor_def)
    next
      case False
      let ?c2 = "c'\<lparr>c_consumed := insert m (c_consumed c')\<rparr>"
      have "core_ok ?c2"
        by (rule core_ok_frame [of c']) (use at in \<open>auto simp: cursor_def core_ok_store\<close>)
      moreover have "evolves False c l ?c2 l'"
        using at by (auto simp: cursor_def evolves_def)
      ultimately have "cursor c l i a ?P ?c2 l'"
        using at Some assms(1) by (auto simp: cursor_def consumed_if_loaded_def)
      then show ?thesis using Some False by (simp add: consume_loaded_def wp_simps g)
    qed
  qed
qed

lemma ends_resume:
  assumes live: "\<And>c r. P c r \<Longrightarrow> rec_state r \<noteq> FencedState" and g: "\<And>v. ends q c l i a P (g v)"
  shows "ends q c l i a P (bind (at_rec a (\<lambda>r. await (fc_resume (sr_firecracker r)))) g)"
  unfolding ends_def
proof (intro allI impI)
  fix c' l'
  assume at: "cursor c l i a P c' l'"
  let ?k = "sr_firecracker (c_heap c' a)"
  have ok: "core_ok c'" and ev: "evolves False c l c' l'" and a: "c_sandboxes c' i = Some a"
    and P: "P c' (c_heap c' a)"
    using at by (simp_all add: cursor_def)
  have alive: "a < c_next c \<longrightarrow> rec_state (c_heap c a) \<noteq> FencedState"
    using live [OF P] ev by (auto simp: evolves_def rec_step_def)
  have ev2: "evolves False c l c' (l' @ t)" if "list_all (\<lambda>x. x = resume_call ?k) t" for t
  proof -
    have "resume_call k \<in> set t \<Longrightarrow> k = ?k" for k using that by (auto simp: list_all_iff)
    then show ?thesis
      using ev alive core_okD(1) [OF ok a] by (fastforce simp: evolves_def)
  qed
  have asks: "asks (\<lambda>x. x = resume_call ?k) (fc_resume ?k)"
    by (simp add: fc_resume_def fc_patch_def resume_call_def)
  show "wp (bind (at_rec a (\<lambda>r. await (fc_resume (sr_firecracker r)))) g) (\<lambda>_. good q c l) (\<lambda>_. good q c l) c' l'"
    unfolding wp_bind wp_at_rec wp_await
  proof (rule wp_quiet_asks [OF _ asks])
    show "wp (g v) (\<lambda>_. good q c l) (\<lambda>_. good q c l) c' (l' @ t)"
      if "list_all (\<lambda>x. x = resume_call ?k) t" for v t
      using g ok ev2 [OF that] a P by (simp add: ends_def cursor_def)
    show "good q c l c' (l' @ t)" if "list_all (\<lambda>x. x = resume_call ?k) t" for t
      using ok ev2 [OF that] evolves_weaken by blast
  qed simp
qed

lemma stays_after_resume: "stays c l i a (\<lambda>_ _. True) (after_resume a)"
  unfolding after_resume_def
  by (intro handler_rules) (simp_all add: set_bootId_def record_ok_other)

lemma safe_resumeSandbox: "safe_prog False (resumeSandbox cfg i e)"
  unfolding resumeSandbox_def
  by (intro safe_guarded ends_consume ends_resume ends_put_then [where P' = "\<lambda>_ _. True"] ends_stays [OF stays_after_resume])
    (auto simp: admitted_def consumed_if_loaded_def record_ok_def rec_step_def set_running_def)

text \<open>Fencing.\<close>

lemma quiet_fence_actions [simp]: "quiet (fence_actions a b)"
  unfolding fence_actions_def
  by (auto simp: at_rec_def intro!: quiet_bind quiet_attempt)

lemma asks_fence_actions [simp]: "asks no_resume (fence_actions a b)"
  unfolding fence_actions_def
  by (auto simp: at_rec_def simp del: fc_pause_def intro!: asks_bind asks_attempt)

lemma wp_good_quiet:
  "quiet p \<Longrightarrow> asks no_resume p \<Longrightarrow> good q c l c' l' \<Longrightarrow> wp p (\<lambda>_. good q c l) (\<lambda>_. good q c l) c' l'"
  by (rule wp_ask) (auto intro: evolves_log)

lemma safe_fenceSandbox: "safe_prog False (fenceSandbox cfg i e)"
proof (intro allI impI)
  fix c l
  assume ok: "core_ok c"
  show "wp (fenceSandbox cfg i e) (\<lambda>_. good False c l) (\<lambda>_. good False c l) c l"
  proof (cases "c_sandboxes c i")
    case None
    then show ?thesis using ok by (simp add: fenceSandbox_def wp_simps)
  next
    case (Some a)
    show ?thesis
      unfolding fenceSandbox_def wp_bind [of "record_of i"] wp_record_of Some option.case
        wp_bind [of "await p" for p] wp_await
    proof (rule wp_core_accept [OF ok])
      fix acc c' l'
      assume g: "good False c l c' l'" and same: "c_sandboxes c' = c_sandboxes c"
        and e: "e = get_epoch (c_epochs c') i"
      have a: "c_sandboxes c' i = Some a" using same Some by simp
      show "wp (at_rec a (\<lambda>r.
         seq (seq (put_info a (fence_info e)) (await (on_relays (stopSandbox i))))
           (fence_actions a (rec_state r = Running)))) (\<lambda>_. good False c l) (\<lambda>_. good False c l) c' l'"
        unfolding wp_at_rec wp_bind [of "seq x y" for x y]
        by (rule wp_fence_record [OF g a e]) (rule wp_good_quiet, simp_all)
    qed
  qed
qed

text \<open>Quarantine.\<close>

lemma stays_aside_processes:
  assumes "\<And>c s r. P (c\<lparr>c_processes := s\<rparr>) r = P c r"
  shows "stays c l i a P (on_processes (stop j))"
  unfolding stays_def wp_zoom_processes
proof (intro allI impI wp_stop)
  fix c' l' t
  assume at: "cursor c l i a P c' l'" and t: "list_all no_vm t"
  have "good False c l (c'\<lparr>c_processes := map_delete j (c_processes c')\<rparr>) (l' @ t)"
    by (rule good_aside [where q = False and c = c and l = l and c' = c' and l' = l']) (use at t no_vm_no_resume in \<open>auto simp: cursor_def\<close>)
  with at assms show "cursor c l i a P (c'\<lparr>c_processes := map_delete j (c_processes c')\<rparr>) (l' @ t)"
    by (simp add: cursor_def)
qed

lemma stays_aside_relays:
  assumes "\<And>c s r. P (c\<lparr>c_relays := s\<rparr>) r = P c r"
  shows "stays c l i a P (on_relays (stopSandbox j))"
  unfolding stays_def wp_zoom_relays
proof (intro allI impI wp_stopSandbox)
  fix c' l' s' t
  assume at: "cursor c l i a P c' l'" and t: "list_all no_vm t"
  have "good False c l (c'\<lparr>c_relays := s'\<rparr>) (l' @ t)"
    by (rule good_aside [where q = False and c = c and l = l and c' = c' and l' = l']) (use at t no_vm_no_resume in \<open>auto simp: cursor_def\<close>)
  with at assms show "cursor c l i a P (c'\<lparr>c_relays := s'\<rparr>) (l' @ t)"
    by (simp add: cursor_def)
qed

lemma good_allocator: "good q c l c' l' \<Longrightarrow> good q c l (c'\<lparr>c_allocator := al\<rparr>) l'"
  using good_aside [where q = q and c = c and l = l and c' = c' and l' = l' and ?c2.0 = "c'\<lparr>c_allocator := al\<rparr>" and t = "[]"] by simp

lemma ends_quarantine_move:
  "ends True c l i a (\<lambda>c r. e = get_epoch (c_epochs c) i \<and> rec_epoch r \<le> e) (quarantine_move i a e m)"
proof -
  let ?P = "\<lambda>c r. e = get_epoch (c_epochs c) i \<and> rec_epoch r \<le> e"
  have last: "ends True c l i a ?P (seq (put_record a (set_quarantined e d))
      (seq (at_rec a (\<lambda>r. on_allocator (releaseNetwork i (sr_networkKeys r))))
        (seq (on_allocator (releasePorts i)) (Return d))))" for d
    unfolding ends_def
  proof (intro allI impI)
    fix c' l'
    assume at: "cursor c l i a ?P c' l'"
    then have g: "good False c l c' l'" "c_sandboxes c' i = Some a" "?P c' (c_heap c' a)"
      by (simp_all add: cursor_def)
    let ?r = "set_quarantined e d (c_heap c' a)"
    let ?c1 = "c'\<lparr>c_heap := (c_heap c')(a := ?r)\<rparr>"
    have "good True c l ?c1 l'"
      by (rule good_put [OF g(1,2)])
        (use g(3) cursor_record [OF at] in \<open>auto simp: record_ok_def rec_step_def set_quarantined_def\<close>)
    then have "good True c l (?c1\<lparr>c_allocator := releasePorts i (releaseNetwork i (sr_networkKeys ?r) (c_allocator ?c1))\<rparr>) l'"
      by (rule good_allocator)
    then show "wp (seq (put_record a (set_quarantined e d))
      (seq (at_rec a (\<lambda>r. on_allocator (releaseNetwork i (sr_networkKeys r))))
        (seq (on_allocator (releasePorts i)) (Return d)))) (\<lambda>_. good True c l) (\<lambda>_. good True c l) c' l'"
      by (simp add: wp_bind wp_put_record wp_at_rec on_allocator_def)
  qed
  show ?thesis
    unfolding quarantine_move_def
    by (intro ends_bind last) (auto intro!: stays_quiet simp: at_rec_def resume_call_def)
qed

lemma stays_guard [handler_rules]: "stays c l i a P (guard_throw b e)"
  by (rule stays_quiet) simp_all

lemma safe_quarantineSandbox: "safe_prog True (quarantineSandbox cfg i e m)"
proof (intro allI impI)
  fix c l
  assume ok: "core_ok c"
  show "wp (quarantineSandbox cfg i e m) (\<lambda>_. good True c l) (\<lambda>_. good True c l) c l"
  proof (cases "c_sandboxes c i")
    case None
    then show ?thesis using ok by (simp add: quarantineSandbox_def wp_simps)
  next
    case (Some a)
    show ?thesis
    proof (cases "rec_state (c_heap c a) = Quarantined \<and> sr_quarantinePath (c_heap c a) \<noteq> None")
      case True
      then show ?thesis using ok Some by (auto simp: quarantineSandbox_def wp_simps)
    next
      case False
      let ?rest = "seq (on_processes (stop i)) (seq (on_relays (stopSandbox i))
         (seq (at_rec a (\<lambda>r. await (runCleanupPlans (sr_netns r) (sr_hostVeth r))))
           (quarantine_move i a e m)))"
      let ?P = "\<lambda>c r. e = get_epoch (c_epochs c) i \<and> rec_epoch r \<le> e"
      have rest: "ends True c l i a ?P ?rest"
        by (intro ends_bind stays_aside_processes stays_aside_relays ends_quarantine_move handler_rules
            stays_quiet quiet_runCleanupPlans no_vm_asks asks_runCleanupPlans) simp_all
      have "wp (seq (await (on_epochs (accept (epoch_config_of cfg) i (Num e))))
         (seq (at_rec a (\<lambda>r. guard_throw (e < rec_epoch r) (fencedError i e (rec_epoch r)))) ?rest))
         (\<lambda>_. good True c l) (\<lambda>_. good True c l) c l"
        unfolding wp_bind [of "await p" for p] wp_await
      proof (rule wp_core_accept [OF ok])
        fix acc c' l'
        assume g: "good False c l c' l'" and same: "c_sandboxes c' = c_sandboxes c"
          and e: "e = get_epoch (c_epochs c') i"
        show "wp (seq (at_rec a (\<lambda>r. guard_throw (e < rec_epoch r) (fencedError i e (rec_epoch r)))) ?rest)
           (\<lambda>_. good True c l) (\<lambda>_. good True c l) c' l'"
        proof (cases "e < rec_epoch (c_heap c' a)")
          case True
          then show ?thesis
            using good_weaken [OF g, of True] unfolding wp_bind wp_at_rec wp_guard_throw by simp
        next
          case False
          then have "cursor c l i a ?P c' l'" using g same Some e by (simp add: cursor_def)
          with rest False show ?thesis
            unfolding ends_def by (simp add: wp_bind wp_at_rec wp_guard_throw)
        qed
      qed (rule good_weaken)
      then show ?thesis
        using Some False ok unfolding quarantineSandbox_def wp_bind [of "record_of i"] wp_record_of wp_at_rec
        by (simp add: wp_bind wp_await)
    qed
  qed
qed

text \<open>The phases.\<close>

lemma safe_guarded_stays:
  "(\<And>c l a. stays c l i a (admitted i e expected) (f a)) \<Longrightarrow>
     safe_prog False (bind (await (mutableRecord cfg i e expected)) f)"
  by (intro safe_guarded ends_stays)

lemma safe_probeMigration: "safe_prog False (probeMigration cfg i e)"
  unfolding probeMigration_def by (intro safe_guarded_stays handler_rules) simp

lemma safe_precopyMigration: "safe_prog False (precopyMigration cfg i e)"
  unfolding precopyMigration_def by (intro safe_guarded_stays handler_rules)

lemma safe_verifyMigration: "safe_prog False (verifyMigration cfg i e m)"
  unfolding verifyMigration_def by (intro safe_guarded_stays handler_rules) simp

lemma safe_pauseMigration: "safe_prog False (pauseMigration cfg i e)"
  unfolding pauseMigration_def
  by (intro safe_record_of safe_at_rec safe_if safe_Return safe_await safe_pauseSandbox)

lemma safe_resumeMigration: "safe_prog False (resumeMigration cfg i e)"
  unfolding resumeMigration_def
  by (intro safe_record_of safe_at_rec safe_if safe_Return safe_await safe_resumeSandbox)

lemma safe_ask: "quiet p \<Longrightarrow> asks no_resume p \<Longrightarrow> safe_prog q p"
  by (intro allI impI wp_good_quiet) simp_all

lemma safe_rollbackMigration: "safe_prog False (rollbackMigration cfg i e b)"
  unfolding rollbackMigration_def
  by (intro safe_record_of safe_at_rec safe_if safe_Return safe_Throw safe_await safe_resumeSandbox safe_ask)
    (auto intro!: quiet_bind quiet_await asks_bind asks_await no_vm_asks)

lemma safe_snapshotMigration: "safe_prog False (snapshotMigration cfg i q)"
proof (intro allI impI)
  fix c l
  assume ok: "core_ok c"
  show "wp (snapshotMigration cfg i q) (\<lambda>_. good False c l) (\<lambda>_. good False c l) c l"
  proof (cases "c_manifests c (sq_migrationId q)")
    case (Some m)
    then show ?thesis using ok by (simp add: snapshotMigration_def)
  next
    case None
    have "wp (createSnapshot cfg i q) (\<lambda>_. good False c l) (\<lambda>_. good False c l) c l"
      using safe_createSnapshot ok by blast
    then have "wp (createSnapshot cfg i q) (\<lambda>m c' l'. good False c l
        (c'\<lparr>c_manifests := (c_manifests c')(sq_migrationId q \<mapsto> m)\<rparr>) l') (\<lambda>_. good False c l) c l"
    proof (rule wp_mono)
      fix m c' l'
      assume "good False c l c' l'"
      from good_aside [OF this, of "[]"]
      show "good False c l (c'\<lparr>c_manifests := (c_manifests c')(sq_migrationId q \<mapsto> m)\<rparr>) l'" by simp
    qed
    then show ?thesis using None by (simp add: snapshotMigration_def wp_bind wp_await wp_Write)
  qed
qed

lemma safe_fenceAndCleanup: "safe_prog True (fenceAndCleanup cfg i e m)"
proof (intro allI impI)
  fix c l
  assume ok: "core_ok c"
  have "wp (fenceSandbox cfg i e) (\<lambda>_. wp (quarantineSandbox cfg i e m) (\<lambda>_. good True c l) (\<lambda>_. good True c l))
      (\<lambda>_. good True c l) c l"
  proof (rule wp_mono)
    show "wp (fenceSandbox cfg i e) (\<lambda>_. good False c l) (\<lambda>_. good False c l) c l"
      using safe_fenceSandbox ok by blast
    fix v :: unit and c1 l1
    assume g: "good False c l c1 l1"
    then have "wp (quarantineSandbox cfg i e m) (\<lambda>_. good True c1 l1) (\<lambda>_. good True c1 l1) c1 l1"
      using safe_quarantineSandbox by blast
    then show "wp (quarantineSandbox cfg i e m) (\<lambda>_. good True c l) (\<lambda>_. good True c l) c1 l1"
      by (rule wp_mono) (use g good_trans in blast)+
  qed (rule good_weaken)
  then show "wp (fenceAndCleanup cfg i e m) (\<lambda>_. good True c l) (\<lambda>_. good True c l) c l"
    using ok by (auto simp: fenceAndCleanup_def wp_simps split: option.split)
qed

end
