(* ===== verification/Base64.thy ===== *)
theory Base64
  imports Common
begin

text \<open>
  Node's \<open>Buffer.from(text, "base64")\<close> and \<open>buffer.toString("base64")\<close>, which
  \<open>worker/lifecycle/worker-guest-ops.ts\<close> uses. The decoder reads both alphabets, skips
  characters outside them and ends at the first padding character.
\<close>

definition base64_alphabet :: string where
  "base64_alphabet = ''ABCDEFGHIJKLMNOPQRSTUVWXYZabcdefghijklmnopqrstuvwxyz0123456789+/''"

definition sextet_char :: "nat \<Rightarrow> char" where
  "sextet_char n = base64_alphabet ! n"

fun base64_text :: "string \<Rightarrow> string" where
  "base64_text [] = []"
| "base64_text [a] =
     [sextet_char (of_char a div 4), sextet_char (of_char a mod 4 * 16), CHR ''='', CHR ''='']"
| "base64_text [a, b] =
     [sextet_char (of_char a div 4), sextet_char (of_char a mod 4 * 16 + of_char b div 16),
      sextet_char (of_char b mod 16 * 4), CHR ''='']"
| "base64_text (a # b # c # bs) =
     [sextet_char (of_char a div 4), sextet_char (of_char a mod 4 * 16 + of_char b div 16),
      sextet_char (of_char b mod 16 * 4 + of_char c div 64), sextet_char (of_char c mod 64)]
     @ base64_text bs"

text \<open>The value of a character of either alphabet.\<close>

definition sextet_of :: "char \<Rightarrow> nat option" where
  "sextet_of c =
     (if c = CHR ''-'' then Some 62 else if c = CHR ''_'' then Some 63
      else map_of (zip base64_alphabet [0..<64]) c)"

fun sextets_bytes :: "nat list \<Rightarrow> string" where
  "sextets_bytes (w # x # y # z # ns) =
     [char_of (w * 4 + x div 16), char_of (x mod 16 * 16 + y div 4), char_of (y mod 4 * 64 + z)]
     @ sextets_bytes ns"
| "sextets_bytes [w, x, y] = [char_of (w * 4 + x div 16), char_of (x mod 16 * 16 + y div 4)]"
| "sextets_bytes [w, x] = [char_of (w * 4 + x div 16)]"
| "sextets_bytes ns = []"

definition base64_bytes :: "string \<Rightarrow> string" where
  "base64_bytes t = sextets_bytes (List.map_filter sextet_of (takeWhile (\<lambda>c. c \<noteq> CHR ''='') t))"

section \<open>The round trip\<close>

lemma sextet_all: "list_all (\<lambda>n. sextet_of (sextet_char n) = Some n \<and> sextet_char n \<noteq> CHR ''='') [0..<64]"
  by code_simp

lemma sextet_of_char [simp]: "n < 64 \<Longrightarrow> sextet_of (sextet_char n) = Some n"
  and sextet_char_not_pad [simp]: "n < 64 \<Longrightarrow> sextet_char n \<noteq> CHR ''=''"
  using sextet_all by (auto simp: list_all_iff)

lemma char_parts [simp]:
  "(of_char c :: nat) div 4 < 64" "(of_char c :: nat) div 16 < 16" "(of_char c :: nat) div 64 < 4"
  "(of_char c :: nat) div 16 div 16 = 0" "(of_char c :: nat) div 16 mod 16 = of_char c div 16"
  "(of_char c :: nat) div 64 div 4 = 0" "(of_char c :: nat) div 64 mod 4 = of_char c div 64"
proof -
  have "(of_char c :: nat) < 256" by simp
  then show "(of_char c :: nat) div 4 < 64" "(of_char c :: nat) div 16 < 16" "(of_char c :: nat) div 64 < 4"
    by (simp_all add: div_less_iff_less_mult)
  then show "(of_char c :: nat) div 16 div 16 = 0" "(of_char c :: nat) div 16 mod 16 = of_char c div 16"
    "(of_char c :: nat) div 64 div 4 = 0" "(of_char c :: nat) div 64 mod 4 = of_char c div 64"
    by simp_all
qed

lemma sextets_small [simp]:
  "x < 16 \<Longrightarrow> (of_char a :: nat) mod 4 * 16 + x < 64" "y < 4 \<Longrightarrow> (of_char b :: nat) mod 16 * 4 + y < 64"
  "(of_char a :: nat) mod 4 * 16 < 64" "(of_char b :: nat) mod 16 * 4 < 64"
proof -
  have "(of_char a :: nat) mod 4 < 4" "(of_char b :: nat) mod 16 < 16" by simp_all
  then show "x < 16 \<Longrightarrow> (of_char a :: nat) mod 4 * 16 + x < 64" "y < 4 \<Longrightarrow> (of_char b :: nat) mod 16 * 4 + y < 64"
    "(of_char a :: nat) mod 4 * 16 < 64" "(of_char b :: nat) mod 16 * 4 < 64"
    by linarith+
qed

lemma base64_round: "base64_bytes (base64_text bs) = bs"
  by (induction bs rule: base64_text.induct)
    (simp_all add: base64_bytes_def map_filter_simps)

end
