(* ===== verification/Worker_Guest_Ops.thy ===== *)
theory Worker_Guest_Ops
  imports Worker_Lifecycle Base64
begin

text \<open>
  \<open>worker/lifecycle/worker-guest-ops.ts\<close>: commands and files in the guest, and the
  exposure of a guest port. A text of a request is held as the bytes of its UTF-8 form.
\<close>

section \<open>Commands and files\<close>

record run_command_request =
  rq_command :: string
  rq_background :: "bool option"
  rq_cwd :: "string option"
  rq_env :: "(string \<times> string) list option"
  rq_timeoutMs :: "js_number option"

record write_file_request =
  wf_path :: string
  wf_content :: "string option"
  wf_contentBase64 :: "string option"
  wf_mode :: "js_number option"

definition command_params :: "run_command_request \<Rightarrow> json" where
  "command_params q = JObj ([(''command'', JStr (rq_command q)), (''background'', JBool (orelse (rq_background q) False))]
     @ opt_member ''cwd'' JStr (rq_cwd q)
     @ opt_member ''env'' (\<lambda>e. JObj (map (map_prod (\<lambda>k. k) JStr) e)) (rq_env q)
     @ opt_member ''timeoutMs'' JNum (rq_timeoutMs q))"

definition runGuestCommand :: "worker_config \<Rightarrow> string \<Rightarrow> int \<Rightarrow> run_command_request \<Rightarrow> (core, json option) prog" where
  "runGuestCommand cfg i epoch q =
     bind (await (mutableRecord cfg i epoch None)) (\<lambda>a.
       at_rec a (\<lambda>r. await (guest_runCommand (sr_guest r) (command_params q))))"

definition content_count_error :: js_error where
  "content_count_error = workerBadRequest ''Specify exactly one of content or contentBase64''"

text \<open>\<open>Buffer.from(...)\<close> of whichever of the two is given.\<close>

definition file_content :: "write_file_request \<Rightarrow> js_error + string" where
  "file_content q =
     (case (wf_content q, wf_contentBase64 q) of
        (None, Some b) \<Rightarrow> Inr (base64_bytes b)
      | (Some t, None) \<Rightarrow> Inr t
      | _ \<Rightarrow> Inl content_count_error)"

definition file_params :: "write_file_request \<Rightarrow> string \<Rightarrow> json" where
  "file_params q content = JObj ([(''path'', JStr (wf_path q)), (''contentBase64'', JStr (base64_text content))]
     @ opt_member ''mode'' JNum (wf_mode q))"

text \<open>The members an object spread takes from a value; those of the guest's answer win.\<close>

fun spread :: "json option \<Rightarrow> (string \<times> json) list" where
  "spread (Some (JObj ms)) = ms"
| "spread (Some (JArr xs)) = zip (map nat_text [0..<length xs]) xs"
| "spread (Some (JStr t)) = zip (map nat_text [0..<length t]) (map (\<lambda>c. JStr [c]) t)"
| "spread _ = []"

definition write_result :: "worker_config \<Rightarrow> write_file_request \<Rightarrow> string \<Rightarrow> json option \<Rightarrow> json" where
  "write_result cfg q content answer =
     JObj (fold (\<lambda>(k, v). AList.update k v) (spread answer)
       [(''path'', JStr (wf_path q)), (''bytes'', jint (int (length content))),
        (''sha256'', JStr (hex_text (wc_sha cfg content)))])"

definition writeGuestFile :: "worker_config \<Rightarrow> string \<Rightarrow> int \<Rightarrow> write_file_request \<Rightarrow> (core, json) prog" where
  "writeGuestFile cfg i epoch q =
     bind (await (mutableRecord cfg i epoch None)) (\<lambda>a.
     bind (settle (file_content q)) (\<lambda>content.
     bind (at_rec a (\<lambda>r. await (guest_writeFile (sr_guest r) (file_params q content)))) (\<lambda>answer.
       Return (write_result cfg q content answer))))"

section \<open>Ports\<close>

text \<open>\<open>record.info.ports?.find(...)\<close>\<close>

definition exposed :: "sandbox_record \<Rightarrow> js_number \<Rightarrow> port_exposure option" where
  "exposed r guestPort = List.find (\<lambda>p. Num (pe_guestPort p) = guestPort) (orelse (info_ports (sr_info r)) [])"

definition core_allocatePort :: "worker_config \<Rightarrow> string \<Rightarrow> js_number \<Rightarrow> (core, int) prog" where
  "core_allocatePort cfg i guestPort = Read (\<lambda>c.
     let x = allocatePort (wc_sha cfg) (wc_portBase cfg) (wc_workerId cfg) i guestPort (c_allocator c) in
     seq (modify (\<lambda>c. c\<lparr>c_allocator := snd x\<rparr>)) (settle (fst x)))"

definition exposure_of :: "worker_config \<Rightarrow> js_number \<Rightarrow> int \<Rightarrow> port_exposure" where
  "exposure_of cfg guestPort proxyPort = \<lparr>pe_guestPort = num_val guestPort, pe_proxyHost = wc_proxyHost cfg,
     pe_proxyPort = proxyPort, pe_url = ''tcp://'' @ wc_proxyHost cfg @ '':'' @ int_text proxyPort\<rparr>"

definition add_port :: "port_exposure \<Rightarrow> sandbox_record \<Rightarrow> sandbox_record" where
  "add_port x r = r\<lparr>sr_info := (sr_info r)\<lparr>info_ports := Some (orelse (info_ports (sr_info r)) [] @ [x])\<rparr>\<rparr>"

definition exposeGuestPort :: "worker_config \<Rightarrow> string \<Rightarrow> int \<Rightarrow> js_number \<Rightarrow> (core, port_exposure) prog" where
  "exposeGuestPort cfg i epoch guestPort =
     bind (await (mutableRecord cfg i epoch None)) (\<lambda>a. at_rec a (\<lambda>r0.
       case exposed r0 guestPort of
         Some x \<Rightarrow> Return x
       | None \<Rightarrow>
           seq (bind (settle (exposePortPlan (sr_netns r0) (sr_namespaceAddress r0) guestPort)) (\<lambda>plan. await (runPlans plan)))
           (bind (core_allocatePort cfg i guestPort) (\<lambda>proxyPort.
            seq (try_catch
                  (at_rec a (\<lambda>r. await (on_relays (start i guestPort proxyPort (addressWithoutPrefix (sr_namespaceAddress r))))))
                  (\<lambda>e. seq (on_allocator (releasePort proxyPort)) (Throw e)))
            (seq (put_record a (add_port (exposure_of cfg guestPort proxyPort)))
              (Return (exposure_of cfg guestPort proxyPort)))))))"

section \<open>The invariant is kept\<close>

lemma stays_relays:
  assumes wp: "\<And>s l. wp p (\<lambda>_ s' l'. \<exists>t. l' = l @ t \<and> list_all no_vm t) (\<lambda>_ s' l'. \<exists>t. l' = l @ t \<and> list_all no_vm t) s l"
    and P: "\<And>c s r. P (c\<lparr>c_relays := s\<rparr>) r = P c r"
  shows "stays c l i a P (on_relays p)"
  unfolding stays_def wp_zoom_relays
proof (intro allI impI)
  fix c' l'
  assume at: "cursor c l i a P c' l'"
  have "cursor c l i a P (c'\<lparr>c_relays := s'\<rparr>) (l' @ t)" if t: "list_all no_vm t" for s' t
  proof -
    have "good False c l (c'\<lparr>c_relays := s'\<rparr>) (l' @ t)"
      by (rule good_aside [where q = False and c = c and l = l and c' = c' and l' = l'])
        (use at t no_vm_no_resume in \<open>auto simp: cursor_def\<close>)
    with at P show ?thesis by (simp add: cursor_def)
  qed
  then show "wp p (\<lambda>v s. cursor c l i a P (c'\<lparr>c_relays := s\<rparr>)) (\<lambda>e s. cursor c l i a P (c'\<lparr>c_relays := s\<rparr>)) (c_relays c') l'"
    by (intro wp_mono [OF wp]) blast+
qed

lemma stays_start:
  "(\<And>c s r. P (c\<lparr>c_relays := s\<rparr>) r = P c r) \<Longrightarrow> stays c l i a P (on_relays (start j g h host))"
  by (intro stays_relays wp_start) blast+

lemma cursor_allocator:
  assumes "cursor c l i a P c' l'" and "\<And>c s r. P (c\<lparr>c_allocator := s\<rparr>) r = P c r"
  shows "cursor c l i a P (c'\<lparr>c_allocator := al\<rparr>) l'"
  using assms good_allocator [where q = False and c = c and l = l and c' = c' and l' = l' and al = al]
  by (simp add: cursor_def)

lemma stays_allocator:
  assumes P: "\<And>c s r. P (c\<lparr>c_allocator := s\<rparr>) r = P c r"
  shows "stays c l i a P (on_allocator f)"
  by (simp add: stays_def on_allocator_def cursor_allocator P)

lemma stays_core_allocatePort:
  assumes P: "\<And>c s r. P (c\<lparr>c_allocator := s\<rparr>) r = P c r"
  shows "stays c l i a P (core_allocatePort cfg j g)"
  unfolding core_allocatePort_def Let_def
  by (intro stays_Read stays_bind stays_settle) (simp add: stays_def cursor_allocator P)

lemma safe_runGuestCommand: "safe_prog False (runGuestCommand cfg i e q)"
  unfolding runGuestCommand_def
  by (intro safe_guarded_stays handler_rules stays_quiet no_vm_asks) simp_all

lemma safe_writeGuestFile: "safe_prog False (writeGuestFile cfg i e q)"
  unfolding writeGuestFile_def
  by (intro safe_guarded_stays handler_rules stays_quiet [of "guest_writeFile k j" for k j] no_vm_asks) simp_all

lemma stays_runPlans [handler_rules]: "stays c l i a P (runPlans ps)"
  by (rule stays_quiet) simp_all

lemma safe_exposeGuestPort: "safe_prog False (exposeGuestPort cfg i e g)"
  unfolding exposeGuestPort_def
proof (intro safe_guarded_stays stays_at_rec)
  fix c l a r0
  show "stays c l i a (admitted i e None)
     (case exposed r0 g of
         Some x \<Rightarrow> Return x
       | None \<Rightarrow>
           seq (bind (settle (exposePortPlan (sr_netns r0) (sr_namespaceAddress r0) g)) (\<lambda>plan. await (runPlans plan)))
           (bind (core_allocatePort cfg i g) (\<lambda>proxyPort.
            seq (try_catch
                  (at_rec a (\<lambda>r. await (on_relays (start i g proxyPort (addressWithoutPrefix (sr_namespaceAddress r))))))
                  (\<lambda>e. seq (on_allocator (releasePort proxyPort)) (Throw e)))
            (seq (put_record a (add_port (exposure_of cfg g proxyPort)))
              (Return (exposure_of cfg g proxyPort))))))"
  proof (cases "exposed r0 g")
    case None
    show ?thesis
      unfolding None option.case
      by (intro handler_rules stays_core_allocatePort stays_start stays_allocator)
        (simp_all add: admitted_def add_port_def record_ok_other)
  qed (simp add: stays_Return)
qed

section \<open>What they do\<close>

abbreviation no_guest :: "syscall \<Rightarrow> bool" where
  "no_guest c \<equiv> \<forall>k. c \<noteq> VsockConnect k"

lemma asks_mutableRecord: "asks no_guest (mutableRecord cfg i e expected)"
  unfolding mutableRecord_def record_of_def at_rec_def fenceQuietly_def on_epochs_def on_relays_def
    accept_def accept_body_def persist_def stopSandbox_def downHostVeth_def runPlans_def put_info_def put_record_def
  by (auto intro!: asks_bind asks_await asks_zoom asks_try_catch asks_try_finally asks_settled asks_for_each
      simp: fc_pause_def fc_patch_def guard_throw_def Let_def split: option.split)

text \<open>
  A file reaches the guest as it was given. A text, and the base64 form of the same bytes,
  make the same program: its request carries the base64 form of exactly these bytes, and what
  is sent decodes to them again. Giving both forms or neither is refused, and then the guest
  is never contacted.
\<close>

lemma write_file_content:
  "writeGuestFile cfg i e \<lparr>wf_path = p, wf_content = Some t, wf_contentBase64 = None, wf_mode = m\<rparr>
     = writeGuestFile cfg i e \<lparr>wf_path = p, wf_content = None, wf_contentBase64 = Some (base64_text t), wf_mode = m\<rparr>
   \<and> obj_get (file_params q t) ''contentBase64'' = Some (JStr (base64_text t)) \<and> base64_bytes (base64_text t) = t
   \<and> (if (wf_content q = None) = (wf_contentBase64 q = None)
      then file_content q = Inl content_count_error \<and> asks no_guest (writeGuestFile cfg i e q)
      else \<exists>content. file_content q = Inr content)"
proof -
  have "asks no_guest (writeGuestFile cfg i e q)" if "file_content q = Inl content_count_error"
    unfolding writeGuestFile_def that by (auto intro!: asks_bind asks_await asks_mutableRecord)
  then show ?thesis
    by (auto simp: file_content_def file_params_def base64_round writeGuestFile_def write_result_def split: option.split)
qed

end
