(* ===== verification/Worker_Create.thy ===== *)
theory Worker_Create
  imports Worker_Guest_Ops
begin

text \<open>
  \<open>worker/lifecycle/worker-create.ts\<close> and \<open>worker-boot.ts\<close>: making a sandbox. What the
  \<open>catch\<close> block undoes depends on how far the \<open>try\<close> block came (\<open>mountNamespace\<close>,
  \<open>launched\<close>): each stretch of the block carries its own undoing. The two directories
  made together are both asked for before either answer is looked at.
\<close>

section \<open>The record and the guest\<close>

definition new_record :: "worker_config \<Rightarrow> create_request \<Rightarrow> sandbox_paths \<Rightarrow> network_identity \<Rightarrow> string list \<Rightarrow>
    string \<Rightarrow> sandbox_record" where
  "new_record cfg q p n keys now =
     \<lparr>sr_info = \<lparr>info_id = cr_id q, info_region = wc_region cfg, info_worker = wc_workerId cfg,
        info_state = Booting, info_epoch = num_val (cr_epoch q), info_cpu = num_val (cr_cpu q),
        info_memoryMb = num_val (cr_memoryMb q), info_createdAt = now, info_bootId = None,
        info_bootedAt = None, info_ports = Some []\<rparr>,
      sr_paths = p, sr_netns = netns n, sr_hostVeth = hostVeth n, sr_namespaceAddress = namespaceAddress n,
      sr_guest = physicalVsock p, sr_firecracker = apiSocket p, sr_generation = 0, sr_artifacts = Map.empty,
      sr_loadedMigrationId = None, sr_networkKeys = keys, sr_quarantinePath = None\<rparr>"

definition add_record :: "string \<Rightarrow> sandbox_record \<Rightarrow> core \<Rightarrow> core" where
  "add_record i r c = c\<lparr>c_heap := (c_heap c)(c_next c := r), c_next := c_next c + 1,
     c_sandboxes := (c_sandboxes c)(i \<mapsto> c_next c)\<rparr>"

definition registerRecord :: "worker_config \<Rightarrow> create_request \<Rightarrow> sandbox_paths \<Rightarrow> network_identity \<Rightarrow> string list \<Rightarrow>
    (core, nat) prog" where
  "registerRecord cfg q p n keys =
     bind (call_text IsoNow) (\<lambda>now. Read (\<lambda>c.
       seq (modify (add_record (cr_id q) (new_record cfg q p n keys now))) (Return (c_next c))))"

definition boot_config :: "worker_config \<Rightarrow> create_request \<Rightarrow> sandbox_record \<Rightarrow> boot_configuration" where
  "boot_config cfg q r =
     \<lparr>bc_kernelPath = orelse (cr_kernelPath q) (orelse (cr_kernel q) (wc_kernelPath cfg)),
      bc_rootfsPath = canonicalRootfs (sr_paths r), bc_vsockPath = canonicalVsock (sr_paths r),
      bc_vcpuCount = num_val (cr_cpu q), bc_memSizeMib = num_val (cr_memoryMb q), bc_bootArgs = None,
      bc_cpuTemplate = (let t = hc_cpuTemplate (wc_hostCompatibility cfg) in if t = ''None'' then None else Some t),
      bc_guestMac = None, bc_tapName = None, bc_mtu = cr_mtu q\<rparr>"

definition set_booted :: "string option \<Rightarrow> string \<Rightarrow> sandbox_record \<Rightarrow> sandbox_record" where
  "set_booted b now r =
     r\<lparr>sr_info := (sr_info r)\<lparr>info_state := Running, info_bootId := b, info_bootedAt := Some now\<rparr>\<rparr>"

definition bootGuest :: "worker_config \<Rightarrow> create_request \<Rightarrow> nat \<Rightarrow> (core, unit) prog" where
  "bootGuest cfg q a =
     seq (at_rec a (\<lambda>r. await (fc_configure (sr_firecracker r) (boot_config cfg q r))))
     (seq (at_rec a (\<lambda>r. await (fc_start (sr_firecracker r))))
     (bind (at_rec a (\<lambda>r. await (waitForGuest (sr_guest r) 30000))) (\<lambda>ready.
      bind (settle (boot_id_of ready)) (\<lambda>b.
      bind (call_text IsoNow) (\<lambda>now. put_record a (set_booted b now))))))"

section \<open>Creating a sandbox\<close>

definition sandbox_exists_error :: js_error where
  "sandbox_exists_error = firemig BadRequest ''Sandbox already exists'' False None (Some 409)"

definition occupied_error :: "string \<Rightarrow> string \<Rightarrow> js_error" where
  "occupied_error i path = firemig BadRequest
     ''Canonical sandbox path is occupied; quarantine or remove the stale generation first'' False
     (Some (JObj [(''sandboxId'', JStr i), (''physicalPath'', JStr path)])) (Some 409)"

definition claimPhysicalDirectory :: "string \<Rightarrow> string \<Rightarrow> (core, unit) prog" where
  "claimPhysicalDirectory i path = try_catch (call_unit (FsMkdir path False))
     (\<lambda>e. if e \<noteq> Errno ''EEXIST'' then Throw e else Throw (occupied_error i path))"

definition make_parents :: "sandbox_paths \<Rightarrow> (core, unit) prog" where
  "make_parents p =
     bind (attempt (call_unit (FsMkdir (path_dirname (physicalDirectory p)) True))) (\<lambda>x.
     bind (attempt (call_unit (FsMkdir (path_dirname (apiSocket p)) True))) (\<lambda>y.
       settle (first_failure x y)))"

definition core_allocateNetwork :: "worker_config \<Rightarrow> create_request \<Rightarrow> (core, network_identity \<times> string list) prog" where
  "core_allocateNetwork cfg q = Read (\<lambda>c.
     let x = allocateNetwork (wc_sha cfg) (wc_workerId cfg) q (c_allocator c) in
     seq (modify (\<lambda>c. c\<lparr>c_allocator := snd x\<rparr>)) (settle (fst x)))"

definition drop_sandbox :: "string \<Rightarrow> (core, unit) prog" where
  "drop_sandbox i = modify (\<lambda>c. c\<lparr>c_sandboxes := map_delete i (c_sandboxes c)\<rparr>)"

text \<open>The \<open>catch\<close> block; \<open>halt\<close> stops what was started.\<close>

definition undo_create :: "create_request \<Rightarrow> sandbox_paths \<Rightarrow> network_identity \<Rightarrow> string list \<Rightarrow>
    (core, unit) prog \<Rightarrow> js_error \<Rightarrow> (core, 'a) prog" where
  "undo_create q p n keys halt e =
     seq halt
     (seq (await (runCleanupPlans (netns n) (hostVeth n)))
     (seq (on_allocator (releaseNetwork (cr_id q) keys))
     (seq (call_unit (FsRm (physicalDirectory p)))
     (seq (drop_sandbox (cr_id q))
       (Throw e)))))"

definition boots :: "create_request \<Rightarrow> bool" where
  "boots q \<longleftrightarrow> orelse (cr_mode q) BootMode = BootMode"

definition network_options :: "create_request \<Rightarrow> network_identity \<Rightarrow> network_plan_options" where
  "network_options q n = \<lparr>np_sandboxId = cr_id q, np_netns = netns n, np_hostVeth = hostVeth n,
     np_hostAddress = hostAddress n, np_namespaceAddress = namespaceAddress n, np_tapName = None, np_mtu = cr_mtu q\<rparr>"

definition start_machine :: "worker_config \<Rightarrow> create_request \<Rightarrow> sandbox_paths \<Rightarrow> network_identity \<Rightarrow> int \<Rightarrow>
    (core, unit) prog" where
  "start_machine cfg q p n pid =
     seq (bind (settle (networkCreatePlan (network_options q n))) (\<lambda>plans. await (runPlans plans)))
     (seq (bind (settle (mountNamespaceSetupPlan pid p)) (\<lambda>plans. await (runPlans plans)))
     (bind (settle (firecrackerLaunchPlan pid (netns n) (wc_firecrackerBinary cfg) (apiSocket p))) (\<lambda>plan.
       seq (on_processes (launch (cr_id q) pid plan)) skip)))"

definition start_sandbox :: "worker_config \<Rightarrow> create_request \<Rightarrow> sandbox_paths \<Rightarrow> network_identity \<Rightarrow> string list \<Rightarrow>
    (core, sandbox_info) prog" where
  "start_sandbox cfg q p n keys =
     seq (await (waitForFile (apiSocket p)))
     (bind (registerRecord cfg q p n keys) (\<lambda>a.
      seq (if boots q then await (bootGuest cfg q a) else skip)
        (at_rec a (\<lambda>r. Return (sr_info r)))))"

definition create_body :: "worker_config \<Rightarrow> create_request \<Rightarrow> sandbox_paths \<Rightarrow> network_identity \<Rightarrow> string list \<Rightarrow>
    (core, sandbox_info) prog" where
  "create_body cfg q p n keys =
     seq (try_catch (if boots q
            then await (copySparse (orelse (cr_rootfsPath q) (orelse (cr_rootfs q) (wc_baseRootfsPath cfg))) (physicalRootfs p))
            else skip)
          (undo_create q p n keys skip))
     (bind (try_catch startMountNamespace (undo_create q p n keys skip)) (\<lambda>pid.
      seq (try_catch (start_machine cfg q p n pid) (undo_create q p n keys (proc_kill pid)))
        (try_catch (start_sandbox cfg q p n keys)
          (undo_create q p n keys (await (on_processes (stop (cr_id q))))))))"

definition createSandbox :: "worker_config \<Rightarrow> create_request \<Rightarrow> (core, sandbox_info) prog" where
  "createSandbox cfg q = Read (\<lambda>c.
     if c_sandboxes c (cr_id q) \<noteq> None then Throw sandbox_exists_error
     else
       seq (settle (validateMachineSize (cr_cpu q) (cr_memoryMb q)))
       (seq (await (on_epochs (accept (epoch_config_of cfg) (cr_id q) (cr_epoch q))))
       (bind (settle (sandbox_paths_of (path_model_of cfg) (cr_id q) (Num 0))) (\<lambda>p.
        seq (await (make_parents p))
        (seq (await (claimPhysicalDirectory (cr_id q) (physicalDirectory p)))
        (bind (try_catch (core_allocateNetwork cfg q)
            (\<lambda>e. seq (call_unit (FsRm (physicalDirectory p))) (Throw e))) (\<lambda>(n, keys).
          create_body cfg q p n keys)))))))"

section \<open>The invariant is kept\<close>

text \<open>
  \<open>safe_from i e q p\<close>: \<open>p\<close> is safe once the epoch \<open>e\<close> was accepted for \<open>i\<close>, which
  no later step undoes.
\<close>

definition safe_from :: "string \<Rightarrow> int \<Rightarrow> bool \<Rightarrow> (core, 'a) prog \<Rightarrow> bool" where
  "safe_from i e q p \<longleftrightarrow> (\<forall>c l. core_ok c \<and> e \<le> get_epoch (c_epochs c) i \<longrightarrow>
     wp p (\<lambda>_. good q c l) (\<lambda>_. good q c l) c l)"

named_theorems safe_rules

lemma other_calls [simp]:
  "FsMkdir p b \<noteq> resume_call k" "FsRm p \<noteq> resume_call k" "IsoNow \<noteq> resume_call k" "ProcKill pid \<noteq> resume_call k"
  "FsStat p \<noteq> resume_call k" "FsWatch p \<noteq> resume_call k" "ProcRun f as \<noteq> resume_call k" "ProcSpawn f as \<noteq> resume_call k"
  "FsLink p p' \<noteq> resume_call k" "FsRename p p' \<noteq> resume_call k"
  by (simp_all add: resume_call_def)

lemma safe_from_any: "safe_prog q p \<Longrightarrow> safe_from i e q p"
  by (simp add: safe_from_def)

lemma safe_from_bind [safe_rules]:
  assumes p: "safe_from i e False p" and f: "\<And>v. safe_from i e q (f v)"
  shows "safe_from i e q (bind p f)"
  unfolding safe_from_def wp_bind
proof (intro allI impI)
  fix c l
  assume c: "core_ok c \<and> e \<le> get_epoch (c_epochs c) i"
  show "wp p (\<lambda>v. wp (f v) (\<lambda>_. good q c l) (\<lambda>_. good q c l)) (\<lambda>_. good q c l) c l"
  proof (rule wp_mono)
    show "wp p (\<lambda>_. good False c l) (\<lambda>_. good False c l) c l" using p c by (simp add: safe_from_def)
  next
    fix v c1 l1
    assume g: "good False c l c1 l1"
    then have "e \<le> get_epoch (c_epochs c1) i" using c by (auto simp: evolves_def intro: order_trans)
    with f g have "wp (f v) (\<lambda>_. good q c1 l1) (\<lambda>_. good q c1 l1) c1 l1" by (simp add: safe_from_def)
    then show "wp (f v) (\<lambda>_. good q c l) (\<lambda>_. good q c l) c1 l1"
      by (rule wp_mono) (use g good_trans in blast)+
  next
    fix x c1 l1
    assume "good False c l c1 l1"
    then show "good q c l c1 l1" by (rule good_weaken)
  qed
qed

lemma safe_from_attempt [safe_rules]: "safe_from i e q p \<Longrightarrow> safe_from i e q (attempt p)"
  by (simp add: safe_from_def wp_attempt)

lemma safe_from_await [safe_rules]: "safe_from i e q p \<Longrightarrow> safe_from i e q (await p)"
  by (simp add: safe_from_def wp_await)

lemma safe_from_simple [safe_rules]:
  "safe_from i e q (Return v)" "safe_from i e q (Throw x)" "safe_from i e q (settle r)"
  by (simp_all add: safe_from_def wp_settle split: sum.split)

lemma safe_from_try_catch [safe_rules]:
  "safe_from i e False p \<Longrightarrow> (\<And>x. safe_from i e q (h x)) \<Longrightarrow> safe_from i e q (try_catch p h)"
  unfolding try_catch_def
  by (intro safe_from_bind safe_from_attempt) (auto intro: safe_from_simple split: sum.split)

lemma safe_from_if [safe_rules]:
  "safe_from i e q p \<Longrightarrow> safe_from i e q p' \<Longrightarrow> safe_from i e q (if b then p else p')"
  by simp

lemma safe_from_Read [safe_rules]: "(\<And>c. safe_from i e q (k c)) \<Longrightarrow> safe_from i e q (Read k)"
  by (simp add: safe_from_def)

lemma safe_from_at_rec [safe_rules]: "(\<And>r. safe_from i e q (k r)) \<Longrightarrow> safe_from i e q (at_rec a k)"
  by (simp add: at_rec_def safe_from_Read)

lemma safe_from_quiet: "quiet p \<Longrightarrow> asks no_resume p \<Longrightarrow> safe_from i e q p"
  by (simp add: safe_from_any safe_ask)

text \<open>Changing what no record looks at.\<close>

lemma safe_from_aside:
  assumes "\<And>c. c_epochs (f c) = c_epochs c" "\<And>c. c_sandboxes (f c) = c_sandboxes c" "\<And>c. c_heap (f c) = c_heap c"
    "\<And>c. c_next (f c) = c_next c" "\<And>c. c_consumed (f c) = c_consumed c" "\<And>c. c_migrations (f c) = c_migrations c"
  shows "safe_from i e q (modify f)"
  unfolding safe_from_def
proof (intro allI impI)
  fix c l
  assume "core_ok c \<and> e \<le> get_epoch (c_epochs c) i"
  then have "good q c l c l" by simp
  from good_aside [OF this, of "[]" "f c"] assms
  show "wp (modify f) (\<lambda>_. good q c l) (\<lambda>_. good q c l) c l" by simp
qed

lemma safe_from_allocator [safe_rules]: "safe_from i e q (on_allocator f)"
  unfolding on_allocator_def by (rule safe_from_aside) simp_all

lemma safe_from_allocateNetwork [safe_rules]: "safe_from i e q (core_allocateNetwork cfg r)"
  unfolding core_allocateNetwork_def Let_def
  by (intro safe_rules safe_from_aside) simp_all

lemma wp_launch:
  assumes "\<And>v s' t. list_all no_vm t \<Longrightarrow> Q v s' (l @ t)" and "\<And>x t. list_all no_vm t \<Longrightarrow> X x s (l @ t)"
  shows "wp (launch i pid plan) Q X s l"
proof (cases "s i")
  case None
  then have eq: "wp (launch i pid plan) Q X s l = wp (call_int (ProcSpawn (cp_file plan) (cp_args plan)))
      (\<lambda>v s'. Q v (s'(i \<mapsto> \<lparr>ps_mountNamespace = pid, ps_firecracker = v\<rparr>))) X s l"
    by (simp add: launch_def wp_bind wp_Write)
  show ?thesis
    unfolding eq by (rule wp_quiet_asks [where P = no_vm]) (simp_all add: assms)
next
  case (Some a)
  then show ?thesis using assms(2) [of "[]"] by (simp add: launch_def)
qed

lemma safe_from_processes:
  assumes "\<And>s l. wp p (\<lambda>_ s' l'. \<exists>t. l' = l @ t \<and> list_all no_vm t) (\<lambda>_ s' l'. \<exists>t. l' = l @ t \<and> list_all no_vm t) s l"
  shows "safe_from i e q (on_processes p)"
  unfolding safe_from_def wp_zoom_processes
proof (intro allI impI)
  fix c l
  assume c: "core_ok c \<and> e \<le> get_epoch (c_epochs c) i"
  have "good q c l (c\<lparr>c_processes := s'\<rparr>) (l @ t)" if "list_all no_vm t" for s' t
    by (rule good_aside [where q = q and c = c and l = l and c' = c and l' = l]) (use c that no_vm_no_resume in auto)
  then show "wp p (\<lambda>v s. good q c l (c\<lparr>c_processes := s\<rparr>)) (\<lambda>e s. good q c l (c\<lparr>c_processes := s\<rparr>)) (c_processes c) l"
    by (intro wp_mono [OF assms]) blast+
qed

lemma safe_from_launch [safe_rules]: "safe_from i e q (on_processes (launch j pid plan))"
  and safe_from_stop [safe_rules]: "safe_from i e q (on_processes (stop j))"
  by (intro safe_from_processes wp_launch wp_stop; blast)+

lemma core_ok_drop: "core_ok c \<Longrightarrow> core_ok (c\<lparr>c_sandboxes := map_delete i (c_sandboxes c)\<rparr>)"
  by (auto simp: core_ok_def record_ok_def)

lemma safe_from_drop [safe_rules]: "safe_from i e q (drop_sandbox j)"
  by (simp add: safe_from_def drop_sandbox_def core_ok_drop evolves_def)

text \<open>Registering a record, and what follows it.\<close>

lemma new_record_simps [simp]:
  "info_id (sr_info (new_record cfg q p n keys now)) = cr_id q"
  "rec_epoch (new_record cfg q p n keys now) = num_val (cr_epoch q)"
  "rec_state (new_record cfg q p n keys now) = Booting"
  "sr_loadedMigrationId (new_record cfg q p n keys now) = None"
  "sr_networkKeys (new_record cfg q p n keys now) = keys"
  "sr_hostVeth (new_record cfg q p n keys now) = hostVeth n"
  by (simp_all add: new_record_def)

lemma good_add_record:
  assumes ok: "core_ok c" and r: "info_id (sr_info r) = i" "rec_epoch r \<le> get_epoch (c_epochs c) i"
    "rec_state r = Booting" "sr_loadedMigrationId r = None" and t: "list_all no_resume t"
  shows "good False c l (add_record i r c) (l @ t)"
proof -
  have "record_ok (add_record i r c) j x = record_ok c j x" for j x
    by (simp add: record_ok_def add_record_def)
  moreover have "a \<noteq> c_next c" "a < Suc (c_next c)" if "c_sandboxes c j = Some a" for j a
    using core_okD(1) [OF ok that] by simp_all
  moreover have "record_ok c i r" using r by (simp add: record_ok_def)
  ultimately have "core_ok (add_record i r c)"
    using ok core_okD(2) [OF ok] by (auto simp: core_ok_def add_record_def)
  moreover have "evolves False c l (add_record i r c) l" by (simp add: evolves_def add_record_def)
  ultimately show ?thesis using evolves_log [OF _ t] by blast
qed

definition booting_new :: "core \<Rightarrow> sandbox_record \<Rightarrow> bool" where
  "booting_new c r \<longleftrightarrow> sr_loadedMigrationId r = None \<and> rec_state r = Booting"

lemma safe_from_register:
  assumes q: "cr_id q = i" "num_val (cr_epoch q) = e" and f: "\<And>c l a. ends False c l i a booting_new (f a)"
  shows "safe_from i e False (bind (registerRecord cfg q p n keys) f)"
  unfolding safe_from_def registerRecord_def wp_bind
proof (intro allI impI, rule wp_ask)
  fix c l and now :: string and t
  assume c: "core_ok c \<and> e \<le> get_epoch (c_epochs c) i" and t: "list_all no_resume t"
  let ?r = "new_record cfg q p n keys now"
  have "good False c l (add_record i ?r c) (l @ t)"
    by (rule good_add_record) (use c q t in simp_all)
  then have "cursor c l i (c_next c) booting_new (add_record i ?r c) (l @ t)"
    by (simp add: cursor_def add_record_def booting_new_def)
  with f show "wp (Read (\<lambda>c. seq (modify (add_record (cr_id q) (new_record cfg q p n keys now))) (Return (c_next c))))
     (\<lambda>v. wp (f v) (\<lambda>_. good False c l) (\<lambda>_. good False c l)) (\<lambda>_. good False c l) c (l @ t)"
    using q by (simp add: ends_def)
next
  fix c l and x and t
  assume "core_ok c \<and> e \<le> get_epoch (c_epochs c) i" and "list_all no_resume t"
  then show "good False c l c (l @ t)" by (simp add: evolves_calls)
qed simp_all

lemma ends_bootGuest: "ends False c l i a booting_new (bootGuest cfg q a)"
proof -
  have "rec_step False r (set_booted b now r)" if "booting_new c r" for c r b now
    using that by (simp add: rec_step_def set_booted_def booting_new_def)
  moreover have "record_ok c i (set_booted b now r)" if "booting_new c r" "record_ok c i r" for c r b now
    using that by (simp add: record_ok_def set_booted_def booting_new_def)
  ultimately show ?thesis
    unfolding bootGuest_def
    by (intro ends_bind ends_put handler_rules stays_quiet [of "fc_configure k b" for k b] stays_quiet [of "fc_start k" for k]
        stays_quiet [of "call_text s" for s])
      simp_all
qed

lemma ends_then_read:
  assumes "ends False c l i a P p"
  shows "ends False c l i a P (seq p (at_rec a (\<lambda>r. Return (g r))))"
  unfolding ends_def wp_bind
proof (intro allI impI)
  fix c' l'
  assume "cursor c l i a P c' l'"
  with assms have "wp p (\<lambda>_. good False c l) (\<lambda>_. good False c l) c' l'" by (simp add: ends_def)
  then show "wp p (\<lambda>v. wp (at_rec a (\<lambda>r. Return (g r))) (\<lambda>_. good False c l) (\<lambda>_. good False c l)) (\<lambda>_. good False c l) c' l'"
    by (rule wp_mono) (simp_all add: wp_at_rec)
qed

lemma ends_if: "ends q c l i a P p \<Longrightarrow> ends q c l i a P p' \<Longrightarrow> ends q c l i a P (if b then p else p')"
  by simp

lemma asks_waitForFile [simp]: "asks no_resume (waitForFile path)"
proof -
  have "asks no_resume (watch_events path evs how)" for evs how
    by (induction evs) (auto simp: watch_result_def fileExists_def intro!: asks_bind asks_try_catch split: watch_end.split option.split)
  then show ?thesis
    unfolding waitForFile_def by (auto simp: fileExists_def intro!: asks_bind asks_try_catch)
qed

lemma safe_from_start:
  assumes "cr_id q = i" "num_val (cr_epoch q) = e"
  shows "safe_from i e False (start_sandbox cfg q p n keys)"
  unfolding start_sandbox_def
  by (intro safe_from_bind [OF safe_from_await] safe_from_register assms ends_then_read ends_if ends_await
      ends_bootGuest ends_stays stays_Return safe_from_quiet) simp_all

lemma safe_from_undo:
  assumes "safe_from i e False halt"
  shows "safe_from i e q (undo_create r p n keys halt x)"
  unfolding undo_create_def
  by (intro safe_rules assms safe_from_quiet [of "runCleanupPlans ns v" for ns v] safe_from_quiet [of "call_unit s" for s])
    (simp_all add: no_vm_asks)

lemma safe_from_create_body:
  assumes "cr_id q = i" "num_val (cr_epoch q) = e"
  shows "safe_from i e False (create_body cfg q p n keys)"
proof -
  have quiets: "safe_from i e False (runPlans ps)" "safe_from i e False (proc_kill pid)"
    "safe_from i e False startMountNamespace" "safe_from i e False (copySparse x y)" for ps pid x y
    by (rule safe_from_quiet; simp add: proc_kill_def startMountNamespace_def copySparse_def)+
  show ?thesis
    unfolding create_body_def start_machine_def
    by (intro safe_rules safe_from_undo quiets safe_from_start assms)
qed

lemma safe_createSandbox: "safe_prog False (createSandbox cfg q)"
proof (intro allI impI)
  fix c l
  assume ok: "core_ok c"
  let ?i = "cr_id q" and ?e = "num_val (cr_epoch q)"
  let ?rest = "bind (settle (sandbox_paths_of (path_model_of cfg) ?i (Num 0))) (\<lambda>p.
        seq (await (make_parents p))
        (seq (await (claimPhysicalDirectory ?i (physicalDirectory p)))
        (bind (try_catch (core_allocateNetwork cfg q)
            (\<lambda>e. seq (call_unit (FsRm (physicalDirectory p))) (Throw e))) (\<lambda>(n, keys).
          create_body cfg q p n keys))))"
  have rest: "safe_from ?i ?e False ?rest"
    unfolding make_parents_def claimPhysicalDirectory_def
    by (intro safe_rules safe_from_quiet [of "call_unit s" for s] | (clarsimp split: prod.split simp: safe_from_create_body))+
  show "wp (createSandbox cfg q) (\<lambda>_. good False c l) (\<lambda>_. good False c l) c l"
  proof (cases "is_integer (cr_epoch q)")
    case True
    then obtain e where e: "cr_epoch q = Num e" by (cases "cr_epoch q") auto
    have "wp (on_epochs (accept (epoch_config_of cfg) ?i (Num e))) (\<lambda>_. wp ?rest (\<lambda>_. good False c l) (\<lambda>_. good False c l))
        (\<lambda>_. good False c l) c l"
    proof (rule wp_core_accept [OF ok])
      fix acc c' l'
      assume g: "good False c l c' l'" and "e = get_epoch (c_epochs c') ?i"
      with rest e have "wp ?rest (\<lambda>_. good False c' l') (\<lambda>_. good False c' l') c' l'" by (simp add: safe_from_def)
      then show "wp ?rest (\<lambda>_. good False c l) (\<lambda>_. good False c l) c' l'"
        by (rule wp_mono) (use g good_trans in blast)+
    qed
    with ok e show ?thesis
      by (simp add: createSandbox_def wp_bind wp_settle wp_await split: sum.split)
  next
    case False
    then have "accept (epoch_config_of cfg) ?i (cr_epoch q) = Throw x \<or> True" for x by simp
    from False have "cr_epoch q = NotInteger" by (cases "cr_epoch q") auto
    with ok show ?thesis
      by (simp add: createSandbox_def accept_def on_epochs_def wp_bind wp_settle wp_await split: sum.split)
  qed
qed

end
