(* ===== verification/Worker_Undo.thy ===== *)
theory Worker_Undo
  imports Worker_Create
begin

text \<open>
  What a creation leaves behind: on success a registered sandbox that owns its network and its
  process, on failure nothing but the accepted epoch, unless the directory cannot be removed.
\<close>

section \<open>Runs against one platform\<close>

text \<open>\<open>does E\<close> is \<open>wp\<close> with the platform fixed.\<close>

definition does :: "environment \<Rightarrow> ('s, 'a) prog \<Rightarrow> ('s, 'a) post \<Rightarrow> ('s, js_error) post \<Rightarrow> 's \<Rightarrow> syscall list \<Rightarrow> bool" where
  "does E p Q X s l = (case run E p s l of
     (Value v, s', l') \<Rightarrow> Q v s' l' | (Raised e, s', l') \<Rightarrow> X e s' l' | (Blocked, s', l') \<Rightarrow> False)"

named_theorems does_simps

lemma does_wp: "wp p Q X s l \<Longrightarrow> does E p Q X s l"
  unfolding does_def by (rule wp_run)

lemma does_bind [does_simps]: "does E (bind p f) Q X s l = does E p (\<lambda>v. does E (f v) Q X) X s l"
  by (auto simp: does_def run_bind split: prod.splits outcome.splits)

lemma does_await [does_simps]: "does E (await p) Q X s l = does E p Q X s l"
  by (simp add: does_def run_await)

lemma does_try_catch [does_simps]: "does E (try_catch p h) Q X s l = does E p Q (\<lambda>e. does E (h e) Q X) s l"
  by (auto simp: does_def run_try_catch split: prod.splits outcome.splits)

lemma does_basic [does_simps]:
  "does E (Return v) Q X s l = Q v s l" "does E (Throw e) Q X s l = X e s l"
  "does E (Read k) Q X s l = does E (k s) Q X s l" "does E (Write f p) Q X s l = does E p Q X (f s) l"
  by (simp_all add: does_def)

lemma does_settle [does_simps]: "does E (settle r) Q X s l = (case r of Inl e \<Rightarrow> X e s l | Inr v \<Rightarrow> Q v s l)"
  by (cases r) (simp_all add: does_simps)

lemma does_call_unit [does_simps]:
  "does E (call_unit c) Q X s l = (case E l c of Fail e \<Rightarrow> X e s (l @ [c]) | _ \<Rightarrow> Q () s (l @ [c]))"
  by (simp add: does_def run_call_unit split: reply.split)

lemma does_mono:
  "does E p Q X s l \<Longrightarrow> (\<And>v s' l'. Q v s' l' \<Longrightarrow> Q' v s' l') \<Longrightarrow> (\<And>e s' l'. X e s' l' \<Longrightarrow> X' e s' l') \<Longrightarrow> does E p Q' X' s l"
  by (auto simp: does_def split: prod.splits outcome.splits)

section \<open>What creation touches\<close>

text \<open>
  \<open>untouched i cs keys c\<close>: apart from the epochs, the entries of \<open>i\<close>, new records and
  the ownership of \<open>keys\<close>, the worker is as in \<open>cs\<close>.
\<close>

definition untouched :: "string \<Rightarrow> core \<Rightarrow> string list \<Rightarrow> core \<Rightarrow> bool" where
  "untouched i cs keys c \<longleftrightarrow> map_delete i (c_sandboxes c) = map_delete i (c_sandboxes cs)
     \<and> map_delete i (c_processes c) = map_delete i (c_processes cs)
     \<and> c_relays c = c_relays cs \<and> c_consumed c = c_consumed cs \<and> c_next cs \<le> c_next c
     \<and> (\<forall>a < c_next cs. c_heap c a = c_heap cs a)
     \<and> networkOwners (c_allocator c) = (\<lambda>k. if k \<in> set keys then Some i else networkOwners (c_allocator cs) k)"

text \<open>A program that keeps a predicate of the worker's state.\<close>

definition keeps :: "(core \<Rightarrow> bool) \<Rightarrow> (core, 'a) prog \<Rightarrow> bool" where
  "keeps J p \<longleftrightarrow> (\<forall>c l. J c \<longrightarrow> wp p (\<lambda>_ c' _. J c') (\<lambda>_ c' _. J c') c l)"

named_theorems keeps_rules

lemma keepsD: "keeps J p \<Longrightarrow> J c \<Longrightarrow> wp p (\<lambda>_ c' _. J c') (\<lambda>_ c' _. J c') c l"
  by (simp add: keeps_def)

lemma keeps_bind [keeps_rules]: "keeps J p \<Longrightarrow> (\<And>v. keeps J (f v)) \<Longrightarrow> keeps J (bind p f)"
  unfolding keeps_def wp_bind by (blast intro: wp_mono)

lemma keeps_await [keeps_rules]: "keeps J p \<Longrightarrow> keeps J (await p)"
  by (simp add: keeps_def wp_await)

lemma keeps_quiet: "quiet p \<Longrightarrow> keeps J p"
  unfolding keeps_def by (intro allI impI wp_quiet)

lemma keeps_settle [keeps_rules]: "keeps J (settle r)"
  by (simp add: keeps_quiet)

lemma keeps_Return [keeps_rules]: "keeps J (Return v)" and keeps_Throw [keeps_rules]: "keeps J (Throw e)"
  by (simp_all add: keeps_quiet)

lemma keeps_at_rec [keeps_rules]: "(\<And>r. keeps J (k r)) \<Longrightarrow> keeps J (at_rec a k)"
  by (simp add: keeps_def wp_at_rec)

lemma keeps_if [keeps_rules]: "keeps J p \<Longrightarrow> keeps J q \<Longrightarrow> keeps J (if b then p else q)"
  by simp

lemma keeps_put: "(\<And>c. J c \<Longrightarrow> J (c\<lparr>c_heap := (c_heap c)(a := f (c_heap c a))\<rparr>)) \<Longrightarrow> keeps J (put_record a f)"
  by (simp add: keeps_def wp_put_record)

lemma map_delete_idem [simp]: "map_delete i (map_delete i m) = map_delete i m"
  "map_delete i (m(i \<mapsto> v)) = map_delete i m"
  by (simp_all add: map_delete_def)

section \<open>Undoing\<close>

lemma untouched_release:
  assumes "untouched i cs keys c" and "\<forall>k\<in>set keys. networkOwners (c_allocator cs) k = None"
    and "\<forall>k. networkOwners (c_allocator cs) k \<noteq> Some i"
  shows "untouched i cs [] (c\<lparr>c_allocator := releaseNetwork i keys (c_allocator c)\<rparr>)"
  using assms by (auto simp: untouched_def releaseNetwork_owner fun_eq_iff)

text \<open>A platform on which directories can be removed.\<close>

definition rm_works :: "environment \<Rightarrow> bool" where
  "rm_works E \<longleftrightarrow> (\<forall>l path. case E l (FsRm path) of Fail e \<Rightarrow> False | _ \<Rightarrow> True)"

lemma does_rm: "rm_works E \<Longrightarrow> does E (call_unit (FsRm path)) Q X s l = Q () s (l @ [FsRm path])"
  unfolding rm_works_def does_call_unit by (auto split: reply.splits)

text \<open>Running the cleanup plans fails only when there are none.\<close>

lemma does_settled: "quiet p \<Longrightarrow> (\<And>l'. Q () s l') \<Longrightarrow> does E (settled p) Q X s l"
  by (rule does_wp, unfold wp_settled, rule wp_quiet) simp_all

lemma does_each_settled:
  "(\<And>x. quiet (f x)) \<Longrightarrow> (\<And>l'. Q () s l') \<Longrightarrow> does E (for_each xs (\<lambda>x. settled (f x))) Q X s l"
proof (induction xs arbitrary: l)
  case (Cons x xs)
  show ?case
    unfolding for_each.simps does_bind by (rule does_settled [OF Cons.prems(1)]) (rule Cons.IH [OF Cons.prems])
qed (simp add: does_simps)

lemma does_cleanup:
  assumes "networkDeletePlan ns veth = Inr plans" and "\<And>l'. Q () s l'"
  shows "does E (runCleanupPlans ns veth) Q X s l"
  using assms by (auto simp: runCleanupPlans_def does_simps intro!: does_each_settled)

lemma does_undo:
  assumes rm: "rm_works E"
    and free: "\<forall>k\<in>set keys. networkOwners (c_allocator cs) k = None" "\<forall>k. networkOwners (c_allocator cs) k \<noteq> Some i"
    and plans: "networkDeletePlan (netns n) (hostVeth n) = Inr plans"
    and i: "cr_id q = i"
    and halt: "does E halt (\<lambda>_ c' _. untouched i cs keys c' \<and> c_processes c' i = None) (\<lambda>_ _ _. False) c l"
  shows "does E (undo_create q p n keys halt x) Q
    (\<lambda>x' c' l'. untouched i cs [] c' \<and> c_sandboxes c' i = None \<and> c_processes c' i = None) c l"
  unfolding undo_create_def does_bind does_await
proof (rule does_mono [OF halt], rule does_cleanup [OF plans])
  fix v :: unit and c1 l1 l2
  assume c1: "untouched i cs keys c1 \<and> c_processes c1 i = None"
  let ?c2 = "c1\<lparr>c_allocator := releaseNetwork i keys (c_allocator c1)\<rparr>"
  have c2: "untouched i cs [] ?c2" using untouched_release [OF _ free] c1 by blast
  show "does E (on_allocator (releaseNetwork (cr_id q) keys))
     (\<lambda>_. does E (call_unit (FsRm (physicalDirectory p)))
        (\<lambda>_. does E (drop_sandbox (cr_id q))
           (\<lambda>_. does E (Throw x) Q
             (\<lambda>x' c' l'. untouched i cs [] c' \<and> c_sandboxes c' i = None \<and> c_processes c' i = None))
           (\<lambda>x' c' l'. untouched i cs [] c' \<and> c_sandboxes c' i = None \<and> c_processes c' i = None))
        (\<lambda>x' c' l'. untouched i cs [] c' \<and> c_sandboxes c' i = None \<and> c_processes c' i = None))
     (\<lambda>x' c' l'. untouched i cs [] c' \<and> c_sandboxes c' i = None \<and> c_processes c' i = None) c1 l2"
    using c1 c2 i
    by (simp add: on_allocator_def drop_sandbox_def does_basic does_rm [OF rm] untouched_def)
qed simp

section \<open>The stretches of a creation\<close>

definition before_launch :: "string \<Rightarrow> core \<Rightarrow> string list \<Rightarrow> core \<Rightarrow> bool" where
  "before_launch i cs keys c \<longleftrightarrow> untouched i cs keys c \<and> c_sandboxes c i = None \<and> c_processes c i = None"

definition launched :: "string \<Rightarrow> core \<Rightarrow> string list \<Rightarrow> core \<Rightarrow> bool" where
  "launched i cs keys c \<longleftrightarrow> untouched i cs keys c \<and> c_sandboxes c i = None \<and> c_processes c i \<noteq> None"

definition registered :: "create_request \<Rightarrow> core \<Rightarrow> string list \<Rightarrow> nat \<Rightarrow> core \<Rightarrow> bool" where
  "registered q cs keys a c \<longleftrightarrow> untouched (cr_id q) cs keys c \<and> c_processes c (cr_id q) \<noteq> None
     \<and> c_sandboxes c (cr_id q) = Some a \<and> c_next cs \<le> a
     \<and> sr_networkKeys (c_heap c a) = keys \<and> rec_epoch (c_heap c a) = num_val (cr_epoch q)"

lemma does_phase:
  assumes "keeps J p" and "J c" and "\<And>v c' l'. J c' \<Longrightarrow> does E (f v) Q X c' l'"
    and "\<And>e c' l'. J c' \<Longrightarrow> does E (h e) (\<lambda>v. does E (f v) Q X) X c' l'"
  shows "does E (bind (try_catch p h) f) Q X c l"
  unfolding does_simps
  by (rule does_mono [OF does_wp [OF keepsD [OF assms(1,2)]]]) (use assms(3,4) in blast)+

lemma wp_launch_table:
  "wp (launch i pid plan) (\<lambda>_ s' _. s' i \<noteq> None \<and> map_delete i s' = map_delete i s) (\<lambda>_ s' _. s' = s) s l"
proof (cases "s i")
  case None
  then have eq: "wp (launch i pid plan) Q X s l = wp (call_int (ProcSpawn (cp_file plan) (cp_args plan)))
      (\<lambda>v s'. Q v (s'(i \<mapsto> \<lparr>ps_mountNamespace = pid, ps_firecracker = v\<rparr>))) X s l" for Q X
    by (simp add: launch_def wp_bind wp_Write)
  show ?thesis unfolding eq by (rule wp_quiet) simp_all
qed (simp add: launch_def)

lemma wp_start_machine:
  assumes "before_launch i cs keys c" and "cr_id q = i"
  shows "wp (start_machine cfg q p n pid) (\<lambda>_ c' _. launched i cs keys c') (\<lambda>_ c' _. before_launch i cs keys c') c l"
proof -
  let ?J = "before_launch i cs keys"
  have k: "keeps ?J (bind (settle r) (\<lambda>ps. await (runPlans ps)))" for r :: "js_error + command_plan list"
    by (intro keeps_rules keeps_quiet) simp
  have k': "keeps ?J (settle r)" for r :: "js_error + command_plan"
    by (intro keeps_rules)
  have last: "wp (seq (on_processes (launch (cr_id q) pid plan)) skip)
      (\<lambda>_ c' _. launched i cs keys c') (\<lambda>_ c' _. ?J c') c' l'" if "?J c'" for plan c' l'
    unfolding wp_bind wp_zoom_processes
    by (rule wp_mono [OF wp_launch_table])
      (use that assms(2) in \<open>auto simp: before_launch_def launched_def untouched_def\<close>)
  show ?thesis
    unfolding start_machine_def wp_bind [of "bind (settle r) f" for r f] wp_bind [of "settle r" "\<lambda>x. seq (on_processes (g x)) skip" for r g]
    by (rule wp_mono [OF keepsD [OF k assms(1)]], rule wp_mono [OF keepsD [OF k]], assumption,
        rule wp_mono [OF keepsD [OF k']], assumption) (simp_all add: last)
qed

lemma untouched_heap:
  "untouched i cs keys c \<Longrightarrow> c_next cs \<le> a \<Longrightarrow> untouched i cs keys (c\<lparr>c_heap := (c_heap c)(a := r)\<rparr>)"
  by (auto simp: untouched_def)

lemma wp_bootGuest:
  assumes "registered q cs keys a c"
  shows "wp (bootGuest cfg q a) (\<lambda>_ c' _. registered q cs keys a c' \<and> rec_state (c_heap c' a) = Running)
    (\<lambda>_ c' _. registered q cs keys a c') c l"
proof -
  let ?J = "registered q cs keys a"
  have last: "?J c' \<Longrightarrow> wp (put_record a (set_booted b now)) (\<lambda>_ c' _. ?J c' \<and> rec_state (c_heap c' a) = Running)
      (\<lambda>_ c' _. ?J c') c' l'" for b now c' l'
    by (simp add: wp_put_record registered_def untouched_heap set_booted_def)
  have go: "wp (bind p f) Q (\<lambda>_ c' _. ?J c') c' l'"
    if "keeps ?J p" "?J c'" "\<And>v c' l'. ?J c' \<Longrightarrow> wp (f v) Q (\<lambda>_ c' _. ?J c') c' l'" for p :: "(core, 'b) prog" and f :: "'b \<Rightarrow> (core, unit) prog" and Q c' l'
    unfolding wp_bind by (rule wp_mono [OF keepsD [OF that(1,2)]]) (use that(3) in simp_all)
  show ?thesis
    unfolding bootGuest_def
    by (rule go [OF _ assms], (intro keeps_rules keeps_quiet, simp),
      rule go, (intro keeps_rules keeps_quiet, simp), assumption,
      rule go, (intro keeps_rules keeps_quiet, simp), assumption,
      rule go, rule keeps_settle, assumption,
      rule go, rule keeps_quiet, simp, assumption, erule last)
qed

definition created :: "create_request \<Rightarrow> core \<Rightarrow> string list \<Rightarrow> sandbox_info \<Rightarrow> core \<Rightarrow> bool" where
  "created q cs keys info c \<longleftrightarrow> (\<exists>a. registered q cs keys a c \<and> info = sr_info (c_heap c a)
     \<and> info_state info = (if boots q then Running else Booting))"

lemma wp_start_sandbox:
  assumes "launched (cr_id q) cs keys c"
  shows "wp (start_sandbox cfg q p n keys) (\<lambda>info c' _. created q cs keys info c')
    (\<lambda>_ c' _. untouched (cr_id q) cs keys c') c l"
proof -
  let ?i = "cr_id q"
  have tail: "wp (seq (if boots q then await (bootGuest cfg q a) else skip) (at_rec a (\<lambda>r. Return (sr_info r))))
      (\<lambda>info c' _. created q cs keys info c') (\<lambda>_ c' _. untouched ?i cs keys c') c' l'"
    if reg: "registered q cs keys a c'" "rec_state (c_heap c' a) = Booting" for a c' l'
  proof (cases "boots q")
    case True
    then show ?thesis
      unfolding wp_bind if_P [OF True] wp_await
      by (rule_tac wp_mono [OF wp_bootGuest [OF reg(1)]]) (auto simp: wp_at_rec created_def registered_def)
  next
    case False
    then show ?thesis using reg by (auto simp: wp_bind wp_at_rec created_def)
  qed
  have reg: "wp (bind (registerRecord cfg q p n keys) (\<lambda>a.
        seq (if boots q then await (bootGuest cfg q a) else skip) (at_rec a (\<lambda>r. Return (sr_info r)))))
      (\<lambda>info c' _. created q cs keys info c') (\<lambda>_ c' _. untouched ?i cs keys c') c' l'"
    if at: "launched ?i cs keys c'" for c' l'
    unfolding registerRecord_def bind_bind wp_bind [of "call_text IsoNow"]
  proof (rule wp_quiet)
    fix now t
    have "registered q cs keys (c_next c') (add_record ?i (new_record cfg q p n keys now) c')"
      using at by (auto simp: launched_def registered_def untouched_def add_record_def)
    from tail [OF this] show "wp (bind (Read (\<lambda>c. seq (modify (add_record ?i (new_record cfg q p n keys now))) (Return (c_next c))))
        (\<lambda>a. seq (if boots q then await (bootGuest cfg q a) else skip) (at_rec a (\<lambda>r. Return (sr_info r)))))
      (\<lambda>info c' _. created q cs keys info c') (\<lambda>_ c' _. untouched ?i cs keys c') c' (l' @ t)"
      by (simp add: wp_bind wp_Write add_record_def)
  qed (use at in \<open>simp_all add: launched_def\<close>)
  show ?thesis
    unfolding start_sandbox_def wp_bind [of "await p" for p] wp_await
    by (rule wp_quiet) (use assms in \<open>simp_all add: reg\<close>, simp add: launched_def)
qed

lemma undo_early:
  assumes "rm_works E" and "\<forall>k\<in>set keys. networkOwners (c_allocator cs) k = None"
    and "\<forall>k. networkOwners (c_allocator cs) k \<noteq> Some (cr_id q)"
    and "networkDeletePlan (netns n) (hostVeth n) = Inr plans"
    and "before_launch (cr_id q) cs keys c" and halt: "halt = skip \<or> (\<exists>pid. halt = proc_kill pid)"
  shows "does E (undo_create q p n keys halt e) Q
    (\<lambda>_ c' _. untouched (cr_id q) cs [] c' \<and> c_sandboxes c' (cr_id q) = None \<and> c_processes c' (cr_id q) = None) c l"
proof (rule does_undo [OF assms(1-4) refl])
  have "untouched (cr_id q) cs keys c \<and> c_processes c (cr_id q) = None"
    using assms(5) by (simp add: before_launch_def)
  with halt show "does E halt (\<lambda>_ c' _. untouched (cr_id q) cs keys c' \<and> c_processes c' (cr_id q) = None) (\<lambda>_ _ _. False) c l"
    by (auto simp: does_basic proc_kill_def does_def)
qed

lemma undo_late:
  assumes "rm_works E" and "\<forall>k\<in>set keys. networkOwners (c_allocator cs) k = None"
    and "\<forall>k. networkOwners (c_allocator cs) k \<noteq> Some (cr_id q)"
    and "networkDeletePlan (netns n) (hostVeth n) = Inr plans"
    and c: "untouched (cr_id q) cs keys c"
  shows "does E (undo_create q p n keys (await (on_processes (stop (cr_id q)))) e) Q
    (\<lambda>_ c' _. untouched (cr_id q) cs [] c' \<and> c_sandboxes c' (cr_id q) = None \<and> c_processes c' (cr_id q) = None) c l"
proof (rule does_undo [OF assms(1-4) refl], unfold does_await, rule does_wp, unfold wp_zoom_processes, rule wp_stop)
  show "untouched (cr_id q) cs keys (c\<lparr>c_processes := map_delete (cr_id q) (c_processes c)\<rparr>)
      \<and> c_processes (c\<lparr>c_processes := map_delete (cr_id q) (c_processes c)\<rparr>) (cr_id q) = None"
    using c by (simp add: untouched_def)
qed

lemma does_create_body:
  assumes rm: "rm_works E"
    and free: "\<forall>k\<in>set keys. networkOwners (c_allocator cs) k = None" "\<forall>k. networkOwners (c_allocator cs) k \<noteq> Some (cr_id q)"
    and plans: "networkDeletePlan (netns n) (hostVeth n) = Inr plans"
    and start: "before_launch (cr_id q) cs keys c"
  shows "does E (create_body cfg q p n keys) (\<lambda>info c' _. created q cs keys info c')
    (\<lambda>_ c' _. untouched (cr_id q) cs [] c' \<and> c_sandboxes c' (cr_id q) = None \<and> c_processes c' (cr_id q) = None) c l"
proof -
  let ?i = "cr_id q"
  let ?J = "before_launch ?i cs keys"
  let ?X = "\<lambda>_ c' _. untouched ?i cs [] c' \<and> c_sandboxes c' ?i = None \<and> c_processes c' ?i = None"
  note early = undo_early [where q = q and cs = cs and keys = keys and n = n and plans = plans, OF rm free plans]
  note late = undo_late [where q = q and cs = cs and keys = keys and n = n and plans = plans, OF rm free plans]
  show ?thesis
    unfolding create_body_def
  proof (rule does_phase [where J = ?J, OF _ start])
    show "keeps ?J (if boots q
        then await (copySparse (orelse (cr_rootfsPath q) (orelse (cr_rootfs q) (wc_baseRootfsPath cfg))) (physicalRootfs p))
        else skip)"
      by (intro keeps_rules keeps_quiet) (simp add: copySparse_def)
    show "does E (undo_create q p n keys skip e) Q ?X c' l'" if "?J c'" for e c' l' Q
      by (rule early [OF that]) simp
    fix c1 l1
    assume c1: "?J c1"
    show "does E (bind (try_catch startMountNamespace (undo_create q p n keys skip)) (\<lambda>pid.
      seq (try_catch (start_machine cfg q p n pid) (undo_create q p n keys (proc_kill pid)))
        (try_catch (start_sandbox cfg q p n keys) (undo_create q p n keys (await (on_processes (stop ?i)))))))
      (\<lambda>info c' _. created q cs keys info c') ?X c1 l1"
    proof (rule does_phase [where J = ?J, OF _ c1])
      show "keeps ?J startMountNamespace" by (rule keeps_quiet) (simp add: startMountNamespace_def)
      show "does E (undo_create q p n keys skip e) Q ?X c' l'" if "?J c'" for e c' l' Q
        by (rule early [OF that]) simp
      fix pid c2 l2
      assume c2: "?J c2"
      have last: "does E (try_catch (start_sandbox cfg q p n keys) (undo_create q p n keys (await (on_processes (stop ?i)))))
          (\<lambda>info c' _. created q cs keys info c') ?X c3 l3" if "launched ?i cs keys c3" for c3 l3
        unfolding does_try_catch by (rule does_mono [OF does_wp [OF wp_start_sandbox [OF that]]]) (auto intro: late)
      have killed: "does E (undo_create q p n keys (proc_kill pid) e) Q ?X c' l'" if "?J c'" for e c' l' Q
        by (rule early [OF that]) auto
      show "does E (seq (try_catch (start_machine cfg q p n pid) (undo_create q p n keys (proc_kill pid)))
        (try_catch (start_sandbox cfg q p n keys) (undo_create q p n keys (await (on_processes (stop ?i))))))
        (\<lambda>info c' _. created q cs keys info c') ?X c2 l2"
        unfolding does_bind does_try_catch [of E "start_machine cfg q p n pid"]
        by (rule does_mono [OF does_wp [OF wp_start_machine [OF c2 refl]]]) (auto intro: last killed)
    qed
  qed
qed

lemma derived_names_ok:
  assumes "digest_ok sha" and "deriveNetwork sha w q k = Inr n"
    and "\<forall>x. cr_netns q = Some x \<longrightarrow> safeIdentifier x" and "\<forall>x. cr_hostVeth q = Some x \<longrightarrow> safeIdentifier x"
  shows "safeIdentifier (netns n) \<and> safeIdentifier (hostVeth n)"
  using assms derived_name_ok [OF assms(1), of "''fmn''"] derived_name_ok [OF assms(1), of "''fmv''"]
  by (auto simp: deriveNetwork_def deriveNetworkIdentity_def Let_def split: sum.splits option.splits if_splits)

lemma allocated_network:
  assumes "allocateNetwork sha w q al = (Inr (n, keys), al')" and "digest_ok sha"
    and "\<forall>x. cr_netns q = Some x \<longrightarrow> safeIdentifier x" and "\<forall>x. cr_hostVeth q = Some x \<longrightarrow> safeIdentifier x"
    and "\<forall>k. networkOwners al k \<noteq> Some (cr_id q)"
  shows "(\<forall>k\<in>set keys. networkOwners al k = None)
    \<and> networkOwners al' = (\<lambda>k. if k \<in> set keys then Some (cr_id q) else networkOwners al k)
    \<and> (\<exists>plans. networkDeletePlan (netns n) (hostVeth n) = Inr plans)"
proof -
  have spec: "nets.available_to al (cr_id q) keys" "al' = fold (\<lambda>k. claim_network k (cr_id q)) keys al"
    using network_attempts_spec [OF assms(1) [unfolded allocateNetwork_def]] by auto
  have "\<exists>k. deriveNetwork sha w q k = Inr n"
    if "network_attempts sha w q al ks = (Inr (n, keys), al')" for ks
    using that by (induction ks) (auto simp: Let_def split: sum.splits if_splits)
  then obtain k where "deriveNetwork sha w q k = Inr n" using assms(1) by (auto simp: allocateNetwork_def)
  from derived_names_ok [OF assms(2) this assms(3,4)]
  have "\<exists>plans. networkDeletePlan (netns n) (hostVeth n) = Inr plans"
    by (simp add: networkDeletePlan_def assertIdentifier_def)
  with spec assms(5) show ?thesis
    by (auto simp: nets.available_to_def nets.owner_claims fun_eq_iff)
qed

lemma wp_accept_only_epochs:
  assumes "store_ok (c_epochs c)" and "\<And>s. P (c\<lparr>c_epochs := s\<rparr>)"
  shows "wp (on_epochs (accept cfg i e)) (\<lambda>_ c' _. P c') (\<lambda>_ c' _. P c') c l"
proof (cases e)
  case (Num n)
  show ?thesis unfolding wp_zoom_epochs Num by (rule wp_accept [OF assms(1)]) (rule assms(2))+
next
  case NotInteger
  then show ?thesis using assms(2) [of "c_epochs c"] by (simp add: wp_zoom_epochs accept_def)
qed

lemma untouched_refl: "c_sandboxes c i = None \<Longrightarrow> c_processes c i = None \<Longrightarrow> before_launch i c [] (c\<lparr>c_epochs := s\<rparr>)"
  by (simp add: before_launch_def untouched_def)

lemma before_launch_allocate:
  assumes "before_launch i cs [] c" and "networkOwners al = (\<lambda>k. if k \<in> set keys then Some i else networkOwners (c_allocator c) k)"
  shows "before_launch i cs keys (c\<lparr>c_allocator := al\<rparr>)"
  using assms by (auto simp: before_launch_def untouched_def fun_eq_iff)

lemma does_createSandbox:
  assumes ok: "core_ok cs" and sha: "digest_ok (wc_sha cfg)"
    and pins: "\<forall>x. cr_netns q = Some x \<longrightarrow> safeIdentifier x" "\<forall>x. cr_hostVeth q = Some x \<longrightarrow> safeIdentifier x"
    and new: "c_sandboxes cs (cr_id q) = None" "c_processes cs (cr_id q) = None"
      "\<forall>k. networkOwners (c_allocator cs) k \<noteq> Some (cr_id q)"
    and rm: "rm_works E"
  shows "does E (createSandbox cfg q) (\<lambda>info c' _. \<exists>keys. created q cs keys info c')
    (\<lambda>_ c' _. untouched (cr_id q) cs [] c' \<and> c_sandboxes c' (cr_id q) = None \<and> c_processes c' (cr_id q) = None) cs l"
proof -
  let ?i = "cr_id q"
  let ?J = "before_launch ?i cs []"
  let ?X = "\<lambda>_ c' _. untouched ?i cs [] c' \<and> c_sandboxes c' ?i = None \<and> c_processes c' ?i = None"
  let ?Q = "\<lambda>info c' _. \<exists>keys. created q cs keys info c'"
  have JX: "?J c \<Longrightarrow> ?X e c l" for e c l by (simp add: before_launch_def)
  have body: "does E (create_body cfg q p n keys) ?Q ?X (c\<lparr>c_allocator := al\<rparr>) l'"
    if al: "allocateNetwork (wc_sha cfg) (wc_workerId cfg) q (c_allocator c) = (Inr (n, keys), al)" and c: "?J c"
    for p n keys al c l'
  proof -
    have same: "networkOwners (c_allocator c) = networkOwners (c_allocator cs)"
      using c by (simp add: before_launch_def untouched_def fun_eq_iff)
    from allocated_network [OF al sha pins] new(3) same obtain plans where
      "\<forall>k\<in>set keys. networkOwners (c_allocator cs) k = None"
      "networkOwners al = (\<lambda>k. if k \<in> set keys then Some ?i else networkOwners (c_allocator c) k)"
      "networkDeletePlan (netns n) (hostVeth n) = Inr plans" by auto
    then have "does E (create_body cfg q p n keys) (\<lambda>info c' _. created q cs keys info c') ?X (c\<lparr>c_allocator := al\<rparr>) l'"
      by (intro does_create_body [OF rm _ new(3) _ before_launch_allocate [OF c]])
    then show ?thesis by (rule does_mono) blast+
  qed
  have allocate: "does E (bind (try_catch (core_allocateNetwork cfg q)
            (\<lambda>e. seq (call_unit (FsRm (physicalDirectory p))) (Throw e))) (\<lambda>(n, keys). create_body cfg q p n keys)) ?Q ?X c l'"
    if c: "?J c" for p c l'
  proof (cases "allocateNetwork (wc_sha cfg) (wc_workerId cfg) q (c_allocator c)")
    case (Pair r al)
    show ?thesis
    proof (cases r)
      case (Inl e)
      then have "networkOwners al = networkOwners (c_allocator c)"
        using network_attempts_spec [OF Pair [unfolded allocateNetwork_def]] by auto
      then have "?J (c\<lparr>c_allocator := al\<rparr>)" using c by (simp add: before_launch_def untouched_def)
      from JX [OF this] Inl Pair show ?thesis
        by (simp add: core_allocateNetwork_def does_bind does_try_catch does_basic does_settle does_rm [OF rm])
    next
      case (Inr x)
      with Pair body [OF _ c] show ?thesis by (cases x) (auto simp: core_allocateNetwork_def does_simps)
    qed
  qed
  have quiets: "keeps ?J (await (make_parents p))" "keeps ?J (await (claimPhysicalDirectory ?i path))"
    "keeps ?J (settle r)" for p path and r :: "js_error + sandbox_paths"
    by (rule keeps_quiet; auto simp: make_parents_def claimPhysicalDirectory_def)+
  have step: "does E (bind p f) ?Q ?X c l'"
    if "keeps ?J p" "?J c" "\<And>v c' l'. ?J c' \<Longrightarrow> does E (f v) ?Q ?X c' l'"
    for p :: "(core, 'b) prog" and f c l'
    unfolding does_bind by (rule does_mono [OF does_wp [OF keepsD [OF that(1,2)]]]) (use that(3) JX in blast)+
  have rest: "does E (bind (settle (sandbox_paths_of (path_model_of cfg) ?i (Num 0))) (\<lambda>p.
        seq (await (make_parents p))
        (seq (await (claimPhysicalDirectory ?i (physicalDirectory p)))
        (bind (try_catch (core_allocateNetwork cfg q)
            (\<lambda>e. seq (call_unit (FsRm (physicalDirectory p))) (Throw e))) (\<lambda>(n, keys).
          create_body cfg q p n keys))))) ?Q ?X c l'" if "?J c" for c l'
    by (rule step [OF quiets(3) that], rule step [OF quiets(1)], assumption, rule step [OF quiets(2)], assumption)
      (rule allocate)
  have J0: "?J (cs\<lparr>c_epochs := s\<rparr>)" for s by (rule untouched_refl [OF new(1,2)])
  have J1: "?J cs" using J0 [of "c_epochs cs"] by simp
  have epoch: "does E (on_epochs (accept (epoch_config_of cfg) ?i (cr_epoch q))) (\<lambda>_ c' _. ?J c') (\<lambda>_ c' _. ?J c') cs l'" for l'
    by (rule does_wp, rule wp_accept_only_epochs [OF core_ok_store [OF ok]]) (rule J0)
  have "does E (seq (settle (validateMachineSize (cr_cpu q) (cr_memoryMb q)))
      (seq (await (on_epochs (accept (epoch_config_of cfg) ?i (cr_epoch q)))) p)) ?Q ?X cs l"
    if "\<And>c l'. ?J c \<Longrightarrow> does E p ?Q ?X c l'" for p
    unfolding does_bind does_settle does_await
    by (auto split: sum.split simp: JX [OF J1] intro!: does_mono [OF epoch] that JX)
  then show ?thesis
    unfolding createSandbox_def does_basic using new(1) rest by simp
qed

section \<open>Properties\<close>

lemma table_restored:
  "map_delete i m' = map_delete i m \<Longrightarrow> m' i = None \<Longrightarrow> m i = None \<Longrightarrow> m' = m"
  unfolding map_delete_def fun_eq_iff by (metis fun_upd_apply)

lemma table_extended: "map_delete i m' = map_delete i m \<Longrightarrow> m' i = Some v \<Longrightarrow> m' = m(i \<mapsto> v)"
  unfolding map_delete_def fun_eq_iff by (metis fun_upd_apply)

lemma created_facts:
  assumes "created q cs keys info c"
  shows "\<exists>a. c_sandboxes c = (c_sandboxes cs)(cr_id q \<mapsto> a) \<and> c_next cs \<le> a
    \<and> info = sr_info (c_heap c a) \<and> info_state info = (if boots q then Running else Booting)
    \<and> info_epoch info = num_val (cr_epoch q)
    \<and> holds_network (c_allocator c) (cr_id q) (sr_networkKeys (c_heap c a))
    \<and> running (c_processes c) (cr_id q) \<and> (\<forall>b<c_next cs. c_heap c b = c_heap cs b)"
proof -
  obtain a where a: "registered q cs keys a c" "info = sr_info (c_heap c a)"
    "info_state info = (if boots q then Running else Booting)"
    using assms by (auto simp: created_def)
  then have "c_sandboxes c = (c_sandboxes cs)(cr_id q \<mapsto> a)"
    by (intro table_extended) (simp_all add: registered_def untouched_def)
  with a show ?thesis
    by (intro exI [of _ a]) (simp add: registered_def untouched_def holds_network_def running_def)
qed


definition sample_config :: worker_config where
  "sample_config = \<lparr>wc_workerId = ''w1'', wc_region = ''eu'', wc_workerRoot = ''/var/lib/firemig'',
     wc_canonicalRoot = None, wc_firecrackerBinary = ''/usr/bin/firecracker'', wc_kernelPath = ''/vmlinux'',
     wc_baseRootfsPath = ''/rootfs'', wc_proxyHost = ''proxy'', wc_portBase = None, wc_peerUrls = None,
     wc_peerAuthToken = None, wc_sharedWorkerRoot = None,
     wc_hostCompatibility = \<lparr>hc_firecrackerVersion = ''1'', hc_firecrackerDigest = ''d'',
       hc_snapshotFormatVersion = ''1'', hc_hostKernelVersion = ''6'', hc_architecture = ''x64'', hc_cpuVendor = ''v'',
       hc_cpuModel = ''m'', hc_cpuFamily = ''6'', hc_cpuStepping = ''1'', hc_guestKernelDigest = ''g'',
       hc_cpuTemplate = ''None'', hc_smt = False, hc_hugePages = NoHugePages\<rparr>,
     wc_sha = toy_sha, wc_pid = 1, wc_cwd = ''/''\<rparr>"

definition sample_create :: create_request where
  "sample_create = \<lparr>cr_id = ''a'', cr_epoch = Num 1, cr_cpu = Num 1, cr_memoryMb = Num 128, cr_mode = None,
     cr_kernelPath = None, cr_rootfsPath = None, cr_kernel = None, cr_rootfs = None, cr_netns = None,
     cr_hostVeth = None, cr_hostAddress = None, cr_namespaceAddress = None, cr_mtu = None\<rparr>"


text \<open>
  C37: when the cleanup of a failed creation fails itself, the worker is left inconsistent. If
  the directory cannot be removed, the sandbox stays registered although its network was
  already given back, for another sandbox to take; if the requested names are no identifiers,
  no cleanup plan can be made, and the network stays taken.
\<close>

theorem failed_cleanup_leaks:
  assumes "c_sandboxes c (cr_id q) = Some a" and "holds_network (c_allocator c) (cr_id q) keys" and "keys \<noteq> []"
  shows "case networkDeletePlan (netns n) (hostVeth n) of
      Inl z \<Rightarrow> (\<exists>c' l'. run E (undo_create q p n keys skip e) c l = (Raised z, c', l')
        \<and> holds_network (c_allocator c') (cr_id q) keys)
    | Inr plans \<Rightarrow> does (\<lambda>l s. if s = FsRm (physicalDirectory p) then Fail x else E l s)
        (undo_create q p n keys (await (on_processes (stop (cr_id q)))) e) (\<lambda>_ _ _. False)
        (\<lambda>y c' _. y = x \<and> c_sandboxes c' (cr_id q) = Some a \<and> \<not> holds_network (c_allocator c') (cr_id q) keys) c l"
proof (cases "networkDeletePlan (netns n) (hostVeth n)")
  case (Inl z)
  then show ?thesis using assms by (simp add: undo_create_def runCleanupPlans_def run_bind run_await run_settle)
next
  case (Inr plans)
  let ?E = "\<lambda>l s. if s = FsRm (physicalDirectory p) then Fail x else E l s"
  have "does ?E (undo_create q p n keys (await (on_processes (stop (cr_id q)))) e) (\<lambda>_ _ _. False)
        (\<lambda>y c' _. y = x \<and> c_sandboxes c' (cr_id q) = Some a \<and> \<not> holds_network (c_allocator c') (cr_id q) keys) c l"
    unfolding undo_create_def does_bind does_await
    by (rule does_wp, unfold wp_zoom_processes, rule wp_stop, rule does_cleanup [OF Inr])
      (use assms in \<open>auto simp: on_allocator_def does_basic does_call_unit releaseNetwork_owner holds_network_def neq_Nil_conv\<close>)
  then show ?thesis using Inr by simp
qed

definition leaky_core :: core where
  "leaky_core = empty_core\<lparr>c_sandboxes := [''a'' \<mapsto> 0],
     c_allocator := \<lparr>networkOwners = [''netns:x'' \<mapsto> ''a''], portOwners = []\<rparr>\<rparr>"

theorem failed_cleanup_leaks_witness:
  "case networkDeletePlan ''x'' ''y'' of
      Inl z \<Rightarrow> False
    | Inr plans \<Rightarrow> \<forall>p E. does (\<lambda>l s. if s = FsRm (physicalDirectory p) then Fail (Errno ''EBUSY'') else E l s)
        (undo_create sample_create p \<lparr>netns = ''x'', hostVeth = ''y'', hostAddress = [], namespaceAddress = [], subnet = []\<rparr>
           [''netns:x''] (await (on_processes (stop ''a''))) TypeFault :: (core, unit) prog) (\<lambda>_ _ _. False)
        (\<lambda>y c' _. y = Errno ''EBUSY'' \<and> c_sandboxes c' ''a'' = Some 0
           \<and> \<not> holds_network (c_allocator c') ''a'' [''netns:x'']) leaky_core []"
proof -
  have i: "cr_id sample_create = ''a''" by (simp add: sample_create_def)
  have plan: "\<exists>plans. networkDeletePlan ''x'' ''y'' = Inr plans"
    by (simp add: networkDeletePlan_def assertIdentifier_def safeIdentifier_def is_alnum_def)
  have "c_sandboxes leaky_core (cr_id sample_create) = Some 0"
    "holds_network (c_allocator leaky_core) (cr_id sample_create) [''netns:x'']"
    by (simp_all add: leaky_core_def i holds_network_def)
  note leak = failed_cleanup_leaks [OF this, where n = "\<lparr>netns = ''x'', hostVeth = ''y'', hostAddress = [], namespaceAddress = [], subnet = []\<rparr>"]
  then show ?thesis using plan by (auto simp: i)
qed

end
