(* ===== verification/Worker_Prepare.thy ===== *)
theory Worker_Prepare
  imports Worker_Undo
begin

text \<open>
  \<open>worker/migration/worker-migration.ts\<close>: reserving a migration on its destination and
  creating the sandbox it will be restored into. Requests for the same migration share one
  preparation through the promise kept in the reservation: the first request runs it, later
  ones wait for its outcome.
\<close>

section \<open>The reservation\<close>

definition conflictsWithPrior :: "reservation \<Rightarrow> int \<Rightarrow> prepare_request \<Rightarrow> bool" where
  "conflictsWithPrior prior epoch q \<longleftrightarrow> rv_epoch prior \<noteq> epoch
     \<or> pr_source (rv_request prior) \<noteq> pr_source q \<or> pr_destination (rv_request prior) \<noteq> pr_destination q
     \<or> pr_cpu (rv_request prior) \<noteq> pr_cpu q \<or> pr_memoryMb (rv_request prior) \<noteq> pr_memoryMb q"

definition destination_conflict_error :: js_error where
  "destination_conflict_error =
     conflict IdempotencyKeyConflict ''Destination sandbox reservation conflicts with prepare request'' 409"

definition payload_changed_error :: js_error where
  "payload_changed_error = conflict IdempotencyKeyConflict ''Migration reservation payload changed'' 409"

definition restore_request :: "string \<Rightarrow> int \<Rightarrow> prepare_request \<Rightarrow> create_request" where
  "restore_request i epoch q = \<lparr>cr_id = i, cr_epoch = Num epoch, cr_cpu = pr_cpu q, cr_memoryMb = pr_memoryMb q,
     cr_mode = Some RestoreMode, cr_kernelPath = None, cr_rootfsPath = None, cr_kernel = None, cr_rootfs = None,
     cr_netns = None, cr_hostVeth = None, cr_hostAddress = None, cr_namespaceAddress = None, cr_mtu = None\<rparr>"

definition ensureDestinationReservation :: "worker_config \<Rightarrow> string \<Rightarrow> int \<Rightarrow> prepare_request \<Rightarrow> (core, unit) prog" where
  "ensureDestinationReservation cfg i epoch q = Read (\<lambda>c. case c_sandboxes c i of
       None \<Rightarrow> seq (await (createSandbox cfg (restore_request i epoch q))) skip
     | Some a \<Rightarrow> at_rec a (\<lambda>r. guard_throw
         (rec_epoch r \<noteq> epoch \<or> Num (info_cpu (sr_info r)) \<noteq> pr_cpu q \<or> Num (info_memoryMb (sr_info r)) \<noteq> pr_memoryMb q)
         destination_conflict_error))"

section \<open>Preparing once\<close>

definition put_reservation :: "string \<Rightarrow> (reservation \<Rightarrow> reservation) \<Rightarrow> (core, unit) prog" where
  "put_reservation key f = modify (\<lambda>c. c\<lparr>c_migrations := (c_migrations c)(key := map_option f (c_migrations c key))\<rparr>)"

text \<open>The request that finds no preparation runs one, marks its result and settles the promise.\<close>

definition begin_promise :: "string \<Rightarrow> (core, nat) prog" where
  "begin_promise key = Read (\<lambda>c.
     seq (put_reservation key (\<lambda>v. v\<lparr>rv_preparing := Some (c_nextPromise c)\<rparr>))
     (seq (modify (\<lambda>c. c\<lparr>c_nextPromise := c_nextPromise c + 1\<rparr>))
       (Return (c_nextPromise c))))"

definition run_preparation :: "worker_config \<Rightarrow> string \<Rightarrow> int \<Rightarrow> prepare_request \<Rightarrow> string \<Rightarrow> (core, unit) prog" where
  "run_preparation cfg i epoch q key =
     bind (begin_promise key) (\<lambda>p.
     bind (attempt (await (ensureDestinationReservation cfg i epoch q))) (\<lambda>r.
     seq (case r of Inl e \<Rightarrow> skip | Inr _ \<Rightarrow> put_reservation key (\<lambda>v. v\<lparr>rv_prepared := True\<rparr>))
     (Yield (\<lambda>_. True)
       (seq (put_reservation key (\<lambda>v. v\<lparr>rv_preparing := None\<rparr>))
       (seq (modify (\<lambda>c. c\<lparr>c_promises := (c_promises c)(p \<mapsto> r)\<rparr>))
         (await (settle r)))))))"

definition join_preparation :: "nat \<Rightarrow> (core, unit) prog" where
  "join_preparation p = Yield (\<lambda>c. c_promises c p \<noteq> None) (Read (\<lambda>c. settle (the (c_promises c p))))"

section \<open>The request\<close>

record prepare_answer =
  pa_migrationId :: string
  pa_stage :: prepare_stage
  pa_prestaged :: bool
  pa_prestageReady :: bool
  pa_worker :: string
  pa_state :: string

definition answer_of :: "worker_config \<Rightarrow> string \<Rightarrow> prepare_request \<Rightarrow> string \<Rightarrow> core \<Rightarrow> prepare_answer" where
  "answer_of cfg i q key c =
     (let ready = (case c_migrations c key of None \<Rightarrow> False | Some v \<Rightarrow> rv_prepared v) in
      \<lparr>pa_migrationId = pr_migrationId q, pa_stage = pr_stage q, pa_prestaged = ready,
       pa_prestageReady = ready \<and> running (c_processes c) i, pa_worker = wc_workerId cfg,
       pa_state = (case c_sandboxes c i of None \<Rightarrow> ''reserved'' | Some a \<Rightarrow> state_text (rec_state (c_heap c a)))\<rparr>)"

definition new_reservation :: "int \<Rightarrow> prepare_request \<Rightarrow> reservation" where
  "new_reservation epoch q = \<lparr>rv_request = q, rv_epoch = epoch, rv_prepared = False, rv_preparing = None\<rparr>"

definition prepareMigration :: "worker_config \<Rightarrow> string \<Rightarrow> int \<Rightarrow> prepare_request \<Rightarrow> (core, prepare_answer) prog" where
  "prepareMigration cfg i epoch q =
     seq (guard_throw (pr_sandboxId q \<noteq> i) (workerBadRequest ''Prepared sandbox id does not match route''))
     (seq (guard_throw (pr_destination q \<noteq> wc_workerId cfg) (workerBadRequest ''Migration destination does not match this worker''))
     (Read (\<lambda>c.
       let key = migration_key i (pr_migrationId q);
           v = orelse (c_migrations c key) (new_reservation epoch q) in
       if c_migrations c key \<noteq> None \<and> conflictsWithPrior v epoch q then Throw payload_changed_error
       else
         seq (modify (\<lambda>c. c\<lparr>c_migrations := (c_migrations c)(key \<mapsto> v)\<rparr>))
         (seq (if pr_stage q = Prestage \<and> \<not> rv_prepared v
               then (case rv_preparing v of None \<Rightarrow> run_preparation cfg i epoch q key | Some p \<Rightarrow> join_preparation p)
               else skip)
           (gets (answer_of cfg i q key))))))"

section \<open>The invariant is kept\<close>

text \<open>Changing the reservations of a core; what is pending afterwards may differ at \<open>key\<close> only.\<close>

definition good_but :: "string \<Rightarrow> core \<Rightarrow> syscall list \<Rightarrow> core \<Rightarrow> syscall list \<Rightarrow> bool" where
  "good_but key c l c' l' \<longleftrightarrow> core_ok c' \<and> evolves False c l (c'\<lparr>c_migrations := c_migrations c\<rparr>) l'
     \<and> (\<forall>k. k \<noteq> key \<longrightarrow> pending c' k \<longrightarrow> pending c k)"

lemma evolves_same:
  assumes "evolves q c l c' l'"
    and "c_epochs c2 = c_epochs c" "c_consumed c2 = c_consumed c" "c_next c2 = c_next c" "c_heap c2 = c_heap c"
    and "c_epochs c3 = c_epochs c'" "c_consumed c3 = c_consumed c'" "c_next c3 = c_next c'" "c_heap c3 = c_heap c'"
    and "\<forall>k. pending c3 k \<longrightarrow> pending c2 k"
  shows "evolves q c2 l c3 l'"
  using assms(1,10) unfolding evolves_def assms(2-9) by blast

lemma good_but_start: "core_ok c \<Longrightarrow> good_but key c l c l"
  unfolding good_but_def by (auto simp: evolves_def pending_def)

lemma core_ok_aside:
  assumes "core_ok c" and "c_epochs c' = c_epochs c" "c_sandboxes c' = c_sandboxes c" "c_heap c' = c_heap c"
    "c_next c' = c_next c" "c_consumed c' = c_consumed c"
  shows "core_ok c'"
  by (rule core_ok_frame [OF assms(1)]) (use assms in \<open>simp_all add: core_ok_store\<close>)

lemma good_but_put:
  assumes "good_but key c l c' l'" and "\<forall>k. k \<noteq> key \<longrightarrow> pending c2 k \<longrightarrow> pending c' k"
    and "c_epochs c2 = c_epochs c'" "c_sandboxes c2 = c_sandboxes c'" "c_heap c2 = c_heap c'"
      "c_next c2 = c_next c'" "c_consumed c2 = c_consumed c'"
  shows "good_but key c l c2 l'"
proof -
  have "core_ok c2" by (rule core_ok_aside [of c']) (use assms in \<open>simp_all add: good_but_def\<close>)
  moreover have "evolves False c l (c'\<lparr>c_migrations := c_migrations c\<rparr>) l'" using assms(1) by (simp add: good_but_def)
  then have "evolves False c l (c2\<lparr>c_migrations := c_migrations c\<rparr>) l'"
    by (rule evolves_same) (simp_all add: assms pending_def)
  ultimately show ?thesis using assms by (auto simp: good_but_def)
qed

text \<open>Once the preparation of \<open>key\<close> has ended, nothing is left of it.\<close>

lemma good_but_end:
  assumes "good_but key c l c' l'" and "\<not> pending c' key"
  shows "good False c l c' l'"
proof -
  have "evolves False c l (c'\<lparr>c_migrations := c_migrations c\<rparr>) l'" "\<forall>k. pending c' k \<longrightarrow> pending c k"
    using assms by (auto simp: good_but_def)
  from evolves_same [OF this(1), of c c'] this(2) have "evolves False c l c' l'" by simp
  with assms(1) show ?thesis by (simp add: good_but_def)
qed

lemma good_but_trans:
  assumes "good_but key c l c1 l1" and "good False c1 l1 c2 l2"
  shows "good_but key c l c2 l2"
proof -
  have "evolves False (c1\<lparr>c_migrations := c_migrations c\<rparr>) l1 (c2\<lparr>c_migrations := c_migrations c\<rparr>) l2"
    by (rule evolves_same [of False c1 l1 c2 l2]) (use assms(2) in \<open>simp_all add: pending_def\<close>)
  with assms have "evolves False c l (c2\<lparr>c_migrations := c_migrations c\<rparr>) l2"
    by (auto simp: good_but_def intro: evolves_trans)
  moreover have "\<forall>k. pending c2 k \<longrightarrow> pending c1 k" using assms(2) by (simp add: evolves_def)
  ultimately show ?thesis using assms by (auto simp: good_but_def)
qed

lemma safe_ensure: "safe_prog False (ensureDestinationReservation cfg i e q)"
proof (intro allI impI)
  fix c l
  assume ok: "core_ok c"
  have "wp (createSandbox cfg (restore_request i e q)) (\<lambda>_. good False c l) (\<lambda>_. good False c l) c l"
    using safe_createSandbox ok by blast
  then show "wp (ensureDestinationReservation cfg i e q) (\<lambda>_. good False c l) (\<lambda>_. good False c l) c l"
    using ok by (auto simp: ensureDestinationReservation_def wp_simps wp_at_rec elim: wp_mono split: option.split)
qed

text \<open>The preparation a request starts, from a state in which its reservation is \<open>v\<close>.\<close>

lemma pending_put [simp]:
  "pending (c\<lparr>c_migrations := (c_migrations c)(key := x)\<rparr>) k
     = (if k = key then Option.bind x rv_preparing \<noteq> None else pending c k)"
  "pending (c\<lparr>c_nextPromise := n\<rparr>) k = pending c k" "pending (c\<lparr>c_promises := ps\<rparr>) k = pending c k"
  by (simp_all add: pending_def)

lemma wp_run_preparation:
  assumes g: "good_but key c l c' l'"
  shows "wp (run_preparation cfg i e q key) (\<lambda>_. good False c l) (\<lambda>_. good False c l) c' l'"
proof -
  have last: "good False c l (c1\<lparr>c_migrations := (c_migrations c1)(key := x), c_promises := ps\<rparr>) l1"
    if "good_but key c l c1 l1" "Option.bind x rv_preparing = None" for c1 l1 ps x
    by (rule good_but_end [OF good_but_put [OF that(1)]]) (simp_all add: that(2))
  have ended: "Option.bind (map_option (rv_preparing_update (\<lambda>_. None)) x) rv_preparing = None" for x
    by (cases x) simp_all
  have start: "good_but key c l (c'\<lparr>c_migrations := (c_migrations c')(key := map_option f (c_migrations c' key)), c_nextPromise := n\<rparr>) l'" for f n
    by (rule good_but_put [OF g]) simp_all
  have ensure: "wp (ensureDestinationReservation cfg i e q) (\<lambda>_. good_but key c l) (\<lambda>_. good_but key c l) c1 l1"
    if "good_but key c l c1 l1" for c1 l1
  proof (rule wp_mono)
    show "wp (ensureDestinationReservation cfg i e q) (\<lambda>_. good False c1 l1) (\<lambda>_. good False c1 l1) c1 l1"
      using safe_ensure that by (simp add: good_but_def)
  qed (rule good_but_trans [OF that], assumption)+
  show ?thesis
    unfolding run_preparation_def begin_promise_def put_reservation_def
    by (simp add: wp_bind wp_Write wp_attempt wp_await wp_settle)
      (rule wp_mono [OF ensure [OF start]]; auto simp: wp_bind wp_Write last ended)
qed

lemma safe_prepareMigration:
  assumes ok: "core_ok c" and idle: "idle c"
  shows "wp (prepareMigration cfg i e q) (\<lambda>_ c' l'. good False c l c' l') (\<lambda>_ c' l'. good False c l c' l') c l"
proof -
  let ?key = "migration_key i (pr_migrationId q)"
  let ?v = "orelse (c_migrations c ?key) (new_reservation e q)"
  let ?c1 = "c\<lparr>c_migrations := (c_migrations c)(?key \<mapsto> ?v)\<rparr>"
  have "\<not> pending c ?key" using idle by (simp add: idle_def)
  then have none: "rv_preparing ?v = None"
    by (cases "c_migrations c ?key") (simp_all add: pending_def new_reservation_def)
  have g: "good_but ?key c l ?c1 l" by (rule good_but_put [OF good_but_start [OF ok]]) simp_all
  have r: "good False c l ?c1 l" by (rule good_but_end [OF g]) (simp add: none)
  have "wp (run_preparation cfg i e q ?key) (\<lambda>_. wp (gets (answer_of cfg i q ?key)) (\<lambda>_. good False c l) (\<lambda>_. good False c l))
      (\<lambda>_. good False c l) ?c1 l"
    by (rule wp_mono [OF wp_run_preparation [OF g]]) simp_all
  with ok none r show ?thesis
    unfolding prepareMigration_def
    by (auto simp: wp_bind wp_guard_throw wp_Write Let_def)
qed

section \<open>Preparing is idempotent\<close>

lemma leaves_parts [leaves_rules]:
  "leaves c_migrations (on_epochs p)" "leaves c_migrations (on_processes p')" "leaves c_migrations (on_allocator h)"
  "leaves c_migrations (put_record a g)" "leaves c_migrations (drop_sandbox i)"
  unfolding on_epochs_def on_processes_def on_allocator_def put_record_def drop_sandbox_def
  by (simp_all add: leaves_zoom)

lemma leaves_at_rec [leaves_rules]: "(\<And>r. leaves f (k r)) \<Longrightarrow> leaves f (at_rec a k)"
  by (simp add: at_rec_def)

lemma leaves_createSandbox: "leaves c_migrations (createSandbox cfg q)"
proof -
  have undo: "leaves c_migrations (undo_create q p n keys halt e)" if "leaves c_migrations halt" for p n keys halt e
    unfolding undo_create_def by (intro leaves_rules that leaves_quiet quiet_runCleanupPlans quiet_calls)
  have reg: "leaves c_migrations (registerRecord cfg q p n keys)" for p n keys
    unfolding registerRecord_def
    by (intro leaves_rules leaves_quiet [of "call_text s" for s]) (simp_all add: add_record_def)
  have boot: "leaves c_migrations (bootGuest cfg q a)" for a
    unfolding bootGuest_def
    by (intro leaves_rules leaves_quiet [of "fc_configure k b" for k b] leaves_quiet [of "fc_start k" for k]
        leaves_quiet [of "waitForGuest k t" for k t] leaves_quiet [of "call_text s" for s]) simp_all
  have quiets: "leaves c_migrations (make_parents p)" "leaves c_migrations (claimPhysicalDirectory i path)"
    "leaves c_migrations (waitForFile path)" "leaves c_migrations (runPlans ps)" "leaves c_migrations (copySparse x y)"
    "leaves c_migrations startMountNamespace" "leaves c_migrations (proc_kill pid)" "leaves c_migrations (call_unit s)"
    for p path i ps x y pid s
    by (rule leaves_quiet;
        auto simp: make_parents_def claimPhysicalDirectory_def copySparse_def startMountNamespace_def proc_kill_def)+
  have body: "leaves c_migrations (create_body cfg q p n keys)" for p n keys
    unfolding create_body_def start_machine_def start_sandbox_def
    by (intro leaves_rules undo reg boot quiets)
  have allocate: "leaves c_migrations (core_allocateNetwork cfg q)"
    unfolding core_allocateNetwork_def Let_def by (intro leaves_rules) simp
  show ?thesis
    unfolding createSandbox_def
    by (intro leaves_rules quiets allocate) (clarsimp simp: body split: prod.split)
qed

lemma leaves_ensure: "leaves c_migrations (ensureDestinationReservation cfg i e q)"
  unfolding ensureDestinationReservation_def
  by (auto intro!: leaves_rules leaves_createSandbox leaves_quiet [of "guard_throw b x" for b x] split: option.split)

lemma prepared_entry:
  assumes run: "run E (run_preparation cfg i e q key) c l = (Value u, c', l')" and v: "c_migrations c key = Some v"
  shows "c_migrations c' key = Some (v\<lparr>rv_prepared := True, rv_preparing := None\<rparr>)"
proof -
  let ?c1 = "c\<lparr>c_migrations := (c_migrations c)(key \<mapsto> v\<lparr>rv_preparing := Some (c_nextPromise c)\<rparr>), c_nextPromise := c_nextPromise c + 1\<rparr>"
  obtain r c2 l2 where body: "run E (ensureDestinationReservation cfg i e q) ?c1 l = (r, c2, l2)" by (metis prod_cases3)
  have "c_migrations c2 = c_migrations ?c1"
    using leaves_run [OF leaves_ensure, of E cfg i e q ?c1 l] body by simp
  with run v body show ?thesis
    by (auto simp: run_preparation_def begin_promise_def put_reservation_def run_simps split: outcome.splits)
qed

lemma prepared_after:
  assumes idle: "idle c" and run: "run E (prepareMigration cfg i e q) c l = (Value answer, c', l')" and "pr_stage q = Prestage"
  shows "pr_sandboxId q = i \<and> pr_destination q = wc_workerId cfg \<and> answer = answer_of cfg i q (migration_key i (pr_migrationId q)) c'
    \<and> (\<exists>v. c_migrations c' (migration_key i (pr_migrationId q)) = Some v \<and> rv_prepared v \<and> \<not> conflictsWithPrior v e q)"
proof -
  let ?key = "migration_key i (pr_migrationId q)"
  let ?v = "orelse (c_migrations c ?key) (new_reservation e q)"
  let ?c1 = "c\<lparr>c_migrations := (c_migrations c)(?key \<mapsto> ?v)\<rparr>"
  have "\<not> pending c ?key" using idle by (simp add: idle_def)
  then have none: "rv_preparing ?v = None"
    by (cases "c_migrations c ?key") (simp_all add: pending_def new_reservation_def)
  have agree: "\<not> conflictsWithPrior ?v e q"
    using run by (auto simp: prepareMigration_def run_simps Let_def conflictsWithPrior_def new_reservation_def
        split: if_splits option.splits)
  have route: "pr_sandboxId q = i" "pr_destination q = wc_workerId cfg"
    using run by (auto simp: prepareMigration_def run_simps split: if_splits)
  consider "rv_prepared ?v" "c' = ?c1" "answer = answer_of cfg i q ?key ?c1"
    | c2 l2 where "run E (run_preparation cfg i e q ?key) ?c1 l = (Value (), c2, l2)" "c' = c2" "answer = answer_of cfg i q ?key c2"
    using run none agree assms(3) route
    by (auto simp: prepareMigration_def run_simps Let_def split: if_splits prod.splits outcome.splits)
  then show ?thesis
  proof cases
    case 1
    with route agree show ?thesis by simp
  next
    case 2
    from prepared_entry [OF 2(1)] have "c_migrations c2 ?key = Some (?v\<lparr>rv_prepared := True, rv_preparing := None\<rparr>)" by simp
    with 2 route agree show ?thesis by (simp add: conflictsWithPrior_def)
  qed
qed

text \<open>
  C38: prestaging a destination happens once. After it has returned, the same request again
  asks the platform for nothing, changes nothing and gets the same answer; a request for the
  same migration with another epoch, source or machine size is refused as an idempotency
  conflict, without any effect either.
\<close>

theorem prepare_idempotent:
  assumes "idle c" and "run E (prepareMigration cfg i e q) c l = (Value answer, c', l')" and "pr_stage q = Prestage"
  shows "pa_prestaged answer \<and> run F (prepareMigration cfg i e q) c' k = (Value answer, c', k)
    \<and> (if pr_migrationId q' = pr_migrationId q \<and> pr_sandboxId q' = i \<and> pr_destination q' = wc_workerId cfg
          \<and> (e' \<noteq> e \<or> pr_source q' \<noteq> pr_source q \<or> pr_cpu q' \<noteq> pr_cpu q \<or> pr_memoryMb q' \<noteq> pr_memoryMb q)
        then run F (prepareMigration cfg i e' q') c' k = (Raised payload_changed_error, c', k) else True)"
proof -
  let ?key = "migration_key i (pr_migrationId q)"
  from prepared_after [OF assms] obtain v where v: "pr_sandboxId q = i" "pr_destination q = wc_workerId cfg"
    "answer = answer_of cfg i q ?key c'" "c_migrations c' ?key = Some v" "rv_prepared v" "\<not> conflictsWithPrior v e q"
    by auto
  have same: "c'\<lparr>c_migrations := (c_migrations c')(?key \<mapsto> v)\<rparr> = c'"
    using v(4) by (simp add: fun_upd_idem)
  show ?thesis
    using v same by (auto simp: prepareMigration_def run_simps Let_def answer_of_def conflictsWithPrior_def)
qed

definition sample_prepare :: prepare_request where
  "sample_prepare = \<lparr>pr_migrationId = ''m'', pr_stage = Prestage, pr_source = ''w0'', pr_destination = ''w1'',
     pr_sandboxId = ''a'', pr_cpu = Num 1, pr_memoryMb = Num 128, pr_bootId = None\<rparr>"

text \<open>A worker on which the sandbox already waits for the snapshot.\<close>

definition waiting_core :: core where
  "waiting_core = empty_core\<lparr>c_sandboxes := [''a'' \<mapsto> 0], c_next := 1,
     c_heap := (\<lambda>_. new_record sample_config (restore_request ''a'' 1 sample_prepare) undefined
       \<lparr>netns = ''n'', hostVeth = ''v'', hostAddress = [], namespaceAddress = [], subnet = []\<rparr> [] [])\<rparr>"

theorem prepare_idempotent_witness:
  "\<exists>answer c'. run calm (prepareMigration sample_config ''a'' 1 sample_prepare) waiting_core [] = (Value answer, c', [])
    \<and> pa_prestaged answer
    \<and> run calm (prepareMigration sample_config ''a'' 1 sample_prepare) c' [] = (Value answer, c', [])
    \<and> run calm (prepareMigration sample_config ''a'' 2 sample_prepare) c' [] = (Raised payload_changed_error, c', [])"
proof -
  have first: "\<exists>answer c'. run calm (prepareMigration sample_config ''a'' 1 sample_prepare) waiting_core [] = (Value answer, c', [])"
    by (simp add: prepareMigration_def sample_prepare_def sample_config_def waiting_core_def empty_core_def run_simps Let_def
        new_reservation_def run_preparation_def begin_promise_def put_reservation_def ensureDestinationReservation_def
        at_rec_def new_record_def restore_request_def)
  then obtain answer c' where r: "run calm (prepareMigration sample_config ''a'' 1 sample_prepare) waiting_core [] = (Value answer, c', [])"
    by blast
  have "idle waiting_core" using empty_core_idle by (simp add: waiting_core_def idle_def)
  from prepare_idempotent [OF this r, where F = calm and k = "[]" and q' = sample_prepare and e' = 2] r
  show ?thesis by (auto simp: sample_prepare_def sample_config_def)
qed

end
