(* ===== verification/Worker_Transfer.thy ===== *)
theory Worker_Transfer
  imports Worker_Prepare
begin

text \<open>
  \<open>worker/migration/worker-transfer.ts\<close>: bringing a snapshot's artifacts to the
  destination, over HTTP from the source worker or, when the workers share a root, by hard
  links. The abort signal of a transfer is the error of the one that failed before; the fetch
  it is passed to is answered by the platform, aborted or not.
\<close>

section \<open>One artifact\<close>

definition artifact_url :: "string \<Rightarrow> string \<Rightarrow> artifact_kind \<Rightarrow> string" where
  "artifact_url url i kind =
     strip_slash url @ ''/internal/sandboxes/'' @ encodeURIComponent i @ ''/artifacts/'' @ kind_text kind"

definition pull_of :: "worker_config \<Rightarrow> string \<Rightarrow> string \<Rightarrow> string \<Rightarrow> artifact_descriptor \<Rightarrow> pull_options" where
  "pull_of cfg i url destination d =
     \<lparr>pull_url = artifact_url url i (ad_kind d), pull_destination = destination, pull_descriptor = d,
      pull_headers = (case wc_peerAuthToken cfg of None \<Rightarrow> [] | Some t \<Rightarrow> [(''authorization'', ''Bearer '' @ t)])\<rparr>"

definition size_changed_error :: "artifact_kind \<Rightarrow> js_error" where
  "size_changed_error kind = JsError (''Shared '' @ kind_text kind @ '' artifact size changed'')"

definition linkSharedArtifact :: "worker_config \<Rightarrow> string \<Rightarrow> string \<Rightarrow> string \<Rightarrow> string \<Rightarrow> artifact_descriptor \<Rightarrow>
    (core, unit) prog" where
  "linkSharedArtifact cfg i sourceWorker sharedRoot destination d =
     seq (settle (assertIdentifier sourceWorker ''source worker''))
     (seq (guard_throw (path_basename (ad_name d) \<noteq> ad_name d) (JsError ''Invalid artifact name''))
     (let sourceBase = path_resolve (wc_cwd cfg) [sharedRoot, sourceWorker, ''sandboxes'', i];
          sourcePath = path_resolve (wc_cwd cfg) [sourceBase, ad_name d] in
      seq (guard_throw (\<not> starts_with sourcePath (sourceBase @ [slash])) (JsError ''Artifact path escaped source sandbox''))
      (seq (call_unit (FsRm (partial_path destination)))
      (seq (call_unit (FsLink sourcePath (partial_path destination)))
      (bind (call_stat (FsStat (partial_path destination))) (\<lambda>(size, isFile).
       seq (guard_throw (size \<noteq> ad_size d) (size_changed_error (ad_kind d)))
         (call_unit (FsRename (partial_path destination) destination))))))))"

definition throwIfAborted :: "js_error option \<Rightarrow> (core, unit) prog" where
  "throwIfAborted aborted = (case aborted of None \<Rightarrow> skip | Some e \<Rightarrow> Throw e)"

definition transferArtifact :: "worker_config \<Rightarrow> string \<Rightarrow> string \<Rightarrow> string \<Rightarrow> artifact_descriptor \<Rightarrow> js_error option \<Rightarrow>
    (core, unit) prog" where
  "transferArtifact cfg i sourceWorker sourceUrl d aborted =
     bind (record_of i) (\<lambda>a. at_rec a (\<lambda>r.
       let destination = artifactPath r (ad_kind d) in
       case wc_sharedWorkerRoot cfg of
         None \<Rightarrow> seq (await (pullArtifact (wc_sha cfg) (pull_of cfg i sourceUrl destination d))) skip
       | Some sharedRoot \<Rightarrow>
           seq (throwIfAborted aborted)
           (seq (await (linkSharedArtifact cfg i sourceWorker sharedRoot destination d))
             (throwIfAborted aborted))))"

section \<open>The request\<close>

definition no_peer_error :: "string \<Rightarrow> js_error" where
  "no_peer_error source = firemig DestinationUnavailable (''No peer URL configured for '' @ source) True None (Some 503)"

definition peer_url :: "worker_config \<Rightarrow> string \<Rightarrow> string option" where
  "peer_url cfg source = Option.bind (wc_peerUrls cfg) (\<lambda>urls. urls source)"

definition transfer_complete :: "sandbox_record \<Rightarrow> compat_manifest \<Rightarrow> bool" where
  "transfer_complete r m \<longleftrightarrow> list_all (\<lambda>k. artifact_matches (sr_artifacts r k) (m_artifacts m k)) ARTIFACT_KINDS"

definition registerArtifact :: "string \<Rightarrow> artifact_descriptor \<Rightarrow> (core, unit) prog" where
  "registerArtifact i d = bind (record_of i) (\<lambda>a.
     put_record a (\<lambda>r. r\<lparr>sr_artifacts := (sr_artifacts r)(ad_kind d \<mapsto> d)\<rparr>))"

definition transfer_task :: "worker_config \<Rightarrow> string \<Rightarrow> string \<Rightarrow> string \<Rightarrow> artifact_descriptor \<Rightarrow> js_error option \<Rightarrow>
    (core, unit) prog" where
  "transfer_task cfg i source url d aborted =
     seq (await (transferArtifact cfg i source url d aborted)) (registerArtifact i d)"

definition transferMigration :: "worker_config \<Rightarrow> string \<Rightarrow> int \<Rightarrow> transfer_request \<Rightarrow> (core, int \<times> int) prog" where
  "transferMigration cfg i epoch q =
     (let m = tr_manifest q in
      seq (guard_throw (m_migrationId m \<noteq> tr_migrationId q) (workerBadRequest ''Transfer migration id does not match manifest''))
      (seq (validateManifest cfg m)
      (seq (await (mutableRecord cfg i epoch (Some Booting)))
        (case peer_url cfg (tr_source q) of
           None \<Rightarrow> Throw (no_peer_error (tr_source q))
         | Some url \<Rightarrow>
             bind (bind (record_of i) (\<lambda>a. at_rec a (\<lambda>r. Return (transfer_complete r m)))) (\<lambda>complete.
             seq (if complete then skip
                  else seq (await (runAbortableOperations
                         (map (\<lambda>k. transfer_task cfg i (tr_source q) url (m_artifacts m k)) ARTIFACT_KINDS))) skip)
             (seq (for_each (orelse (m_ports m) []) (\<lambda>p. seq (await (exposeGuestPort cfg i epoch (Num (pe_guestPort p)))) skip))
               (Return (totalArtifactBytes m, totalArtifactBytes m))))))))"

section \<open>The invariant is kept\<close>

lemma safe_from_zero: "safe_from i 0 q p \<Longrightarrow> safe_prog q p"
  using store_ok_range [OF core_ok_store] by (simp add: safe_from_def)

lemma safe_from_record_of [safe_rules]: "(\<And>a. safe_from i e q (f a)) \<Longrightarrow> safe_from i e q (bind (record_of j) f)"
  by (auto simp: safe_from_def wp_simps split: option.split)

lemma safe_from_registerArtifact [safe_rules]: "safe_from j e False (registerArtifact i d)"
  unfolding safe_from_def
proof (intro allI impI)
  fix c l
  assume c: "core_ok c \<and> e \<le> get_epoch (c_epochs c) j"
  show "wp (registerArtifact i d) (\<lambda>_. good False c l) (\<lambda>_. good False c l) c l"
  proof (cases "c_sandboxes c i")
    case (Some a)
    have "record_ok c i (c_heap c a)" using core_okD(2) c Some by blast
    then have "good False c l (c\<lparr>c_heap := (c_heap c)(a := (c_heap c a)\<lparr>sr_artifacts := (sr_artifacts (c_heap c a))(ad_kind d \<mapsto> d)\<rparr>)\<rparr>) l"
      by (intro good_put [OF _ Some]) (use c in \<open>simp_all add: record_ok_other\<close>)
    then show ?thesis using Some by (simp add: registerArtifact_def wp_bind wp_record_of wp_put_record)
  qed (use c in \<open>simp add: registerArtifact_def wp_bind wp_record_of\<close>)
qed

lemma safe_from_each [safe_rules]: "(\<And>x. safe_from i e False (f x)) \<Longrightarrow> safe_from i e False (for_each xs f)"
  by (induction xs) (auto intro: safe_rules)

lemma safe_from_tasks: "(\<And>t s. t \<in> set ts \<Longrightarrow> safe_from i e False (t s)) \<Longrightarrow> safe_from i e False (run_tasks ts aborted)"
  by (induction ts arbitrary: aborted) (auto intro!: safe_rules)

lemma quiet_pull [simp]: "quiet (pullArtifact sha q)"
proof -
  have "quiet (write_chunks p n cs b off h)" for p n cs b off h
    by (induction cs arbitrary: off h) (auto split: option.split)
  then show ?thesis
    unfolding pullArtifact_def Let_def resumeFromPartial_def downloadRemainder_def writeBody_def verifyOrDiscard_def commitArtifact_def
    by (auto intro!: quiet_bind quiet_try_catch quiet_try_finally split: prod.split option.split bool.split)
qed

lemma asks_pull [simp]: "asks no_resume (pullArtifact sha q)"
proof -
  have "asks no_resume (write_chunks p n cs b off h)" for p n cs b off h
    by (induction cs arbitrary: off h) (auto simp: resume_call_def intro!: asks_bind split: option.split)
  then show ?thesis
    unfolding pullArtifact_def Let_def resumeFromPartial_def downloadRemainder_def writeBody_def verifyOrDiscard_def commitArtifact_def
    by (auto simp: resume_call_def intro!: asks_bind asks_try_catch asks_try_finally split: prod.split option.split bool.split)
qed

lemma quiet_link: "quiet (linkSharedArtifact cfg i s sr dest d)"
  unfolding linkSharedArtifact_def Let_def by (auto intro!: quiet_bind split: prod.split)

lemma asks_link: "asks no_resume (linkSharedArtifact cfg i s sr dest d)"
  unfolding linkSharedArtifact_def Let_def by (auto intro!: asks_bind simp: guard_throw_def resume_call_def split: prod.split)

lemma safe_from_transfer_task [safe_rules]: "safe_from j e False (transfer_task cfg i s url d aborted)"
  unfolding transfer_task_def transferArtifact_def throwIfAborted_def Let_def
  by (auto intro!: safe_rules safe_from_quiet [OF quiet_link asks_link] safe_from_quiet [of "pullArtifact sha q" for sha q]
      split: option.split)

lemma safe_mutableRecord: "safe_prog False (mutableRecord cfg i e expected)"
  by (intro allI impI wp_mutableRecord)

lemma safe_transferMigration: "safe_prog False (transferMigration cfg i e q)"
proof (rule safe_from_zero)
  have "safe_from i 0 False (validateManifest cfg m)" for m
    unfolding safe_from_def by (intro allI impI wp_validateManifest) simp_all
  then show "safe_from i 0 False (transferMigration cfg i e q)"
    unfolding transferMigration_def Let_def runAbortableOperations_def
    by (intro safe_rules safe_from_any [OF safe_mutableRecord] safe_from_any [OF safe_exposeGuestPort] safe_from_tasks
        safe_from_quiet [of "guard_throw b x" for b x])
      (auto intro!: safe_rules safe_from_any [OF safe_exposeGuestPort] safe_from_tasks split: option.split)
qed

section \<open>What a transfer achieves\<close>

lemma quiet_transferArtifact: "quiet (transferArtifact cfg i s url d aborted)"
  unfolding transferArtifact_def throwIfAborted_def Let_def record_of_def at_rec_def
  by (auto intro!: quiet_bind quiet_await quiet_link split: option.split)

lemma transfer_task_run:
  assumes "run E (transfer_task cfg i s url d aborted) c l = (Value u, c', l')"
  shows "\<exists>a. c_sandboxes c i = Some a
    \<and> c' = c\<lparr>c_heap := (c_heap c)(a := (c_heap c a)\<lparr>sr_artifacts := (sr_artifacts (c_heap c a))(ad_kind d \<mapsto> d)\<rparr>)\<rparr>"
proof -
  obtain c1 l1 where "run E (transferArtifact cfg i s url d aborted) c l = (Value (), c1, l1)"
    and reg: "run E (registerArtifact i d) c1 l1 = (Value u, c', l')"
    using assms by (auto simp: transfer_task_def run_ok)
  then have "c1 = c" using quiet_run [OF quiet_transferArtifact, of E cfg i s url d aborted c l] by simp
  with reg show ?thesis
    by (auto simp: registerArtifact_def record_of_def put_record_def split: option.splits)
qed

text \<open>What later steps of a transfer leave alone.\<close>

definition artifact_view :: "core \<Rightarrow> (string \<rightharpoonup> nat) \<times> (nat \<Rightarrow> artifact_kind \<rightharpoonup> artifact_descriptor)" where
  "artifact_view c = (c_sandboxes c, \<lambda>a. sr_artifacts (c_heap c a))"

lemma leaves_view_parts [leaves_rules]:
  "leaves artifact_view (on_epochs p)" "leaves artifact_view (on_relays p')" "leaves artifact_view (on_allocator h)"
  unfolding on_epochs_def on_relays_def on_allocator_def by (simp_all add: leaves_zoom artifact_view_def)

lemma leaves_view_put [leaves_rules]:
  "(\<And>r. sr_artifacts (g r) = sr_artifacts r) \<Longrightarrow> leaves artifact_view (put_record a g)"
  by (auto simp: put_record_def artifact_view_def fun_eq_iff)

lemma leaves_mutableRecord: "leaves artifact_view (mutableRecord cfg i e expected)"
proof -
  have "leaves artifact_view (fenceQuietly a i e)" for a
    unfolding fenceQuietly_def put_info_def
    by (intro leaves_rules leaves_quiet [of "settled p" for p] quiet_settled) simp_all
  then show ?thesis
    unfolding mutableRecord_def record_of_def
    by (auto intro!: leaves_rules split: option.split)
qed

lemma leaves_exposeGuestPort: "leaves artifact_view (exposeGuestPort cfg i e g)"
proof -
  have "leaves artifact_view (core_allocatePort cfg i g)"
    unfolding core_allocatePort_def Let_def by (intro leaves_rules) (simp add: artifact_view_def)
  then show ?thesis
    unfolding exposeGuestPort_def
    by (auto intro!: leaves_rules leaves_mutableRecord leaves_quiet [of "runPlans ps" for ps] simp: add_port_def split: option.split)
qed

lemma leaves_for_each [leaves_rules]: "(\<And>x. leaves f (g x)) \<Longrightarrow> leaves f (for_each xs g)"
  by (induction xs) (auto intro: leaves_rules)

lemma transfer_tasks_run:
  assumes "run E (runAbortableOperations (map (\<lambda>k. transfer_task cfg i s url (m_artifacts m k)) ARTIFACT_KINDS)) c l = (Value u, c', l')"
    and "\<forall>k. ad_kind (m_artifacts m k) = k"
  shows "\<exists>a. c_sandboxes c' i = Some a \<and> transfer_complete (c_heap c' a) m"
proof -
  obtain c1 l1 c2 l2 s2 s3 where
    "run E (transfer_task cfg i s url (m_artifacts m StateFile) None) c l = (Value (), c1, l1)"
    "run E (transfer_task cfg i s url (m_artifacts m MemFile) s2) c1 l1 = (Value (), c2, l2)"
    "run E (transfer_task cfg i s url (m_artifacts m DiskFile) s3) c2 l2 = (Value (), c', l')"
    using assms(1)
    by (auto simp: runAbortableOperations_def ARTIFACT_KINDS_def run_simps split: prod.splits outcome.splits sum.splits option.splits)
  from this [THEN transfer_task_run] assms(2) show ?thesis
    by (auto simp: transfer_complete_def ARTIFACT_KINDS_def artifact_matches_def)
qed

lemma check_complete: "check_artifacts as m ks = Inr () \<longleftrightarrow> list_all (\<lambda>k. artifact_matches (as k) (m_artifacts m k)) ks"
  by (induction ks) auto

text \<open>
  C39: a transfer leaves the destination ready to load. When \<open>transferMigration\<close> returns, the
  sandbox's record has an artifact of the manifest's size and hash for each of the three
  kinds, so that \<open>loadSnapshot\<close>'s check of the artifacts passes; the bytes reported are the
  sum of the three sizes.
\<close>

theorem transfer_enables_load:
  assumes "run E (transferMigration cfg i e q) c l = (Value r, c', l')"
    and "\<forall>k. ad_kind (m_artifacts (tr_manifest q) k) = k"
  shows "(\<exists>a. c_sandboxes c' i = Some a
      \<and> check_artifacts (sr_artifacts (c_heap c' a)) (tr_manifest q) ARTIFACT_KINDS = Inr ())
    \<and> (let n = ad_size (m_artifacts (tr_manifest q) StateFile) + ad_size (m_artifacts (tr_manifest q) MemFile)
          + ad_size (m_artifacts (tr_manifest q) DiskFile) in r = (n, n))"
proof -
  let ?m = "tr_manifest q"
  let ?ports = "for_each (orelse (m_ports ?m) []) (\<lambda>p. seq (await (exposeGuestPort cfg i e (Num (pe_guestPort p)))) skip)"
  obtain c1 l1 u v where "\<exists>a. c_sandboxes c1 i = Some a \<and> transfer_complete (c_heap c1 a) ?m"
    and ports: "run E ?ports c1 l1 = (Value u, c', l')" and r: "r = (totalArtifactBytes ?m, totalArtifactBytes ?m)"
  proof -
    let ?rest = "\<lambda>url complete. seq (if complete then skip
                  else seq (await (runAbortableOperations
                         (map (\<lambda>k. transfer_task cfg i (tr_source q) url (m_artifacts ?m k)) ARTIFACT_KINDS))) skip)
             (seq ?ports (Return (totalArtifactBytes ?m, totalArtifactBytes ?m)))"
    obtain cn ln where "run E (case peer_url cfg (tr_source q) of None \<Rightarrow> Throw (no_peer_error (tr_source q))
        | Some url \<Rightarrow> bind (bind (record_of i) (\<lambda>a. at_rec a (\<lambda>r. Return (transfer_complete r ?m)))) (?rest url)) cn ln
        = (Value r, c', l')"
      using assms(1) unfolding transferMigration_def Let_def run_bind_Value by blast
    then obtain url where "run E (bind (bind (record_of i) (\<lambda>a. at_rec a (\<lambda>r. Return (transfer_complete r ?m)))) (?rest url)) cn ln
        = (Value r, c', l')" by (cases "peer_url cfg (tr_source q)") simp_all
    then obtain complete cm lm where
      "run E (bind (record_of i) (\<lambda>a. at_rec a (\<lambda>r. Return (transfer_complete r ?m)))) cn ln = (Value complete, cm, lm)"
      and rest: "run E (?rest url complete) cm lm = (Value r, c', l')" unfolding run_bind_Value by blast
    then obtain a where at: "c_sandboxes cm i = Some a" "complete = transfer_complete (c_heap cm a) ?m"
      by (auto simp: run_bind record_of_def at_rec_def split: option.splits)
    obtain x1 cp lp x2 where first: "run E (if complete then skip
                  else seq (await (runAbortableOperations
                         (map (\<lambda>k. transfer_task cfg i (tr_source q) url (m_artifacts ?m k)) ARTIFACT_KINDS))) skip) cm lm
          = (Value x1, cp, lp)"
      and second: "run E ?ports cp lp = (Value x2, c', l')" "r = (totalArtifactBytes ?m, totalArtifactBytes ?m)"
      using rest unfolding run_bind_Value run.simps by blast
    show thesis
    proof (cases complete)
      case True
      with first at have "\<exists>a. c_sandboxes cp i = Some a \<and> transfer_complete (c_heap cp a) ?m" by auto
      with second that show thesis by blast
    next
      case False
      with first obtain x where
        "run E (runAbortableOperations (map (\<lambda>k. transfer_task cfg i (tr_source q) url (m_artifacts ?m k)) ARTIFACT_KINDS)) cm lm
           = (Value x, cp, lp)" unfolding if_not_P [OF False] run_bind_Value run_await_Value by auto
      with transfer_tasks_run [OF this assms(2)] second that show thesis by blast
    qed
  qed
  moreover have "artifact_view c' = artifact_view c1"
    using leaves_run [of artifact_view ?ports E c1 l1] ports
    by (auto intro!: leaves_rules leaves_exposeGuestPort)
  ultimately show ?thesis
    by (auto simp: check_complete transfer_complete_def artifact_view_def fun_eq_iff totalArtifactBytes_def ARTIFACT_KINDS_def)
qed

definition sample_manifest :: compat_manifest where
  "sample_manifest = buildManifest sample_config ''a'' \<lparr>sq_migrationId = ''m'', sq_epoch = 0\<rparr>
     (c_heap waiting_core 0) (\<lambda>k. \<lparr>ad_kind = k, ad_name = ''x'', ad_size = 0, ad_sha256 = ''h''\<rparr>)"

definition peered_config :: worker_config where
  "peered_config = sample_config\<lparr>wc_peerUrls := Some [''w0'' \<mapsto> ''http://w0/'']\<rparr>"

text \<open>A worker that already has the three artifacts and has accepted the epoch.\<close>

definition complete_core :: core where
  "complete_core = waiting_core\<lparr>c_epochs := set_epoch ''a'' 1 (c_epochs empty_core),
     c_heap := (\<lambda>_. (c_heap waiting_core 0)\<lparr>sr_artifacts := (\<lambda>k. Some (m_artifacts sample_manifest k))\<rparr>)\<rparr>"

lemma run_accept_same:
  assumes "\<not> mutating s" and "get_epoch s i = e" and "0 \<le> e" and "e \<le> max_safe"
  shows "run E (accept cfg i (Num e)) s l = (Value \<lparr>acc_previous = e, acc_advanced = False\<rparr>, s, l)"
proof -
  have "s\<lparr>mutating := False\<rparr> = s" using assms(1) by (cases s) simp
  moreover have "get_epoch (s\<lparr>mutating := True\<rparr>) i = e" using assms(2) by (simp add: get_epoch_def)
  ultimately show ?thesis
    using assms by (simp add: accept_def accept_body_def run_simps)
qed

text \<open>The guard lets the current epoch pass and changes nothing.\<close>

lemma run_mutableRecord_same:
  assumes "\<not> mutating (c_epochs c)" and "get_epoch (c_epochs c) i = e" and "0 \<le> e" and "e \<le> max_safe"
    and "c_sandboxes c i = Some a" and "rec_state (c_heap c a) \<noteq> FencedState" and "rec_epoch (c_heap c a) \<le> e"
    and "case expected of None \<Rightarrow> True | Some st \<Rightarrow> rec_state (c_heap c a) = st"
  shows "run E (mutableRecord cfg i e expected) c l = (Value a, c, l)"
  using assms
  by (simp add: mutableRecord_def record_of_def run_simps on_epochs_def epochs_field.run_zoom run_accept_same at_rec_def
      split: option.splits)

theorem transfer_enables_load_witness:
  "\<exists>c'. run calm (transferMigration peered_config ''a'' 1
        \<lparr>tr_migrationId = ''m'', tr_source = ''w0'', tr_manifest = sample_manifest\<rparr>) complete_core [] = (Value (0, 0), c', [])
    \<and> (\<exists>a. c_sandboxes c' ''a'' = Some a \<and> check_artifacts (sr_artifacts (c_heap c' a)) sample_manifest ARTIFACT_KINDS = Inr ())"
proof -
  let ?q = "\<lparr>tr_migrationId = ''m'', tr_source = ''w0'', tr_manifest = sample_manifest\<rparr>"
  have guard: "run calm (mutableRecord peered_config ''a'' 1 (Some Booting)) complete_core [] = (Value 0, complete_core, [])"
    by (rule run_mutableRecord_same)
      (simp_all add: complete_core_def waiting_core_def empty_core_def max_safe_def new_record_def restore_request_def set_epoch_def get_epoch_def)
  have valid: "run calm (validateManifest peered_config sample_manifest) complete_core [] = (Value (), complete_core, [])"
    by (simp add: validateManifest_def run_simps Let_def at_rec_def reservation_problems_def complete_core_def waiting_core_def empty_core_def
      sample_manifest_def buildManifest_def new_record_def restore_request_def sample_prepare_def assertCompatible_def
      compatibilityProblems_def compat_checks_def peered_config_def sample_config_def)
  have parts: "m_migrationId sample_manifest = ''m''" "m_ports sample_manifest = Some []"
    "peer_url peered_config ''w0'' = Some ''http://w0/''" "c_sandboxes complete_core ''a'' = Some 0"
    "transfer_complete (c_heap complete_core 0) sample_manifest" "totalArtifactBytes sample_manifest = 0"
    by (simp_all add: sample_manifest_def buildManifest_def Let_def waiting_core_def new_record_def peer_url_def peered_config_def
        complete_core_def transfer_complete_def artifact_matches_def totalArtifactBytes_def ARTIFACT_KINDS_def)
  have "run calm (transferMigration peered_config ''a'' 1 ?q) complete_core [] = (Value (0, 0), complete_core, [])"
    by (simp add: transferMigration_def Let_def run_simps guard valid parts record_of_def at_rec_def)
  then obtain c' where r: "run calm (transferMigration peered_config ''a'' 1 ?q) complete_core [] = (Value (0, 0), c', [])" by blast
  from transfer_enables_load [OF r] r show ?thesis by (auto simp: sample_manifest_def buildManifest_def Let_def)
qed

lemma does_unitI: "X' s (l @ [c]) \<Longrightarrow> Q () s (l @ [c]) \<Longrightarrow> does E (call_unit c) Q (\<lambda>_. X') s l"
  by (simp add: does_call_unit split: reply.split)

lemma does_statI:
  "X' s (l @ [c]) \<Longrightarrow> (\<And>n b. E l c = OkStat n b \<Longrightarrow> Q (n, b) s (l @ [c])) \<Longrightarrow> does E (call_stat c) Q (\<lambda>_. X') s l"
  by (simp add: does_def call_stat_def split: reply.split)

lemma does_guardI: "(b \<Longrightarrow> X e s l) \<Longrightarrow> (\<not> b \<Longrightarrow> Q () s l) \<Longrightarrow> does E (guard_throw b e) Q X s l"
  by (simp add: guard_throw_def does_basic)

lemma does_settleI: "(\<And>e. X e s l) \<Longrightarrow> (\<And>v. Q v s l) \<Longrightarrow> does E (settle r) Q X s l"
  by (simp add: does_settle split: sum.split)

lemma link_outcomes:
  fixes part base src dest shared w i :: string and cfg :: worker_config and d :: artifact_descriptor
  defines "part \<equiv> partial_path dest"
  defines "base \<equiv> path_resolve (wc_cwd cfg) [shared, w, ''sandboxes'', i]"
  defines "src \<equiv> path_resolve (wc_cwd cfg) [base, ad_name d]"
  assumes "P c l"
    and "starts_with src (base @ [slash]) \<Longrightarrow> P c (l @ [FsRm part])"
    and "starts_with src (base @ [slash]) \<Longrightarrow> P c (l @ [FsRm part, FsLink src part])"
    and "starts_with src (base @ [slash]) \<Longrightarrow> P c (l @ [FsRm part, FsLink src part, FsStat part])"
    and "\<And>reg. starts_with src (base @ [slash]) \<Longrightarrow>
      E (l @ [FsRm part, FsLink src part]) (FsStat part) = OkStat (ad_size d) reg \<Longrightarrow>
      P c (l @ [FsRm part, FsLink src part, FsStat part, FsRename part dest])"
  shows "does E (linkSharedArtifact cfg i w shared dest d) (\<lambda>_. P) (\<lambda>_. P) c l"
  unfolding linkSharedArtifact_def Let_def part_def [symmetric] base_def [symmetric] src_def [symmetric] does_bind
  apply (intro does_settleI does_guardI does_unitI does_statI)
  using assms(4-8) apply (simp_all split: prod.splits)
  subgoal for v
    unfolding does_bind by (intro does_guardI does_unitI) simp_all
  done

text \<open>
  A hard link never reaches outside the source sandbox. Whatever name the manifest gives an
  artifact and whatever the identifiers are, the only file ever linked lies below the source
  worker's directory of this sandbox, only the partial file is written before the final rename,
  and the rename happens only after the linked file was seen to have the declared size.
\<close>

lemma shared_link_confined:
  "\<exists>n. let base = path_resolve (wc_cwd cfg) [shared, w, ''sandboxes'', i];
         src = path_resolve (wc_cwd cfg) [base, ad_name d]; part = partial_path dest in
      calls (run E (linkSharedArtifact cfg i w shared dest d) c l)
        = l @ take n [FsRm part, FsLink src part, FsStat part, FsRename part dest]
      \<and> final (run E (linkSharedArtifact cfg i w shared dest d) c l) = c
      \<and> (n = 0 \<or> starts_with src (base @ [slash]))
      \<and> (n < 4 \<or> (\<exists>reg. E (l @ [FsRm part, FsLink src part]) (FsStat part) = OkStat (ad_size d) reg))"
proof -
  let ?part = "partial_path dest"
  let ?base = "path_resolve (wc_cwd cfg) [shared, w, ''sandboxes'', i]"
  let ?src = "path_resolve (wc_cwd cfg) [?base, ad_name d]"
  let ?log = "[FsRm ?part, FsLink ?src ?part, FsStat ?part, FsRename ?part dest]"
  let ?OK = "\<lambda>c' l'. c' = c \<and> (\<exists>n. l' = l @ take n ?log \<and> (n = 0 \<or> starts_with ?src (?base @ [slash]))
      \<and> (n < 4 \<or> (\<exists>reg. E (l @ [FsRm ?part, FsLink ?src ?part]) (FsStat ?part) = OkStat (ad_size d) reg)))"
  have "does E (linkSharedArtifact cfg i w shared dest d) (\<lambda>_. ?OK) (\<lambda>_. ?OK) c l"
    by (rule link_outcomes) (auto intro: exI [of _ 0] exI [of _ 1] exI [of _ 2] exI [of _ 3] exI [of _ 4])
  then show ?thesis by (auto simp: does_def Let_def split: prod.splits outcome.splits)
qed

end
