(* ===== verification/Worker_Service.thy ===== *)
theory Worker_Service
  imports Worker_Guest_Ops Worker_Transfer
begin

text \<open>
  \<open>worker/index.ts\<close> and \<open>worker/migration/worker-facade.ts\<close>: the worker as its callers see
  it, one request per method, and what every sequence of requests keeps. Requests that arrive
  one after the other are the subject here; \<open>Worker_Threads\<close> lets them overlap.
\<close>

section \<open>The methods\<close>

datatype sandbox_request =
    ReqCreate create_request
  | ReqGet string
  | ReqCommand string int run_command_request
  | ReqWriteFile string int write_file_request
  | ReqExposePort string int js_number
  | ReqPause string int
  | ReqSnapshot string snapshot_request
  | ReqLoad string int compat_manifest
  | ReqResume string int
  | ReqFence string int
  | ReqQuarantine string int string
  | ReqArtifact string artifact_kind
  | ReqDestinationPath string artifact_kind
  | ReqRegisterArtifact string artifact_descriptor
  | ReqValidateManifest compat_manifest

datatype migration_request =
    ReqPrepareMigration string int prepare_request
  | ReqProbeMigration string int
  | ReqPrecopyMigration string int
  | ReqPauseMigration string int
  | ReqSnapshotMigration string snapshot_request
  | ReqTransferMigration string int transfer_request
  | ReqResumeMigration string int
  | ReqVerifyMigration string int string
  | ReqRollbackMigration string int bool
  | ReqFenceAndCleanup string int string

datatype worker_request = OfSandbox sandbox_request | OfMigration migration_request

datatype worker_response =
    ResNone
  | ResInfo sandbox_info
  | ResJson "json option"
  | ResExposure port_exposure
  | ResManifest compat_manifest
  | ResSnapshot "compat_manifest \<times> int"
  | ResPath string
  | ResArtifact "string \<times> artifact_descriptor"
  | ResPrepared prepare_answer
  | ResTransferred "int \<times> int"
  | ResVerified "string option \<times> string option \<times> port_exposure list"

definition answering :: "('a \<Rightarrow> worker_response) \<Rightarrow> (core, 'a) prog \<Rightarrow> (core, worker_response) prog" where
  "answering f p = bind p (\<lambda>v. Return (f v))"

definition initialize :: "worker_config \<Rightarrow> (core, unit) prog" where
  "initialize cfg = on_epochs (load (epoch_config_of cfg))"

definition get_info :: "string \<Rightarrow> (core, sandbox_info) prog" where
  "get_info i = bind (record_of i) (\<lambda>a. at_rec a (\<lambda>r. Return (sr_info r)))"

definition destinationArtifactPath :: "string \<Rightarrow> artifact_kind \<Rightarrow> (core, string) prog" where
  "destinationArtifactPath i kind = bind (record_of i) (\<lambda>a. at_rec a (\<lambda>r. Return (artifactPath r kind)))"

fun sandbox_service :: "worker_config \<Rightarrow> sandbox_request \<Rightarrow> (core, worker_response) prog" where
  "sandbox_service cfg (ReqCreate q) = answering ResInfo (createSandbox cfg q)"
| "sandbox_service cfg (ReqGet i) = answering ResInfo (get_info i)"
| "sandbox_service cfg (ReqCommand i e q) = answering ResJson (runGuestCommand cfg i e q)"
| "sandbox_service cfg (ReqWriteFile i e q) = answering (ResJson \<circ> Some) (writeGuestFile cfg i e q)"
| "sandbox_service cfg (ReqExposePort i e g) = answering ResExposure (exposeGuestPort cfg i e g)"
| "sandbox_service cfg (ReqPause i e) = answering (\<lambda>_. ResNone) (pauseSandbox cfg i e)"
| "sandbox_service cfg (ReqSnapshot i q) = answering ResManifest (createSnapshot cfg i q)"
| "sandbox_service cfg (ReqLoad i e m) = answering (\<lambda>_. ResNone) (loadSnapshot cfg i e m)"
| "sandbox_service cfg (ReqResume i e) = answering (\<lambda>_. ResNone) (resumeSandbox cfg i e)"
| "sandbox_service cfg (ReqFence i e) = answering (\<lambda>_. ResNone) (fenceSandbox cfg i e)"
| "sandbox_service cfg (ReqQuarantine i e m) = answering ResPath (quarantineSandbox cfg i e m)"
| "sandbox_service cfg (ReqArtifact i k) = answering ResArtifact (readArtifact i k)"
| "sandbox_service cfg (ReqDestinationPath i k) = answering ResPath (destinationArtifactPath i k)"
| "sandbox_service cfg (ReqRegisterArtifact i d) = answering (\<lambda>_. ResNone) (registerArtifact i d)"
| "sandbox_service cfg (ReqValidateManifest m) = answering (\<lambda>_. ResNone) (validateManifest cfg m)"

fun migration_service :: "worker_config \<Rightarrow> migration_request \<Rightarrow> (core, worker_response) prog" where
  "migration_service cfg (ReqPrepareMigration i e q) = answering ResPrepared (prepareMigration cfg i e q)"
| "migration_service cfg (ReqProbeMigration i e) = answering (ResJson \<circ> Some) (probeMigration cfg i e)"
| "migration_service cfg (ReqPrecopyMigration i e) = answering (ResJson \<circ> Some) (precopyMigration cfg i e)"
| "migration_service cfg (ReqPauseMigration i e) = answering (\<lambda>_. ResNone) (pauseMigration cfg i e)"
| "migration_service cfg (ReqSnapshotMigration i q) = answering ResSnapshot (snapshotMigration cfg i q)"
| "migration_service cfg (ReqTransferMigration i e q) = answering ResTransferred (transferMigration cfg i e q)"
| "migration_service cfg (ReqResumeMigration i e) = answering (\<lambda>_. ResNone) (resumeMigration cfg i e)"
| "migration_service cfg (ReqVerifyMigration i e m) = answering ResVerified (verifyMigration cfg i e m)"
| "migration_service cfg (ReqRollbackMigration i e b) = answering (\<lambda>_. ResNone) (rollbackMigration cfg i e b)"
| "migration_service cfg (ReqFenceAndCleanup i e m) = answering ResPath (fenceAndCleanup cfg i e m)"

fun serve :: "worker_config \<Rightarrow> worker_request \<Rightarrow> (core, worker_response) prog" where
  "serve cfg (OfSandbox q) = sandbox_service cfg q"
| "serve cfg (OfMigration q) = migration_service cfg q"

section \<open>Every request keeps the invariant\<close>

text \<open>The requests that move a fenced sandbox on, to quarantine.\<close>

fun quarantines :: "worker_request \<Rightarrow> bool" where
  "quarantines (OfSandbox (ReqQuarantine i e m)) = True"
| "quarantines (OfMigration (ReqFenceAndCleanup i e m)) = True"
| "quarantines _ = False"

lemma safe_answering: "safe_prog q p \<Longrightarrow> safe_prog q (answering f p)"
  by (simp add: answering_def wp_bind)

lemma safe_registerArtifact: "safe_prog False (registerArtifact i d)"
  by (rule safe_from_zero, rule safe_from_registerArtifact)

lemma safe_reads: "safe_prog q (get_info i)" "safe_prog q (destinationArtifactPath i k)" "safe_prog q (readArtifact i k)"
  unfolding get_info_def destinationArtifactPath_def readArtifact_def
  by (intro safe_record_of safe_at_rec; simp split: option.split)+

lemmas safe_handlers = safe_createSandbox safe_runGuestCommand safe_writeGuestFile safe_exposeGuestPort safe_pauseSandbox
  safe_createSnapshot safe_loadSnapshot safe_resumeSandbox safe_fenceSandbox safe_quarantineSandbox safe_registerArtifact
  safe_ask [OF quiet_validateManifest asks_validateManifest] safe_reads
  safe_probeMigration safe_precopyMigration safe_pauseMigration safe_snapshotMigration
  safe_transferMigration safe_resumeMigration safe_verifyMigration safe_rollbackMigration safe_fenceAndCleanup

lemma safe_serve:
  assumes "core_ok c" and "idle c"
  shows "wp (serve cfg q) (\<lambda>_. good (quarantines q) c l) (\<lambda>_. good (quarantines q) c l) c l"
proof -
  have plain: "wp (answering f p) (\<lambda>_. good b c l) (\<lambda>_. good b c l) c l" if "safe_prog b p" for f b and p :: "(core, 'a) prog"
    using safe_answering [OF that] assms(1) by blast
  show ?thesis
  proof (cases q)
    case (OfSandbox s)
    then show ?thesis by (cases s) (simp_all add: plain safe_handlers)
  next
    case (OfMigration s)
    have "wp (answering f (prepareMigration cfg i e r)) (\<lambda>_. good False c l) (\<lambda>_. good False c l) c l" for f i e r
      using safe_prepareMigration [OF assms] by (simp add: answering_def wp_bind)
    with OfMigration show ?thesis by (cases s) (simp_all add: plain safe_handlers)
  qed
qed

end
