(* ===== verification/Turns.thy ===== *)
theory Turns
  imports Async
begin

text \<open>
  Guarantees of single turns. Between two suspensions a thread runs alone, so what it reads
  and what it then asks for belong together; a relation on the two ends of every turn says
  so. \<open>turns\<close> is the proof rule, \<open>turn_guarantee\<close> its soundness for every interleaving.
\<close>

primrec turns :: "('s conf \<Rightarrow> bool) \<Rightarrow> ('s conf \<Rightarrow> 's conf \<Rightarrow> bool) \<Rightarrow> ('s conf \<Rightarrow> 's conf \<Rightarrow> bool) \<Rightarrow>
    ('s, 'a) prog \<Rightarrow> ('a \<Rightarrow> 's conf \<Rightarrow> 's conf \<Rightarrow> bool) \<Rightarrow> (js_error \<Rightarrow> 's conf \<Rightarrow> 's conf \<Rightarrow> bool) \<Rightarrow>
    's conf \<Rightarrow> 's conf \<Rightarrow> bool" where
  "turns I R T (Return v) V X a b = V v a b"
| "turns I R T (Throw e) V X a b = X e a b"
| "turns I R T (Read k) V X a b = turns I R T (k (fst b)) V X a b"
| "turns I R T (Write u p) V X a b = turns I R T p V X a (u (fst b), snd b)"
| "turns I R T (Call c k) V X a b = (T a (fst b, snd b @ [c])
     \<and> (\<forall>r d. I d \<and> R (fst b, snd b @ [c]) d \<longrightarrow> turns I R T (k r) V X d d))"
| "turns I R T (Yield g p) V X a b = (T a b \<and> (\<forall>d. I d \<and> R b d \<and> g (fst d) \<longrightarrow> turns I R T p V X d d))"

lemma turns_bind: "turns I R T (bind p f) V X = turns I R T p (\<lambda>v. turns I R T (f v) V X) X"
  by (induction p) (auto simp: fun_eq_iff)

lemma turns_attempt: "turns I R T (attempt p) V X = turns I R T p (\<lambda>v. V (Inr v)) (\<lambda>e. V (Inl e))"
  by (induction p) (auto simp: fun_eq_iff)

lemma turns_settle: "turns I R T (settle r) V X = (case r of Inl e \<Rightarrow> X e | Inr v \<Rightarrow> V v)"
  by (cases r) (simp_all add: fun_eq_iff)

lemma turns_await:
  "turns I R T (await p) V X = turns I R T p (\<lambda>v a b. T a b \<and> (\<forall>d. I d \<and> R b d \<longrightarrow> V v d d))
     (\<lambda>e a b. T a b \<and> (\<forall>d. I d \<and> R b d \<longrightarrow> X e d d))"
proof -
  have yield: "turns I R T (Yield (\<lambda>_. True) p') V X = (\<lambda>a b. T a b \<and> (\<forall>d. I d \<and> R b d \<longrightarrow> turns I R T p' V X d d))" for p' V X
    by (simp add: fun_eq_iff)
  show ?thesis unfolding await_def turns_bind turns_attempt by (simp only: yield turns_settle sum.case)
qed

lemma turns_mono:
  "turns I R T p V X a b \<Longrightarrow> (\<And>v a b. V v a b \<Longrightarrow> V' v a b) \<Longrightarrow> (\<And>e a b. X e a b \<Longrightarrow> X' e a b) \<Longrightarrow>
     turns I R T p V' X' a b"
  by (induction p arbitrary: a b) auto

lemma turns_earlier:
  assumes "turns I R T p V X b c" and "T a b" and T: "\<And>a b c. T a b \<Longrightarrow> T b c \<Longrightarrow> T a c"
    and V: "\<And>v a b c. T a b \<Longrightarrow> V v b c \<Longrightarrow> V v a c" and X: "\<And>e a b c. T a b \<Longrightarrow> X e b c \<Longrightarrow> X e a c"
  shows "turns I R T p V X a c"
  using assms(1,2) by (induction p arbitrary: c) (auto intro: T V X)

text \<open>A guarantee within the rely is a rely-guarantee.\<close>

lemma rg_turns:
  assumes "turns I R T p V X a b" and "\<And>a b. T a b \<Longrightarrow> I b \<and> R a b"
  shows "rg I R p V X a b"
  using assms(1) by (induction p arbitrary: a b) (auto dest: assms(2))

definition thread_turns :: "('s conf \<Rightarrow> bool) \<Rightarrow> ('s conf \<Rightarrow> 's conf \<Rightarrow> bool) \<Rightarrow> ('s conf \<Rightarrow> 's conf \<Rightarrow> bool) \<Rightarrow>
    's conf \<Rightarrow> ('s, 'a) thread \<Rightarrow> bool" where
  "thread_turns I R T b t = (case t of
     Waiting c k \<Rightarrow> \<forall>r d. I d \<and> R b d \<longrightarrow> turns I R T (k r) (\<lambda>_. T) (\<lambda>_. T) d d
   | Ready g p \<Rightarrow> \<forall>d. I d \<and> R b d \<and> g (fst d) \<longrightarrow> turns I R T p (\<lambda>_. T) (\<lambda>_. T) d d
   | Finished x \<Rightarrow> True)"

lemma thread_turns_later:
  assumes "\<And>a b c. R a b \<Longrightarrow> R b c \<Longrightarrow> R a c" and "R a b" and "thread_turns I R T a t"
  shows "thread_turns I R T b t"
proof -
  have earlier: "R a d" if "R b d" for d using assms(1,2) that by blast
  show ?thesis using assms(3) earlier unfolding thread_turns_def by (cases t) auto
qed

lemma advance_turns:
  assumes "turns I R T p (\<lambda>_. T) (\<lambda>_. T) a (s, l)" and "advance p s l = (t, s', l')"
  shows "T a (s', l') \<and> thread_turns I R T (s', l') t"
  using assms
proof (induction p arbitrary: s l)
  case (Read k)
  from Read.prems show ?case by (simp add: Read.IH [OF rangeI])
qed (auto simp: thread_turns_def)

text \<open>
  What the other threads may rely on comes from \<open>rely_guarantee\<close>; on top of it every program
  guarantees \<open>T\<close> of its turns.
\<close>

locale turn_guarantee = rely_guarantee I R Progs
  for I :: "'s conf \<Rightarrow> bool" and R :: "'s conf \<Rightarrow> 's conf \<Rightarrow> bool" and Progs :: "('s, 'a) prog set" +
  fixes T :: "'s conf \<Rightarrow> 's conf \<Rightarrow> bool"
  assumes turns_ok: "p \<in> Progs \<Longrightarrow> I d \<Longrightarrow> turns I R T p (\<lambda>_. T) (\<lambda>_. T) d d"
begin

lemma step_turn:
  assumes "sched_step Progs (a, ts) (b, ts')" and "I a" and "R a b" and "\<forall>t \<in> set ts. thread_turns I R T a t"
  shows "T a b \<and> (\<forall>t \<in> set ts'. thread_turns I R T b t)"
  using assms(1)
proof cases
  case (arrive p s l t s' l')
  have "turns I R T p (\<lambda>_. T) (\<lambda>_. T) (s, l) (s, l)" using turns_ok arrive(1,4) assms(2) by simp
  from advance_turns [OF this arrive(5)] arrive(1-3) assms(3,4) show ?thesis
    by (auto intro: thread_turns_later [OF R_trans])
next
  case (answer i c k r s l t s' l')
  have "thread_turns I R T a (ts ! i)" using assms(4) answer(4) by simp
  with answer(1,5) assms(2) R_refl have "turns I R T (k r) (\<lambda>_. T) (\<lambda>_. T) (s, l) (s, l)"
    by (simp add: thread_turns_def)
  from advance_turns [OF this answer(6)] answer(1-4) assms(3,4) show ?thesis
    by (auto intro: thread_turns_later [OF R_trans] dest!: set_update_subset_insert [THEN subsetD])
next
  case (turn i g p s l t s' l')
  have "thread_turns I R T a (ts ! i)" using assms(4) turn(4) by simp
  with turn(1,5,6) assms(2) R_refl have "turns I R T p (\<lambda>_. T) (\<lambda>_. T) (s, l) (s, l)"
    by (simp add: thread_turns_def)
  from advance_turns [OF this turn(7)] turn(1-4) assms(3,4) show ?thesis
    by (auto intro: thread_turns_later [OF R_trans] dest!: set_update_subset_insert [THEN subsetD])
qed

lemma reach_turns:
  assumes "sched_reach Progs (a, []) y" and "I a"
  shows "\<forall>t \<in> set (snd y). thread_turns I R T (fst y) t"
  using assms
proof (induction rule: sched_reach.induct)
  case (more y z)
  have y: "I (fst y)" "\<forall>t \<in> set (snd y). thread_ok I R (fst y) t"
    using reach_ok [OF more.hyps(1) more.prems] by simp_all
  from more.hyps(2) have step: "sched_step Progs (fst y, snd y) (fst z, snd z)" by simp
  from step_ok [OF step y] have "R (fst y) (fst z)" by simp
  from step_turn [OF step y(1) this more.IH [OF more.prems]] show ?case by simp
qed simp

lemma every_turn:
  assumes "sched_reach Progs (a, []) y" and "I a" and "sched_step Progs y z"
  shows "T (fst y) (fst z)"
proof -
  have y: "I (fst y)" "\<forall>t \<in> set (snd y). thread_ok I R (fst y) t"
    using reach_ok [OF assms(1,2)] by simp_all
  from assms(3) have step: "sched_step Progs (fst y, snd y) (fst z, snd z)" by simp
  from step_ok [OF step y] have "R (fst y) (fst z)" by simp
  from step_turn [OF step y(1) this reach_turns [OF assms(1,2)]] show ?thesis by simp
qed

text \<open>A step after a step of a reachable system is a step of a reachable system.\<close>

lemma reach_trans:
  assumes "sched_reach Progs y z" and "sched_reach Progs x y"
  shows "sched_reach Progs x z"
  using assms by (induction rule: sched_reach.induct) (auto intro: sched_reach.more)

lemma later_reach:
  assumes "sched_reach Progs (a, []) y" and "I a" and "sched_reach Progs y z"
  shows "R (fst y) (fst z)"
  using assms(3)
proof (induction rule: sched_reach.induct)
  case (more z w)
  have z: "I (fst z)" "\<forall>t \<in> set (snd z). thread_ok I R (fst z) t"
    using reach_ok [OF reach_trans [OF more.hyps(1) assms(1)] assms(2)] by simp_all
  from more.hyps(2) have step: "sched_step Progs (fst z, snd z) (fst w, snd w)" by simp
  from step_ok [OF step z] have "R (fst z) (fst w)" by simp
  then show ?case using R_trans [OF more.IH] by blast
qed (rule R_refl)

end

section \<open>Building schedules\<close>

lemma sched_trans: "sched_reach Progs y z \<Longrightarrow> sched_reach Progs x y \<Longrightarrow> sched_reach Progs x z"
  by (induction rule: sched_reach.induct) (auto intro: sched_reach.more)

lemma sched_first: "sched_step Progs x y \<Longrightarrow> sched_reach Progs y z \<Longrightarrow> sched_reach Progs x z"
  by (rule sched_trans) (auto intro: sched_reach.intros)

text \<open>A program that runs alone to its end is a schedule in which the others are left waiting.\<close>

lemma run_thread:
  assumes "run E p s l = (Value v, s', l')" and "advance p s l = (t, s1, l1)" and "i < length ts"
  shows "sched_reach Progs ((s1, l1), ts[i := t]) ((s', l'), ts[i := Finished (Inr v)])"
  using assms(1,2)
proof (induction p arbitrary: s l t s1 l1)
  case (Call c k)
  obtain t' s2 l2 where a: "advance (k (E l c)) s (l @ [c]) = (t', s2, l2)" by (cases "advance (k (E l c)) s (l @ [c])")
  have "sched_step Progs ((s, l @ [c]), ts[i := Waiting c k]) ((s2, l2), (ts[i := Waiting c k])[i := t'])"
    by (rule sched_step.answer [where k = k and r = "E l c"]) (use assms(3) a in simp_all)
  moreover have "sched_reach Progs ((s2, l2), ts[i := t']) ((s', l'), ts[i := Finished (Inr v)])"
    using Call.IH [OF rangeI _ a] Call.prems(1) by simp
  ultimately show ?case using Call.prems(2) by (auto intro: sched_first)
next
  case (Yield g p)
  obtain t' s2 l2 where a: "advance p s l = (t', s2, l2)" by (cases "advance p s l")
  have g: "g s" using Yield.prems(1) by (simp split: if_splits)
  have "sched_step Progs ((s, l), ts[i := Ready g p]) ((s2, l2), (ts[i := Ready g p])[i := t'])"
    by (rule sched_step.turn [where g = g and p = p]) (use assms(3) g a in simp_all)
  moreover have "sched_reach Progs ((s2, l2), ts[i := t']) ((s', l'), ts[i := Finished (Inr v)])"
    using Yield.IH [OF _ a] Yield.prems(1) g by simp
  ultimately show ?case using Yield.prems(2) by (auto intro: sched_first)
next
  case (Read k)
  from Read.IH [OF rangeI] Read.prems show ?case by simp
qed (auto intro: sched_reach.here)

lemma run_arrives:
  assumes "run E p s l = (Value v, s', l')" and "p \<in> Progs"
  shows "sched_reach Progs ((s, l), ts) ((s', l'), ts @ [Finished (Inr v)])"
proof -
  obtain t s1 l1 where a: "advance p s l = (t, s1, l1)" by (cases "advance p s l")
  have "sched_reach Progs ((s1, l1), (ts @ [t])[length ts := t]) ((s', l'), (ts @ [t])[length ts := Finished (Inr v)])"
    by (rule run_thread [OF assms(1) a]) simp
  then show ?thesis by (auto intro: sched_first [OF sched_step.arrive [OF assms(2) a]])
qed

lemma run_answered:
  assumes "run E (k r) s l = (Value v, s', l')" and "i < length ts" and "ts ! i = Waiting c k"
  shows "sched_reach Progs ((s, l), ts) ((s', l'), ts[i := Finished (Inr v)])"
proof -
  obtain t s1 l1 where a: "advance (k r) s l = (t, s1, l1)" by (cases "advance (k r) s l")
  from run_thread [OF assms(1) a assms(2)] show ?thesis
    by (rule sched_first [OF sched_step.answer [where k = k and r = r, OF assms(2,3) a]])
qed

text \<open>The first call of a program, through the turns before it.\<close>

primrec until_call :: "('s, 'a) prog \<Rightarrow> 's \<Rightarrow> syscall list \<Rightarrow> ('s, 'a) thread \<times> 's \<times> syscall list" where
  "until_call (Return a) s l = (Finished (Inr a), s, l)"
| "until_call (Throw e) s l = (Finished (Inl e), s, l)"
| "until_call (Read k) s l = until_call (k s) s l"
| "until_call (Write u p) s l = until_call p (u s) l"
| "until_call (Call c k) s l = (Waiting c k, s, l @ [c])"
| "until_call (Yield g p) s l = (if g s then until_call p s l else (Ready g p, s, l))"

lemma until_log: "until_call p s l = (Waiting c k, s', l') \<Longrightarrow> l' = l @ [c]"
  by (induction p arbitrary: s) (auto simp: rangeI split: if_splits)

lemma until_steps:
  assumes "until_call p s l = (Waiting c k', s', l')"
  shows "advance p s l = (Waiting c k', s', l') \<or>
    (\<exists>t s1 y. advance p s l = (t, s1, l) \<and> sched_reach Progs ((s1, l), ts @ [t]) y
       \<and> sched_step Progs y ((s', l'), ts @ [Waiting c k']) \<and> snd (fst y) = l)"
  using assms
proof (induction p arbitrary: s)
  case (Yield g p)
  then have g: "g s" and u: "until_call p s l = (Waiting c k', s', l')" by (simp_all split: if_splits)
  let ?here = "((s, l), ts @ [Ready g p])"
  have step: "sched_step Progs ?here ((s1, l1), ts @ [t])" if "advance p s l = (t, s1, l1)" for t s1 l1
    using sched_step.turn [of "length ts" "ts @ [Ready g p]" g p s l t s1 l1 Progs] g that by simp
  have "\<exists>y. sched_reach Progs ?here y \<and> sched_step Progs y ((s', l'), ts @ [Waiting c k']) \<and> snd (fst y) = l"
  proof (cases "advance p s l = (Waiting c k', s', l')")
    case True
    then show ?thesis using step [OF True] by (intro exI [of _ ?here]) (simp add: sched_reach.here)
  next
    case False
    with Yield.IH [OF u] obtain t s1 y where a: "advance p s l = (t, s1, l)" and r: "sched_reach Progs ((s1, l), ts @ [t]) y"
      and y: "sched_step Progs y ((s', l'), ts @ [Waiting c k'])" "snd (fst y) = l" by blast
    show ?thesis by (intro exI [of _ y] conjI sched_first [OF step [OF a] r] y)
  qed
  then show ?case by simp
next
  case (Read k)
  from Read.prems have "until_call (k s) s l = (Waiting c k', s', l')" by (simp only: until_call.simps)
  from Read.IH [OF rangeI this] show ?case by (simp only: advance.simps)
qed simp_all

lemma call_arrives:
  assumes "until_call p s l = (Waiting c k, s', l')" and "p \<in> Progs"
  shows "\<exists>y. sched_reach Progs ((s, l), ts) y \<and> sched_step Progs y ((s', l'), ts @ [Waiting c k]) \<and> snd (fst y) = l"
proof (cases "advance p s l = (Waiting c k, s', l')")
  case True
  from sched_step.arrive [OF assms(2) True] show ?thesis
    by (intro exI [of _ "((s, l), ts)"]) (simp add: sched_reach.here)
next
  case False
  with until_steps [OF assms(1), of Progs ts] obtain t s1 y where a: "advance p s l = (t, s1, l)"
    and r: "sched_reach Progs ((s1, l), ts @ [t]) y"
    and y: "sched_step Progs y ((s', l'), ts @ [Waiting c k])" "snd (fst y) = l"
    by blast
  show ?thesis by (intro exI [of _ y] conjI sched_first [OF sched_step.arrive [OF assms(2) a] r] y)
qed

end
