(* ===== verification/Acts.thy ===== *)
theory Acts
  imports Calculus Turns
begin

text \<open>
  What a program writes and asks for, whatever it reads and is answered: a property that every
  write of a kind keeps is kept by every program whose writes are of that kind, alone and
  among others.
\<close>

text \<open>\<open>acts W C p\<close>: every write of \<open>p\<close> is in \<open>W\<close> and every call in \<open>C\<close>.\<close>

primrec acts :: "(('s \<Rightarrow> 's) \<Rightarrow> bool) \<Rightarrow> (syscall \<Rightarrow> bool) \<Rightarrow> ('s, 'a) prog \<Rightarrow> bool" where
  "acts W C (Return v) = True"
| "acts W C (Throw e) = True"
| "acts W C (Read k) = (\<forall>s. acts W C (k s))"
| "acts W C (Write u p) = (W u \<and> acts W C p)"
| "acts W C (Call c k) = (C c \<and> (\<forall>r. acts W C (k r)))"
| "acts W C (Yield g p) = acts W C p"

named_theorems acts_rules

lemma acts_bind: "acts W C p \<Longrightarrow> (\<And>v. acts W C (f v)) \<Longrightarrow> acts W C (bind p f)"
  by (induction p) auto

lemma acts_bind_settle: "(\<And>v. r = Inr v \<Longrightarrow> acts W C (f v)) \<Longrightarrow> acts W C (bind (settle r) f)"
  by (cases r) simp_all

lemma acts_quiet: "quiet p \<Longrightarrow> asks C p \<Longrightarrow> acts W C p"
  by (induction p) auto

lemma acts_attempt [acts_rules]: "acts W C p \<Longrightarrow> acts W C (attempt p)"
  by (induction p) auto

lemma acts_basic [acts_rules]:
  "acts W C (Return v)" "acts W C (Throw e)" "acts W C (settle r)" "acts W C (guard_throw b e)"
  by (simp_all add: acts_quiet guard_throw_def)

lemma acts_Read [acts_rules]: "(\<And>s. acts W C (k s)) \<Longrightarrow> acts W C (Read k)"
  by simp

lemma acts_Yield [acts_rules]: "acts W C p \<Longrightarrow> acts W C (Yield g p)"
  by simp

lemma acts_if [acts_rules]: "(b \<Longrightarrow> acts W C p) \<Longrightarrow> (\<not> b \<Longrightarrow> acts W C q) \<Longrightarrow> acts W C (if b then p else q)"
  by simp

lemma acts_await [acts_rules]: "acts W C p \<Longrightarrow> acts W C (await p)"
  unfolding await_def by (rule acts_bind [OF acts_attempt], assumption) (simp add: acts_quiet)

lemma acts_settled [acts_rules]: "acts W C p \<Longrightarrow> acts W C (settled p)"
  unfolding settled_def by (intro acts_bind acts_rules)

lemma acts_try_catch [acts_rules]: "acts W C p \<Longrightarrow> (\<And>e. acts W C (h e)) \<Longrightarrow> acts W C (try_catch p h)"
  unfolding try_catch_def by (intro acts_bind acts_rules) (auto intro: acts_rules split: sum.split)

lemma acts_for_each [acts_rules]: "(\<And>x. acts W C (f x)) \<Longrightarrow> acts W C (for_each xs f)"
  by (induction xs) (auto intro: acts_bind)

lemma acts_run_tasks [acts_rules]: "(\<And>t s. t \<in> set ts \<Longrightarrow> acts W C (t s)) \<Longrightarrow> acts W C (run_tasks ts aborted)"
  by (induction ts arbitrary: aborted) (auto intro!: acts_bind acts_rules)

lemma acts_zoom: "(\<And>u. W (upd u)) \<Longrightarrow> asks C p \<Longrightarrow> acts W C (zoom get upd p)"
  by (induction p) auto

text \<open>On a field, the writes are writes of the field.\<close>

lemma acts_on_field: "acts W' C p \<Longrightarrow> (\<And>u. W' u \<Longrightarrow> W (upd u)) \<Longrightarrow> acts W C (zoom get upd p)"
  by (induction p) auto

lemma acts_any: "acts (\<lambda>_. True) (\<lambda>_. True) p"
  by (induction p) auto

text \<open>A program that only asks writes nothing.\<close>

lemma acts_quiet_any: "quiet p \<Longrightarrow> acts W (\<lambda>_. True) p"
  by (induction p) auto

lemma acts_rg:
  assumes W: "\<And>u. W u \<Longrightarrow> \<forall>c. J c \<longrightarrow> J (u c) \<and> M c (u c)"
    and M: "\<And>c. M c c" "\<And>c c' c''. M c c' \<Longrightarrow> M c' c'' \<Longrightarrow> M c c''"
    and "acts W C p" and "J (fst b)" and "M (fst a) (fst b)"
  shows "rg (\<lambda>x. J (fst x)) (\<lambda>x y. M (fst x) (fst y)) p (\<lambda>_ a b. J (fst b) \<and> M (fst a) (fst b))
    (\<lambda>_ a b. J (fst b) \<and> M (fst a) (fst b)) a b"
  using assms(4-6)
proof (induction p arbitrary: a b)
  case (Write u p)
  then have u: "J (u (fst b)) \<and> M (fst b) (u (fst b))" using W by simp
  with Write.prems have "M (fst a) (u (fst b))" using M(2) by blast
  with u Write show ?case by simp
next
  case (Read k)
  then show ?case by (simp add: rangeI)
qed (use M in \<open>auto simp: rangeI\<close>)

end
