(* ===== verification/Worker_Acts.thy ===== *)
theory Worker_Acts
  imports Worker_Service Acts
begin

text \<open>
  What the requests write and ask for. Each write of a request, whenever it happens and
  whatever other requests did in between, is of one of a few kinds; a property every such
  write keeps is kept by all of the worker. The kinds are the assumptions of the locale
  \<open>core_change\<close>, in which the requests are gone through once.
\<close>

section \<open>The kinds of writes of a worker\<close>

text \<open>The fields of a record that are settled when it is made.\<close>

definition same_identity :: "sandbox_record \<Rightarrow> sandbox_record \<Rightarrow> bool" where
  "same_identity r r' \<longleftrightarrow> info_id (sr_info r') = info_id (sr_info r) \<and> sr_netns r' = sr_netns r
     \<and> sr_hostVeth r' = sr_hostVeth r \<and> sr_namespaceAddress r' = sr_namespaceAddress r \<and> sr_guest r' = sr_guest r
     \<and> sr_firecracker r' = sr_firecracker r \<and> sr_networkKeys r' = sr_networkKeys r"

text \<open>The requests that may resume a machine.\<close>

fun resumes :: "worker_request \<Rightarrow> bool" where
  "resumes (OfSandbox (ReqResume i e)) = True"
| "resumes (OfMigration (ReqResumeMigration i e)) = True"
| "resumes (OfMigration (ReqRollbackMigration i e b)) = True"
| "resumes _ = False"

text \<open>The identifiers a request may make a sandbox for.\<close>

fun made :: "worker_request \<Rightarrow> string set" where
  "made (OfSandbox (ReqCreate q)) = {cr_id q}"
| "made (OfMigration (ReqPrepareMigration i e q)) = {i}"
| "made _ = {}"

text \<open>The sandboxes whose machine a request may start.\<close>

fun started :: "worker_request \<Rightarrow> string set" where
  "started (OfSandbox (ReqCreate q)) = (if boots q then {cr_id q} else {})"
| "started (OfSandbox (ReqResume i e)) = {i}"
| "started (OfMigration (ReqResumeMigration i e)) = {i}"
| "started (OfMigration (ReqRollbackMigration i e b)) = {i}"
| "started _ = {}"

lemma asks_no_resume_parts [simp]:
  "asks no_resume (accept ec i n)" "asks no_resume (load ec)" "asks no_resume (stop i)" "asks no_resume (launch i pid plan)"
  "asks no_resume (start i g hp th)" "asks no_resume (stopSandbox i)" "asks no_resume (proc_kill pid)"
proof -
  have "asks no_resume (persist ec)" by (rule no_vm_asks [OF asks_persist])
  then show "asks no_resume (accept ec i n)"
    unfolding accept_def accept_body_def by (auto simp: resume_call_def intro!: asks_bind asks_try_finally asks_try_catch)
  have "asks no_resume (load_entries kvs)" for kvs by (induction kvs) (auto split: option.split)
  then show "asks no_resume (load ec)"
    unfolding load_def load_document_def by (auto simp: resume_call_def intro!: asks_bind asks_try_catch split: option.split)
qed (auto simp: stop_def launch_def start_def stopSandbox_def fresh_map_def proc_kill_def resume_call_def
    intro!: asks_bind asks_settled asks_for_each split: option.split)

locale core_change =
  fixes cfg :: worker_config and K :: "string set" and C :: "syscall \<Rightarrow> bool" and W :: "(core \<Rightarrow> core) \<Rightarrow> bool" and R :: bool
  assumes calls: "no_resume x \<Longrightarrow> C x"
    and aside: "(\<And>c. c_sandboxes (u c) = c_sandboxes c \<and> c_heap (u c) = c_heap c \<and> c_next (u c) = c_next c
      \<and> c_consumed (u c) = c_consumed c) \<Longrightarrow> W u"
    and consume: "W (\<lambda>c. c\<lparr>c_consumed := insert m (c_consumed c)\<rparr>)"
    and put: "(\<And>r. same_identity r (g r)) \<Longrightarrow> (\<And>r. rec_state (g r) = Running \<Longrightarrow> rec_state r = Running \<or> R) \<Longrightarrow> W (\<lambda>c. c\<lparr>c_heap := (c_heap c)(a := g (c_heap c a))\<rparr>)"
    and add: "cr_id q \<in> K \<Longrightarrow> sandbox_paths_of (path_model_of cfg) (cr_id q) (Num 0) = Inr p \<Longrightarrow>
      W (add_record (cr_id q) (new_record cfg q p n keys now))"
    and drop: "i \<in> K \<Longrightarrow> W (\<lambda>c. c\<lparr>c_sandboxes := map_delete i (c_sandboxes c)\<rparr>)"
begin

lemma w_asks: "asks no_resume p \<Longrightarrow> asks C p"
  by (erule asks_mono) (rule calls)

lemma w_ask: "quiet p \<Longrightarrow> asks no_resume p \<Longrightarrow> acts W C p"
  by (intro acts_quiet w_asks)

lemma w_parts [acts_rules]:
  "asks no_resume p1 \<Longrightarrow> acts W C (on_epochs p1)" "asks no_resume p2 \<Longrightarrow> acts W C (on_processes p2)"
  "asks no_resume p3 \<Longrightarrow> acts W C (on_relays p3)" "acts W C (on_allocator h)"
  unfolding on_epochs_def on_processes_def on_relays_def on_allocator_def
  by (simp_all add: acts_zoom w_asks aside)

lemma w_put_record [acts_rules]:
  "(\<And>r. same_identity r (g r)) \<Longrightarrow> (\<And>r. rec_state (g r) = Running \<Longrightarrow> rec_state r = Running \<or> R) \<Longrightarrow> acts W C (put_record a g)"
  by (simp add: put_record_def put)

lemma w_put_info [acts_rules]:
  "(\<And>i. info_id (g i) = info_id i) \<Longrightarrow> (\<And>i. info_state (g i) = Running \<Longrightarrow> info_state i = Running \<or> R) \<Longrightarrow> acts W C (put_info a g)"
  unfolding put_info_def by (rule w_put_record) (simp_all add: same_identity_def)

lemma w_at_rec [acts_rules]: "(\<And>r. acts W C (k r)) \<Longrightarrow> acts W C (at_rec a k)"
  by (simp add: at_rec_def)

lemma w_record_of [acts_rules]: "acts W C (record_of i)"
  by (auto simp: record_of_def split: option.split)

lemma w_aside [acts_rules]:
  "acts W C (modify (\<lambda>c. c\<lparr>c_manifests := f1 c\<rparr>))" "acts W C (modify (\<lambda>c. c\<lparr>c_migrations := f2 c\<rparr>))"
  "acts W C (modify (\<lambda>c. c\<lparr>c_promises := f3 c\<rparr>))" "acts W C (modify (\<lambda>c. c\<lparr>c_nextPromise := f4 c\<rparr>))"
  "acts W C (modify (\<lambda>c. c\<lparr>c_allocator := f5 c\<rparr>))"
  by (simp_all add: aside)

section \<open>The guard and the lifecycle\<close>

lemma w_fenceQuietly [acts_rules]: "acts W C (fenceQuietly a i e)"
  unfolding fenceQuietly_def
  by (intro acts_bind acts_rules) (simp_all add: fence_info_def w_ask)

lemma w_mutableRecord [acts_rules]: "acts W C (mutableRecord cfg' i e expected)"
  unfolding mutableRecord_def
  by (intro acts_bind acts_rules) (auto split: option.split)

lemma w_quiets [acts_rules]:
  "acts W C (fc_pause k)" "acts W C (fc_configure k bc)" "acts W C (fc_start k)"
  "acts W C (fc_loadSnapshot k lr)" "acts W C (fc_createSnapshot k x y)" "acts W C (guest_ready k)"
  "acts W C (guest_syncClock k)" "acts W C (guest_runCommand k j)" "acts W C (guest_writeFile k j)"
  "acts W C (waitForGuest k t)" "acts W C (waitForFile k)" "acts W C (runPlans ps)"
  "acts W C (runCleanupPlans ns veth)" "acts W C (validateManifest cfg' m)" "acts W C (describe cfg' kind k)"
  "acts W C (syncSnapshotFiles fs)" "acts W C (pullArtifact sha po)" "acts W C (copySparse k k')" "acts W C startMountNamespace"
  "acts W C (proc_kill pid)" "acts W C (fence_actions a b)" "acts W C (linkSharedArtifact cfg' i' ws sr ds d)"
  by (auto intro!: w_ask quiet_link asks_link no_vm_asks [OF asks_guest(1)] no_vm_asks [OF asks_guest(2)] no_vm_asks [OF asks_guest(3)]
      no_vm_asks [OF asks_guest(4)] no_vm_asks [OF asks_waitForGuest] no_vm_asks [OF asks_runCleanupPlans]
      simp: copySparse_def startMountNamespace_def)

lemma w_calls [acts_rules]: "no_resume x \<Longrightarrow> acts W C (call_unit x)" "no_resume x \<Longrightarrow> acts W C (call_text x)"
  by (simp_all add: w_ask)

lemma w_pause [acts_rules]: "acts W C (pauseSandbox cfg' i e)"
  unfolding pauseSandbox_def
  by (intro acts_bind acts_rules) (simp_all add: same_identity_def set_state_def)

lemma w_load [acts_rules]: "acts W C (loadSnapshot cfg' i e m)"
  unfolding loadSnapshot_def
  by (intro acts_bind acts_rules) (simp_all add: same_identity_def set_state_def)

lemma w_consume [acts_rules]: "acts W C (consume_loaded a)"
  unfolding consume_loaded_def by (auto intro!: w_at_rec simp: consume split: option.split)

lemma w_after_resume [acts_rules]: "acts W C (after_resume a)"
  unfolding after_resume_def
  by (intro acts_bind acts_rules) (simp_all add: same_identity_def set_bootId_def)

lemma w_resume:
  assumes "\<And>x. C x" and R
  shows "acts W C (resumeSandbox cfg' i e)" "acts W C (resumeMigration cfg' i e)" "acts W C (rollbackMigration cfg' i e b)"
proof -
  have "asks C (fc_resume k)" for k using assms(1) by (rule asks_mono [OF asks_True])
  then have "acts W C (fc_resume k)" for k by (intro acts_quiet) simp_all
  then show *: "acts W C (resumeSandbox cfg' i e)" for i e
    unfolding resumeSandbox_def
    by (intro acts_bind acts_rules) (simp_all add: same_identity_def set_running_def assms(2))
  show "acts W C (resumeMigration cfg' i e)" "acts W C (rollbackMigration cfg' i e b)"
    unfolding resumeMigration_def rollbackMigration_def by (intro acts_bind acts_rules *)+
qed

lemma w_fence [acts_rules]: "acts W C (fenceSandbox cfg' i e)"
  unfolding fenceSandbox_def by (intro acts_bind acts_rules) (simp_all add: fence_info_def)

lemma w_quarantine [acts_rules]: "acts W C (quarantineSandbox cfg' i e m)"
  unfolding quarantineSandbox_def quarantine_move_def
  by (intro acts_bind acts_rules) (simp_all add: same_identity_def set_quarantined_def)

lemma w_snapshot [acts_rules]: "acts W C (createSnapshot cfg' i q)"
  unfolding createSnapshot_def by (intro acts_bind acts_rules) (simp_all add: same_identity_def)

lemma w_phases [acts_rules]:
  "acts W C (probeMigration cfg' i e)" "acts W C (precopyMigration cfg' i e)" "acts W C (pauseMigration cfg' i e)"
  "acts W C (verifyMigration cfg' i e m)" "acts W C (fenceAndCleanup cfg' i e m)" "acts W C (snapshotMigration cfg' i q)"
  unfolding probeMigration_def precopyMigration_def pauseMigration_def verifyMigration_def fenceAndCleanup_def snapshotMigration_def
  by (intro acts_bind acts_rules; auto intro!: acts_bind acts_rules simp: aside split: option.split)+

section \<open>The guest, the ports and the transfer\<close>

lemma w_guest_ops [acts_rules]:
  "acts W C (runGuestCommand cfg' i e rq)" "acts W C (writeGuestFile cfg' i e wq)"
  unfolding runGuestCommand_def writeGuestFile_def by (intro acts_bind acts_rules)+

lemma w_expose [acts_rules]: "acts W C (exposeGuestPort cfg' i e g)"
  unfolding exposeGuestPort_def core_allocatePort_def Let_def
  by (intro acts_bind acts_rules)
    (auto intro!: acts_bind acts_rules simp: aside same_identity_def add_port_def split: option.split)

lemma w_register [acts_rules]: "acts W C (registerArtifact i d)"
  unfolding registerArtifact_def by (intro acts_bind acts_rules) (simp_all add: same_identity_def)

lemma w_transfer [acts_rules]: "acts W C (transferMigration cfg' i e q)"
proof -
  have "acts W C (transfer_task cfg' i s url d ab)" for s url d ab
    unfolding transfer_task_def transferArtifact_def throwIfAborted_def Let_def
    by (intro acts_bind acts_rules) (auto intro!: acts_bind acts_rules split: option.split)
  then show ?thesis
    unfolding transferMigration_def runAbortableOperations_def Let_def
    by (intro acts_bind acts_rules) (auto intro!: acts_bind acts_rules split: option.split)
qed

lemma w_reads [acts_rules]: "acts W C (get_info i)" "acts W C (destinationArtifactPath i k)" "acts W C (readArtifact i k)"
  unfolding get_info_def destinationArtifactPath_def readArtifact_def
  by (intro acts_bind acts_rules; auto split: option.split)+

section \<open>Creation\<close>

lemma w_undo: "cr_id q \<in> K \<Longrightarrow> acts W C halt \<Longrightarrow> acts W C (undo_create q p n keys halt e)"
  unfolding undo_create_def drop_sandbox_def
  by (intro acts_bind acts_rules) (simp_all add: drop)

lemma w_start_machine: "acts W C (start_machine cfg' q p n pid)"
  unfolding start_machine_def by (intro acts_bind acts_rules) simp

lemma w_start_sandbox:
  assumes "cr_id q \<in> K" and "sandbox_paths_of (path_model_of cfg) (cr_id q) (Num 0) = Inr p" and "boots q \<Longrightarrow> R"
  shows "acts W C (start_sandbox cfg q p n keys)"
  unfolding start_sandbox_def registerRecord_def bootGuest_def
  by (intro acts_bind acts_rules) (simp_all add: add [OF assms(1,2)] same_identity_def set_booted_def assms(3))

lemma w_create [acts_rules]:
  assumes "cr_id q \<in> K" and "boots q \<Longrightarrow> R"
  shows "acts W C (createSandbox cfg q)"
proof -
  have body: "acts W C (create_body cfg q p n keys)" if "sandbox_paths_of (path_model_of cfg) (cr_id q) (Num 0) = Inr p" for p n keys
    unfolding create_body_def
    by (intro acts_bind acts_rules w_undo w_start_machine w_start_sandbox assms that) simp_all
  have parents: "acts W C (make_parents p)" "acts W C (claimPhysicalDirectory i d)" for p i d
    unfolding make_parents_def claimPhysicalDirectory_def by (intro acts_bind acts_rules; simp)+
  have network: "acts W C (core_allocateNetwork cfg q)"
    unfolding core_allocateNetwork_def Let_def by (intro acts_bind acts_rules)
  show ?thesis
    unfolding createSandbox_def
    by (intro acts_bind_settle acts_Read acts_if acts_basic)
      (auto intro!: acts_bind acts_bind_settle acts_rules body parents network split: prod.split)
qed

lemma w_ensure [acts_rules]: "i \<in> K \<Longrightarrow> acts W C (ensureDestinationReservation cfg i e q)"
  unfolding ensureDestinationReservation_def
  by (auto intro!: acts_bind acts_rules simp: restore_request_def boots_def split: option.split)

lemma w_prepare [acts_rules]:
  assumes "i \<in> K"
  shows "acts W C (prepareMigration cfg i e q)"
proof -
  have put: "acts W C (put_reservation key f)" for key f
    by (simp add: put_reservation_def aside)
  have run: "acts W C (run_preparation cfg i e q key)" for key
    unfolding run_preparation_def begin_promise_def
    by (intro acts_bind acts_rules put assms) (auto intro!: acts_rules put split: sum.split)
  have join: "acts W C (join_preparation p)" for p
    unfolding join_preparation_def by (intro acts_rules)
  show ?thesis
    unfolding prepareMigration_def Let_def
    by (intro acts_bind acts_rules) (auto intro!: acts_bind acts_rules run join simp: aside split: option.split)
qed

text \<open>Every write of every request is of one of the kinds, and only three requests resume a machine.\<close>

lemma w_serve:
  assumes "made q \<subseteq> K" and "resumes q \<Longrightarrow> (\<And>x. C x)" and "started q \<noteq> {} \<Longrightarrow> R"
  shows "acts W C (serve cfg q)"
proof (cases q)
  case (OfSandbox s)
  with assms show ?thesis
    by (cases s) (auto simp: answering_def intro!: acts_bind acts_rules w_resume)
next
  case (OfMigration s)
  with assms show ?thesis
    by (cases s) (auto simp: answering_def intro!: acts_bind acts_rules w_resume)
qed

end

end
