(* ===== verification/Worker_Requests.thy ===== *)
theory Worker_Requests
  imports Worker_Acts
begin

text \<open>
  Requests one after the other: the invariant of a worker, what a fence means to every later
  request, and what becomes of requests whose epoch is old or new.
\<close>

section \<open>Any sequence of requests\<close>

text \<open>\<open>works cfg Qs x y\<close>: from \<open>x\<close>, requests of \<open>Qs\<close> served one by one may lead to \<open>y\<close>.\<close>

inductive works :: "worker_config \<Rightarrow> worker_request set \<Rightarrow> core \<times> syscall list \<Rightarrow> core \<times> syscall list \<Rightarrow> bool"
  for cfg Qs x where
  unused: "works cfg Qs x x"
| served: "works cfg Qs x y \<Longrightarrow> q \<in> Qs \<Longrightarrow> run E (serve cfg q) (fst y) (snd y) = (r, c', l') \<Longrightarrow> works cfg Qs x (c', l')"

lemma idle_evolves: "idle c \<Longrightarrow> evolves b c l c' l' \<Longrightarrow> idle c'"
  by (auto simp: idle_def evolves_def)

lemma serve_good:
  assumes "core_ok c" and "idle c" and "run E (serve cfg q) c l = (r, c', l')"
  shows "core_ok c' \<and> idle c' \<and> evolves (quarantines q) c l c' l' \<and> r \<noteq> Blocked"
  using wp_runD [OF safe_serve [OF assms(1,2), of cfg q l], of E] assms(2,3) idle_evolves by auto

lemma works_good:
  assumes "works cfg Qs (c, l) y" and "core_ok c" and "idle c" and "\<And>q. q \<in> Qs \<Longrightarrow> \<not> quarantines q"
  shows "core_ok (fst y) \<and> idle (fst y) \<and> evolves False c l (fst y) (snd y)"
  using assms(1)
proof (induction rule: works.induct)
  case unused
  then show ?case using assms by simp
next
  case (served y q E r c' l')
  then show ?case
    using serve_good [OF _ _ served.hyps(3)] assms(4) by (auto intro: evolves_trans)
qed

lemma works_ok:
  assumes "works cfg Qs (c, l) y" and "core_ok c" and "idle c"
  shows "core_ok (fst y) \<and> idle (fst y)"
  using assms(1)
proof (induction rule: works.induct)
  case (served y q E r c' l')
  then show ?case using serve_good [OF _ _ served.hyps(3)] by auto
qed (use assms in simp)

text \<open>A worker starts by reading the accepted epochs.\<close>

lemma store_ok_entries:
  assumes "store_ok s" and "run E (load_entries kvs) s l = (r, s', l')"
  shows "store_ok s'"
  using assms
proof (induction kvs arbitrary: s l)
  case (Cons kv kvs)
  show ?case
  proof (cases "epoch_value (snd kv)")
    case (Some n)
    then have "0 \<le> n \<and> n \<le> max_safe" by (cases "snd kv" rule: epoch_value.cases) (auto split: if_splits)
    then show ?thesis using Cons.IH [of "set_epoch (fst kv) n s" l] Cons.prems Some by (simp add: store_ok_set)
  qed (use Cons.prems in auto)
qed simp

lemma store_ok_load:
  assumes "store_ok s"
  shows "store_ok (final (run E (load ec) s l))"
proof -
  have "store_ok (s\<lparr>epochs := []\<rparr>)" using assms by (simp add: store_ok_def)
  from store_ok_entries [OF this] assms show ?thesis
    unfolding load_def load_document_def
    by (auto simp: run_simps call_data_def split: reply.splits option.splits if_splits prod.splits outcome.splits)
qed

lemma initialize_ok:
  assumes "run E (initialize cfg) empty_core l0 = (r, c, l)"
  shows "core_ok c \<and> idle c"
proof -
  have "c = empty_core\<lparr>c_epochs := final (run E (load (epoch_config_of cfg)) (c_epochs empty_core) l0)\<rparr>"
    using assms by (simp add: initialize_def on_epochs_def epochs_field.run_zoom)
  then show ?thesis using store_ok_load [OF core_ok_store [OF empty_core_ok], of E "epoch_config_of cfg" l0]
    by (simp add: core_ok_def empty_core_def idle_def pending_def)
qed



section \<open>A sandbox stays in the table\<close>

lemma acts_run:
  assumes "\<And>u s. W u \<Longrightarrow> f (u s) = f s" and "acts W C p"
  shows "f (final (run E p s l)) = f s"
  using assms(2)
  by (induction p arbitrary: s l) (auto simp: assms(1))

interpretation entry: core_change cfg "- {i}" "\<lambda>_. True" "\<lambda>u. \<forall>c. c_sandboxes (u c) i = c_sandboxes c i" True for cfg i
  by unfold_locales (auto simp: add_record_def)

lemma kept_elsewhere:
  assumes "i \<notin> made q"
  shows "c_sandboxes (final (run E (serve cfg q) c l)) i = c_sandboxes c i"
proof -
  have "acts (\<lambda>u. \<forall>c. c_sandboxes (u c) i = c_sandboxes c i) (\<lambda>_. True) (serve cfg q)"
    by (rule entry.w_serve) (use assms in auto)
  from acts_run [OF _ this, where f = "\<lambda>c. c_sandboxes c i"] show ?thesis by simp
qed

lemma kept_prepare:
  assumes "idle c" and "c_sandboxes c i = Some a"
  shows "wp (prepareMigration cfg i e q) (\<lambda>_ c' _. c_sandboxes c' i = Some a) (\<lambda>_ c' _. c_sandboxes c' i = Some a) c l"
proof -
  let ?v = "orelse (c_migrations c (migration_key i (pr_migrationId q))) (new_reservation e q)"
  have none: "rv_preparing ?v = None"
    using assms(1) by (cases "c_migrations c (migration_key i (pr_migrationId q))")
      (auto simp: idle_def pending_def new_reservation_def dest: spec [of _ "migration_key i (pr_migrationId q)"])
  show ?thesis
    unfolding prepareMigration_def Let_def
    using assms(2) none
    by (auto simp: wp_simps run_preparation_def begin_promise_def put_reservation_def ensureDestinationReservation_def)
qed

text \<open>No request takes a sandbox out of the table; only a failed creation removes its own entry.\<close>

lemma sandbox_kept:
  assumes "idle c" and "c_sandboxes c i = Some a"
  shows "c_sandboxes (final (run E (serve cfg q) c l)) i = Some a"
proof (cases "i \<in> made q")
  case True
  have prepare: "c_sandboxes (final (run E (serve cfg (OfMigration (ReqPrepareMigration i e r))) c l)) i = Some a" for e r
    using wp_runD [OF kept_prepare [OF assms, of cfg e r l], of E]
    by (auto simp: answering_def run_bind split: prod.splits outcome.splits)
  have create: "c_sandboxes (final (run E (serve cfg (OfSandbox (ReqCreate r))) c l)) i = Some a" if "cr_id r = i" for r
    using assms(2) that by (simp add: answering_def createSandbox_def run_bind)
  show ?thesis
    using True prepare create by (cases q rule: made.cases) (simp_all del: serve.simps)
qed (simp add: kept_elsewhere assms)

section \<open>Fenced sandboxes\<close>

lemma works_kept:
  assumes "works cfg Qs (c, l) y" and "core_ok c" and "idle c" and "c_sandboxes c i = Some a"
  shows "c_sandboxes (fst y) i = Some a"
  using assms(1)
proof (induction rule: works.induct)
  case (served y q E r c' l')
  have "idle (fst y)" using works_ok [OF served.hyps(1) assms(2,3)] by simp
  from sandbox_kept [OF this served.IH, of E cfg q "snd y"] served.hyps(3) show ?case by simp
qed (use assms in simp)


definition fenced_core :: core where
  "fenced_core = empty_core\<lparr>c_epochs := \<lparr>epochs = [(''a'', 2)], mutating = False\<rparr>, c_sandboxes := [''a'' \<mapsto> 0], c_next := 1,
     c_heap := (\<lambda>_. fenced_record 2 (c_heap waiting_core 0))\<rparr>"

lemma fenced_core_ok: "core_ok fenced_core \<and> idle fenced_core \<and> c_sandboxes fenced_core ''a'' = Some 0
    \<and> rec_state (c_heap fenced_core 0) = FencedState"
  by (auto simp: fenced_core_def core_ok_def empty_core_def store_ok_def idle_def pending_def max_safe_def record_ok_def
      waiting_core_def new_record_def restore_request_def get_epoch_def)


section \<open>Requests with an epoch\<close>

text \<open>The requests that go through the guard before anything else.\<close>

fun guarded :: "worker_request \<Rightarrow> (string \<times> int) option" where
  "guarded (OfSandbox (ReqCommand i e q)) = Some (i, e)"
| "guarded (OfSandbox (ReqWriteFile i e q)) = Some (i, e)"
| "guarded (OfSandbox (ReqExposePort i e g)) = Some (i, e)"
| "guarded (OfSandbox (ReqPause i e)) = Some (i, e)"
| "guarded (OfSandbox (ReqSnapshot i q)) = Some (i, sq_epoch q)"
| "guarded (OfSandbox (ReqResume i e)) = Some (i, e)"
| "guarded (OfMigration (ReqProbeMigration i e)) = Some (i, e)"
| "guarded (OfMigration (ReqPrecopyMigration i e)) = Some (i, e)"
| "guarded (OfMigration (ReqVerifyMigration i e m)) = Some (i, e)"
| "guarded _ = None"

text \<open>What the guard refuses, the request refuses.\<close>

lemma guarded_raises:
  assumes "guarded q = Some (i, e)" and "\<And>ex. run E (mutableRecord cfg i e ex) c l = (Raised x, c', l')"
  shows "run E (serve cfg q) c l = (Raised x, c', l')"
  using assms
  by (cases q rule: guarded.cases)
    (auto simp: answering_def runGuestCommand_def writeGuestFile_def exposeGuestPort_def pauseSandbox_def createSnapshot_def
      resumeSandbox_def probeMigration_def precopyMigration_def verifyMigration_def run_bind run_await)

lemma stale_guard:
  assumes "core_ok c" and "c_sandboxes c i = Some a" and "0 \<le> e" and "e < get_epoch (c_epochs c) i"
  shows "run E (mutableRecord cfg i e ex) c l = (Raised (stale_error i e (get_epoch (c_epochs c) i)), c, l)"
proof -
  have free: "\<not> mutating (c_epochs c)" and safe: "e \<le> max_safe"
    using core_ok_store [OF assms(1)] store_ok_range [of "c_epochs c" i] assms(4) by (auto simp: store_ok_def)
  then show ?thesis
    using assms(2-4)
    by (simp add: mutableRecord_def record_of_def run_simps on_epochs_def epochs_field.run_zoom run_accept [OF free] max_safe_def)
qed

lemmas stale_refused = guarded_raises [OF _ stale_guard]



text \<open>What a request with a newer epoch does to a sandbox that is not booting.\<close>

lemma fenceQuietly_run:
  "\<exists>c' t. run E (fenceQuietly a i e) c l = (Value (), c', l @ t)
    \<and> c_heap c' = (c_heap c)(a := fenced_record e (c_heap c a)) \<and> c_epochs c' = c_epochs c \<and> relayOf (c_relays c') i = None
    \<and> (rec_state (c_heap c a) = Running \<longrightarrow> pause_call (sr_firecracker (c_heap c a)) \<in> set t)"
proof -
  let ?c1 = "c\<lparr>c_heap := (c_heap c)(a := fenced_record e (c_heap c a))\<rparr>"
  have put: "run E (put_info a (fence_info e)) c l = (Value (), ?c1, l)"
    by (simp add: put_info_def put_record_def fenced_record_def)
  obtain rt u where relays: "run E (on_relays (stopSandbox i)) ?c1 l = (Value (), ?c1\<lparr>c_relays := rt\<rparr>, l @ u)" and none: "relayOf rt i = None"
    by (simp add: on_relays_def relays_field.run_zoom run_stopSandbox split: option.split)
  obtain v where veth: "run E (settled (downHostVeth a)) (?c1\<lparr>c_relays := rt\<rparr>) (l @ u) = (Value (), ?c1\<lparr>c_relays := rt\<rparr>, l @ u @ v)"
    using quiet_run [OF quiet_settled [OF quiet_downHostVeth], of E a "?c1\<lparr>c_relays := rt\<rparr>" "l @ u"]
      run_extends [of E "settled (downHostVeth a)" "?c1\<lparr>c_relays := rt\<rparr>" "l @ u"]
    by (auto simp: settled_def run_bind run_attempt split: prod.splits outcome.splits)
  show ?thesis
    using put relays veth none
    by (cases "rec_state (c_heap c a) = Running")
      (auto simp: fenceQuietly_def run_bind run_await at_rec_def settled_def run_attempt fc_pause_def fc_patch_def run_fc_request pause_call_def
        split: reply.splits)
qed

lemma newer_guard:
  assumes ok: "core_ok c" and i: "c_sandboxes c i = Some a" and live: "rec_state (c_heap c a) \<noteq> Booting"
    and e: "get_epoch (c_epochs c) i < e" "e \<le> max_safe"
  obtains (unsaved) x c' l' where "\<And>ex. run E (mutableRecord cfg i e ex) c l = (Raised x, c', l')"
      "c_heap c' = c_heap c" "get_epoch (c_epochs c') = get_epoch (c_epochs c)"
    | (fenced) c' t where "\<And>ex. run E (mutableRecord cfg i e ex) c l = (Raised (fencedError i e e), c', l @ t)"
      "rec_state (c_heap c' a) = FencedState" "rec_epoch (c_heap c' a) = e" "get_epoch (c_epochs c') i = e"
      "relayOf (c_relays c') i = None"
      "rec_state (c_heap c a) = Running \<longrightarrow> pause_call (sr_firecracker (c_heap c a)) \<in> set t"
proof -
  let ?s = "c_epochs c" and ?ec = "epoch_config_of cfg"
  have store: "store_ok ?s" by (rule core_ok_store [OF ok])
  have free: "\<not> mutating ?s" and low: "0 \<le> e" using store store_ok_range [OF store, of i] e(1) by (auto simp: store_ok_def)
  have out: "get_epoch ((if get_epoch ?s i = 0 then delete_epoch i else set_epoch i (get_epoch ?s i)) (set_epoch i e ?s)) = get_epoch ?s"
    by (auto simp: fun_eq_iff)
  consider (ret) u l' where "run E (persist ?ec) (set_epoch i e (?s\<lparr>mutating := True\<rparr>)) l
        = (Value u, set_epoch i e (?s\<lparr>mutating := True\<rparr>), l')"
    | (err) x l' where "run E (persist ?ec) (set_epoch i e (?s\<lparr>mutating := True\<rparr>)) l
        = (Raised x, set_epoch i e (?s\<lparr>mutating := True\<rparr>), l')"
    by (rule quiet_runE [OF quiet_persist])
  then show thesis
  proof cases
    case (err x l')
    let ?c' = "c\<lparr>c_epochs := (if get_epoch ?s i = 0 then delete_epoch i else set_epoch i (get_epoch ?s i)) (set_epoch i e ?s)\<rparr>"
    have "run E (mutableRecord cfg i e ex) c l = (Raised x, ?c', l')" for ex
      using i e low err
      by (simp add: mutableRecord_def record_of_def run_simps on_epochs_def epochs_field.run_zoom run_accept [OF free] max_safe_def)
    from unsaved [OF this] out show thesis by simp
  next
    case (ret u l1)
    let ?c1 = "c\<lparr>c_epochs := set_epoch i e ?s\<rparr>"
    obtain c' t where q: "run E (fenceQuietly a i e) ?c1 l1 = (Value (), c', l1 @ t)"
      "c_heap c' = (c_heap c)(a := fenced_record e (c_heap c a))" "c_epochs c' = set_epoch i e ?s" "relayOf (c_relays c') i = None"
      "rec_state (c_heap c a) = Running \<longrightarrow> pause_call (sr_firecracker (c_heap c a)) \<in> set t"
      using fenceQuietly_run [of E a i e ?c1 l1] by auto
    obtain u' where l1: "l1 = l @ u'"
      using run_extends [of E "persist ?ec" "set_epoch i e (?s\<lparr>mutating := True\<rparr>)" l] ret by auto
    have "run E (mutableRecord cfg i e ex) c l = (Raised (fencedError i e e), c', l @ (u' @ t))" for ex
      using i e low ret live q(1) l1
      by (simp add: mutableRecord_def record_of_def run_simps on_epochs_def epochs_field.run_zoom run_accept [OF free] max_safe_def at_rec_def)
    from fenced [OF this] q show thesis by auto
  qed
qed


definition running_sample :: core where
  "running_sample = waiting_core\<lparr>c_epochs := \<lparr>epochs = [(''a'', 1)], mutating = False\<rparr>,
     c_heap := (\<lambda>_. set_state Running (c_heap waiting_core 0))\<rparr>"

lemma running_sample_ok: "core_ok running_sample \<and> idle running_sample"
  by (auto simp: running_sample_def core_ok_def waiting_core_def empty_core_def store_ok_def max_safe_def record_ok_def
      new_record_def restore_request_def set_state_def get_epoch_def idle_def pending_def)


section \<open>A manifest and the host it is for\<close>

text \<open>
  C27: a snapshot is accepted where it belongs. The manifest a worker writes for a snapshot
  passes every check of a destination whose host is compatible with the source's in each of
  the thirteen respects and whose reservation has the same size and canonical paths; checking
  it asks nothing of the platform and changes nothing.
\<close>

theorem manifest_accepted:
  assumes "wc_hostCompatibility cfg' = wc_hostCompatibility cfg" and "c_sandboxes c i = Some a"
    and "info_cpu (sr_info (c_heap c a)) = info_cpu (sr_info r)" and "info_memoryMb (sr_info (c_heap c a)) = info_memoryMb (sr_info r)"
    and "canonicalRootfs (sr_paths (c_heap c a)) = canonicalRootfs (sr_paths r)"
    and "canonicalVsock (sr_paths (c_heap c a)) = canonicalVsock (sr_paths r)"
  shows "run E (validateManifest cfg' (buildManifest cfg i q r artifacts)) c l = (Value (), c, l)"
proof -
  have "assertCompatible (buildManifest cfg i q r artifacts) (wc_hostCompatibility cfg') = Inr ()"
    using assms(1) by (simp add: buildManifest_def Let_def assertCompatible_def compatibilityProblems_def compat_checks_def)
  moreover have "reservation_problems (buildManifest cfg i q r artifacts) (c_heap c a) = []"
    using assms(3-6) by (simp add: buildManifest_def Let_def reservation_problems_def)
  moreover have "m_sandboxId (buildManifest cfg i q r artifacts) = i"
    by (simp add: buildManifest_def Let_def)
  ultimately show ?thesis
    using assms(2) by (simp add: validateManifest_def run_simps Let_def at_rec_def)
qed

theorem manifest_accepted_witness:
  "run calm (validateManifest sample_config (buildManifest sample_config ''a'' \<lparr>sq_migrationId = ''m'', sq_epoch = 1\<rparr>
      (c_heap running_sample 0) (\<lambda>k. \<lparr>ad_kind = k, ad_name = ''x'', ad_size = 0, ad_sha256 = ''h''\<rparr>))) running_sample []
    = (Value (), running_sample, [])"
  by (rule manifest_accepted) (simp_all add: running_sample_def waiting_core_def)

end
