(* ===== verification/Server.thy ===== *)
theory Server
  imports Worker_Requests
begin

text \<open>
  The agent's HTTP server (\<open>server/server.ts\<close>, \<open>server-requests.ts\<close> and the three
  \<open>routes\<close> files). Fastify parses a request and selects the handler: what reaches the code
  is the route with its parameters, the headers and the body. Bodies a handler passes on
  unread have their declared types; bodies it inspects are JSON values.
\<close>

section \<open>Reading a request\<close>

type_synonym headers = "string \<rightharpoonup> string"

definition badRequest :: "string \<Rightarrow> js_error" where
  "badRequest m = firemig BadRequest m False None (Some 400)"

definition epoch_error :: js_error where
  "epoch_error = firemig BadRequest ''X-Firemig-Epoch must be a non-negative integer'' False None (Some 400)"

definition request_epoch :: "headers \<Rightarrow> js_error + int" where
  "request_epoch h =
     (case h ''x-firemig-epoch'' of
        None \<Rightarrow> Inl epoch_error
      | Some v \<Rightarrow>
          if v \<noteq> [] \<and> list_all is_digit v \<and> int (digits_nat v) \<le> max_safe then Inr (int (digits_nat v))
          else Inl epoch_error)"

definition requiredString :: "json option \<Rightarrow> string \<Rightarrow> js_error + string" where
  "requiredString v what =
     (case v of
        Some (JStr s) \<Rightarrow> if s = [] then Inl (badRequest (what @ '' must be a non-empty string'')) else Inr s
      | _ \<Rightarrow> Inl (badRequest (what @ '' must be a non-empty string'')))"

definition requiredInteger :: "json option \<Rightarrow> string \<Rightarrow> js_error + js_number" where
  "requiredInteger v what =
     (case v of
        Some (JNum n) \<Rightarrow> if is_safe_integer n then Inr n else Inl (badRequest (what @ '' must be an integer''))
      | _ \<Rightarrow> Inl (badRequest (what @ '' must be an integer'')))"

text \<open>\<open>a ?? b\<close>, and reading a property: of \<open>undefined\<close> and of \<open>null\<close> it throws.\<close>

fun coalesce :: "json option \<Rightarrow> json option \<Rightarrow> json option" where
  "coalesce None b = b"
| "coalesce (Some JNull) b = b"
| "coalesce a b = a"

fun property_of :: "json option \<Rightarrow> string \<Rightarrow> js_error + json option" where
  "property_of None k = Inl TypeFault"
| "property_of (Some JNull) k = Inl TypeFault"
| "property_of (Some j) k = Inr (obj_get j k)"

fun is_object :: "json option \<Rightarrow> bool" where
  "is_object (Some (JObj kvs)) = True"
| "is_object (Some (JArr xs)) = True"
| "is_object _ = False"

text \<open>Steps that may throw, in order.\<close>

fun then_ok :: "js_error + 'a \<Rightarrow> ('a \<Rightarrow> js_error + 'b) \<Rightarrow> js_error + 'b" where
  "then_ok (Inl e) f = Inl e"
| "then_ok (Inr v) f = f v"

definition ensure :: "bool \<Rightarrow> js_error \<Rightarrow> js_error + unit" where
  "ensure b e = (if b then Inr () else Inl e)"

definition stage_of :: "json option \<Rightarrow> js_error + prepare_stage" where
  "stage_of v =
     (if v = Some (JStr ''reserve'') then Inr Reserve
      else if v = Some (JStr ''prestage'') then Inr Prestage
      else Inl (badRequest ''stage must be reserve or prestage''))"

definition boot_id_field :: "json option \<Rightarrow> js_error + string option" where
  "boot_id_field v = (if coalesce v None = None then Inr None
     else then_ok (requiredString v ''sandbox.bootId'') (\<lambda>s. Inr (Some s)))"

definition normalizePrepareRequest :: "string \<Rightarrow> string \<Rightarrow> json option \<Rightarrow> js_error + prepare_request" where
  "normalizePrepareRequest i migrationId body =
     then_ok (property_of body ''sandbox'') (\<lambda>sandbox.
     then_ok (ensure (is_object sandbox) (badRequest ''sandbox is required'')) (\<lambda>_.
     let val = obj_get (the sandbox); member = obj_get (the body) in
     then_ok (stage_of (member ''stage'')) (\<lambda>stage.
     then_ok (requiredInteger (val ''cpu'') ''sandbox.cpu'') (\<lambda>cpu.
     then_ok (requiredInteger (coalesce (val ''memoryMb'') (val ''memory_mb'')) ''sandbox.memoryMb'') (\<lambda>memoryMb.
     then_ok (requiredString (coalesce (coalesce (member ''migrationId'') (member ''migration_id'')) (Some (JStr migrationId)))
       ''migrationId'') (\<lambda>bodyMigrationId.
     then_ok (ensure (bodyMigrationId = migrationId) (badRequest ''migrationId does not match route'')) (\<lambda>_.
     then_ok (requiredString (member ''source'') ''source'') (\<lambda>source.
     then_ok (requiredString (member ''destination'') ''destination'') (\<lambda>destination.
     then_ok (requiredString (coalesce (val ''id'') (Some (JStr i))) ''sandbox.id'') (\<lambda>sandboxId.
     then_ok (boot_id_field (coalesce (val ''bootId'') (val ''boot_id''))) (\<lambda>bootId.
       Inr \<lparr>pr_migrationId = bodyMigrationId, pr_stage = stage, pr_source = source, pr_destination = destination,
         pr_sandboxId = sandboxId, pr_cpu = cpu, pr_memoryMb = memoryMb, pr_bootId = bootId\<rparr>)))))))))))"

definition body_migrationId :: "json option \<Rightarrow> js_error + string" where
  "body_migrationId body =
     then_ok (property_of body ''migrationId'') (\<lambda>a.
       requiredString (coalesce a (obj_get (the body) ''migration_id'')) ''migrationId'')"

section \<open>Replies\<close>

datatype reply_body =
    BodyJson json
  | BodyOf worker_response
  | BodyPulled "(artifact_kind \<times> int \<times> int) list"
  | BodyStream artifact_serve

record http_reply =
  hr_status :: nat
  hr_body :: reply_body

definition state_reply :: "sandbox_state \<Rightarrow> (string \<times> json) list \<Rightarrow> http_reply" where
  "state_reply st extra = \<lparr>hr_status = 200, hr_body = BodyJson (JObj ((''state'', JStr (state_text st)) # extra))\<rparr>"

definition answer :: "nat \<Rightarrow> worker_response \<Rightarrow> http_reply" where
  "answer status r = \<lparr>hr_status = status, hr_body = BodyOf r\<rparr>"

text \<open>The path a quarantine returned, as a member of the reply.\<close>

fun path_member :: "worker_response \<Rightarrow> (string \<times> json) list" where
  "path_member (ResPath p) = [(''path'', JStr p)]"
| "path_member _ = []"

text \<open>A call of the worker and the reply made of its result.\<close>

definition ask :: "worker_config \<Rightarrow> worker_request \<Rightarrow> (worker_response \<Rightarrow> http_reply) \<Rightarrow> (core, http_reply) prog" where
  "ask cfg q f = bind (await (serve cfg q)) (\<lambda>r. Return (f r))"

definition with_epoch :: "headers \<Rightarrow> (int \<Rightarrow> (core, 'a) prog) \<Rightarrow> (core, 'a) prog" where
  "with_epoch h f = bind (settle (request_epoch h)) f"

section \<open>Routes\<close>

datatype sandbox_call =
    GetHealthz
  | PostSandbox create_request
  | GetSandbox string
  | PostCommand string run_command_request
  | PutFile string write_file_request
  | PostPort string js_number

fun sandbox_route :: "worker_config \<Rightarrow> headers \<Rightarrow> sandbox_call \<Rightarrow> (core, http_reply) prog" where
  "sandbox_route cfg h GetHealthz = Return \<lparr>hr_status = 200, hr_body = BodyJson (JObj [(''ok'', JBool True)])\<rparr>"
| "sandbox_route cfg h (PostSandbox q) = ask cfg (OfSandbox (ReqCreate q)) (answer 201)"
| "sandbox_route cfg h (GetSandbox i) = ask cfg (OfSandbox (ReqGet i)) (answer 200)"
| "sandbox_route cfg h (PostCommand i q) = with_epoch h (\<lambda>e.
     ask cfg (OfSandbox (ReqCommand i e q)) (answer (if rq_background q = Some True then 202 else 200)))"
| "sandbox_route cfg h (PutFile i q) = with_epoch h (\<lambda>e. ask cfg (OfSandbox (ReqWriteFile i e q)) (answer 200))"
| "sandbox_route cfg h (PostPort i g) = with_epoch h (\<lambda>e. ask cfg (OfSandbox (ReqExposePort i e g)) (answer 201))"

text \<open>The body of a migration route, and the manifest of those that carry one.\<close>

datatype migration_call =
    PostPrepare string string "json option"
  | PostProbe string
  | PostPrecopy string
  | PostMigrationPause string
  | PostMigrationSnapshot string "json option"
  | PostTransfer string "json option" compat_manifest
  | PostMigrationLoad string compat_manifest
  | PostMigrationResume string
  | PostVerify string "json option"
  | PostRollback string "bool option"
  | PostFenceAndCleanup string "json option"

fun migration_route :: "worker_config \<Rightarrow> headers \<Rightarrow> migration_call \<Rightarrow> (core, http_reply) prog" where
  "migration_route cfg h (PostPrepare i m body) = with_epoch h (\<lambda>e.
     bind (settle (normalizePrepareRequest i m body)) (\<lambda>q. ask cfg (OfMigration (ReqPrepareMigration i e q)) (answer 200)))"
| "migration_route cfg h (PostProbe i) = with_epoch h (\<lambda>e. ask cfg (OfMigration (ReqProbeMigration i e)) (answer 200))"
| "migration_route cfg h (PostPrecopy i) = with_epoch h (\<lambda>e. ask cfg (OfMigration (ReqPrecopyMigration i e)) (answer 200))"
| "migration_route cfg h (PostMigrationPause i) = with_epoch h (\<lambda>e.
     ask cfg (OfMigration (ReqPauseMigration i e)) (\<lambda>_. state_reply Paused []))"
| "migration_route cfg h (PostMigrationSnapshot i body) =
     bind (settle (body_migrationId body)) (\<lambda>m. with_epoch h (\<lambda>e.
       ask cfg (OfMigration (ReqSnapshotMigration i \<lparr>sq_migrationId = m, sq_epoch = e\<rparr>)) (answer 200)))"
| "migration_route cfg h (PostTransfer i body manifest) = with_epoch h (\<lambda>e.
     bind (settle (body_migrationId body)) (\<lambda>m.
     bind (settle (requiredString (obj_get (the body) ''source'') ''source'')) (\<lambda>source.
       ask cfg (OfMigration (ReqTransferMigration i e \<lparr>tr_migrationId = m, tr_source = source, tr_manifest = manifest\<rparr>)) (answer 200))))"
| "migration_route cfg h (PostMigrationLoad i manifest) = with_epoch h (\<lambda>e.
     ask cfg (OfSandbox (ReqLoad i e manifest)) (\<lambda>_. state_reply Paused []))"
| "migration_route cfg h (PostMigrationResume i) = with_epoch h (\<lambda>e.
     ask cfg (OfMigration (ReqResumeMigration i e)) (\<lambda>_. state_reply Running []))"
| "migration_route cfg h (PostVerify i body) = with_epoch h (\<lambda>e.
     bind (settle (body_migrationId body)) (\<lambda>m. ask cfg (OfMigration (ReqVerifyMigration i e m)) (answer 200)))"
| "migration_route cfg h (PostRollback i repairClock) = with_epoch h (\<lambda>e.
     ask cfg (OfMigration (ReqRollbackMigration i e (orelse repairClock True)))
       (\<lambda>_. state_reply Running [(''rolledBack'', JBool True)]))"
| "migration_route cfg h (PostFenceAndCleanup i body) = with_epoch h (\<lambda>e.
     bind (settle (body_migrationId body)) (\<lambda>m.
       ask cfg (OfMigration (ReqFenceAndCleanup i e m)) (\<lambda>r. state_reply Quarantined (path_member r))))"

datatype artifact_call =
    PostPause string
  | PostSnapshot string string
  | PostPull string compat_manifest string
  | GetArtifact string artifact_kind
  | PostLoad string compat_manifest
  | PostResume string
  | PostFence string
  | PostQuarantine string string

definition pull_for :: "headers \<Rightarrow> string \<Rightarrow> string \<Rightarrow> string \<Rightarrow> artifact_descriptor \<Rightarrow> artifact_kind \<Rightarrow> pull_options" where
  "pull_for h i base destination d kind =
     \<lparr>pull_url = base @ ''/internal/sandboxes/'' @ encodeURIComponent i @ ''/artifacts/'' @ kind_text kind,
      pull_destination = destination, pull_descriptor = d,
      pull_headers = (case h ''authorization'' of None \<Rightarrow> [] | Some t \<Rightarrow> [(''authorization'', t)])\<rparr>"

definition pull_task :: "worker_config \<Rightarrow> headers \<Rightarrow> string \<Rightarrow> compat_manifest \<Rightarrow> string \<Rightarrow> artifact_kind \<Rightarrow> js_error option \<Rightarrow>
    (core, artifact_kind \<times> int \<times> int) prog" where
  "pull_task cfg h i m base kind aborted =
     bind (destinationArtifactPath i kind) (\<lambda>destination.
     bind (await (pullArtifact (wc_sha cfg) (pull_for h i base destination (m_artifacts m kind) kind))) (\<lambda>(resumedAt, written).
     seq (registerArtifact i (m_artifacts m kind))
       (Return (kind, resumedAt, written))))"

fun artifact_route :: "worker_config \<Rightarrow> headers \<Rightarrow> artifact_call \<Rightarrow> (core, http_reply) prog" where
  "artifact_route cfg h (PostPause i) = with_epoch h (\<lambda>e.
     ask cfg (OfSandbox (ReqPause i e)) (\<lambda>_. state_reply Paused []))"
| "artifact_route cfg h (PostSnapshot i m) = with_epoch h (\<lambda>e.
     ask cfg (OfSandbox (ReqSnapshot i \<lparr>sq_migrationId = m, sq_epoch = e\<rparr>)) (answer 200))"
| "artifact_route cfg h (PostPull i m sourceBaseUrl) =
     seq (validateManifest cfg m)
     (bind (await (runAbortableOperations (map (pull_task cfg h i m (strip_slash sourceBaseUrl)) ARTIFACT_KINDS))) (\<lambda>results.
       Return \<lparr>hr_status = 200, hr_body = BodyPulled results\<rparr>))"
| "artifact_route cfg h (GetArtifact i kind) =
     bind (readArtifact i kind) (\<lambda>(path, d).
     bind (await (openArtifactRange path d (h ''range''))) (\<lambda>v.
       Return \<lparr>hr_status = as_status v, hr_body = BodyStream v\<rparr>))"
| "artifact_route cfg h (PostLoad i m) = with_epoch h (\<lambda>e.
     ask cfg (OfSandbox (ReqLoad i e m)) (\<lambda>_. state_reply Paused []))"
| "artifact_route cfg h (PostResume i) = with_epoch h (\<lambda>e.
     ask cfg (OfSandbox (ReqResume i e)) (\<lambda>_. state_reply Running []))"
| "artifact_route cfg h (PostFence i) = with_epoch h (\<lambda>e.
     ask cfg (OfSandbox (ReqFence i e)) (\<lambda>_. state_reply FencedState []))"
| "artifact_route cfg h (PostQuarantine i m) = with_epoch h (\<lambda>e.
     ask cfg (OfSandbox (ReqQuarantine i e m)) (\<lambda>r. state_reply Quarantined (path_member r)))"

section \<open>The server\<close>

datatype api_call = SandboxCall sandbox_call | MigrationCall migration_call | ArtifactCall artifact_call

fun route :: "worker_config \<Rightarrow> headers \<Rightarrow> api_call \<Rightarrow> (core, http_reply) prog" where
  "route cfg h (SandboxCall x) = sandbox_route cfg h x"
| "route cfg h (MigrationCall x) = migration_route cfg h x"
| "route cfg h (ArtifactCall x) = artifact_route cfg h x"

text \<open>The hook that runs before the route; two buffers of the same bytes compare equal.\<close>

definition unauthorized :: "string option \<Rightarrow> string \<Rightarrow> headers \<Rightarrow> bool" where
  "unauthorized token url h =
     (case token of
        None \<Rightarrow> False
      | Some t \<Rightarrow> url \<noteq> ''/healthz'' \<and> orelse (h ''authorization'') [] \<noteq> ''Bearer '' @ t)"

definition unauthorized_reply :: http_reply where
  "unauthorized_reply = \<lparr>hr_status = 401,
     hr_body = BodyJson (errorEnvelope (code_text BadRequest) ''Unauthorized'' False None)\<rparr>"

text \<open>The error handler; no route declares a schema, so that no error is one of validation.\<close>

fun error_reply :: "js_error \<Rightarrow> http_reply" where
  "error_reply (FiremigError b status) = \<lparr>hr_status = orelse status 500,
     hr_body = BodyJson (errorEnvelope (err_code b) (err_message b) (err_retryable b) (err_details b))\<rparr>"
| "error_reply e = \<lparr>hr_status = 500,
     hr_body = BodyJson (errorEnvelope (code_text Internal) ''Internal worker error'' True None)\<rparr>"

definition http :: "worker_config \<Rightarrow> string option \<Rightarrow> string \<Rightarrow> headers \<Rightarrow> api_call \<Rightarrow> (core, http_reply) prog" where
  "http cfg token url h call =
     (if unauthorized token url h then Return unauthorized_reply
      else try_catch (route cfg h call) (\<lambda>e. Return (error_reply e)))"

section \<open>Every request is answered\<close>

lemma idle_good: "idle c \<Longrightarrow> good b c l c' l' \<Longrightarrow> idle c'"
  using idle_evolves by auto

text \<open>\<open>answered p\<close>: started in a good idle state, \<open>p\<close> settles in one.\<close>

definition answered :: "(core, 'a) prog \<Rightarrow> bool" where
  "answered p \<longleftrightarrow> (\<forall>c l. core_ok c \<and> idle c \<longrightarrow>
     wp p (\<lambda>_ c' _. core_ok c' \<and> idle c') (\<lambda>_ c' _. core_ok c' \<and> idle c') c l)"

named_theorems answered_rules

lemma answered_safe: "safe_from i 0 b p \<Longrightarrow> answered p"
  unfolding answered_def
proof (intro allI impI)
  fix c l
  assume s: "safe_from i 0 b p" and c: "core_ok c \<and> idle c"
  then have "0 \<le> get_epoch (c_epochs c) i" using store_ok_range [OF core_ok_store] by simp
  with s c have "wp p (\<lambda>_. good b c l) (\<lambda>_. good b c l) c l" by (simp add: safe_from_def)
  then show "wp p (\<lambda>_ c' _. core_ok c' \<and> idle c') (\<lambda>_ c' _. core_ok c' \<and> idle c') c l"
    by (rule wp_mono) (use c idle_good in auto)
qed

lemma answered_serve [answered_rules]: "answered (serve cfg q)"
  unfolding answered_def
proof (intro allI impI)
  fix c l
  assume c: "core_ok c \<and> idle c"
  then have "wp (serve cfg q) (\<lambda>_. good (quarantines q) c l) (\<lambda>_. good (quarantines q) c l) c l" by (simp add: safe_serve)
  then show "wp (serve cfg q) (\<lambda>_ c' _. core_ok c' \<and> idle c') (\<lambda>_ c' _. core_ok c' \<and> idle c') c l"
    by (rule wp_mono) (use c idle_good in auto)
qed

lemma answered_bind [answered_rules]: "answered p \<Longrightarrow> (\<And>v. answered (f v)) \<Longrightarrow> answered (bind p f)"
  unfolding answered_def wp_bind by (blast intro: wp_mono)

lemma answered_await [answered_rules]: "answered p \<Longrightarrow> answered (await p)"
  by (simp add: answered_def wp_await)

lemma answered_simple [answered_rules]: "answered (Return v)" "answered (settle r)"
  by (simp_all add: answered_def wp_settle split: sum.split)

lemma answered_ask [answered_rules]: "answered (ask cfg q f)"
  unfolding ask_def by (intro answered_rules)

lemma answered_epoch [answered_rules]: "(\<And>e. answered (f e)) \<Longrightarrow> answered (with_epoch h f)"
  unfolding with_epoch_def by (intro answered_rules)

lemma answered_pull [answered_rules]: "answered (artifact_route cfg h (PostPull i m url))"
proof (rule answered_safe)
  have validate: "safe_from i 0 False (validateManifest cfg m)"
    unfolding safe_from_def by (intro allI impI wp_validateManifest) simp_all
  have task: "safe_from i 0 False (pull_task cfg h i m base k aborted)" for base k aborted
    unfolding pull_task_def
    by (auto intro!: safe_rules safe_from_any [OF safe_reads(2)] safe_from_quiet [of "pullArtifact sha q" for sha q])
  show "safe_from i 0 False (artifact_route cfg h (PostPull i m url))"
    unfolding artifact_route.simps runAbortableOperations_def
    by (intro safe_rules validate safe_from_tasks) (auto intro: task safe_rules split: option.split)
qed

lemma quiet_open: "quiet (openArtifactRange path d r)"
  unfolding openArtifactRange_def Let_def by (auto intro!: quiet_bind)

lemma asks_open: "asks no_resume (openArtifactRange path d r :: (core, artifact_serve) prog)"
  unfolding openArtifactRange_def Let_def by (auto intro!: asks_bind simp: resume_call_def)

lemma answered_artifact [answered_rules]: "answered (artifact_route cfg h (GetArtifact i k))"
proof (rule answered_safe)
  show "safe_from i 0 False (artifact_route cfg h (GetArtifact i k))"
    unfolding artifact_route.simps
    by (auto intro!: safe_rules safe_from_any [OF safe_reads(3)] safe_from_quiet [OF quiet_open asks_open])
qed

lemma answered_sandbox_route: "answered (sandbox_route cfg h x)"
  by (cases x) (auto intro!: answered_rules)

lemma answered_migration_route: "answered (migration_route cfg h x)"
  by (cases x) (auto intro!: answered_rules)

lemma answered_artifact_route: "answered (artifact_route cfg h x)"
proof (cases x)
  case (PostPull i m url)
  then show ?thesis using answered_pull by blast
next
  case (GetArtifact i k)
  then show ?thesis using answered_artifact by blast
qed (auto intro!: answered_rules)

lemma answered_route: "answered (route cfg h x)"
  by (cases x) (simp_all add: answered_sandbox_route answered_migration_route answered_artifact_route)

text \<open>
  Every request ends in a reply and leaves a worker that meets its invariant; a request
  without the token gets the 401 reply, with no call made and the worker as it was.
\<close>

lemma request_answered:
  assumes "core_ok c" and "idle c"
  shows "\<exists>reply c' l'. run E (http cfg token url h call) c l = (Value reply, c', l') \<and> core_ok c' \<and> idle c'
    \<and> (unauthorized token url h \<longrightarrow> reply = unauthorized_reply \<and> c' = c \<and> l' = l)"
proof (cases "unauthorized token url h")
  case False
  have "wp (route cfg h call) (\<lambda>_ c' _. core_ok c' \<and> idle c') (\<lambda>_ c' _. core_ok c' \<and> idle c') c l"
    using answered_route assms by (simp add: answered_def)
  from wp_runD [OF this, of E] False show ?thesis
    by (auto simp: http_def run_try_catch split: prod.splits outcome.splits)
qed (use assms in \<open>simp add: http_def\<close>)

section \<open>Epochs over HTTP\<close>

text \<open>The header a client sends.\<close>

definition epoch_header :: "int \<Rightarrow> headers" where
  "epoch_header e = [''x-firemig-epoch'' \<mapsto> int_text e]"

lemma epoch_header_read:
  assumes "h ''x-firemig-epoch'' = Some (int_text e)" and "0 \<le> e" and "e \<le> max_safe"
  shows "request_epoch h = Inr e"
proof -
  obtain n where "e = int n" using assms(2) nonneg_int_cases by blast
  then show ?thesis
    using assms by (simp add: request_epoch_def int_text_def digits_nat_text nat_text_digits)
qed

text \<open>The calls that carry an epoch and nothing else the server checks.\<close>

fun epoch_call :: "api_call \<Rightarrow> (int \<Rightarrow> worker_request) option" where
  "epoch_call (SandboxCall (PostCommand i q)) = Some (\<lambda>e. OfSandbox (ReqCommand i e q))"
| "epoch_call (SandboxCall (PutFile i q)) = Some (\<lambda>e. OfSandbox (ReqWriteFile i e q))"
| "epoch_call (SandboxCall (PostPort i g)) = Some (\<lambda>e. OfSandbox (ReqExposePort i e g))"
| "epoch_call (MigrationCall (PostProbe i)) = Some (\<lambda>e. OfMigration (ReqProbeMigration i e))"
| "epoch_call (MigrationCall (PostPrecopy i)) = Some (\<lambda>e. OfMigration (ReqPrecopyMigration i e))"
| "epoch_call (ArtifactCall (PostPause i)) = Some (\<lambda>e. OfSandbox (ReqPause i e))"
| "epoch_call (ArtifactCall (PostSnapshot i m)) = Some (\<lambda>e. OfSandbox (ReqSnapshot i \<lparr>sq_migrationId = m, sq_epoch = e\<rparr>))"
| "epoch_call (ArtifactCall (PostResume i)) = Some (\<lambda>e. OfSandbox (ReqResume i e))"
| "epoch_call _ = None"

lemma epoch_call_run:
  assumes "epoch_call call = Some mk" and "request_epoch h = Inr e" and "run E (serve cfg (mk e)) c l = (Raised x, c, l)"
  shows "run E (route cfg h call) c l = (Raised x, c, l)"
  using assms
  by (cases call rule: epoch_call.cases)
    (auto simp: with_epoch_def ask_def run_bind run_await simp del: serve.simps)



section \<open>The body of a prepare request\<close>

text \<open>The body a coordinator sends, in either spelling of the names.\<close>

definition prepare_body :: "bool \<Rightarrow> prepare_request \<Rightarrow> json" where
  "prepare_body snake q = JObj
     [(if snake then ''migration_id'' else ''migrationId'', JStr (pr_migrationId q)),
      (''stage'', JStr (stage_text (pr_stage q))),
      (''source'', JStr (pr_source q)),
      (''destination'', JStr (pr_destination q)),
      (''sandbox'', JObj
        [(''id'', JStr (pr_sandboxId q)), (''cpu'', JNum (pr_cpu q)),
         (if snake then ''memory_mb'' else ''memoryMb'', JNum (pr_memoryMb q)),
         (if snake then ''boot_id'' else ''bootId'', (case pr_bootId q of None \<Rightarrow> JNull | Some b \<Rightarrow> JStr b))])]"

text \<open>
  A prepare request survives the wire. The body that spells out a request, with names in
  camel case or in snake case, is read back as that request when its strings are not empty
  and its sizes are safe integers; on another migration's route it is refused with status 400.
\<close>

lemma prepare_roundtrip:
  assumes "pr_migrationId q \<noteq> []" and "pr_source q \<noteq> []" and "pr_destination q \<noteq> []" and "pr_sandboxId q \<noteq> []"
    and "pr_bootId q \<noteq> Some []" and "is_safe_integer (pr_cpu q)" and "is_safe_integer (pr_memoryMb q)"
  shows "normalizePrepareRequest i m (Some (prepare_body snake q))
    = (if m = pr_migrationId q then Inr q else Inl (badRequest ''migrationId does not match route''))"
proof -
  have "stage_of (Some (JStr (stage_text (pr_stage q)))) = Inr (pr_stage q)"
    by (cases "pr_stage q") (simp_all add: stage_of_def)
  moreover have "boot_id_field (Some (case pr_bootId q of None \<Rightarrow> JNull | Some b \<Rightarrow> JStr b)) = Inr (pr_bootId q)"
    using assms(5) by (auto simp: boot_id_field_def requiredString_def split: option.split)
  ultimately show ?thesis
    using assms
    by (cases "pr_bootId q")
      (simp_all add: normalizePrepareRequest_def prepare_body_def requiredString_def requiredInteger_def ensure_def boot_id_field_def)
qed

end
