(* ===== verification/Json.thy ===== *)
theory Json
  imports Common
begin

text \<open>
  \<open>JSON.parse\<close> and \<open>JSON.stringify\<close> on text, for the sources that take a frame, a
  line or an event apart before they parse it. Text is over the code points below 256; an
  escape of a larger one is read as the substitute character. A number is kept as its text,
  from which \<open>number_of\<close> takes the value: integers are exact, where a double is rounded
  beyond \<open>2\<^sup>5\<^sup>3\<close>, and a decimal fraction is never an integer.
\<close>

section \<open>Values as text\<close>

datatype tree =
    TNull
  | TBool bool
  | TNum string
  | TStr string
  | TArr "tree list"
  | TObj "(string \<times> tree) list"

abbreviation quote :: char where "quote \<equiv> CHR 0x22"
abbreviation escape :: char where "escape \<equiv> CHR 0x5C"

definition short_escapes :: "(char \<times> char) list" where
  "short_escapes = [(quote, quote), (escape, escape), (CHR 0x08, CHR ''b''), (CHR 0x09, CHR ''t''),
     (CHR 0x0A, CHR ''n''), (CHR 0x0C, CHR ''f''), (CHR 0x0D, CHR ''r'')]"

definition hex_digit :: "nat \<Rightarrow> char" where
  "hex_digit d = ''0123456789abcdef'' ! d"

definition escape_char :: "char \<Rightarrow> string" where
  "escape_char c = (case map_of short_escapes c of
       Some e \<Rightarrow> [escape, e]
     | None \<Rightarrow>
         if (of_char c :: nat) < 32
         then [escape, CHR ''u'', CHR ''0'', CHR ''0'', hex_digit (of_char c div 16), hex_digit (of_char c mod 16)]
         else [c])"

definition quoted :: "string \<Rightarrow> string" where
  "quoted s = quote # concat (map escape_char s) @ [quote]"

fun json_text :: "tree \<Rightarrow> string" where
  "json_text TNull = ''null''"
| "json_text (TBool b) = (if b then ''true'' else ''false'')"
| "json_text (TNum t) = t"
| "json_text (TStr s) = quoted s"
| "json_text (TArr xs) = ''['' @ join_with '','' (map json_text xs) @ '']''"
| "json_text (TObj kvs) = ''{'' @ join_with '','' (map (\<lambda>(k, v). quoted k @ '':'' @ json_text v) kvs) @ ''}''"

section \<open>Numbers\<close>

definition is_exp :: "char \<Rightarrow> bool" where
  "is_exp c \<longleftrightarrow> c = CHR ''e'' \<or> c = CHR ''E''"

definition signed_digits :: "string \<Rightarrow> int option" where
  "signed_digits s =
     (let (neg, ds) = (case s of [] \<Rightarrow> (False, [])
        | c # r \<Rightarrow> if c = CHR ''-'' then (True, r) else if c = CHR ''+'' then (False, r) else (False, s))
      in if ds \<noteq> [] \<and> list_all is_digit ds then Some (if neg then - int (digits_nat ds) else int (digits_nat ds)) else None)"

text \<open>The sign, the digits before and after the point, and the exponent.\<close>

definition scan_fraction :: "string \<Rightarrow> string option" where
  "scan_fraction s = (case s of [] \<Rightarrow> Some []
     | c # r \<Rightarrow> if c = CHR ''.'' then (if r \<noteq> [] \<and> is_digit (hd r) then Some (takeWhile is_digit r) else None) else Some [])"

definition after_fraction :: "string \<Rightarrow> string" where
  "after_fraction s = (case s of [] \<Rightarrow> [] | c # r \<Rightarrow> if c = CHR ''.'' then dropWhile is_digit r else s)"

definition scan_exponent :: "string \<Rightarrow> int option" where
  "scan_exponent s = (case s of [] \<Rightarrow> Some 0 | c # r \<Rightarrow> if is_exp c then signed_digits r else None)"

definition scan_number :: "string \<Rightarrow> (bool \<times> string \<times> string \<times> int) option" where
  "scan_number s =
     (let neg = (s \<noteq> [] \<and> hd s = CHR ''-''); t = (if neg then tl s else s);
          whole = takeWhile is_digit t; rest = dropWhile is_digit t in
      if whole = [] \<or> (hd whole = CHR ''0'' \<and> tl whole \<noteq> []) then None
      else case scan_fraction rest of None \<Rightarrow> None
      | Some fraction \<Rightarrow> map_option (\<lambda>e. (neg, whole, fraction, e)) (scan_exponent (after_fraction rest)))"

definition num_ok :: "string \<Rightarrow> bool" where
  "num_ok s \<longleftrightarrow> scan_number s \<noteq> None"

text \<open>From this value on a number is read as infinite.\<close>

definition overflow :: int where
  "overflow = 2 ^ 1024 - 2 ^ 970"

definition decimal :: "bool \<Rightarrow> string \<Rightarrow> string \<Rightarrow> int \<Rightarrow> js_number" where
  "decimal neg whole fraction e =
     (let m = int (digits_nat (whole @ fraction)); k = e - int (length fraction);
          p = 10 ^ nat (abs k); n = (if 0 \<le> k then m * p else m div p) in
      if (0 \<le> k \<or> p dvd m) \<and> n < overflow then Num (if neg then - n else n) else NotInteger)"

definition number_of :: "string \<Rightarrow> js_number" where
  "number_of s = (case scan_number s of None \<Rightarrow> NotInteger
     | Some (neg, whole, fraction, e) \<Rightarrow> decimal neg whole fraction e)"

definition num_char :: "char \<Rightarrow> bool" where
  "num_char c \<longleftrightarrow> is_digit c \<or> c \<in> set ''+-.eE''"

section \<open>Text as values\<close>

definition is_ws :: "char \<Rightarrow> bool" where
  "is_ws c \<longleftrightarrow> c \<in> {CHR '' '', CHR 0x09, CHR 0x0A, CHR 0x0D}"

definition skip_ws :: "string \<Rightarrow> string" where
  "skip_ws s = dropWhile is_ws s"

definition hex_value :: "char \<Rightarrow> nat option" where
  "hex_value c = (let n = of_char c in
     if is_digit c then Some (n - 48)
     else if 97 \<le> n \<and> n \<le> 102 then Some (n - 87)
     else if 65 \<le> n \<and> n \<le> 70 then Some (n - 55) else None)"

definition hex4 :: "string \<Rightarrow> nat option" where
  "hex4 s = (if length s < 4 then None
     else case map hex_value (take 4 s) of
       [Some a, Some b, Some c, Some d] \<Rightarrow> Some (((a * 16 + b) * 16 + c) * 16 + d)
     | _ \<Rightarrow> None)"

definition char_code :: "nat \<Rightarrow> char" where
  "char_code n = (if n < 256 then char_of n else CHR 0x1A)"

text \<open>What follows a backslash: the character it stands for and the text left.\<close>

definition read_escape :: "string \<Rightarrow> (char \<times> string) option" where
  "read_escape s = (case s of [] \<Rightarrow> None
     | c # r \<Rightarrow>
         if c = CHR ''u'' then map_option (\<lambda>n. (char_code n, drop 4 r)) (hex4 r)
         else if c = CHR ''/'' then Some (c, r)
         else map_option (\<lambda>d. (d, r)) (map_of (map (\<lambda>(d, e). (e, d)) short_escapes) c))"

lemma read_escape_shorter: "read_escape s = Some (c, r) \<Longrightarrow> length r < length s"
  by (auto simp: read_escape_def split: list.splits if_splits option.splits)

function read_chars :: "string \<Rightarrow> (string \<times> string) option" where
  "read_chars [] = None"
| "read_chars (c # s) =
     (if c = quote then Some ([], s)
      else if c = escape then
        (case read_escape s of None \<Rightarrow> None | Some (d, r) \<Rightarrow> map_option (\<lambda>(t, u). (d # t, u)) (read_chars r))
      else if (of_char c :: nat) < 32 then None
      else map_option (\<lambda>(t, u). (c # t, u)) (read_chars s))"
  by pat_completeness auto

termination by (relation "measure length") (auto dest: read_escape_shorter)

definition object_of :: "(string \<times> tree) list \<Rightarrow> (string \<times> tree) list" where
  "object_of kvs = foldl (\<lambda>o' (k, v). AList.update k v o') [] kvs"

definition read_literal :: "string \<Rightarrow> (tree \<times> string) option" where
  "read_literal s =
     (if starts_with s ''null'' then Some (TNull, drop 4 s)
      else if starts_with s ''true'' then Some (TBool True, drop 4 s)
      else if starts_with s ''false'' then Some (TBool False, drop 5 s)
      else None)"

definition read_number :: "string \<Rightarrow> (tree \<times> string) option" where
  "read_number s = (let t = takeWhile num_char s in if num_ok t then Some (TNum t, dropWhile num_char s) else None)"

text \<open>The first number bounds the depth of the recursion; the length of the text is enough.\<close>

fun read_value :: "nat \<Rightarrow> string \<Rightarrow> (tree \<times> string) option"
  and read_items :: "nat \<Rightarrow> string \<Rightarrow> (tree list \<times> string) option"
  and read_members :: "nat \<Rightarrow> string \<Rightarrow> ((string \<times> tree) list \<times> string) option" where
  "read_value 0 s = None"
| "read_value (Suc n) s = (case skip_ws s of [] \<Rightarrow> None
     | c # r \<Rightarrow>
         if c = quote then map_option (\<lambda>(t, u). (TStr t, u)) (read_chars r)
         else if c = CHR ''['' then
           (if starts_with (skip_ws r) '']'' then Some (TArr [], tl (skip_ws r))
            else map_option (\<lambda>(vs, u). (TArr vs, u)) (read_items n r))
         else if c = CHR ''{'' then
           (if starts_with (skip_ws r) ''}'' then Some (TObj [], tl (skip_ws r))
            else map_option (\<lambda>(kvs, u). (TObj (object_of kvs), u)) (read_members n r))
         else if c = CHR ''-'' \<or> is_digit c then read_number (c # r)
         else read_literal (c # r))"
| "read_items 0 s = None"
| "read_items (Suc n) s = (case read_value n s of None \<Rightarrow> None
     | Some (v, r) \<Rightarrow> (case skip_ws r of [] \<Rightarrow> None
        | c # u \<Rightarrow>
            if c = CHR '']'' then Some ([v], u)
            else if c = CHR '','' then map_option (\<lambda>(vs, w). (v # vs, w)) (read_items n u)
            else None))"
| "read_members 0 s = None"
| "read_members (Suc n) s = (case skip_ws s of [] \<Rightarrow> None
     | q # r \<Rightarrow> if q \<noteq> quote then None else (case read_chars r of None \<Rightarrow> None
       | Some (k, r') \<Rightarrow> if \<not> starts_with (skip_ws r') '':'' then None
         else (case read_value n (tl (skip_ws r')) of None \<Rightarrow> None
         | Some (v, r'') \<Rightarrow> (case skip_ws r'' of [] \<Rightarrow> None
           | c # u \<Rightarrow>
               if c = CHR ''}'' then Some ([(k, v)], u)
               else if c = CHR '','' then map_option (\<lambda>(kvs, w). ((k, v) # kvs, w)) (read_members n u)
               else None))))"

definition read_tree :: "string \<Rightarrow> tree option" where
  "read_tree s = (case read_value (length s) s of None \<Rightarrow> None
     | Some (t, r) \<Rightarrow> if skip_ws r = [] then Some t else None)"

text \<open>The value of \<open>JSON.parse\<close>, in the type the other components use.\<close>

lemma decimal_digits:
  assumes "int (digits_nat ds) < overflow"
  shows "decimal False ds [] 0 = Num (int (digits_nat ds))"
  using assms by (simp add: decimal_def)

fun json_of :: "tree \<Rightarrow> json" where
  "json_of TNull = JNull"
| "json_of (TBool b) = JBool b"
| "json_of (TNum t) = JNum (number_of t)"
| "json_of (TStr s) = JStr s"
| "json_of (TArr xs) = JArr (map json_of xs)"
| "json_of (TObj kvs) = JObj (map (\<lambda>(k, v). (k, json_of v)) kvs)"

definition json_read :: "string \<Rightarrow> json option" where
  "json_read s = map_option json_of (read_tree s)"

section \<open>What is written is read back\<close>

lemma hex_value_digit: "d < 16 \<Longrightarrow> hex_value (hex_digit d) = Some d"
proof -
  assume "d < 16"
  then have "d \<in> set [0..<16]" by simp
  then show ?thesis by (auto simp: upt_rec hex_value_def hex_digit_def is_digit_def)
qed

lemma read_escape_control:
  assumes "(of_char c :: nat) < 32"
  shows "read_escape ([CHR ''u'', CHR ''0'', CHR ''0'', hex_digit (of_char c div 16), hex_digit (of_char c mod 16)] @ u) = Some (c, u)"
proof -
  have "hex_value CHR ''0'' = Some 0" by (simp add: hex_value_def is_digit_def)
  moreover have "(of_char c div 16) * 16 + of_char c mod 16 = (of_char c :: nat)" by simp
  ultimately show ?thesis
    using assms by (simp add: read_escape_def hex4_def hex_value_digit char_code_def)
qed

lemma read_chars_escape: "read_chars (escape_char c @ u) = map_option (\<lambda>(t, w). (c # t, w)) (read_chars u)"
proof (cases "map_of short_escapes c")
  case (Some e)
  then show ?thesis
    by (auto simp: escape_char_def short_escapes_def read_escape_def split: if_splits)
next
  case None
  then have "c \<noteq> quote" "c \<noteq> escape" by (auto simp: short_escapes_def split: if_splits)
  with None read_escape_control [of c u] show ?thesis
    by (auto simp: escape_char_def)
qed

lemma read_chars_text: "read_chars (concat (map escape_char s) @ quote # u) = Some (s, u)"
  by (induction s) (simp_all add: read_chars_escape)

lemma read_quoted: "\<exists>w. quoted s @ u = quote # w \<and> read_chars w = Some (s, u)"
  by (simp add: quoted_def read_chars_text)

lemma digit_num_char: "is_digit c \<Longrightarrow> num_char c"
  by (simp add: num_char_def)

lemma signed_digits_chars:
  assumes "signed_digits s \<noteq> None" shows "list_all num_char s"
proof -
  have "list_all is_digit ds \<Longrightarrow> list_all num_char ds" for ds
    by (induction ds) (simp_all add: digit_num_char)
  then show ?thesis
    using assms by (auto simp: signed_digits_def num_char_def Let_def split: list.splits if_splits)
qed

lemma takeWhile_num_chars: "list_all num_char (takeWhile is_digit s)"
  by (induction s) (simp_all add: digit_num_char)

lemma scan_fraction_chars:
  assumes "scan_fraction s \<noteq> None" and "scan_exponent (after_fraction s) \<noteq> None"
  shows "list_all num_char s"
proof -
  have "list_all num_char t" if "scan_exponent t \<noteq> None" for t
    using that by (auto simp: scan_exponent_def num_char_def is_exp_def signed_digits_chars split: list.splits if_splits)
  with assms have after: "list_all num_char (after_fraction s)" by blast
  show ?thesis
  proof (cases s)
    case (Cons c r)
    have "list_all num_char (takeWhile is_digit r @ dropWhile is_digit r) " if "c = CHR ''.''"
      using after that Cons takeWhile_num_chars [of r] by (simp only: list_all_append) (simp add: after_fraction_def)
    then show ?thesis
      using after Cons by (cases "c = CHR ''.''") (simp_all add: after_fraction_def num_char_def)
  qed simp
qed

lemma num_ok_text:
  assumes "num_ok s"
  shows "list_all num_char s \<and> (\<exists>c t. s = c # t \<and> (c = CHR ''-'' \<or> is_digit c))"
proof -
  let ?neg = "s \<noteq> [] \<and> hd s = CHR ''-''"
  let ?t = "if ?neg then tl s else s"
  have scan: "takeWhile is_digit ?t \<noteq> []" "scan_fraction (dropWhile is_digit ?t) \<noteq> None"
    "scan_exponent (after_fraction (dropWhile is_digit ?t)) \<noteq> None"
    using assms unfolding num_ok_def scan_number_def Let_def by (auto split: if_splits option.splits)
  have "list_all num_char (takeWhile is_digit ?t @ dropWhile is_digit ?t)"
    unfolding list_all_append using takeWhile_num_chars scan_fraction_chars [OF scan(2,3)] by blast
  then have all: "list_all num_char ?t" by simp
  show ?thesis
  proof (cases ?neg)
    case True
    then obtain u where "s = CHR ''-'' # u" by (cases s) auto
    then show ?thesis using all by (simp add: num_char_def)
  next
    case False
    then have "?t = s" by (rule if_not_P)
    then have "takeWhile is_digit s \<noteq> []" "list_all num_char s" using scan(1) all by simp_all
    then show ?thesis by (cases s) (auto split: if_splits)
  qed
qed

fun tree_ok :: "tree \<Rightarrow> bool" where
  "tree_ok (TNum t) = num_ok t"
| "tree_ok (TArr xs) = list_all tree_ok xs"
| "tree_ok (TObj kvs) = (distinct (map fst kvs) \<and> list_all (\<lambda>(k, v). tree_ok v) kvs)"
| "tree_ok _ = True"

lemma json_text_start:
  assumes "tree_ok t"
  shows "\<exists>c u. json_text t = c # u \<and> \<not> is_ws c \<and> c \<noteq> CHR '']''"
proof (cases t)
  case (TNum n)
  then have "num_ok n" using assms by simp
  then obtain c u where "n = c # u" and "c = CHR ''-'' \<or> is_digit c" using num_ok_text by blast
  then show ?thesis using TNum by (auto simp: is_ws_def is_digit_def)
qed (simp_all add: is_ws_def quoted_def)

lemma skip_ws_text [simp]: "tree_ok t \<Longrightarrow> skip_ws (json_text t @ r) = json_text t @ r"
  using json_text_start [of t] by (auto simp: skip_ws_def)

lemma skip_ws_Cons [simp]: "skip_ws (c # r) = (if is_ws c then skip_ws r else c # r)"
  by (simp add: skip_ws_def)

lemma not_ws [simp]: "\<not> is_ws quote" "\<not> is_ws CHR '',''" "\<not> is_ws CHR '']''" "\<not> is_ws CHR ''['' " "\<not> is_ws CHR ''}''"
  "\<not> is_ws CHR ''{'' " "\<not> is_ws CHR '':''"
  by (simp_all add: is_ws_def)

definition number_ends :: "string \<Rightarrow> bool" where
  "number_ends r \<longleftrightarrow> (r = [] \<or> \<not> num_char (hd r))"

lemma number_ends_separators [simp]: "number_ends (CHR '','' # r)" "number_ends (CHR '']'' # r)" "number_ends (CHR ''}'' # r)" "number_ends []"
  by (simp_all add: number_ends_def num_char_def is_digit_def)

lemma read_number_text: "num_ok s \<Longrightarrow> number_ends r \<Longrightarrow> read_number (s @ r) = Some (TNum s, r)"
proof -
  assume "num_ok s" and "number_ends r"
  then have "takeWhile num_char (s @ r) = s" "dropWhile num_char (s @ r) = r"
    using num_ok_text [of s] by (auto simp: number_ends_def takeWhile_append dropWhile_append list_all_iff takeWhile_eq_Nil_iff
        dropWhile_eq_self_iff)
  then show ?thesis using \<open>num_ok s\<close> by (simp add: read_number_def)
qed

text \<open>\<open>reads x\<close>: reading what is written for \<open>x\<close> yields \<open>x\<close>, with fuel of at least its length.\<close>

definition reads :: "tree \<Rightarrow> bool" where
  "reads x \<longleftrightarrow> (\<forall>n r. number_ends r \<and> length (json_text x) \<le> n \<longrightarrow> read_value n (json_text x @ r) = Some (x, r))"

lemma read_items_text:
  assumes "xs \<noteq> []" and "\<forall>x\<in>set xs. reads x" and "length (join_with '','' (map json_text xs)) < n"
  shows "read_items n (join_with '','' (map json_text xs) @ CHR '']'' # r) = Some (xs, r)"
  using assms
proof (induction xs arbitrary: n rule: list_nonempty_induct)
  case (single x)
  then obtain m where "n = Suc m" "length (json_text x) \<le> m" by (cases n) auto
  then show ?case using single by (simp add: reads_def)
next
  case (cons x xs)
  then obtain m where n: "n = Suc m" by (cases n) auto
  have long: "length (json_text x) \<le> m" "length (join_with '','' (map json_text xs)) < m"
    using cons n by (simp_all add: join_Cons)
  have "read_value m (json_text x @ CHR '','' # join_with '','' (map json_text xs) @ CHR '']'' # r)
      = Some (x, CHR '','' # join_with '','' (map json_text xs) @ CHR '']'' # r)"
    using cons.prems long(1) by (simp add: reads_def)
  then show ?case using cons n long by (simp add: join_Cons)
qed

lemma read_members_text:
  assumes "kvs \<noteq> []" and "\<forall>(k, x)\<in>set kvs. reads x"
    and "length (join_with '','' (map (\<lambda>(k, v). quoted k @ '':'' @ json_text v) kvs)) < n"
  shows "read_members n (join_with '','' (map (\<lambda>(k, v). quoted k @ '':'' @ json_text v) kvs) @ CHR ''}'' # r) = Some (kvs, r)"
  using assms
proof (induction kvs arbitrary: n rule: list_nonempty_induct)
  case (single kv)
  obtain k x where kv: "kv = (k, x)" by (cases kv)
  with single obtain m where "n = Suc m" "length (json_text x) \<le> m" by (cases n) auto
  then show ?case using single kv by (simp add: reads_def quoted_def read_chars_text starts_with_def)
next
  case (cons kv kvs)
  obtain k x where kv: "kv = (k, x)" by (cases kv)
  obtain m where n: "n = Suc m" using cons by (cases n) auto
  let ?more = "join_with '','' (map (\<lambda>(k, v). quoted k @ '':'' @ json_text v) kvs)"
  have long: "length (json_text x) \<le> m" "length ?more < m"
    using cons n kv by (simp_all add: join_Cons)
  have "read_value m (json_text x @ CHR '','' # ?more @ CHR ''}'' # r) = Some (x, CHR '','' # ?more @ CHR ''}'' # r)"
    using cons.prems kv long(1) by (auto simp: reads_def)
  then show ?case
    using cons n kv long by (simp add: join_Cons quoted_def read_chars_text starts_with_def)
qed

lemma object_of_distinct: "distinct (map fst kvs) \<Longrightarrow> object_of kvs = kvs"
proof -
  have "distinct (map fst (o' @ kvs)) \<Longrightarrow> foldl (\<lambda>o' (k, v). AList.update k v o') o' kvs = o' @ kvs" for o'
    by (induction kvs arbitrary: o') (auto simp: update_fresh)
  from this [of "[]"] show "distinct (map fst kvs) \<Longrightarrow> object_of kvs = kvs" by (simp add: object_of_def)
qed

lemma tree_ok_reads: "tree_ok t \<Longrightarrow> reads t"
proof (induction t rule: tree_ok.induct)
  case (1 s)
  show ?case
    unfolding reads_def
  proof (intro allI impI)
    fix n r
    assume *: "number_ends r \<and> length (json_text (TNum s)) \<le> n"
    obtain c u where "s = c # u" "c = CHR ''-'' \<or> is_digit c" using num_ok_text [OF 1 [simplified]] by blast
    moreover have "\<not> is_ws c" "c \<noteq> quote" "c \<noteq> CHR ''[''" "c \<noteq> CHR ''{''"
      using calculation by (auto simp: is_ws_def is_digit_def)
    ultimately show "read_value n (json_text (TNum s) @ r) = Some (TNum s, r)"
      using * read_number_text [of s r] 1 by (cases n) auto
  qed
next
  case (2 xs)
  then have ok: "\<forall>x\<in>set xs. reads x" by (simp add: list_all_iff)
  show ?case
    unfolding reads_def
  proof (intro allI impI)
    fix n r
    assume *: "number_ends r \<and> length (json_text (TArr xs)) \<le> n"
    then obtain m where n: "n = Suc m" by (cases n) auto
    show "read_value n (json_text (TArr xs) @ r) = Some (TArr xs, r)"
    proof (cases xs)
      case Nil
      then show ?thesis using n by (simp add: starts_with_def)
    next
      case (Cons y ys)
      with 2 have "tree_ok y" by simp
      then obtain c u where "json_text y = c # u" "\<not> is_ws c" "c \<noteq> CHR '']''" using json_text_start by blast
      then have first: "\<not> starts_with (skip_ws (join_with '','' (map json_text xs) @ CHR '']'' # r)) '']''"
        using Cons by (cases ys) (simp_all add: starts_with_def)
      have "read_items m (join_with '','' (map json_text xs) @ CHR '']'' # r) = Some (xs, r)"
        by (rule read_items_text) (use * n Cons ok in auto)
      then show ?thesis using n first by simp
    qed
  qed
next
  case (3 kvs)
  then have ok: "\<forall>(k, x)\<in>set kvs. reads x" by (auto simp: list_all_iff)
  let ?text = "join_with '','' (map (\<lambda>(k, v). quoted k @ '':'' @ json_text v) kvs)"
  show ?case
    unfolding reads_def
  proof (intro allI impI)
    fix n r
    assume *: "number_ends r \<and> length (json_text (TObj kvs)) \<le> n"
    then obtain m where n: "n = Suc m" by (cases n) auto
    show "read_value n (json_text (TObj kvs) @ r) = Some (TObj kvs, r)"
    proof (cases kvs)
      case Nil
      then show ?thesis using n by (simp add: starts_with_def object_of_def)
    next
      case (Cons y ys)
      then have first: "\<not> starts_with (skip_ws (?text @ CHR ''}'' # r)) ''}''"
        by (cases ys; cases y) (simp_all add: starts_with_def quoted_def)
      have "read_members m (?text @ CHR ''}'' # r) = Some (kvs, r)"
        by (rule read_members_text) (use * n Cons ok in auto)
      then show ?thesis using n first 3 by (simp add: object_of_distinct)
    qed
  qed
qed (auto simp: reads_def read_chars_text quoted_def read_literal_def starts_with_def is_ws_def is_digit_def neq_Nil_conv
    dest!: Suc_le_D)

lemma read_json_text: "tree_ok t \<Longrightarrow> read_tree (json_text t) = Some t"
proof -
  assume "tree_ok t"
  then have "reads t" by (rule tree_ok_reads)
  then have "read_value (length (json_text t)) (json_text t @ []) = Some (t, [])"
    unfolding reads_def using number_ends_separators(4) by blast
  then show ?thesis by (simp add: read_tree_def skip_ws_def)
qed

lemma json_text_inject: "tree_ok t \<Longrightarrow> tree_ok u \<Longrightarrow> json_text t = json_text u \<longleftrightarrow> t = u"
  by (metis option.inject read_json_text)

end
