(* ===== verification/Settings.thy ===== *)
theory Settings
  imports Json
begin

text \<open>
  What the programs read from their environment: the agent's \<open>platform/config.ts\<close> and the
  fault switches of \<open>packages/common/src/runtime/faults.ts\<close>. \<open>new URL\<close> is the
  parameter \<open>new_url\<close>: \<open>None\<close> when it throws, else the protocol and the text of the
  URL.
\<close>

section \<open>Numbers in text\<close>

text \<open>\<open>Number(s)\<close>: a decimal literal with optional sign, a hexadecimal, octal or binary one, or nothing.\<close>

definition radix_digits :: "nat \<Rightarrow> string \<Rightarrow> js_number" where
  "radix_digits b s =
     (if s \<noteq> [] \<and> list_all (\<lambda>c. case hex_value c of None \<Rightarrow> False | Some d \<Rightarrow> d < b) s
      then (let n = int (foldl (\<lambda>a c. a * b + the (hex_value c)) 0 s) in if n < overflow then Num n else NotInteger)
      else NotInteger)"

definition decimal_literal :: "string \<Rightarrow> js_number" where
  "decimal_literal s =
     (let neg = (s \<noteq> [] \<and> hd s = CHR ''-''); t = (if neg \<or> (s \<noteq> [] \<and> hd s = CHR ''+'') then tl s else s);
          whole = takeWhile is_digit t; r = dropWhile is_digit t;
          fraction = (if starts_with r ''.'' then takeWhile is_digit (tl r) else []);
          u = (if starts_with r ''.'' then dropWhile is_digit (tl r) else r) in
      if whole = [] \<and> fraction = [] then NotInteger
      else case scan_exponent u of None \<Rightarrow> NotInteger | Some e \<Rightarrow> decimal neg whole fraction e)"

definition to_number :: "string \<Rightarrow> js_number" where
  "to_number s =
     (let t = trim s in
      if t = [] then Num 0
      else if starts_with t ''0x'' \<or> starts_with t ''0X'' then radix_digits 16 (drop 2 t)
      else if starts_with t ''0o'' \<or> starts_with t ''0O'' then radix_digits 8 (drop 2 t)
      else if starts_with t ''0b'' \<or> starts_with t ''0B'' then radix_digits 2 (drop 2 t)
      else decimal_literal t)"

section \<open>The agent's configuration\<close>

definition port_base_error :: js_error where
  "port_base_error = JsError ''FIREMIG_PORT_BASE must be an integer from 1 to 65535''"

definition parsePortBase :: "string option \<Rightarrow> js_error + int" where
  "parsePortBase input =
     (let v = (case input of None \<Rightarrow> Num 20000 | Some t \<Rightarrow> to_number t) in
      if \<not> is_integer v \<or> num_val v < 1 \<or> 65535 < num_val v then Inl port_base_error else Inr (num_val v))"

definition peer_error :: "string \<Rightarrow> js_error" where
  "peer_error entry = JsError (''Invalid FIREMIG_PEER_URLS entry: '' @ entry)"

text \<open>\<open>peers[worker]\<close> of an object literal also finds what every object inherits.\<close>

definition inherited_names :: "string list" where
  "inherited_names = [''constructor'', ''__defineGetter__'', ''__defineSetter__'', ''hasOwnProperty'',
     ''__lookupGetter__'', ''__lookupSetter__'', ''isPrototypeOf'', ''propertyIsEnumerable'', ''toString'',
     ''valueOf'', ''__proto__'', ''toLocaleString'']"

definition parse_peer :: "(string \<Rightarrow> (string \<times> string) option) \<Rightarrow> (string \<times> string) list \<Rightarrow> string \<Rightarrow>
    js_error + (string \<times> string) list" where
  "parse_peer new_url peers entry =
     (case index_of CHR ''='' entry of
        None \<Rightarrow> Inl (peer_error entry)
      | Some n \<Rightarrow>
          if n = 0 then Inl (peer_error entry)
          else
            let worker = trim (take n entry); val = strip_slash (trim (drop (n + 1) entry)) in
            if worker = [] \<or> val = [] \<or> worker \<in> fst ` set peers \<or> worker \<in> set inherited_names
            then Inl (peer_error entry)
            else case new_url val of
                None \<Rightarrow> Inl TypeFault
              | Some (protocol, url) \<Rightarrow>
                  if protocol \<noteq> ''http:'' \<and> protocol \<noteq> ''https:''
                  then Inl (JsError (''Peer URL must use HTTP or HTTPS: '' @ val))
                  else Inr (peers @ [(worker, strip_slash url)]))"

fun parse_peers :: "(string \<Rightarrow> (string \<times> string) option) \<Rightarrow> (string \<times> string) list \<Rightarrow> string list \<Rightarrow>
    js_error + (string \<times> string) list" where
  "parse_peers new_url peers [] = Inr peers"
| "parse_peers new_url peers (entry # entries) =
     (case parse_peer new_url peers entry of
        Inl e \<Rightarrow> Inl e
      | Inr peers' \<Rightarrow> parse_peers new_url peers' entries)"

definition parsePeerUrls :: "(string \<Rightarrow> (string \<times> string) option) \<Rightarrow> string option \<Rightarrow> js_error + (string \<times> string) list" where
  "parsePeerUrls new_url input =
     (case input of None \<Rightarrow> Inr []
      | Some t \<Rightarrow> if trim t = [] then Inr [] else parse_peers new_url [] (split_on CHR '','' t))"

section \<open>Faults\<close>

text \<open>The value of a numeric fault is its decimal text's; the sources only hand it on.\<close>

datatype fault_value = FaultOn | FaultText string | FaultNumber string

definition fault_name :: "string \<Rightarrow> bool" where
  "fault_name s \<longleftrightarrow> s \<noteq> [] \<and> hd s \<in> set ''abcdefghijklmnopqrstuvwxyz''
     \<and> list_all (\<lambda>c. c \<in> set ''abcdefghijklmnopqrstuvwxyz0123456789_'') (tl s)"

text \<open>\<open>/^-?\d+(?:\.\d+)?$/\<close>, and a value that is not infinite.\<close>

definition plain_decimal :: "string \<Rightarrow> bool" where
  "plain_decimal s =
     (let t = (if starts_with s ''-'' then tl s else s); r = dropWhile is_digit t in
      takeWhile is_digit t \<noteq> []
      \<and> (r = [] \<or> (starts_with r ''.'' \<and> tl r \<noteq> [] \<and> list_all is_digit (tl r)))
      \<and> int (digits_nat (takeWhile is_digit t)) < overflow)"

definition parse_fault :: "(string \<times> fault_value) list \<Rightarrow> string \<Rightarrow> js_error + (string \<times> fault_value) list" where
  "parse_fault vals rawPart =
     (let part = trim rawPart in
      if part = [] then Inr vals
      else
        let equals = index_of CHR ''='' part;
            name = trim (case equals of None \<Rightarrow> part | Some n \<Rightarrow> take n part) in
        if \<not> fault_name name then Inl (JsError (''Invalid fault name: '' @ name))
        else if name \<in> fst ` set vals then Inl (JsError (''Duplicate fault: '' @ name))
        else case equals of
            None \<Rightarrow> Inr (vals @ [(name, FaultOn)])
          | Some n \<Rightarrow>
              let raw = trim (drop (n + 1) part) in
              if raw = [] then Inl (JsError (''Fault '' @ name @ '' requires a value''))
              else Inr (vals @ [(name, if plain_decimal raw then FaultNumber raw else FaultText raw)]))"

fun parse_faults :: "(string \<times> fault_value) list \<Rightarrow> string list \<Rightarrow> js_error + (string \<times> fault_value) list" where
  "parse_faults vals [] = Inr vals"
| "parse_faults vals (p # ps) =
     (case parse_fault vals p of Inl e \<Rightarrow> Inl e | Inr vals' \<Rightarrow> parse_faults vals' ps)"

definition parseFaults :: "string option \<Rightarrow> js_error + (string \<times> fault_value) list" where
  "parseFaults input =
     (case input of None \<Rightarrow> Inr []
      | Some t \<Rightarrow> if trim t = [] then Inr [] else parse_faults [] (split_on CHR '','' t))"

definition fault_enabled :: "(string \<times> fault_value) list \<Rightarrow> string \<Rightarrow> bool" where
  "fault_enabled vals name \<longleftrightarrow> map_of vals name \<noteq> None"

fun fault_string :: "(string \<times> fault_value) list \<Rightarrow> string \<Rightarrow> string option" where
  "fault_string vals name = (case map_of vals name of Some (FaultText t) \<Rightarrow> Some t | _ \<Rightarrow> None)"

fun fault_number :: "(string \<times> fault_value) list \<Rightarrow> string \<Rightarrow> string option" where
  "fault_number vals name = (case map_of vals name of Some (FaultNumber t) \<Rightarrow> Some t | _ \<Rightarrow> None)"

section \<open>What is accepted\<close>

lemma trim_plain: "s \<noteq> [] \<Longrightarrow> \<not> is_space (hd s) \<Longrightarrow> \<not> is_space (last s) \<Longrightarrow> trim s = s"
proof -
  assume s: "s \<noteq> []" "\<not> is_space (hd s)" "\<not> is_space (last s)"
  then have front: "dropWhile is_space s = s" by (cases s) simp_all
  have "dropWhile is_space (rev s) = rev s" using s by (cases s rule: rev_cases) simp_all
  with front show ?thesis by (simp add: trim_def)
qed

lemma trim_nonempty: "c \<in> set s \<Longrightarrow> \<not> is_space c \<Longrightarrow> trim s \<noteq> []"
proof -
  assume c: "c \<in> set s" "\<not> is_space c"
  then have "c \<in> set (dropWhile is_space s)" by (induction s) auto
  with c(2) show ?thesis by (auto simp: trim_def)
qed

lemma digit_not_space: "is_digit c \<Longrightarrow> \<not> is_space c"
  by (auto simp: is_digit_def is_space_def)

lemma nat_text_ends: "is_digit (hd (nat_text n))" "is_digit (last (nat_text n))"
  using nat_text_digits [of n] by (auto simp: list_all_iff)

lemma decimal_literal_text: "decimal_literal (int_text n) = (if \<bar>n\<bar> < overflow then Num n else NotInteger)"
proof -
  have scan: "takeWhile is_digit (nat_text k) = nat_text k" "dropWhile is_digit (nat_text k) = []" for k
    using nat_text_digits [of k] by (simp_all add: list_all_iff takeWhile_eq_all_conv dropWhile_eq_Nil_conv)
  have sign: "hd (nat_text k) \<noteq> CHR ''-''" "hd (nat_text k) \<noteq> CHR ''+''" for k
    using nat_text_ends(1) [of k] by (auto simp: is_digit_def)
  show ?thesis
    using sign by (auto simp: decimal_literal_def int_text_def scan decimal_def digits_nat_text scan_exponent_def starts_with_def)
qed

lemma to_number_text: "to_number (int_text n) = (if \<bar>n\<bar> < overflow then Num n else NotInteger)"
proof -
  have ends: "int_text n \<noteq> []" "\<not> is_space (hd (int_text n))" "\<not> is_space (last (int_text n))"
    using nat_text_ends [THEN digit_not_space] by (auto simp: int_text_def is_space_def)
  have "\<not> starts_with (int_text n) (CHR ''0'' # [c])" if "\<not> is_digit c" for c
    using that nat_text_digits [of "nat n"] by (auto simp: int_text_def starts_with_def prefix_def)
  then show ?thesis
    using ends by (simp add: to_number_def trim_plain decimal_literal_text is_digit_def)
qed

text \<open>\<open>parsePortBase\<close> reads what is printed of a number, exactly when it is a port.\<close>

lemma parsePortBase_text:
  "parsePortBase (Some (int_text n)) = (if 1 \<le> n \<and> n \<le> 65535 then Inr n else Inl port_base_error)"
  by (auto simp: parsePortBase_def to_number_text overflow_def)

definition peer_ok :: "(string \<Rightarrow> (string \<times> string) option) \<Rightarrow> string \<times> string \<Rightarrow> bool" where
  "peer_ok new_url peer \<longleftrightarrow> fst peer \<noteq> [] \<and> fst peer \<notin> set inherited_names
     \<and> (\<exists>v protocol url. new_url v = Some (protocol, url) \<and> protocol \<in> {''http:'', ''https:''} \<and> snd peer = strip_slash url)"

lemma parse_peer_ok:
  assumes "distinct (map fst ps)" and "list_all (peer_ok new_url) ps" and "parse_peer new_url ps entry = Inr qs"
  shows "distinct (map fst qs) \<and> list_all (peer_ok new_url) qs"
  using assms by (auto simp: parse_peer_def peer_ok_def Let_def split: option.splits if_splits; blast)

lemma parse_peers_ok:
  assumes "distinct (map fst ps)" and "list_all (peer_ok new_url) ps" and "parse_peers new_url ps entries = Inr qs"
  shows "distinct (map fst qs) \<and> list_all (peer_ok new_url) qs"
  using assms
proof (induction entries arbitrary: ps)
  case (Cons entry entries)
  then obtain ps' where "parse_peer new_url ps entry = Inr ps'" "parse_peers new_url ps' entries = Inr qs"
    by (auto split: sum.splits)
  with Cons.IH [of ps'] parse_peer_ok [OF Cons.prems(1,2)] show ?case by blast
qed simp

text \<open>An entry that is written out is read back.\<close>

definition peer_text :: "string \<times> string \<Rightarrow> string" where
  "peer_text peer = fst peer @ ''='' @ snd peer"

definition plain_peer :: "(string \<Rightarrow> (string \<times> string) option) \<Rightarrow> string \<times> string \<Rightarrow> bool" where
  "plain_peer new_url peer \<longleftrightarrow> fst peer \<noteq> [] \<and> trim (fst peer) = fst peer \<and> CHR ''='' \<notin> set (fst peer) \<and> CHR '','' \<notin> set (fst peer)
     \<and> fst peer \<notin> set inherited_names \<and> snd peer \<noteq> [] \<and> trim (snd peer) = snd peer \<and> strip_slash (snd peer) = snd peer
     \<and> CHR '','' \<notin> set (snd peer)
     \<and> (\<exists>protocol\<in>{''http:'', ''https:''}. \<exists>url. new_url (snd peer) = Some (protocol, url) \<and> strip_slash url = snd peer)"

lemma index_of_first: "c \<notin> set xs \<Longrightarrow> index_of c (xs @ c # ys) = Some (length xs)"
  by (induction xs) auto

lemma parse_peer_text:
  assumes "plain_peer new_url peer" and "fst peer \<notin> fst ` set ps"
  shows "parse_peer new_url ps (peer_text peer) = Inr (ps @ [peer])"
  using assms by (cases peer) (auto simp: parse_peer_def plain_peer_def peer_text_def index_of_first Let_def)

lemma parse_peers_text:
  assumes "list_all (plain_peer new_url) peers" and "distinct (map fst (ps @ peers))"
  shows "parse_peers new_url ps (map peer_text peers) = Inr (ps @ peers)"
  using assms by (induction peers arbitrary: ps) (auto simp: parse_peer_text)

text \<open>
  The agent only knows peers it could reach. Whatever text is configured, the peers that
  are accepted have distinct, non-empty names and URLs which \<open>new URL\<close> understood as
  HTTP or HTTPS; and a list of such peers, written out as \<open>name=url\<close> with commas between,
  is read back as it was.
\<close>

lemma parsePeerUrls_spec:
  "(parsePeerUrls new_url input = Inr peers \<longrightarrow> distinct (map fst peers) \<and> list_all (peer_ok new_url) peers)
   \<and> (list_all (plain_peer new_url) known \<and> distinct (map fst known) \<longrightarrow>
      parsePeerUrls new_url (Some (join_with '','' (map peer_text known))) = Inr known)"
proof (intro conjI impI)
  assume "parsePeerUrls new_url input = Inr peers"
  then show "distinct (map fst peers)" and "list_all (peer_ok new_url) peers"
    using parse_peers_ok [of "[]"] by (auto simp: parsePeerUrls_def split: option.splits if_splits)
next
  assume known: "list_all (plain_peer new_url) known \<and> distinct (map fst known)"
  show "parsePeerUrls new_url (Some (join_with '','' (map peer_text known))) = Inr known"
  proof (cases "known = []")
    case False
    have "\<forall>x\<in>set (map peer_text known). CHR '','' \<notin> set x"
      using known by (auto simp: list_all_iff plain_peer_def peer_text_def)
    with False have "split_on CHR '','' (join_with '','' (map peer_text known)) = map peer_text known"
      by (intro split_join) simp_all
    moreover have "CHR ''='' \<in> set (join_with '','' (map peer_text known))"
      using False by (cases known; cases "tl known") (auto simp: peer_text_def)
    then have "trim (join_with '','' (map peer_text known)) \<noteq> []"
      by (rule trim_nonempty) (simp add: is_space_def)
    ultimately show ?thesis using parse_peers_text [of new_url known "[]"] known by (simp add: parsePeerUrls_def)
  qed (simp add: parsePeerUrls_def trim_def)
qed

end
