(* ===== verification/Agent_Main.thy ===== *)
theory Agent_Main
  imports Server Settings
begin

text \<open>
  \<open>cli.ts\<close>: how an agent starts. The environment variables are a partial map, the release
  and the architecture of the host arguments; what the process listens on is returned with the
  configuration and the token.
\<close>

type_synonym variables = "string \<rightharpoonup> string"

definition required :: "variables \<Rightarrow> string \<Rightarrow> js_error + string" where
  "required env name = (case env name of
       None \<Rightarrow> Inl (JsError (name @ '' is required''))
     | Some v \<Rightarrow> if v = [] then Inl (JsError (name @ '' is required'')) else Inr v)"

definition or_required :: "string option \<Rightarrow> variables \<Rightarrow> string \<Rightarrow> js_error + string" where
  "or_required v env name = (case v of None \<Rightarrow> required env name | Some t \<Rightarrow> Inr t)"

definition host_compatibility_of :: "variables \<Rightarrow> string \<Rightarrow> string \<Rightarrow> js_error + host_compatibility" where
  "host_compatibility_of env release arch =
     then_ok (required env ''FIRECRACKER_VERSION'') (\<lambda>version.
     then_ok (required env ''FIRECRACKER_SHA256'') (\<lambda>digest.
     then_ok (required env ''FIRECRACKER_SNAPSHOT_FORMAT'') (\<lambda>format.
     then_ok (required env ''FIREMIG_CPU_VENDOR'') (\<lambda>vendor.
     then_ok (required env ''FIREMIG_CPU_MODEL'') (\<lambda>model.
     then_ok (required env ''FIREMIG_CPU_FAMILY'') (\<lambda>family.
     then_ok (required env ''FIREMIG_CPU_STEPPING'') (\<lambda>stepping.
     then_ok (required env ''FIREMIG_KERNEL_SHA256'') (\<lambda>kernelPath.
       Inr \<lparr>hc_firecrackerVersion = version, hc_firecrackerDigest = digest, hc_snapshotFormatVersion = format,
         hc_hostKernelVersion = release, hc_architecture = arch, hc_cpuVendor = vendor, hc_cpuModel = model,
         hc_cpuFamily = family, hc_cpuStepping = stepping, hc_guestKernelDigest = kernelPath,
         hc_cpuTemplate = orelse (env ''FIREMIG_CPU_TEMPLATE'') ''None'', hc_smt = False, hc_hugePages = NoHugePages\<rparr>))))))))"

text \<open>What the agent takes from Node and not from the variables.\<close>

record host_facts =
  hf_release :: string
  hf_arch :: string
  hf_pid :: int
  hf_cwd :: string
  hf_sha :: "string \<Rightarrow> nat list"
  hf_url :: "string \<Rightarrow> (string \<times> string) option"

definition config_of :: "variables \<Rightarrow> host_facts \<Rightarrow> string \<Rightarrow> string \<Rightarrow> string \<Rightarrow> js_error + worker_config" where
  "config_of env host binary kernelPath rootfs =
     then_ok (required env ''FIREMIG_WORKER_ID'') (\<lambda>workerId.
     then_ok (or_required (env ''FIREMIG_REGION'') env ''FIREMIG_WORKER_ID'') (\<lambda>region.
     then_ok (required env ''FIREMIG_WORKDIR'') (\<lambda>workerRoot.
     then_ok (parsePortBase (env ''FIREMIG_PORT_BASE'')) (\<lambda>portBase.
     then_ok (parsePeerUrls (hf_url host) (env ''FIREMIG_PEER_URLS'')) (\<lambda>peers.
     then_ok (host_compatibility_of env (hf_release host) (hf_arch host)) (\<lambda>compat.
       Inr \<lparr>wc_workerId = workerId, wc_region = region, wc_workerRoot = workerRoot, wc_canonicalRoot = None,
         wc_firecrackerBinary = binary, wc_kernelPath = kernelPath, wc_baseRootfsPath = rootfs,
         wc_proxyHost = orelse (env ''FIREMIG_PROXY_HOST'') ''127.0.0.1'', wc_portBase = Some (Num portBase),
         wc_peerUrls = Some (map_of peers),
         wc_peerAuthToken = (case env ''FIREMIG_PEER_AUTH_TOKEN'' of None \<Rightarrow> env ''FIREMIG_AGENT_TOKEN'' | Some t \<Rightarrow> Some t),
         wc_sharedWorkerRoot = env ''FIREMIG_SHARED_WORKER_ROOT'', wc_hostCompatibility = compat,
         wc_sha = hf_sha host, wc_pid = hf_pid host, wc_cwd = hf_cwd host\<rparr>))))))"

definition check_dependency :: "string \<Rightarrow> (core, unit) prog" where
  "check_dependency path = bind (call_stat (FsStat path)) (\<lambda>(size, isFile).
     guard_throw (\<not> isFile) (JsError (''Required worker dependency is not a file: '' @ path)))"

record agent =
  ag_config :: worker_config
  ag_token :: "string option"
  ag_host :: string
  ag_port :: js_number

definition agent_start :: "variables \<Rightarrow> host_facts \<Rightarrow> (core, agent) prog" where
  "agent_start env host =
     bind (settle (required env ''FIRECRACKER_BINARY'')) (\<lambda>binary.
     bind (settle (required env ''FIREMIG_KERNEL'')) (\<lambda>kernelPath.
     bind (settle (required env ''FIREMIG_ROOTFS'')) (\<lambda>rootfs.
     seq (for_each [binary, kernelPath, rootfs] check_dependency)
     (bind (settle (config_of env host binary kernelPath rootfs)) (\<lambda>cfg.
     seq (settle (core_config_check cfg))
     (seq (await (initialize cfg))
       (Return \<lparr>ag_config = cfg, ag_token = env ''FIREMIG_AGENT_TOKEN'',
          ag_host = orelse (env ''FIREMIG_AGENT_HOST'') ''127.0.0.1'',
          ag_port = to_number (orelse (env ''FIREMIG_AGENT_PORT'') ''4101'')\<rparr>)))))))"

section \<open>From the start on\<close>

lemma quiet_check_dependency: "quiet (check_dependency p)"
  unfolding check_dependency_def by (auto intro!: quiet_bind)

lemma agent_start_ok:
  assumes "run E (agent_start env host) empty_core [] = (Value a, c, l)"
  shows "core_ok c \<and> idle c \<and> core_config_check (ag_config a) = Inr ()"
proof -
  obtain binary kernelPath rootfs c1 l1 where dependencies: "run E (for_each [binary, kernelPath, rootfs] check_dependency) empty_core [] = (Value (), c1, l1)"
    and rest: "run E (bind (settle (config_of env host binary kernelPath rootfs)) (\<lambda>cfg. seq (settle (core_config_check cfg))
     (seq (await (initialize cfg)) (Return \<lparr>ag_config = cfg, ag_token = env ''FIREMIG_AGENT_TOKEN'',
          ag_host = orelse (env ''FIREMIG_AGENT_HOST'') ''127.0.0.1'',
          ag_port = to_number (orelse (env ''FIREMIG_AGENT_PORT'') ''4101'')\<rparr>)))) c1 l1 = (Value a, c, l)"
    using assms unfolding agent_start_def run_bind_Value run_settle_Value by auto
  have asked: "quiet (for_each [binary, kernelPath, rootfs] check_dependency)"
    by (intro quiet_for_each quiet_check_dependency)
  have "c1 = empty_core" using quiet_run [OF asked, of E empty_core "[]"] dependencies by simp
  moreover obtain cfg u where "core_config_check cfg = Inr ()" "a = \<lparr>ag_config = cfg, ag_token = env ''FIREMIG_AGENT_TOKEN'',
          ag_host = orelse (env ''FIREMIG_AGENT_HOST'') ''127.0.0.1'',
          ag_port = to_number (orelse (env ''FIREMIG_AGENT_PORT'') ''4101'')\<rparr>"
    and "run E (initialize cfg) c1 l1 = (Value u, c, l)"
    using rest unfolding run_bind_Value run_settle_Value run_await_Value by auto
  ultimately show ?thesis using initialize_ok by auto
qed

text \<open>\<open>answers a x y\<close>: from \<open>x\<close>, HTTP requests to the agent \<open>a\<close> may lead to \<open>y\<close>.\<close>

inductive answers :: "agent \<Rightarrow> core \<times> syscall list \<Rightarrow> core \<times> syscall list \<Rightarrow> bool" for a x where
  silent: "answers a x x"
| asked: "answers a x y \<Longrightarrow> run E (http (ag_config a) (ag_token a) url h call) (fst y) (snd y) = (r, c', l') \<Longrightarrow>
     answers a x (c', l')"

lemma answers_ok:
  assumes "answers a x y" and "core_ok (fst x)" and "idle (fst x)"
  shows "core_ok (fst y) \<and> idle (fst y)"
  using assms
proof (induction rule: answers.induct)
  case (asked y E url h call r c' l')
  then show ?case using request_answered [of "fst y" E "ag_config a" "ag_token a" url h call "snd y"] by auto
qed simp


definition sample_variables :: variables where
  "sample_variables = map_of (map (\<lambda>name. (name, ''x'')) [''FIRECRACKER_BINARY'', ''FIREMIG_KERNEL'', ''FIREMIG_ROOTFS'',
     ''FIREMIG_WORKER_ID'', ''FIREMIG_WORKDIR'', ''FIRECRACKER_VERSION'', ''FIRECRACKER_SHA256'', ''FIRECRACKER_SNAPSHOT_FORMAT'',
     ''FIREMIG_CPU_VENDOR'', ''FIREMIG_CPU_MODEL'', ''FIREMIG_CPU_FAMILY'', ''FIREMIG_CPU_STEPPING'', ''FIREMIG_KERNEL_SHA256'',
     ''FIREMIG_AGENT_TOKEN''])"

definition sample_host :: host_facts where
  "sample_host = \<lparr>hf_release = ''6'', hf_arch = ''x64'', hf_pid = 1, hf_cwd = ''/'', hf_sha = (\<lambda>_. replicate 32 0),
     hf_url = (\<lambda>_. None)\<rparr>"

lemma sample_start:
  "\<exists>a l. run calm (agent_start sample_variables sample_host) empty_core [] = (Value a, empty_core, l) \<and> ag_token a = Some ''x''"
proof -
  have needed: "required sample_variables name = Inr ''x''" if "name \<in> {''FIRECRACKER_BINARY'', ''FIREMIG_KERNEL'', ''FIREMIG_ROOTFS'',
     ''FIREMIG_WORKER_ID'', ''FIREMIG_WORKDIR'', ''FIRECRACKER_VERSION'', ''FIRECRACKER_SHA256'', ''FIRECRACKER_SNAPSHOT_FORMAT'',
     ''FIREMIG_CPU_VENDOR'', ''FIREMIG_CPU_MODEL'', ''FIREMIG_CPU_FAMILY'', ''FIREMIG_CPU_STEPPING'', ''FIREMIG_KERNEL_SHA256''}" for name
    using that by (auto simp: required_def sample_variables_def)
  have unset: "sample_variables ''FIREMIG_REGION'' = None" "sample_variables ''FIREMIG_PORT_BASE'' = None"
    "sample_variables ''FIREMIG_PEER_URLS'' = None" by (simp_all add: sample_variables_def)
  obtain cfg where cfg: "config_of sample_variables sample_host ''x'' ''x'' ''x'' = Inr cfg" "core_config_check cfg = Inr ()"
    by (simp add: config_of_def host_compatibility_of_def or_required_def needed unset parsePortBase_def parsePeerUrls_def
        core_config_check_def valid_port_def)
  have init: "run calm (initialize cfg) empty_core l = (Value (), empty_core, l @ [FsReadFile (ec_path (epoch_config_of cfg))])" for l
    by (simp add: initialize_def on_epochs_def epochs_field.run_zoom load_def run_simps call_data_def)
  have "sample_variables ''FIREMIG_AGENT_TOKEN'' = Some ''x''" by (simp add: sample_variables_def)
  then show ?thesis
    by (simp add: agent_start_def needed run_simps check_dependency_def call_stat_def cfg init)
qed


end
