(* ===== verification/Worker_Threads.thy ===== *)
theory Worker_Threads
  imports Worker_Acts Turns
begin

text \<open>
  Requests that overlap: any number of them, interleaved at every suspension, against any
  platform. What holds of the table of sandboxes and of resuming a snapshot however the
  requests are scheduled, and a schedule in which a fence is lost.
\<close>

section \<open>The table of sandboxes\<close>

text \<open>
  A record belongs to its identifier and has the sockets of that identifier's directory; the
  entries of the table are such records. Records keep their identity, and consumed snapshots
  stay consumed.
\<close>

definition record_at :: "worker_config \<Rightarrow> string \<Rightarrow> sandbox_record \<Rightarrow> bool" where
  "record_at cfg i r \<longleftrightarrow> info_id (sr_info r) = i
     \<and> (\<exists>p. sandbox_paths_of (path_model_of cfg) i (Num 0) = Inr p \<and> sr_firecracker r = apiSocket p \<and> sr_guest r = physicalVsock p)"

definition placed :: "worker_config \<Rightarrow> core \<Rightarrow> bool" where
  "placed cfg c \<longleftrightarrow> (\<forall>i a. c_sandboxes c i = Some a \<longrightarrow> a < c_next c \<and> record_at cfg i (c_heap c a))"

definition grows :: "core \<Rightarrow> core \<Rightarrow> bool" where
  "grows c c' \<longleftrightarrow> c_next c \<le> c_next c' \<and> c_consumed c \<subseteq> c_consumed c'
     \<and> (\<forall>a < c_next c. same_identity (c_heap c a) (c_heap c' a))"

lemma same_identity_refl [simp]: "same_identity r r"
  by (simp add: same_identity_def)

lemma same_identity_trans: "same_identity r r' \<Longrightarrow> same_identity r' r'' \<Longrightarrow> same_identity r r''"
  by (simp add: same_identity_def)

lemma record_at_same: "same_identity r r' \<Longrightarrow> record_at cfg i r \<Longrightarrow> record_at cfg i r'"
  by (simp add: same_identity_def record_at_def)

lemma grows_refl [simp]: "grows c c"
  by (simp add: grows_def)

lemma grows_trans: "grows c c' \<Longrightarrow> grows c' c'' \<Longrightarrow> grows c c''"
  unfolding grows_def by (meson order_trans same_identity_trans less_le_trans)

abbreviation grows_write :: "worker_config \<Rightarrow> (core \<Rightarrow> core) \<Rightarrow> bool" where
  "grows_write cfg u \<equiv> \<forall>c. placed cfg c \<longrightarrow> placed cfg (u c) \<and> grows c (u c)"

lemma grows_write_put:
  assumes "\<And>r. same_identity r (g r)"
  shows "grows_write cfg (\<lambda>c. c\<lparr>c_heap := (c_heap c)(a := g (c_heap c a))\<rparr>)"
  using assms by (auto simp: placed_def grows_def intro: record_at_same)

lemma grows_write_aside:
  assumes "\<And>c. c_sandboxes (u c) = c_sandboxes c \<and> c_heap (u c) = c_heap c \<and> c_next (u c) = c_next c
      \<and> c_consumed (u c) = c_consumed c"
  shows "grows_write cfg u"
  using assms by (simp add: placed_def grows_def)

lemma grows_write_add:
  assumes "sandbox_paths_of (path_model_of cfg) (cr_id q) (Num 0) = Inr p"
  shows "grows_write cfg (add_record (cr_id q) (new_record cfg q p n keys now))"
  using assms by (fastforce simp: add_record_def placed_def grows_def record_at_def new_record_def less_Suc_eq)

text \<open>The two uses: all requests, and those that resume nothing.\<close>

interpretation growth: core_change cfg UNIV "\<lambda>_. True" "grows_write cfg" True for cfg
  by unfold_locales
    (simp_all add: grows_write_aside grows_write_put grows_write_add, auto simp: placed_def grows_def)

interpretation unresumed: core_change cfg UNIV no_resume "grows_write cfg" True for cfg
  by unfold_locales
    (simp_all add: grows_write_aside grows_write_put grows_write_add, auto simp: placed_def grows_def)

abbreviation placed_conf :: "worker_config \<Rightarrow> core conf \<Rightarrow> bool" where
  "placed_conf cfg x \<equiv> placed cfg (fst x)"

abbreviation grows_conf :: "core conf \<Rightarrow> core conf \<Rightarrow> bool" where
  "grows_conf x y \<equiv> grows (fst x) (fst y)"

interpretation worker: rely_guarantee "placed_conf cfg" grows_conf "range (serve cfg)" for cfg
proof unfold_locales
  show "rg_prog (placed_conf cfg) grows_conf p" if "p \<in> range (serve cfg)" for p
  proof -
    obtain q where "p = serve cfg q" using \<open>p \<in> range (serve cfg)\<close> by blast
    then have "acts (grows_write cfg) (\<lambda>_. True) p" using growth.w_serve [of q] by simp
    then show ?thesis unfolding rg_prog_def
      by (intro allI impI acts_rg [where W = "grows_write cfg"]) (auto intro: grows_trans)
  qed
qed (auto intro: grows_trans)

section \<open>Resuming a snapshot\<close>

text \<open>
  A turn resumes a machine only through a record that was not restored, or was restored from
  a snapshot which this very turn marked consumed.
\<close>

definition resume_turn :: "core conf \<Rightarrow> core conf \<Rightarrow> bool" where
  "resume_turn a b \<longleftrightarrow> (\<exists>t. snd b = snd a @ t \<and> (\<forall>k. resume_call k \<in> set t \<longrightarrow>
     (\<exists>x < c_next (fst b). sr_firecracker (c_heap (fst b) x) = k
        \<and> (\<forall>m. sr_loadedMigrationId (c_heap (fst b) x) = Some m \<longrightarrow>
             m \<in> c_consumed (fst b) \<and> m \<notin> c_consumed (fst a)))))"

text \<open>Within a turn nothing was asked for yet.\<close>

definition same_turn :: "core conf \<Rightarrow> core conf \<Rightarrow> bool" where
  "same_turn a b \<longleftrightarrow> snd b = snd a \<and> c_consumed (fst a) \<subseteq> c_consumed (fst b)"

lemma same_turn_refl [simp]: "same_turn a a"
  by (simp add: same_turn_def)

lemma resume_turn_same: "same_turn a b \<Longrightarrow> resume_turn a b"
  by (auto simp: same_turn_def resume_turn_def)

lemma resume_turn_call: "same_turn a b \<Longrightarrow> no_resume x \<Longrightarrow> resume_turn a (fst b, snd b @ [x])"
  by (auto simp: same_turn_def resume_turn_def)

lemma turns_plain:
  assumes "acts (grows_write cfg) no_resume p" and "same_turn a b" and "placed_conf cfg b" and "grows_conf b0 b"
    and V: "\<And>v a' b'. same_turn a' b' \<Longrightarrow> placed_conf cfg b' \<Longrightarrow> grows_conf b0 b' \<Longrightarrow> V v a' b'"
    and X: "\<And>v a' b'. same_turn a' b' \<Longrightarrow> placed_conf cfg b' \<Longrightarrow> grows_conf b0 b' \<Longrightarrow> X v a' b'"
  shows "turns (placed_conf cfg) grows_conf resume_turn p V X a b"
  using assms(1-4)
proof (induction p arbitrary: a b)
  case (Write u p)
  then have u: "placed cfg (u (fst b))" "grows (fst b) (u (fst b))" by simp_all
  moreover have "same_turn a (u (fst b), snd b)" using Write.prems(2) u(2) by (auto simp: same_turn_def grows_def)
  moreover have "grows (fst b0) (u (fst b))" using Write.prems(4) u(2) by (rule grows_trans)
  ultimately show ?case using Write.IH [of a "(u (fst b), snd b)"] Write.prems(1) by simp
next
  case (Call c k)
  have "turns (placed_conf cfg) grows_conf resume_turn (k r) V X d d"
    if "placed_conf cfg d" "grows_conf (fst b, snd b @ [c]) d" for r d
    using Call.IH [OF rangeI, of r d d] Call.prems(1,4) that by (auto intro: grows_trans)
  with Call.prems show ?case by (simp add: resume_turn_call)
next
  case (Yield g p)
  have "turns (placed_conf cfg) grows_conf resume_turn p V X d d"
    if "placed_conf cfg d" "grows_conf b d" for d
    using Yield.IH [of d d] Yield.prems(1,4) that by (auto intro: grows_trans)
  with Yield.prems show ?case by (simp add: resume_turn_same)
qed (use V X in \<open>auto simp: rangeI\<close>)

lemma turns_record_of:
  assumes "same_turn a b" and "placed_conf cfg b"
    and "\<And>x. x < c_next (fst b) \<Longrightarrow> V x a b" and "\<And>e. X e a b"
  shows "turns (placed_conf cfg) grows_conf resume_turn (record_of i) V X a b"
  using assms by (auto simp: record_of_def placed_def split: option.split)

text \<open>The guard returns the address of a record that exists.\<close>

lemma turns_mutableRecord:
  assumes "same_turn a b" and "placed_conf cfg b"
    and V: "\<And>x a' b'. same_turn a' b' \<Longrightarrow> placed_conf cfg b' \<Longrightarrow> x < c_next (fst b') \<Longrightarrow> V x a' b'"
    and X: "\<And>e a' b'. same_turn a' b' \<Longrightarrow> placed_conf cfg b' \<Longrightarrow> X e a' b'"
  shows "turns (placed_conf cfg) grows_conf resume_turn (mutableRecord cfg i e expected) V X a b"
  unfolding mutableRecord_def turns_bind
proof (rule turns_record_of [OF assms(1,2)])
  fix x
  assume x: "x < c_next (fst b)"
  have accept: "acts (grows_write cfg) no_resume (await (on_epochs (accept (epoch_config_of cfg) i (Num e))) :: (core, _) prog)"
    by (intro acts_rules unresumed.w_parts) simp
  have quiet: "acts (grows_write cfg) no_resume (await (fenceQuietly x i e))"
    by (intro acts_rules unresumed.w_fenceQuietly)
  show "turns (placed_conf cfg) grows_conf resume_turn (await (on_epochs (accept (epoch_config_of cfg) i (Num e))))
     (\<lambda>acc. turns (placed_conf cfg) grows_conf resume_turn (at_rec x (\<lambda>r.
       if acc_advanced acc \<and> rec_state r \<noteq> Booting
       then seq (await (fenceQuietly x i e)) (Throw (fencedError i e e))
       else if rec_state r = FencedState \<or> e < rec_epoch r then Throw (fencedError i e (rec_epoch r))
       else case expected of
           Some st \<Rightarrow> if rec_state r \<noteq> st then Throw (stateMismatch st (rec_state r)) else Return x
         | None \<Rightarrow> Return x)) V X) X a b"
  proof (rule turns_plain [OF accept assms(1,2) grows_refl])
    fix acc a' b'
    assume at: "same_turn a' b'" "placed_conf cfg b'" "grows_conf b b'"
    then have x': "x < c_next (fst b')" using x by (simp add: grows_def)
    have "turns (placed_conf cfg) grows_conf resume_turn (seq (await (fenceQuietly x i e)) (Throw (fencedError i e e))) V X a' b'"
      unfolding turns_bind by (rule turns_plain [OF quiet at(1,2) grows_refl]) (simp_all add: X)
    with at x' show "turns (placed_conf cfg) grows_conf resume_turn (at_rec x (\<lambda>r.
       if acc_advanced acc \<and> rec_state r \<noteq> Booting
       then seq (await (fenceQuietly x i e)) (Throw (fencedError i e e))
       else if rec_state r = FencedState \<or> e < rec_epoch r then Throw (fencedError i e (rec_epoch r))
       else case expected of
           Some st \<Rightarrow> if rec_state r \<noteq> st then Throw (stateMismatch st (rec_state r)) else Return x
         | None \<Rightarrow> Return x)) V X a' b'"
      by (auto simp: at_rec_def V X split: option.split)
  qed (simp add: X)
qed (rule X [OF assms(1,2)])

lemma turns_resume_call:
  assumes "same_turn a b" and "placed_conf cfg b" and x: "x < c_next (fst b)"
    and fresh: "\<And>m. sr_loadedMigrationId (c_heap (fst b) x) = Some m \<Longrightarrow> m \<in> c_consumed (fst b) \<and> m \<notin> c_consumed (fst a)"
    and V: "\<And>v a' b'. same_turn a' b' \<Longrightarrow> placed_conf cfg b' \<Longrightarrow> V v a' b'"
    and X: "\<And>e a' b'. same_turn a' b' \<Longrightarrow> placed_conf cfg b' \<Longrightarrow> X e a' b'"
  shows "turns (placed_conf cfg) grows_conf resume_turn (at_rec x (\<lambda>r. await (fc_resume (sr_firecracker r)))) V X a b"
proof -
  let ?k = "sr_firecracker (c_heap (fst b) x)"
  have call: "resume_turn a (fst b, snd b @ [resume_call ?k])"
    using assms(1) x fresh unfolding resume_turn_def same_turn_def
    by (auto simp: resume_call_def intro!: exI [of _ x])
  have same: "resume_turn d d" for d by (rule resume_turn_same) simp
  show ?thesis
    using call
    by (auto simp: at_rec_def turns_await fc_resume_def fc_patch_def fc_request_def call_status_def turns_bind resume_call_def
        guard_throw_def same V X turns_settle split: reply.split prod.split)
qed

lemma turns_await_same:
  assumes p: "\<And>V X. (\<And>v a' b'. same_turn a' b' \<Longrightarrow> placed_conf cfg b' \<Longrightarrow> V v a' b') \<Longrightarrow>
      (\<And>e a' b'. same_turn a' b' \<Longrightarrow> placed_conf cfg b' \<Longrightarrow> X e a' b') \<Longrightarrow>
      turns (placed_conf cfg) grows_conf resume_turn p V X a b"
    and V: "\<And>v a' b'. same_turn a' b' \<Longrightarrow> placed_conf cfg b' \<Longrightarrow> V v a' b'"
    and X: "\<And>e a' b'. same_turn a' b' \<Longrightarrow> placed_conf cfg b' \<Longrightarrow> X e a' b'"
  shows "turns (placed_conf cfg) grows_conf resume_turn (await p) V X a b"
  unfolding turns_await by (rule p) (simp_all add: V X resume_turn_same)

lemma turns_resumeSandbox:
  assumes "same_turn a b" and "placed_conf cfg b"
    and V: "\<And>v a' b'. same_turn a' b' \<Longrightarrow> placed_conf cfg b' \<Longrightarrow> V v a' b'"
    and X: "\<And>e a' b'. same_turn a' b' \<Longrightarrow> placed_conf cfg b' \<Longrightarrow> X e a' b'"
  shows "turns (placed_conf cfg) grows_conf resume_turn (resumeSandbox cfg i e) V X a b"
proof -
  let ?t = "turns (placed_conf cfg) grows_conf resume_turn"
  have rest: "?t (seq (put_record x (set_running e)) (after_resume x)) V X a' b'" if "same_turn a' b'" "placed_conf cfg b'" for x a' b'
  proof (rule turns_plain [OF _ that grows_refl])
    show "acts (grows_write cfg) no_resume (seq (put_record x (set_running e)) (after_resume x))"
      by (intro acts_bind unresumed.w_put_record unresumed.w_after_resume) (simp_all add: same_identity_def set_running_def)
  qed (simp_all add: V X)
  have call: "?t (seq (at_rec x (\<lambda>r. await (fc_resume (sr_firecracker r)))) (seq (put_record x (set_running e)) (after_resume x))) V X a' b'"
    if "same_turn a' b'" "placed_conf cfg b'" "x < c_next (fst b')"
      "\<And>m. sr_loadedMigrationId (c_heap (fst b') x) = Some m \<Longrightarrow> m \<in> c_consumed (fst b') \<and> m \<notin> c_consumed (fst a')" for x a' b'
    unfolding turns_bind by (rule turns_resume_call [OF that]) (use rest X in \<open>simp_all only: turns_bind\<close>)
  have guarded: "?t (seq (consume_loaded x) (seq (at_rec x (\<lambda>r. await (fc_resume (sr_firecracker r))))
      (seq (put_record x (set_running e)) (after_resume x)))) V X d d" if d: "placed_conf cfg d" "x < c_next (fst d)" for x d
  proof (cases "sr_loadedMigrationId (c_heap (fst d) x)")
    case None
    with call [of d d x] d show ?thesis by (simp add: consume_loaded_def at_rec_def)
  next
    case (Some m)
    let ?c = "(fst d)\<lparr>c_consumed := insert m (c_consumed (fst d))\<rparr>"
    have "same_turn d (?c, snd d)" "placed_conf cfg (?c, snd d)" using d(1) by (auto simp: same_turn_def placed_def)
    with call [of d "(?c, snd d)" x] d Some X [of d d] show ?thesis by (auto simp: consume_loaded_def at_rec_def)
  qed
  show ?thesis
    unfolding resumeSandbox_def turns_bind turns_await
  proof (rule turns_mutableRecord [OF assms(1,2)])
    fix x a' b'
    assume at: "same_turn a' b'" "placed_conf cfg b'" "x < c_next (fst b')"
    show "resume_turn a' b' \<and> (\<forall>d. placed_conf cfg d \<and> grows_conf b' d \<longrightarrow>
       ?t (consume_loaded x) (\<lambda>_. ?t (at_rec x (\<lambda>r. await (fc_resume (sr_firecracker r))))
         (\<lambda>_. ?t (put_record x (set_running e)) (\<lambda>_. ?t (after_resume x) V X) X) X) X d d)"
    proof (intro conjI allI impI)
      fix d
      assume "placed_conf cfg d \<and> grows_conf b' d"
      with at(3) have "placed_conf cfg d" "x < c_next (fst d)" by (auto simp: grows_def)
      from guarded [OF this] show "?t (consume_loaded x) (\<lambda>_. ?t (at_rec x (\<lambda>r. await (fc_resume (sr_firecracker r))))
         (\<lambda>_. ?t (put_record x (set_running e)) (\<lambda>_. ?t (after_resume x) V X) X) X) X d d"
        by (simp only: turns_bind)
    qed (rule resume_turn_same [OF at(1)])
  qed (simp add: X resume_turn_same)
qed

text \<open>Every request keeps to it.\<close>

lemma turns_serve:
  assumes d: "placed_conf cfg d"
  shows "turns (placed_conf cfg) grows_conf resume_turn (serve cfg q) (\<lambda>_. resume_turn) (\<lambda>_. resume_turn) d d"
proof (cases "resumes q")
  case False
  then show ?thesis
    by (intro turns_plain [OF unresumed.w_serve same_turn_refl d grows_refl]) (simp_all add: resume_turn_same)
next
  case True
  let ?t = "turns (placed_conf cfg) grows_conf resume_turn"
  have sandbox: "?t (answering f (resumeSandbox cfg i e)) (\<lambda>_. resume_turn) (\<lambda>_. resume_turn) d d" for f i e
    unfolding answering_def turns_bind by (rule turns_resumeSandbox [OF same_turn_refl d]) (simp_all add: resume_turn_same)
  have awaited: "?t (await (resumeSandbox cfg i e)) (\<lambda>_. resume_turn) (\<lambda>_. resume_turn) d d" for i e
    by (rule turns_await_same [OF turns_resumeSandbox [OF same_turn_refl d]]) (simp_all add: resume_turn_same)
  have clock: "?t (seq (await (guest_syncClock k)) skip) (\<lambda>_. resume_turn) (\<lambda>_. resume_turn) d d" for k
  proof (rule turns_plain [OF _ same_turn_refl d grows_refl])
    show "acts (grows_write cfg) no_resume (seq (await (guest_syncClock k)) skip)"
      by (intro acts_bind acts_rules unresumed.w_quiets)
  qed (simp_all add: resume_turn_same)
  have same: "resume_turn d d" by (simp add: resume_turn_same)
  have rest: "?t (answering (\<lambda>_. ResNone) p) (\<lambda>_. resume_turn) (\<lambda>_. resume_turn) d d"
    if "?t p (\<lambda>_. resume_turn) (\<lambda>_. resume_turn) d d" for p :: "(core, unit) prog"
    unfolding answering_def turns_bind by (rule turns_mono [OF that]) simp_all
  have migration: "?t (resumeMigration cfg i e) (\<lambda>_. resume_turn) (\<lambda>_. resume_turn) d d"
      "?t (rollbackMigration cfg i e b) (\<lambda>_. resume_turn) (\<lambda>_. resume_turn) d d" for i e b
    unfolding resumeMigration_def rollbackMigration_def turns_bind
    by (auto simp: record_of_def at_rec_def same awaited clock split: option.split)
  from True show ?thesis
    by (cases q rule: resumes.cases) (simp_all add: sandbox rest migration)
qed

interpretation worker_turns: turn_guarantee "placed_conf cfg" grows_conf "range (serve cfg)" resume_turn for cfg
  by unfold_locales (auto intro: turns_serve)

section \<open>What no schedule can break\<close>

lemma placed_empty: "c_sandboxes c = Map.empty \<Longrightarrow> placed cfg c"
  by (simp add: placed_def)

lemma sockets_differ:
  assumes "record_at cfg i r" and "record_at cfg j s" and "i \<noteq> j" and "pm_workerRoot (path_model_of cfg) \<noteq> ''/''"
  shows "sr_firecracker r \<noteq> sr_firecracker s \<and> sr_guest r \<noteq> sr_guest s \<and> sr_firecracker r \<noteq> sr_guest s"
proof -
  obtain p q where p: "sandbox_paths_of (path_model_of cfg) i (Num 0) = Inr p" "sr_firecracker r = apiSocket p" "sr_guest r = physicalVsock p"
    and q: "sandbox_paths_of (path_model_of cfg) j (Num 0) = Inr q" "sr_firecracker s = apiSocket q" "sr_guest s = physicalVsock q"
    using assms(1,2) by (auto simp: record_at_def)
  have "set (physical_paths p) \<inter> set (physical_paths q) = {}"
    by (rule paths_apart [OF path_model_of_def assms(4) p(1) q(1) assms(3)])
  then show ?thesis using p q by (auto simp: physical_paths_def)
qed


text \<open>
  C19: two sandboxes of a worker never share a machine or a guest: their records differ, and no
  socket of one is a socket of the other, however requests overlapped on the way. So a pause, a
  resume or a command meant for one sandbox never reaches another's virtual machine.
\<close>

theorem sandboxes_isolated:
  assumes "placed cfg (fst a0)" and "sched_reach (range (serve cfg)) (a0, []) ((c, l), ts)"
    and "c_sandboxes c i = Some a" and "c_sandboxes c j = Some b" and "i \<noteq> j"
    and "pm_workerRoot (path_model_of cfg) \<noteq> ''/''"
  shows "a \<noteq> b \<and> sr_firecracker (c_heap c a) \<noteq> sr_firecracker (c_heap c b)
    \<and> sr_guest (c_heap c a) \<noteq> sr_guest (c_heap c b) \<and> sr_firecracker (c_heap c a) \<noteq> sr_guest (c_heap c b)"
proof -
  have "placed cfg c" using worker.reach_ok [OF assms(2,1)] by simp
  then have at: "record_at cfg i (c_heap c a)" "record_at cfg j (c_heap c b)"
    using assms(3,4) by (simp_all add: placed_def)
  moreover have "a \<noteq> b" using at assms(5) by (auto simp: record_at_def)
  ultimately show ?thesis using sockets_differ [OF _ _ assms(5,6)] by blast
qed

abbreviation new_calls :: "(core, 'a) system \<Rightarrow> (core, 'a) system \<Rightarrow> syscall list" where
  "new_calls y z \<equiv> drop (length (snd (fst y))) (snd (fst z))"

lemma resume_turnD:
  assumes "resume_turn (fst y) (fst z)" and "resume_call k \<in> set (new_calls y z)"
  obtains x where "x < c_next (fst (fst z))" "sr_firecracker (c_heap (fst (fst z)) x) = k"
    "\<And>m. sr_loadedMigrationId (c_heap (fst (fst z)) x) = Some m \<Longrightarrow>
       m \<in> c_consumed (fst (fst z)) \<and> m \<notin> c_consumed (fst (fst y))"
  using assms unfolding resume_turn_def by fastforce


text \<open>Two paused sandboxes, the first restored from the snapshot of a migration.\<close>

definition paused_record :: "string \<Rightarrow> string option \<Rightarrow> sandbox_record" where
  "paused_record i m =
     (let p = (case sandbox_paths_of (path_model_of sample_config) i (Num 0) of Inr p \<Rightarrow> p);
          r = new_record sample_config (sample_create\<lparr>cr_id := i\<rparr>) p
            \<lparr>netns = ''n'', hostVeth = ''v'', hostAddress = [], namespaceAddress = [], subnet = []\<rparr> [] [] in
      (set_state Paused r)\<lparr>sr_loadedMigrationId := m\<rparr>)"

definition paused_core :: core where
  "paused_core = empty_core\<lparr>c_epochs := \<lparr>epochs = [(''a'', 1), (''b'', 1)], mutating = False\<rparr>,
     c_sandboxes := [''a'' \<mapsto> 0, ''b'' \<mapsto> 1], c_next := 2,
     c_heap := (\<lambda>n. if n = 0 then paused_record ''a'' (Some ''m'') else paused_record ''b'' None)\<rparr>"

lemma sample_paths:
  assumes "safeIdentifier i"
  shows "\<exists>p. sandbox_paths_of (path_model_of sample_config) i (Num 0) = Inr p"
proof -
  have ws: "pm_workerRoot (path_model_of sample_config) = path_text [''var'', ''lib'', ''firemig'']"
    "list_all plain_name [''var'', ''lib'', ''firemig'']" "[''var'', ''lib'', ''firemig''] \<noteq> []"
    by (simp_all add: path_model_of_def sample_config_def make_path_model_def path_resolve_def resolve_step_def is_absolute_def
        segments_def norm_segments_def norm_step_def path_text_def plain_name_def)
  obtain cs where "pm_canonicalRoot (path_model_of sample_config) = path_text cs" "list_all plain_name cs"
    using normal_resolve by (auto simp: path_model_of_def make_path_model_def normal_path_def)
  from sandbox_paths_closed [OF ws this assms, of 0] show ?thesis by (auto simp: max_safe_def)
qed

lemma placed_paused: "placed sample_config paused_core"
proof -
  have "safeIdentifier ''a''" "safeIdentifier ''b''" by (simp_all add: safeIdentifier_def is_alnum_def)
  from this [THEN sample_paths] show ?thesis
    by (auto simp: placed_def paused_core_def paused_record_def record_at_def new_record_def set_state_def sample_create_def Let_def)
qed

lemma resume_until:
  assumes "c_sandboxes c i = Some x" and "rec_state (c_heap c x) = Paused" and "rec_epoch (c_heap c x) \<le> e"
    and "get_epoch (c_epochs c) i = e" and "\<not> mutating (c_epochs c)" and "0 \<le> e" and "e \<le> max_safe"
    and "\<forall>m. sr_loadedMigrationId (c_heap c x) = Some m \<longrightarrow> m \<notin> c_consumed c"
  shows "\<exists>k. until_call (serve cfg (OfSandbox (ReqResume i e))) c l
    = (Waiting (resume_call (sr_firecracker (c_heap c x))) k,
        c\<lparr>c_consumed := (case sr_loadedMigrationId (c_heap c x) of None \<Rightarrow> c_consumed c | Some m \<Rightarrow> insert m (c_consumed c))\<rparr>,
        l @ [resume_call (sr_firecracker (c_heap c x))])"
proof -
  have free: "c\<lparr>c_epochs := c_epochs c\<lparr>mutating := False\<rparr>\<rparr> = c" using assms(5) by (cases c; cases "c_epochs c") simp
  show ?thesis
    using assms
    by (cases "sr_loadedMigrationId (c_heap c x)")
     (simp_all add: answering_def resumeSandbox_def mutableRecord_def record_of_def await_def on_epochs_def accept_def accept_body_def
      try_finally_def at_rec_def consume_loaded_def fc_resume_def fc_patch_def fc_request_def call_status_def resume_call_def free)
qed

lemma resume_arrives:
  assumes "c_sandboxes c i = Some x" and "rec_state (c_heap c x) = Paused" and "rec_epoch (c_heap c x) \<le> e"
    and "get_epoch (c_epochs c) i = e" and "\<not> mutating (c_epochs c)" and "0 \<le> e" and "e \<le> max_safe"
    and "\<forall>m. sr_loadedMigrationId (c_heap c x) = Some m \<longrightarrow> m \<notin> c_consumed c"
  shows "\<exists>k y z. sched_reach (range (serve cfg)) ((c, l), ts) y \<and> sched_step (range (serve cfg)) y z
    \<and> new_calls y z = [resume_call (sr_firecracker (c_heap c x))] \<and> snd z = ts @ [Waiting (resume_call (sr_firecracker (c_heap c x))) k]
    \<and> fst (fst z) = c\<lparr>c_consumed := (case sr_loadedMigrationId (c_heap c x) of None \<Rightarrow> c_consumed c | Some m \<Rightarrow> insert m (c_consumed c))\<rparr>"
proof -
  obtain k where "until_call (serve cfg (OfSandbox (ReqResume i e))) c l
    = (Waiting (resume_call (sr_firecracker (c_heap c x))) k,
        c\<lparr>c_consumed := (case sr_loadedMigrationId (c_heap c x) of None \<Rightarrow> c_consumed c | Some m \<Rightarrow> insert m (c_consumed c))\<rparr>,
        l @ [resume_call (sr_firecracker (c_heap c x))])"
    using resume_until [OF assms, of cfg l] by blast
  moreover have "serve cfg (OfSandbox (ReqResume i e)) \<in> range (serve cfg)" by (rule rangeI)
  ultimately obtain y where y: "sched_reach (range (serve cfg)) ((c, l), ts) y"
    "sched_step (range (serve cfg)) y ((c\<lparr>c_consumed := (case sr_loadedMigrationId (c_heap c x) of None \<Rightarrow> c_consumed c
        | Some m \<Rightarrow> insert m (c_consumed c))\<rparr>, l @ [resume_call (sr_firecracker (c_heap c x))]),
       ts @ [Waiting (resume_call (sr_firecracker (c_heap c x))) k])" and l: "snd (fst y) = l"
    using call_arrives [where ts = ts] by blast
  show ?thesis by (rule exI [of _ k], rule exI [of _ y], rule exI, intro conjI, rule y(1), rule y(2)) (simp_all add: l)
qed



theorem sandboxes_isolated_witness:
  "sr_firecracker (c_heap paused_core 0) \<noteq> sr_firecracker (c_heap paused_core 1)
    \<and> sr_guest (c_heap paused_core 0) \<noteq> sr_guest (c_heap paused_core 1)"
proof -
  have placed: "placed sample_config (fst (paused_core, [] :: syscall list))" using placed_paused by simp
  have root: "pm_workerRoot (path_model_of sample_config) \<noteq> ''/''"
    by (simp add: path_model_of_def sample_config_def make_path_model_def path_resolve_def resolve_step_def is_absolute_def
        segments_def norm_segments_def norm_step_def path_text_def)
  have "c_sandboxes paused_core ''a'' = Some 0" "c_sandboxes paused_core ''b'' = Some 1" "''a'' \<noteq> ''b''"
    by (simp_all add: paused_core_def)
  from sandboxes_isolated [OF placed sched_reach.here this root] show ?thesis by blast
qed

section \<open>A fence that is lost\<close>

definition running_core :: core where
  "running_core = paused_core\<lparr>c_heap := (\<lambda>n. set_state Running (paused_record ''b'' None))\<rparr>"

lemma running_core_simps [simp]:
  "c_sandboxes running_core ''b'' = Some 1" "rec_state (c_heap running_core n) = Running" "rec_epoch (c_heap running_core n) = 1"
  "get_epoch (c_epochs running_core) ''b'' = 1" "mutating (c_epochs running_core) = False" "c_relays running_core = no_relays"
  "sr_loadedMigrationId (c_heap running_core n) = None"
  by (simp_all add: running_core_def paused_core_def paused_record_def Let_def empty_core_def set_state_def new_record_def
      sample_create_def get_epoch_def)

lemma pause_until:
  "\<exists>k. until_call (serve sample_config (OfSandbox (ReqPause ''b'' 1))) running_core []
    = (Waiting (pause_call (sr_firecracker (c_heap running_core 1))) k, running_core, [pause_call (sr_firecracker (c_heap running_core 1))])
    \<and> (\<forall>E c l. run E (k (OkStatus 204 (Bytes []))) c l
        = (Value ResNone, c\<lparr>c_heap := (c_heap c)(1 := set_state Paused (c_heap c 1))\<rparr>, l))"
proof -
  have free: "running_core\<lparr>c_epochs := c_epochs running_core\<lparr>mutating := False\<rparr>\<rparr> = running_core"
    by (simp add: running_core_def paused_core_def)
  show ?thesis
    by (simp add: answering_def pauseSandbox_def mutableRecord_def record_of_def await_def on_epochs_def accept_def accept_body_def
      try_finally_def at_rec_def fc_pause_def fc_patch_def fc_request_def call_status_def pause_call_def free max_safe_def put_record_def)
qed

lemma fence_alone:
  "\<exists>l'. run calm (serve sample_config (OfSandbox (ReqFence ''b'' 2))) running_core l
    = (Value ResNone, running_core\<lparr>c_epochs := set_epoch ''b'' 2 (c_epochs running_core),
        c_heap := (c_heap running_core)(1 := fenced_record 2 (c_heap running_core 1))\<rparr>, l')"
proof -
  have relays: "running_core\<lparr>c_epochs := x, c_heap := h, c_relays := no_relays\<rparr> = running_core\<lparr>c_epochs := x, c_heap := h\<rparr>" for x h
    by (simp add: running_core_def paused_core_def empty_core_def)
  have none: "relayOf no_relays i = None" for i by (simp add: no_relays_def)
  show ?thesis
    by (simp add: answering_def fenceSandbox_def run_simps record_of_def on_epochs_def epochs_field.run_zoom run_accept max_safe_def
      persist_def Let_def call_text_def call_int_def at_rec_def put_info_def put_record_def on_relays_def relays_field.run_zoom
      run_stopSandbox fence_actions_def downHostVeth_def runPlans_def none relays fc_pause_def fc_patch_def run_fc_request
      first_failure_def fenced_record_def)
qed

text \<open>
  C17: a fence can be lost. While a pause of the old owner waits for the machine's answer, the
  new owner fences the sandbox at a newer epoch and the fence is confirmed: the record is
  fenced. The answer to the pause then arrives and overwrites the state, and the machine that
  was fenced off is resumed by the next request: \<open>pauseSandbox\<close> (and \<open>resumeSandbox\<close>) set the
  state after their last suspension without looking at it again.
\<close>

theorem fence_lost_to_pause:
  "\<exists>c1 l1 k c2 l2 k' y z. sched_reach (range (serve sample_config)) ((running_core, []), [])
       ((c1, l1), [Waiting (pause_call (sr_firecracker (c_heap c1 1))) k, Finished (Inr ResNone)])
    \<and> rec_state (c_heap c1 1) = FencedState \<and> get_epoch (c_epochs c1) ''b'' = 2
    \<and> sched_reach (range (serve sample_config))
       ((c1, l1), [Waiting (pause_call (sr_firecracker (c_heap c1 1))) k, Finished (Inr ResNone)])
       ((c2, l2), [Finished (Inr ResNone), Finished (Inr ResNone)])
    \<and> rec_state (c_heap c2 1) = Paused
    \<and> sched_reach (range (serve sample_config)) ((c2, l2), [Finished (Inr ResNone), Finished (Inr ResNone)]) y
    \<and> sched_step (range (serve sample_config)) y z \<and> new_calls y z = [resume_call k']
    \<and> k' = sr_firecracker (c_heap c1 1)"
proof -
  let ?P = "range (serve sample_config)" and ?s = "sr_firecracker (c_heap running_core 1)"
  have progs: "serve sample_config q \<in> ?P" for q by (rule rangeI)
  let ?fenced = "running_core\<lparr>c_epochs := set_epoch ''b'' 2 (c_epochs running_core),
        c_heap := (c_heap running_core)(1 := fenced_record 2 (c_heap running_core 1))\<rparr>"
  obtain k where pause: "until_call (serve sample_config (OfSandbox (ReqPause ''b'' 1))) running_core []
      = (Waiting (pause_call ?s) k, running_core, [pause_call ?s])"
    and answer: "\<And>E c l. run E (k (OkStatus 204 (Bytes []))) c l
        = (Value ResNone, c\<lparr>c_heap := (c_heap c)(1 := set_state Paused (c_heap c 1))\<rparr>, l)"
    using pause_until by blast
  obtain l1 where fence: "run calm (serve sample_config (OfSandbox (ReqFence ''b'' 2))) running_core [pause_call ?s]
      = (Value ResNone, ?fenced, l1)" using fence_alone by blast
  have "sched_reach ?P ((running_core, []), []) ((running_core, [pause_call ?s]), [Waiting (pause_call ?s) k])"
    using call_arrives [OF pause progs, where ts = "[]"] by (auto intro: sched_reach.more)
  moreover have "sched_reach ?P ((running_core, [pause_call ?s]), [Waiting (pause_call ?s) k])
      ((?fenced, l1), [Waiting (pause_call ?s) k, Finished (Inr ResNone)])"
    using run_arrives [OF fence progs, where ts = "[Waiting (pause_call ?s) k]"] by (simp only: append_Cons append_Nil)
  ultimately have first: "sched_reach ?P ((running_core, []), []) ((?fenced, l1), [Waiting (pause_call ?s) k, Finished (Inr ResNone)])"
    by (blast intro: sched_trans)
  let ?paused = "?fenced\<lparr>c_heap := (c_heap ?fenced)(1 := set_state Paused (c_heap ?fenced 1))\<rparr>"
  have second: "sched_reach ?P ((?fenced, l1), [Waiting (pause_call ?s) k, Finished (Inr ResNone)])
      ((?paused, l1), [Finished (Inr ResNone), Finished (Inr ResNone)])"
    using run_answered [where k = k and r = "OkStatus 204 (Bytes [])" and i = 0 and c = "pause_call ?s"
        and ts = "[Waiting (pause_call ?s) k, Finished (Inr ResNone)]", OF answer [of calm ?fenced l1], of ?P]
    by (simp only: list.size list_update.simps nth_Cons_0 zero_less_Suc nat.case plus_1_eq_Suc add_Suc_right)
  have "\<exists>k y z. sched_reach ?P ((?paused, l1), [Finished (Inr ResNone), Finished (Inr ResNone)]) y \<and> sched_step ?P y z
    \<and> new_calls y z = [resume_call (sr_firecracker (c_heap ?paused 1))]
    \<and> snd z = [Finished (Inr ResNone), Finished (Inr ResNone)] @ [Waiting (resume_call (sr_firecracker (c_heap ?paused 1))) k]
    \<and> fst (fst z) = ?paused\<lparr>c_consumed := (case sr_loadedMigrationId (c_heap ?paused 1) of None \<Rightarrow> c_consumed ?paused
         | Some m \<Rightarrow> insert m (c_consumed ?paused))\<rparr>"
    by (rule resume_arrives [where i = "''b''" and e = 2]) (simp_all add: set_state_def max_safe_def)
  then obtain y z where yz: "sched_reach ?P ((?paused, l1), [Finished (Inr ResNone), Finished (Inr ResNone)]) y"
    "sched_step ?P y z" "new_calls y z = [resume_call (sr_firecracker (c_heap ?paused 1))]" by blast
  have parts: "sr_firecracker (c_heap ?fenced 1) = ?s" "sr_firecracker (c_heap ?paused 1) = ?s"
    "rec_state (c_heap ?fenced 1) = FencedState" "rec_state (c_heap ?paused 1) = Paused" "get_epoch (c_epochs ?fenced) ''b'' = 2"
    by (simp_all add: set_state_def)
  show ?thesis
    by (rule exI [of _ ?fenced], rule exI [of _ l1], rule exI [of _ k], rule exI [of _ ?paused], rule exI [of _ l1],
        rule exI [of _ ?s], rule exI [of _ y], rule exI [of _ z], unfold parts(1), intro conjI first second yz(1,2) parts refl)
      (simp only: yz(3) parts(2))
qed

end
