(* ===== verification/Rely.thy ===== *)
theory Rely
  imports Acts
begin

text \<open>
  Assertions for programs among others, over a state that only moves forward: \<open>J\<close> is the
  invariant, \<open>M\<close> how the state may change from one moment to a later one, and \<open>T\<close>, within
  \<open>M\<close>, how a program itself changes it in one turn. A program has a precondition on the state
  it starts in and postconditions on its value and on an error; at a suspension only facts that
  \<open>M\<close> preserves survive.
\<close>

locale forward =
  fixes J :: "'s \<Rightarrow> bool" and M :: "'s \<Rightarrow> 's \<Rightarrow> bool" and T :: "'s \<Rightarrow> 's \<Rightarrow> bool"
  assumes M_refl: "M s s" and M_trans: "M s t \<Longrightarrow> M t u \<Longrightarrow> M s u"
    and T_refl: "T s s" and T_trans: "T s t \<Longrightarrow> T t u \<Longrightarrow> T s u" and T_M: "T s t \<Longrightarrow> M s t"
begin

abbreviation JC :: "'s conf \<Rightarrow> bool" where "JC c \<equiv> J (fst c)"
abbreviation MC :: "'s conf \<Rightarrow> 's conf \<Rightarrow> bool" where "MC c d \<equiv> M (fst c) (fst d)"
abbreviation TC :: "'s conf \<Rightarrow> 's conf \<Rightarrow> bool" where "TC c d \<equiv> J (fst d) \<and> T (fst c) (fst d)"

definition ensures :: "('s \<Rightarrow> bool) \<Rightarrow> ('s, 'a) prog \<Rightarrow> ('a \<Rightarrow> 's \<Rightarrow> bool) \<Rightarrow> ('s \<Rightarrow> bool) \<Rightarrow> bool" where
  "ensures P p Q X \<longleftrightarrow> (\<forall>a b. TC a b \<longrightarrow> P (fst b) \<longrightarrow>
     turns JC MC TC p (\<lambda>v a b. TC a b \<and> Q v (fst b)) (\<lambda>_ a b. TC a b \<and> X (fst b)) a b)"

definition stable :: "('s \<Rightarrow> bool) \<Rightarrow> bool" where
  "stable F \<longleftrightarrow> (\<forall>s t. J s \<longrightarrow> J t \<longrightarrow> M s t \<longrightarrow> F s \<longrightarrow> F t)"

lemma stable_const [simp]: "stable (\<lambda>_. b)"
  by (simp add: stable_def)

lemma stable_conj [intro]: "stable F \<Longrightarrow> stable G \<Longrightarrow> stable (\<lambda>s. F s \<and> G s)"
  by (simp add: stable_def)

lemma ensures_Return: "(\<And>s. J s \<Longrightarrow> P s \<Longrightarrow> Q v s) \<Longrightarrow> ensures P (Return v) Q X"
  by (simp add: ensures_def)

lemma ensures_Throw: "(\<And>s. J s \<Longrightarrow> P s \<Longrightarrow> X s) \<Longrightarrow> ensures P (Throw e) Q X"
  by (simp add: ensures_def)

lemma ensures_settle:
  "(\<And>v s. r = Inr v \<Longrightarrow> J s \<Longrightarrow> P s \<Longrightarrow> Q v s) \<Longrightarrow> (\<And>e s. r = Inl e \<Longrightarrow> J s \<Longrightarrow> P s \<Longrightarrow> X s) \<Longrightarrow> ensures P (settle r) Q X"
  by (cases r) (simp_all add: ensures_Return ensures_Throw)

lemma ensures_Read: "(\<And>s. ensures (\<lambda>t. t = s \<and> P t) (k s) Q X) \<Longrightarrow> ensures P (Read k) Q X"
  by (simp add: ensures_def)

lemma ensures_Write:
  "(\<And>s. J s \<Longrightarrow> P s \<Longrightarrow> J (u s) \<and> T s (u s) \<and> P' (u s)) \<Longrightarrow> ensures P' p Q X \<Longrightarrow> ensures P (Write u p) Q X"
proof -
  assume u: "\<And>s. J s \<Longrightarrow> P s \<Longrightarrow> J (u s) \<and> T s (u s) \<and> P' (u s)" and p: "ensures P' p Q X"
  show "ensures P (Write u p) Q X"
    unfolding ensures_def turns.simps
  proof (intro allI impI)
    fix a b :: "'s conf"
    assume "TC a b" "P (fst b)"
    with u [of "fst b"] have "TC a (u (fst b), snd b)" "P' (u (fst b))" by (auto intro: T_trans)
    then show "turns JC MC TC p (\<lambda>v a b. TC a b \<and> Q v (fst b)) (\<lambda>_ a b. TC a b \<and> X (fst b)) a (u (fst b), snd b)"
      by (intro p [unfolded ensures_def, rule_format]) (simp_all only: fst_conv)
  qed
qed

lemma ensures_modify:
  "(\<And>s. J s \<Longrightarrow> P s \<Longrightarrow> J (u s) \<and> T s (u s) \<and> Q () (u s)) \<Longrightarrow> ensures P (modify u) Q X"
  by (rule ensures_Write [where P' = "Q ()"]) (auto intro: ensures_Return)

lemma ensures_Yield:
  assumes "\<And>s t. J s \<Longrightarrow> P s \<Longrightarrow> J t \<Longrightarrow> M s t \<Longrightarrow> g t \<Longrightarrow> P' t" and "ensures P' p Q X"
  shows "ensures P (Yield g p) Q X"
  unfolding ensures_def
proof (intro allI impI)
  fix a b
  assume b: "TC a b" "P (fst b)"
  have "turns JC MC TC p (\<lambda>v a b. TC a b \<and> Q v (fst b)) (\<lambda>_ a b. TC a b \<and> X (fst b)) d d"
    if "JC d" "MC b d" "g (fst d)" for d
  proof -
    have "P' (fst d)" using assms(1) b that by blast
    moreover have "TC d d" using that(1) T_refl by blast
    ultimately show ?thesis using assms(2) unfolding ensures_def by blast
  qed
  with b show "turns JC MC TC (Yield g p) (\<lambda>v a b. TC a b \<and> Q v (fst b)) (\<lambda>_ a b. TC a b \<and> X (fst b)) a b"
    by simp
qed

lemma ensures_conseq:
  assumes "ensures P' p Q' X'" and "\<And>s. J s \<Longrightarrow> P s \<Longrightarrow> P' s"
    and "\<And>v s. J s \<Longrightarrow> Q' v s \<Longrightarrow> Q v s" and "\<And>s. J s \<Longrightarrow> X' s \<Longrightarrow> X s"
  shows "ensures P p Q X"
  unfolding ensures_def
  by (intro allI impI turns_mono [OF assms(1) [unfolded ensures_def, rule_format]]) (use assms(2-4) in auto)

lemma ensures_bind:
  assumes "ensures P p Q' X" and "\<And>v. ensures (Q' v) (f v) Q X"
  shows "ensures P (bind p f) Q X"
  unfolding ensures_def turns_bind
proof (intro allI impI)
  fix a b
  assume "TC a b" "P (fst b)"
  from assms(1) [unfolded ensures_def, rule_format, OF this]
  show "turns JC MC TC p (\<lambda>v. turns JC MC TC (f v) (\<lambda>v a b. TC a b \<and> Q v (fst b)) (\<lambda>_ a b. TC a b \<and> X (fst b)))
      (\<lambda>_ a b. TC a b \<and> X (fst b)) a b"
    by (rule turns_mono) (use assms(2) in \<open>auto simp: ensures_def\<close>)
qed

lemma ensures_seq: "ensures P p (\<lambda>_. P') X \<Longrightarrow> ensures P' q Q X \<Longrightarrow> ensures P (seq p q) Q X"
  by (rule ensures_bind)

lemma ensures_attempt:
  assumes "ensures P p Q' X'" and "\<And>v s. J s \<Longrightarrow> Q' v s \<Longrightarrow> Q (Inr v) s" and "\<And>e s. J s \<Longrightarrow> X' s \<Longrightarrow> Q (Inl e) s"
  shows "ensures P (attempt p) Q X"
  unfolding ensures_def turns_attempt
  by (intro allI impI turns_mono [OF assms(1) [unfolded ensures_def, rule_format]]) (use assms(2,3) in auto)

lemma ensures_await:
  assumes "ensures P p Q X" and "\<And>v. stable (Q v)" and "stable X"
  shows "ensures P (await p) Q X"
  unfolding await_def
proof (rule ensures_bind)
  let ?Q = "\<lambda>r s. case r of Inl _ \<Rightarrow> X s | Inr v \<Rightarrow> Q v s"
  show "ensures P (attempt p) ?Q X" by (rule ensures_attempt [OF assms(1)]) simp_all
  show "ensures (?Q r) (Yield (\<lambda>_. True) (settle r)) Q X" for r
  proof (rule ensures_Yield)
    show "?Q r t" if "J s" "?Q r s" "J t" "M s t" for s t
      using that assms(2,3) by (cases r) (auto simp: stable_def)
    show "ensures (?Q r) (settle r) Q X" by (rule ensures_settle) simp_all
  qed
qed

lemma ensures_finally:
  assumes "ensures P p Q' X'" and "\<And>v. ensures (Q' v) q (\<lambda>_. Q v) X" and "ensures X' q (\<lambda>_. X) X"
  shows "ensures P (try_finally p q) Q X"
  unfolding try_finally_def
proof (rule ensures_bind)
  let ?Q = "\<lambda>r s. case r of Inl _ \<Rightarrow> X' s | Inr v \<Rightarrow> Q' v s"
  show "ensures P (attempt p) ?Q X" by (rule ensures_attempt [OF assms(1)]) simp_all
  show "ensures (?Q r) (seq q (settle r)) Q X" for r
  proof (cases r)
    case (Inl e)
    have "ensures X' (seq q (Throw e)) Q X" by (rule ensures_bind [OF assms(3)]) (simp add: ensures_Throw)
    with Inl show ?thesis by simp
  next
    case (Inr v)
    have "ensures (Q' v) (seq q (Return v)) Q X" by (rule ensures_bind [OF assms(2)]) (simp add: ensures_Return)
    with Inr show ?thesis by simp
  qed
qed

lemma ensures_try_catch:
  assumes "ensures P p Q X'" and "\<And>e. ensures X' (h e) Q X"
  shows "ensures P (try_catch p h) Q X"
  unfolding try_catch_def
proof (rule ensures_bind)
  let ?Q = "\<lambda>r s. case r of Inl _ \<Rightarrow> X' s | Inr v \<Rightarrow> Q v s"
  show "ensures P (attempt p) ?Q X" by (rule ensures_attempt [OF assms(1)]) simp_all
  show "ensures (?Q r) (case r of Inl e \<Rightarrow> h e | Inr v \<Rightarrow> Return v) Q X" for r
    using assms(2) by (cases r) (simp_all add: ensures_Return)
qed

text \<open>\<open>keeps p\<close>: whatever \<open>p\<close> does keeps the invariant and the relation.\<close>

abbreviation keeps :: "('s, 'a) prog \<Rightarrow> bool" where
  "keeps p \<equiv> ensures (\<lambda>_. True) p (\<lambda>_ _. True) (\<lambda>_. True)"

lemma kept_from: "ensures P p Q X \<Longrightarrow> ensures P p (\<lambda>_ _. True) (\<lambda>_. True)"
  by (erule ensures_conseq) simp_all

lemma kept_anywhere: "keeps p \<Longrightarrow> ensures P p (\<lambda>_ _. True) (\<lambda>_. True)"
  by (erule ensures_conseq) simp_all

lemma kept_bind: "keeps p \<Longrightarrow> (\<And>v. keeps (f v)) \<Longrightarrow> keeps (bind p f)"
  by (rule ensures_bind)

lemma kept_bind_settle: "(\<And>v. r = Inr v \<Longrightarrow> keeps (f v)) \<Longrightarrow> keeps (bind (settle r) f)"
  by (cases r) (simp_all add: ensures_Throw)

lemma kept_Read: "(\<And>s. keeps (k s)) \<Longrightarrow> keeps (Read k)"
  by (rule ensures_Read) (rule kept_anywhere)

lemma kept_await: "keeps p \<Longrightarrow> keeps (await p)"
  by (rule ensures_await) simp_all

text \<open>A fact that every change preserves is still there at the end of the program.\<close>

lemma ensures_frame:
  fixes p :: "('s, 'b) prog"
  assumes "ensures P p Q X" and F: "stable F" and P': "\<And>s. P' s \<Longrightarrow> P s \<and> F s"
  shows "ensures P' p (\<lambda>v s. Q v s \<and> F s) (\<lambda>s. X s \<and> F s)"
proof -
  have later: "F (fst d)" if "JC c" "F (fst c)" "JC d" "MC c d" for c d using F that unfolding stable_def by blast
  have "turns JC MC TC p (\<lambda>v a b. TC a b \<and> Q v (fst b) \<and> F (fst b)) (\<lambda>_ a b. TC a b \<and> X (fst b) \<and> F (fst b)) a b"
    if "turns JC MC TC p (\<lambda>v a b. TC a b \<and> Q v (fst b)) (\<lambda>_ a b. TC a b \<and> X (fst b)) a b" "JC a" "F (fst a)" for a b
    using that
  proof (induction p arbitrary: a b)
    case (Call y k)
    let ?b = "(fst b, snd b @ [y])"
    have "turns JC MC TC (k r) (\<lambda>v a b. TC a b \<and> Q v (fst b) \<and> F (fst b)) (\<lambda>_ a b. TC a b \<and> X (fst b) \<and> F (fst b)) d d"
      if d: "JC d" "MC ?b d" for r d
    proof (rule Call.IH [OF rangeI])
      show "turns JC MC TC (k r) (\<lambda>v a b. TC a b \<and> Q v (fst b)) (\<lambda>_ a b. TC a b \<and> X (fst b)) d d"
        using Call.prems(1) d by (cases d) simp
      have "JC ?b" "MC a ?b" using Call.prems(1) T_M by simp_all
      with later [of a ?b] later [of ?b d] Call.prems(2,3) d show "F (fst d)" by blast
    qed (rule d)
    with Call.prems(1) show ?case by simp
  next
    case (Yield g p)
    have "turns JC MC TC p (\<lambda>v a b. TC a b \<and> Q v (fst b) \<and> F (fst b)) (\<lambda>_ a b. TC a b \<and> X (fst b) \<and> F (fst b)) d d"
      if d: "JC d" "MC b d" "g (fst d)" for d
    proof (rule Yield.IH)
      show "turns JC MC TC p (\<lambda>v a b. TC a b \<and> Q v (fst b)) (\<lambda>_ a b. TC a b \<and> X (fst b)) d d"
        using Yield.prems(1) d by (cases d) simp
      have "JC b" "MC a b" using Yield.prems(1) T_M by simp_all
      with later [of a b] later [of b d] Yield.prems(2,3) d show "F (fst d)" by blast
    qed (rule d)
    with Yield.prems(1) show ?case by simp
  next
    case (Return v)
    then have "TC a b \<and> Q v (fst b)" by simp
    with later [of a b] Return.prems(2,3) T_M show ?case by simp
  next
    case (Throw e)
    then have "TC a b \<and> X (fst b)" by simp
    with later [of a b] Throw.prems(2,3) T_M show ?case by simp
  next
    case (Read k)
    from Read.prems(1) have "turns JC MC TC (k (fst b)) (\<lambda>v a b. TC a b \<and> Q v (fst b)) (\<lambda>_ a b. TC a b \<and> X (fst b)) a b" by simp
    from Read.IH [OF rangeI this Read.prems(2,3)] show ?case by simp
  next
    case (Write u p)
    from Write.prems(1) have "turns JC MC TC p (\<lambda>v a b. TC a b \<and> Q v (fst b)) (\<lambda>_ a b. TC a b \<and> X (fst b)) a (u (fst b), snd b)" by simp
    from Write.IH [OF this Write.prems(2,3)] show ?case by simp
  qed
  note framed = this
  show ?thesis
    unfolding ensures_def
  proof (intro allI impI)
    fix a b
    assume b: "TC a b" "P' (fst b)"
    then have "TC b b" "P (fst b)" "F (fst b)" using P' T_refl by blast+
    with assms(1) framed [of b b]
    have "turns JC MC TC p (\<lambda>v a b. TC a b \<and> Q v (fst b) \<and> F (fst b)) (\<lambda>_ a b. TC a b \<and> X (fst b) \<and> F (fst b)) b b"
      unfolding ensures_def by blast
    then show "turns JC MC TC p (\<lambda>v a b. TC a b \<and> Q v (fst b) \<and> F (fst b)) (\<lambda>_ a b. TC a b \<and> X (fst b) \<and> F (fst b)) a b"
      by (rule turns_earlier [where T = TC]) (use b(1) in \<open>auto intro: T_trans\<close>)
  qed
qed

text \<open>A program all of whose writes keep the invariant and the relation, from a precondition that lasts.\<close>

lemma ensures_acts_from:
  assumes W: "\<And>u s. W u \<Longrightarrow> J s \<Longrightarrow> P s \<Longrightarrow> J (u s) \<and> T s (u s)" and P: "stable P" and "acts W C p"
  shows "ensures P p (\<lambda>_. P) P"
  unfolding ensures_def
proof (intro allI impI)
  fix a b
  assume "TC a b" "P (fst b)"
  with assms(3) show "turns JC MC TC p (\<lambda>_ a b. TC a b \<and> P (fst b)) (\<lambda>_ a b. TC a b \<and> P (fst b)) a b"
  proof (induction p arbitrary: a b)
    case (Write u p)
    then have u: "J (u (fst b)) \<and> T (fst b) (u (fst b))" using W by auto
    with Write.prems P have "P (u (fst b))" unfolding stable_def using T_M by blast
    moreover have "TC a (u (fst b), snd b)" using u Write.prems(2) by (auto intro: T_trans)
    ultimately show ?case using Write.IH [of "(u (fst b), snd b)" a] Write.prems(1) by simp
  next
    case (Call y k)
    have "turns JC MC TC (k r) (\<lambda>_ a b. TC a b \<and> P (fst b)) (\<lambda>_ a b. TC a b \<and> P (fst b)) d d"
      if "JC d" "M (fst b) (fst d)" for r d
    proof (rule Call.IH [OF rangeI])
      show "P (fst d)" using P Call.prems(2,3) that unfolding stable_def by blast
    qed (use Call.prems(1) that T_refl in auto)
    with Call.prems show ?case by simp
  next
    case (Yield g p)
    have "turns JC MC TC p (\<lambda>_ a b. TC a b \<and> P (fst b)) (\<lambda>_ a b. TC a b \<and> P (fst b)) d d"
      if "JC d" "M (fst b) (fst d)" for d
    proof (rule Yield.IH)
      show "P (fst d)" using P Yield.prems(2,3) that unfolding stable_def by blast
    qed (use Yield.prems(1) that T_refl in auto)
    with Yield.prems show ?case by simp
  qed (auto simp: rangeI)
qed

lemma ensures_acts:
  assumes "\<And>u s. W u \<Longrightarrow> J s \<Longrightarrow> J (u s) \<and> T s (u s)" and "acts W C p"
  shows "ensures (\<lambda>_. True) p (\<lambda>_ _. True) (\<lambda>_. True)"
  by (rule ensures_acts_from [OF _ _ assms(2)]) (use assms(1) in auto)

text \<open>A program that keeps the relation is one that may arrive.\<close>

lemma ensures_turns: "ensures (\<lambda>_. True) p (\<lambda>_ _. True) (\<lambda>_. True) \<Longrightarrow> JC d \<Longrightarrow> turns JC MC TC p (\<lambda>_. TC) (\<lambda>_. TC) d d"
  unfolding ensures_def using T_refl by (cases d) simp

lemma ensures_rg_prog: "ensures (\<lambda>_. True) p (\<lambda>_ _. True) (\<lambda>_. True) \<Longrightarrow> rg_prog JC MC p"
  unfolding rg_prog_def
proof (intro allI impI)
  fix a
  assume "ensures (\<lambda>_. True) p (\<lambda>_ _. True) (\<lambda>_. True)" "JC a"
  from rg_turns [OF ensures_turns [OF this]]
  have "rg JC MC p (\<lambda>_. TC) (\<lambda>_. TC) a a" using T_M by blast
  then show "rg JC MC p (\<lambda>_ a b. JC b \<and> MC a b) (\<lambda>_ a b. JC b \<and> MC a b) a a"
    by (rule rg_mono) (auto intro: T_M)
qed

end

section \<open>Schedules as lists\<close>

text \<open>A schedule that can be computed: programs arrive, calls are answered and ready threads take their turns.\<close>

datatype ('s, 'a) move = Arrive "('s, 'a) prog" | Turn nat | Answer nat reply

fun perform :: "('s, 'a) system \<Rightarrow> ('s, 'a) move \<Rightarrow> ('s, 'a) system" where
  "perform ((s, l), ts) (Arrive p) = (case advance p s l of (t, s', l') \<Rightarrow> ((s', l'), ts @ [t]))"
| "perform ((s, l), ts) (Turn i) = (if i < length ts then (case ts ! i of
       Ready g p \<Rightarrow> if g s then (case advance p s l of (t, s', l') \<Rightarrow> ((s', l'), ts[i := t])) else ((s, l), ts)
     | _ \<Rightarrow> ((s, l), ts)) else ((s, l), ts))"
| "perform ((s, l), ts) (Answer i r) = (if i < length ts then (case ts ! i of
       Waiting c k \<Rightarrow> (case advance (k r) s l of (t, s', l') \<Rightarrow> ((s', l'), ts[i := t]))
     | _ \<Rightarrow> ((s, l), ts)) else ((s, l), ts))"

lemma perform_reach: "(\<And>p. m = Arrive p \<Longrightarrow> p \<in> Progs) \<Longrightarrow> sched_reach Progs x (perform x m)"
proof -
  assume progs: "\<And>p. m = Arrive p \<Longrightarrow> p \<in> Progs"
  obtain s l ts where x: "x = ((s, l), ts)" by (metis prod.collapse)
  show ?thesis
  proof (cases m)
    case (Arrive p)
    obtain t s' l' where "advance p s l = (t, s', l')" by (metis prod.collapse)
    with progs [OF Arrive] x Arrive show ?thesis by (auto intro: sched_reach.intros sched_step.arrive)
  next
    case (Turn i)
    show ?thesis
    proof (cases "i < length ts \<and> (\<exists>g p. ts ! i = Ready g p \<and> g s)")
      case True
      then obtain g p where g: "i < length ts" "ts ! i = Ready g p" "g s" by blast
      obtain t s' l' where a: "advance p s l = (t, s', l')" by (metis prod.collapse)
      from sched_step.turn [OF g a] have "sched_step Progs x (perform x m)" using x Turn g a by simp
      then show ?thesis by (auto intro: sched_reach.intros)
    next
      case False
      with x Turn have "perform x m = x" by (auto split: thread.splits)
      then show ?thesis by (simp add: sched_reach.here)
    qed
  next
    case (Answer i r)
    show ?thesis
    proof (cases "i < length ts \<and> (\<exists>c k. ts ! i = Waiting c k)")
      case True
      then obtain c k where k: "i < length ts" "ts ! i = Waiting c k" by blast
      obtain t s' l' where a: "advance (k r) s l = (t, s', l')" by (metis prod.collapse)
      from sched_step.answer [OF k a] have "sched_step Progs x (perform x m)" using x Answer k a by simp
      then show ?thesis by (auto intro: sched_reach.intros)
    next
      case False
      with x Answer have "perform x m = x" by (auto split: thread.splits)
      then show ?thesis by (simp add: sched_reach.here)
    qed
  qed
qed

lemma performs_reach: "(\<And>p. Arrive p \<in> set ms \<Longrightarrow> p \<in> Progs) \<Longrightarrow> sched_reach Progs x (foldl perform x ms)"
proof (induction ms arbitrary: x)
  case (Cons m ms)
  have "sched_reach Progs x (perform x m)" by (rule perform_reach) (simp add: Cons.prems)
  moreover have "sched_reach Progs (perform x m) (foldl perform (perform x m) ms)" by (rule Cons.IH) (simp add: Cons.prems)
  ultimately show ?case by (auto intro: sched_trans)
qed (simp add: sched_reach.here)

end
