(* ===== verification/Worker_Starts.thy ===== *)
theory Worker_Starts
  imports Worker_Threads Rely
begin

text \<open>
  Which requests start a machine. However requests overlap, a sandbox that is not running is
  not running later, unless a request arrived that asks to start that very sandbox; what other
  sandboxes are asked for does not matter. This is what a coordinator of several workers may
  count on.
\<close>

section \<open>Turns that leave a sandbox off\<close>

definition off :: "core \<Rightarrow> string \<Rightarrow> bool" where
  "off c i \<longleftrightarrow> (case c_sandboxes c i of None \<Rightarrow> True | Some a \<Rightarrow> rec_state (c_heap c a) \<noteq> Running)"

definition leaves_off :: "string \<Rightarrow> core \<Rightarrow> core \<Rightarrow> bool" where
  "leaves_off i c c' \<longleftrightarrow> grows c c' \<and> (off c i \<longrightarrow> off c' i)"

interpretation unstarted: forward "placed cfg" grows "leaves_off i" for cfg i
  by unfold_locales (auto simp: leaves_off_def intro: grows_trans)

abbreviation off_write :: "worker_config \<Rightarrow> string \<Rightarrow> (core \<Rightarrow> core) \<Rightarrow> bool" where
  "off_write cfg i u \<equiv> \<forall>c. placed cfg c \<longrightarrow> placed cfg (u c) \<and> leaves_off i c (u c)"

lemma off_aside: "c_sandboxes c' = c_sandboxes c \<Longrightarrow> c_heap c' = c_heap c \<Longrightarrow> off c' i = off c i"
  by (auto simp: off_def split: option.split)

lemma off_put: "(rec_state r = Running \<Longrightarrow> rec_state (c_heap c a) = Running) \<Longrightarrow> off c i \<Longrightarrow>
    off (c\<lparr>c_heap := (c_heap c)(a := r)\<rparr>) i"
  by (auto simp: off_def split: option.splits)

lemma off_write_add:
  assumes "sandbox_paths_of (path_model_of cfg) (cr_id q) (Num 0) = Inr p"
  shows "off_write cfg i (add_record (cr_id q) (new_record cfg q p n keys now))"
proof (intro allI impI)
  fix c
  assume c: "placed cfg c"
  let ?c = "add_record (cr_id q) (new_record cfg q p n keys now) c"
  have "off ?c i" if "off c i"
    using that c by (auto simp: off_def add_record_def new_record_def placed_def split: option.splits if_splits)
  then show "placed cfg ?c \<and> leaves_off i c ?c"
    using grows_write_add [OF assms] c by (simp add: leaves_off_def)
qed

text \<open>Every write of a request that starts nothing is such a write.\<close>

interpretation unstarting: core_change cfg UNIV "\<lambda>_. True" "off_write cfg i" False for cfg i
proof unfold_locales
  show "off_write cfg i u" if "\<And>c. c_sandboxes (u c) = c_sandboxes c \<and> c_heap (u c) = c_heap c \<and> c_next (u c) = c_next c
      \<and> c_consumed (u c) = c_consumed c" for u
  proof -
    have "off (u c) i = off c i" for c by (rule off_aside) (simp_all add: that)
    with grows_write_aside [OF that] show ?thesis by (simp add: leaves_off_def)
  qed
  show "off_write cfg i (\<lambda>c. c\<lparr>c_consumed := insert m (c_consumed c)\<rparr>)" for m
    by (auto simp: leaves_off_def off_def placed_def grows_def split: option.splits)
  show "off_write cfg i (\<lambda>c. c\<lparr>c_heap := (c_heap c)(a := g (c_heap c a))\<rparr>)"
    if "\<And>r. same_identity r (g r)" "\<And>r. rec_state (g r) = Running \<Longrightarrow> rec_state r = Running \<or> False" for a g
    using grows_write_put [OF that(1)] that(2) by (auto simp: leaves_off_def intro!: off_put)
  show "off_write cfg i (\<lambda>c. c\<lparr>c_sandboxes := map_delete j (c_sandboxes c)\<rparr>)" for j
    by (auto simp: leaves_off_def off_def placed_def grows_def split: option.splits)
qed (simp_all add: off_write_add)

section \<open>Starting another sandbox\<close>

text \<open>A record of \<open>j\<close> stays one; a write to it does not start \<open>i\<close>.\<close>

definition record_for :: "string \<Rightarrow> nat \<Rightarrow> core \<Rightarrow> bool" where
  "record_for j a c \<longleftrightarrow> a < c_next c \<and> info_id (sr_info (c_heap c a)) = j"

lemma record_for_stable: "unstarted.stable cfg (record_for j a)"
  by (auto simp: unstarted.stable_def record_for_def grows_def same_identity_def)

lemmas for_acts = unstarted.ensures_acts_from [where W = "off_write cfg i" and P = "record_for j a" for cfg i j a, OF _ record_for_stable]

lemma keeps_acts: "acts (off_write cfg i) (\<lambda>_. True) p \<Longrightarrow> unstarted.keeps cfg i p"
  by (rule unstarted.ensures_acts [where W = "off_write cfg i"]) simp_all

lemma for_others: "acts (off_write cfg i) (\<lambda>_. True) p \<Longrightarrow> unstarted.ensures cfg i (record_for j a) p (\<lambda>_. record_for j a) (record_for j a)"
  by (rule for_acts) simp_all

lemma for_put:
  assumes "i \<noteq> j" and "\<And>r. same_identity r (g r)"
  shows "unstarted.ensures cfg i (record_for j a) (put_record a g) (\<lambda>_. record_for j a) (record_for j a)"
  unfolding put_record_def
proof (rule unstarted.ensures_modify)
  fix c
  assume c: "placed cfg c" "record_for j a c"
  let ?c = "c\<lparr>c_heap := (c_heap c)(a := g (c_heap c a))\<rparr>"
  have g: "placed cfg ?c \<and> grows c ?c" using grows_write_put [OF assms(2)] c(1) by blast
  have "off ?c i = off c i"
    using c assms(1) by (auto simp: off_def placed_def record_at_def record_for_def split: option.split)
  with g c(2) assms(2) show "placed cfg ?c \<and> leaves_off i c ?c \<and> record_for j a ?c"
    by (auto simp: leaves_off_def record_for_def same_identity_def)
qed

lemma for_record_of: "unstarted.ensures cfg i (\<lambda>_. True) (record_of j) (record_for j) (\<lambda>_. True)"
  unfolding record_of_def
proof (rule unstarted.ensures_Read)
  fix c
  show "unstarted.ensures cfg i (\<lambda>t. t = c \<and> True)
     (case c_sandboxes c j of None \<Rightarrow> Throw (sandboxNotFound j) | Some a \<Rightarrow> Return a) (record_for j) (\<lambda>_. True)"
    by (cases "c_sandboxes c j")
      (auto intro!: unstarted.ensures_Throw unstarted.ensures_Return simp: record_for_def placed_def record_at_def)
qed

lemma for_guard:
  "unstarted.ensures cfg i (\<lambda>_. True) (mutableRecord cfg' j e expected) (record_for j) (\<lambda>_. True)"
  unfolding mutableRecord_def
proof (rule unstarted.ensures_bind [OF for_record_of])
  fix a
  let ?P = "record_for j a" and ?T = "\<lambda>_. True"
  have accept: "unstarted.ensures cfg i ?P (await (on_epochs (accept (epoch_config_of cfg') j (Num e)))) (\<lambda>_. ?P) ?T"
    by (rule unstarted.ensures_conseq [OF for_others]) (auto intro!: acts_rules unstarting.w_parts)
  have throw: "unstarted.ensures cfg i ?P (Throw x) (record_for j) ?T" for x
    by (rule unstarted.ensures_Throw) simp
  have return: "unstarted.ensures cfg i ?P (Return a) (record_for j) ?T"
    by (rule unstarted.ensures_Return) simp
  have fence: "unstarted.ensures cfg i ?P (seq (await (fenceQuietly a j e)) (Throw x)) (record_for j) ?T" for x
  proof (rule unstarted.ensures_bind [OF _ throw])
    show "unstarted.ensures cfg i ?P (await (fenceQuietly a j e)) (\<lambda>_. ?P) ?T"
      by (rule unstarted.ensures_conseq [OF for_others]) (auto intro!: acts_rules unstarting.w_fenceQuietly)
  qed
  show "unstarted.ensures cfg i ?P (bind (await (on_epochs (accept (epoch_config_of cfg') j (Num e)))) (\<lambda>acc.
     at_rec a (\<lambda>r.
       if acc_advanced acc \<and> rec_state r \<noteq> Booting
       then seq (await (fenceQuietly a j e)) (Throw (fencedError j e e))
       else if rec_state r = FencedState \<or> e < rec_epoch r
       then Throw (fencedError j e (rec_epoch r))
       else case expected of
           Some st \<Rightarrow> if rec_state r \<noteq> st then Throw (stateMismatch st (rec_state r)) else Return a
         | None \<Rightarrow> Return a))) (record_for j) ?T"
  proof (rule unstarted.ensures_bind [OF accept])
    fix acc
    show "unstarted.ensures cfg i ?P (at_rec a (\<lambda>r.
       if acc_advanced acc \<and> rec_state r \<noteq> Booting
       then seq (await (fenceQuietly a j e)) (Throw (fencedError j e e))
       else if rec_state r = FencedState \<or> e < rec_epoch r
       then Throw (fencedError j e (rec_epoch r))
       else case expected of
           Some st \<Rightarrow> if rec_state r \<noteq> st then Throw (stateMismatch st (rec_state r)) else Return a
         | None \<Rightarrow> Return a)) (record_for j) ?T"
      unfolding at_rec_def
      by (rule unstarted.ensures_Read, rule unstarted.ensures_conseq [where P' = ?P and Q' = "record_for j" and X' = ?T])
        (auto intro: throw return fence split: option.split)
  qed
qed

lemma for_rest: "acts (off_write cfg i) (\<lambda>_. True) p \<Longrightarrow> unstarted.ensures cfg i (record_for j a) p (\<lambda>_. record_for j a) (\<lambda>_. True)"
  by (rule unstarted.ensures_conseq [OF for_others]) auto

lemma keeps_resume:
  assumes "i \<noteq> j"
  shows "unstarted.keeps cfg i (resumeSandbox cfg' j e)"
  unfolding resumeSandbox_def
proof (rule unstarted.ensures_bind)
  show "unstarted.ensures cfg i (\<lambda>_. True) (await (mutableRecord cfg' j e (Some Paused))) (record_for j) (\<lambda>_. True)"
    by (rule unstarted.ensures_await [OF for_guard record_for_stable]) simp
  fix a
  have put: "unstarted.ensures cfg i (record_for j a) (put_record a (set_running e)) (\<lambda>_. record_for j a) (\<lambda>_. True)"
    by (rule unstarted.ensures_conseq [OF for_put [OF assms]]) (auto simp: same_identity_def set_running_def)
  have quiet: "acts (off_write cfg i) (\<lambda>_. True) (at_rec a (\<lambda>r. await (fc_resume (sr_firecracker r))))"
    by (intro unstarting.w_at_rec acts_rules acts_quiet_any) simp
  have "unstarted.ensures cfg i (record_for j a) (seq (consume_loaded a)
     (seq (at_rec a (\<lambda>r. await (fc_resume (sr_firecracker r)))) (seq (put_record a (set_running e)) (after_resume a))))
     (\<lambda>_. record_for j a) (\<lambda>_. True)"
    by (rule unstarted.ensures_seq [OF for_rest [OF unstarting.w_consume]],
        rule unstarted.ensures_seq [OF for_rest [OF quiet]],
        rule unstarted.ensures_seq [OF put for_rest [OF unstarting.w_after_resume]])
  then show "unstarted.ensures cfg i (record_for j a) (seq (consume_loaded a)
     (seq (at_rec a (\<lambda>r. await (fc_resume (sr_firecracker r)))) (seq (put_record a (set_running e)) (after_resume a))))
     (\<lambda>_ _. True) (\<lambda>_. True)"
    by (rule unstarted.kept_from)
qed

lemma keeps_phases:
  assumes "i \<noteq> j"
  shows "unstarted.keeps cfg i (resumeMigration cfg' j e)" "unstarted.keeps cfg i (rollbackMigration cfg' j e b)"
proof -
  have resume: "unstarted.keeps cfg i (await (resumeSandbox cfg' j e))"
    by (rule unstarted.kept_await [OF keeps_resume [OF assms]])
  have look: "unstarted.keeps cfg i (record_of j)" by (rule keeps_acts) (rule unstarting.w_record_of)
  have clock: "unstarted.keeps cfg i (seq (await (guest_syncClock k)) skip)" for k
    by (rule keeps_acts) (intro acts_bind acts_rules unstarting.w_quiets)
  have basic: "unstarted.keeps cfg i (Return v)" "unstarted.keeps cfg i (Throw x)" for v :: unit and x
    by (simp_all add: keeps_acts)
  show "unstarted.keeps cfg i (resumeMigration cfg' j e)" "unstarted.keeps cfg i (rollbackMigration cfg' j e b)"
    unfolding resumeMigration_def rollbackMigration_def at_rec_def
    by (intro unstarted.kept_bind look unstarted.kept_Read; simp add: resume clock basic)+
qed

text \<open>A creation starts the machine of the record it made itself.\<close>

lemma for_boot:
  assumes "i \<noteq> j"
  shows "unstarted.ensures cfg i (record_for j a) (bootGuest cfg' q a) (\<lambda>_. record_for j a) (\<lambda>_. True)"
proof -
  let ?P = "record_for j a"
  have quiets: "acts (off_write cfg i) (\<lambda>_. True) (at_rec a (\<lambda>r. await (fc_configure (sr_firecracker r) (boot_config cfg' q r))))"
    "acts (off_write cfg i) (\<lambda>_. True) (at_rec a (\<lambda>r. await (fc_start (sr_firecracker r))))"
    "acts (off_write cfg i) (\<lambda>_. True) (at_rec a (\<lambda>r. await (waitForGuest (sr_guest r) 30000)))"
    by (intro unstarting.w_at_rec acts_rules unstarting.w_quiets)+
  have now: "acts (off_write cfg i) (\<lambda>_. True) (call_text IsoNow)" by (rule unstarting.w_calls) (simp add: resume_call_def)
  have settled: "acts (off_write cfg i) (\<lambda>_. True) (settle r)" for r :: "js_error + string option" by (rule acts_basic)
  have put: "unstarted.ensures cfg i ?P (put_record a (set_booted b n)) (\<lambda>_. ?P) (\<lambda>_. True)" for b n
    by (rule unstarted.ensures_conseq [OF for_put [OF assms]]) (auto simp: same_identity_def set_booted_def)
  show ?thesis
    unfolding bootGuest_def
    by (rule unstarted.ensures_seq [OF for_rest [OF quiets(1)]], rule unstarted.ensures_seq [OF for_rest [OF quiets(2)]],
        rule unstarted.ensures_bind [OF for_rest [OF quiets(3)]], rule unstarted.ensures_bind [OF for_rest [OF settled]],
        rule unstarted.ensures_bind [OF for_rest [OF now] put])
qed

lemma for_registered:
  assumes "sandbox_paths_of (path_model_of cfg) (cr_id q) (Num 0) = Inr p"
  shows "unstarted.ensures cfg i (\<lambda>_. True) (registerRecord cfg q p n keys) (record_for (cr_id q)) (\<lambda>_. True)"
  unfolding registerRecord_def
proof (rule unstarted.ensures_bind)
  show "unstarted.keeps cfg i (call_text IsoNow)"
    by (rule keeps_acts, rule unstarting.w_calls) (simp add: resume_call_def)
  fix now
  show "unstarted.ensures cfg i (\<lambda>_. True)
     (Read (\<lambda>c. seq (modify (add_record (cr_id q) (new_record cfg q p n keys now))) (Return (c_next c)))) (record_for (cr_id q)) (\<lambda>_. True)"
  proof (rule unstarted.ensures_Read, rule unstarted.ensures_seq)
    fix c
    show "unstarted.ensures cfg i (\<lambda>t. t = c \<and> True) (modify (add_record (cr_id q) (new_record cfg q p n keys now)))
       (\<lambda>_. record_for (cr_id q) (c_next c)) (\<lambda>_. True)"
      by (rule unstarted.ensures_modify)
        (use off_write_add [OF assms] in \<open>auto simp: record_for_def add_record_def new_record_def\<close>)
    show "unstarted.ensures cfg i (record_for (cr_id q) (c_next c)) (Return (c_next c)) (record_for (cr_id q)) (\<lambda>_. True)"
      by (rule unstarted.ensures_Return) simp
  qed
qed

lemma keeps_start:
  assumes "i \<noteq> cr_id q" and "sandbox_paths_of (path_model_of cfg) (cr_id q) (Num 0) = Inr p"
  shows "unstarted.keeps cfg i (start_sandbox cfg q p n keys)"
  unfolding start_sandbox_def
proof (rule unstarted.ensures_bind, rule keeps_acts, (intro acts_rules unstarting.w_quiets)[1],
    rule unstarted.ensures_bind [OF for_registered [OF assms(2)]])
  fix a
  let ?P = "record_for (cr_id q) a"
  have skip: "unstarted.ensures cfg i ?P skip (\<lambda>_. ?P) (\<lambda>_. True)" by (rule unstarted.ensures_Return) simp
  have boot: "unstarted.ensures cfg i ?P (await (bootGuest cfg q a)) (\<lambda>_. ?P) (\<lambda>_. True)"
    by (rule unstarted.ensures_await [OF for_boot [OF assms(1)] record_for_stable]) simp
  have "unstarted.ensures cfg i ?P (seq (if boots q then await (bootGuest cfg q a) else skip) (at_rec a (\<lambda>r. Return (sr_info r))))
     (\<lambda>_. ?P) (\<lambda>_. True)"
    by (rule unstarted.ensures_seq [OF _ for_rest]) (simp_all add: boot skip unstarting.w_at_rec)
  then show "unstarted.ensures cfg i ?P (seq (if boots q then await (bootGuest cfg q a) else skip) (at_rec a (\<lambda>r. Return (sr_info r))))
     (\<lambda>_ _. True) (\<lambda>_. True)"
    by (rule unstarted.kept_from)
qed

lemma keeps_create:
  assumes "i \<noteq> cr_id q"
  shows "unstarted.keeps cfg i (createSandbox cfg q)"
proof -
  have undo: "unstarted.keeps cfg i (undo_create q p n keys halt x)" if "acts (off_write cfg i) (\<lambda>_. True) halt"
    for p n keys halt x
    by (rule keeps_acts) (rule unstarting.w_undo [OF _ that], simp)
  have caught: "unstarted.keeps cfg i (try_catch b (undo_create q p n keys halt))"
    if "unstarted.keeps cfg i b" "acts (off_write cfg i) (\<lambda>_. True) halt" for p n keys halt and b :: "(core, 'b) prog"
    by (rule unstarted.ensures_try_catch [OF that(1) undo [OF that(2)]])
  have body: "unstarted.keeps cfg i (create_body cfg q p n keys)"
    if p: "sandbox_paths_of (path_model_of cfg) (cr_id q) (Num 0) = Inr p" for p n keys
    unfolding create_body_def
    by (intro unstarted.kept_bind caught keeps_start [OF assms p] keeps_acts acts_rules unstarting.w_quiets
        unstarting.w_start_machine unstarting.w_parts) simp_all
  have parts: "unstarted.keeps cfg i (await (make_parents p))" "unstarted.keeps cfg i (await (claimPhysicalDirectory k d))" for p k d
    unfolding make_parents_def claimPhysicalDirectory_def
    by (rule keeps_acts, intro acts_bind acts_rules unstarting.w_calls; simp add: resume_call_def)+
  have network: "unstarted.keeps cfg i (try_catch (core_allocateNetwork cfg q) (\<lambda>x. seq (call_unit (FsRm d)) (Throw x)))" for d
    unfolding core_allocateNetwork_def Let_def
    by (rule keeps_acts) (intro acts_bind acts_rules unstarting.w_aside unstarting.w_calls; simp add: resume_call_def)
  have accept: "unstarted.keeps cfg i (await (on_epochs (accept ec k x)))" for ec k x
    by (rule keeps_acts) (intro acts_rules unstarting.w_parts; simp)
  have throw: "unstarted.keeps cfg i (Throw x :: (core, sandbox_info) prog)" for x by (simp add: keeps_acts)
  show ?thesis
    unfolding createSandbox_def
    by (rule unstarted.kept_Read, simp add: throw, intro impI unstarted.kept_bind_settle unstarted.kept_bind accept parts network)
      (auto intro: body split: prod.split)
qed

section \<open>What it takes to run\<close>

lemma keeps_answering: "unstarted.keeps cfg i p \<Longrightarrow> unstarted.keeps cfg i (answering f p)"
  unfolding answering_def by (rule unstarted.kept_bind) (simp_all add: keeps_acts)

lemma keeps_serve:
  assumes "i \<notin> started q"
  shows "unstarted.keeps cfg i (serve cfg q)"
proof (cases "started q = {}")
  case True
  show ?thesis by (rule keeps_acts, rule unstarting.w_serve) (simp_all add: True)
next
  case False
  with assms show ?thesis
    by (cases q rule: started.cases) (auto intro!: keeps_answering keeps_create keeps_resume keeps_phases split: if_splits)
qed

text \<open>In every turn of a request that does not ask to start \<open>i\<close>, \<open>i\<close> stays off.\<close>

abbreviation off_turn :: "worker_config \<Rightarrow> string \<Rightarrow> core conf \<Rightarrow> core conf \<Rightarrow> bool" where
  "off_turn cfg i x y \<equiv> placed cfg (fst y) \<and> leaves_off i (fst x) (fst y)"

lemma turns_unstarted:
  "i \<notin> started q \<Longrightarrow> placed_conf cfg d \<Longrightarrow>
     turns (placed_conf cfg) grows_conf (off_turn cfg i) (serve cfg q) (\<lambda>_. off_turn cfg i) (\<lambda>_. off_turn cfg i) d d"
  by (rule unstarted.ensures_turns [OF keeps_serve])

interpretation unasked: turn_guarantee "placed_conf cfg" grows_conf "serve cfg ` {q. i \<notin> started q}" "off_turn cfg i" for cfg i
proof unfold_locales
  show "rg_prog (placed_conf cfg) grows_conf p" if "p \<in> serve cfg ` {q. i \<notin> started q}" for p
    using that by (intro worker.progs_ok) blast
  show "turns (placed_conf cfg) grows_conf (off_turn cfg i) p (\<lambda>_. off_turn cfg i) (\<lambda>_. off_turn cfg i) d d"
    if "p \<in> serve cfg ` {q. i \<notin> started q}" "placed_conf cfg d" for p d
    using that turns_unstarted by blast
qed (auto intro: grows_trans)

text \<open>
  C20: a sandbox runs only when it is asked to. From any state of a worker, whatever requests
  arrive and however they overlap, a sandbox that is not running does not come to run as long
  as no request creates it by booting, resumes it, or rolls its migration back.
\<close>

theorem unasked_stays_off:
  assumes "placed cfg (fst a0)" and "off (fst a0) i"
    and "sched_reach (serve cfg ` {q. i \<notin> started q}) (a0, []) y"
  shows "off (fst (fst y)) i"
  using assms(3)
proof (induction rule: sched_reach.induct)
  case (more y z)
  from unasked.every_turn [OF more.hyps(1) assms(1) more.hyps(2)] more.IH show ?case by (simp add: leaves_off_def)
qed (use assms(2) in simp)

section \<open>Closed instances\<close>

text \<open>A worker with two sandboxes, of which \<open>b\<close> runs.\<close>

definition one_running :: core where
  "one_running = paused_core\<lparr>c_heap := (c_heap paused_core)(1 := set_state Running (c_heap paused_core 1))\<rparr>"

lemma placed_one_running: "placed sample_config one_running"
  using grows_write_put [of "set_state Running" sample_config 1] placed_paused
  by (simp add: one_running_def same_identity_def set_state_def)

lemma one_running_simps [simp]:
  "c_sandboxes one_running ''b'' = Some 1" "rec_state (c_heap one_running (Suc 0)) = Running" "rec_epoch (c_heap one_running (Suc 0)) = 1"
  "get_epoch (c_epochs one_running) ''b'' = 1" "mutating (c_epochs one_running) = False"
  by (simp_all add: one_running_def paused_core_def paused_record_def Let_def empty_core_def set_state_def new_record_def
      sample_create_def get_epoch_def)

lemma one_running_off: "off one_running ''a''" "\<not> off one_running ''b''"
  by (simp_all add: off_def) (simp add: one_running_def paused_core_def paused_record_def Let_def set_state_def)

lemma pause_alone:
  "\<exists>l'. run calm (serve sample_config (OfSandbox (ReqPause ''b'' 1))) one_running l
    = (Value ResNone, one_running\<lparr>c_heap := (c_heap one_running)(1 := set_state Paused (c_heap one_running 1))\<rparr>, l')"
proof -
  have free: "one_running\<lparr>c_epochs := c_epochs one_running\<rparr> = one_running" by simp
  show ?thesis
    by (simp add: answering_def pauseSandbox_def mutableRecord_def run_simps record_of_def on_epochs_def epochs_field.run_zoom
        run_accept max_safe_def at_rec_def fc_pause_def fc_patch_def run_fc_request put_record_def free)
qed

theorem unasked_stays_off_witness:
  "\<exists>y. sched_reach (serve sample_config ` {q. ''a'' \<notin> started q}) ((one_running, []), []) y
    \<and> snd y = [Finished (Inr ResNone)] \<and> off (fst (fst y)) ''a''"
proof -
  let ?P = "serve sample_config ` {q. ''a'' \<notin> started q}"
  obtain c l where "run calm (serve sample_config (OfSandbox (ReqPause ''b'' 1))) one_running [] = (Value ResNone, c, l)"
    using pause_alone by blast
  moreover have "serve sample_config (OfSandbox (ReqPause ''b'' 1)) \<in> ?P" by (rule imageI) simp
  ultimately have "sched_reach ?P ((one_running, []), []) ((c, l), [] @ [Finished (Inr ResNone)])" by (rule run_arrives)
  then have reach: "sched_reach ?P ((one_running, []), []) ((c, l), [Finished (Inr ResNone)])" by simp
  have "placed sample_config (fst (one_running, [] :: syscall list))" "off (fst (one_running, [] :: syscall list)) ''a''"
    using placed_one_running one_running_off by simp_all
  from unasked_stays_off [OF this reach] reach show ?thesis by auto
qed

end
