(* ===== verification/Fleet.thy ===== *)
theory Fleet
  imports Worker_Starts
begin

text \<open>
  Several workers and one sandbox. A coordinator sends requests to the workers of a fleet, any
  number of them at a time, and one worker at a time has its leave to start the sandbox. It
  gives the leave to another worker once the sandbox is off where it was and no request that
  may start it is under way there: a migration pauses the source and has its answer before it
  resumes the destination, and a rollback is sent only when the destination was not resumed.
  What the workers guarantee of their turns makes this enough.
\<close>

section \<open>A worker and its requests\<close>

text \<open>The threads of a worker, with the request each of them serves.\<close>

type_synonym host = "(core, worker_response) system \<times> worker_request list"

abbreviation conf_of :: "host \<Rightarrow> core conf" where
  "conf_of h \<equiv> fst (fst h)"

abbreviation threads_of :: "host \<Rightarrow> (core, worker_response) thread list" where
  "threads_of h \<equiv> snd (fst h)"

inductive host_step :: "worker_config \<Rightarrow> (worker_request \<Rightarrow> bool) \<Rightarrow> host \<Rightarrow> host \<Rightarrow> bool"
  for cfg asked where
  arrives: "asked q \<Longrightarrow> advance (serve cfg q) s l = (t, s', l') \<Longrightarrow>
     host_step cfg asked (((s, l), ts), qs) (((s', l'), ts @ [t]), qs @ [q])"
| moves: "sched_step {} x y \<Longrightarrow> host_step cfg asked (x, qs) (y, qs)"

text \<open>No request under way may start the sandbox.\<close>

definition none_starting :: "string \<Rightarrow> host \<Rightarrow> bool" where
  "none_starting i h \<longleftrightarrow> (\<forall>n < length (threads_of h). i \<in> started (snd h ! n) \<longrightarrow> (\<exists>r. threads_of h ! n = Finished r))"

definition host_ok :: "worker_config \<Rightarrow> string \<Rightarrow> host \<Rightarrow> bool" where
  "host_ok cfg i h \<longleftrightarrow> placed_conf cfg (conf_of h) \<and> length (snd h) = length (threads_of h)
     \<and> (\<forall>t \<in> set (threads_of h). thread_ok (placed_conf cfg) grows_conf (conf_of h) t)
     \<and> (\<forall>n < length (threads_of h). i \<notin> started (snd h ! n) \<longrightarrow>
          thread_turns (placed_conf cfg) grows_conf (off_turn cfg i) (conf_of h) (threads_of h ! n))"

text \<open>A move is one thread's.\<close>

lemma moved:
  assumes "sched_step {} (a, ts) (b, ts')" and "I a" and "R a a"
  obtains n t where "n < length ts" "ts' = ts[n := t]" "\<forall>r. ts ! n \<noteq> Finished r"
    "thread_turns I R T a (ts ! n) \<longrightarrow> T a b \<and> thread_turns I R T b t"
  using assms(1)
proof cases
  case (answer n c k r s l t s' l')
  have "T a b \<and> thread_turns I R T b t" if "thread_turns I R T a (ts ! n)"
  proof -
    from that answer(1,5) assms(2,3) have "turns I R T (k r) (\<lambda>_. T) (\<lambda>_. T) a (s, l)" by (simp add: thread_turns_def)
    from advance_turns [OF this answer(6)] answer(2) show "T a b \<and> thread_turns I R T b t" by simp
  qed
  with answer show thesis by (intro that [of n t]) simp_all
next
  case (turn n g p s l t s' l')
  have "T a b \<and> thread_turns I R T b t" if "thread_turns I R T a (ts ! n)"
  proof -
    from that turn(1,5,6) assms(2,3) have "turns I R T p (\<lambda>_. T) (\<lambda>_. T) a (s, l)" by (simp add: thread_turns_def)
    from advance_turns [OF this turn(7)] turn(2) show "T a b \<and> thread_turns I R T b t" by simp
  qed
  with turn show thesis by (intro that [of n t]) simp_all
qed simp

lemma sched_step_more: "sched_step P x y \<Longrightarrow> P \<subseteq> Q \<Longrightarrow> sched_step Q x y"
  by (induction rule: sched_step.induct) (auto intro: sched_step.intros)

lemma off_turns_later:
  "grows_conf a b \<Longrightarrow> thread_turns (placed_conf cfg) grows_conf (off_turn cfg i) a t \<Longrightarrow>
     thread_turns (placed_conf cfg) grows_conf (off_turn cfg i) b t"
  by (rule thread_turns_later [where R = grows_conf]) (auto intro: grows_trans)

text \<open>Any step keeps the worker in order; one that is not asked to start the sandbox leaves it off.\<close>

lemma host_step_ok:
  assumes "host_step cfg asked h h'" and "host_ok cfg i h"
  shows "host_ok cfg i h'"
    and "\<forall>q. asked q \<longrightarrow> i \<notin> started q \<Longrightarrow> off (fst (conf_of h)) i \<Longrightarrow> none_starting i h \<Longrightarrow>
      off (fst (conf_of h')) i \<and> none_starting i h'"
proof -
  let ?T = "thread_turns (placed_conf cfg) grows_conf (off_turn cfg i)"
  have "host_ok cfg i h' \<and> ((\<forall>q. asked q \<longrightarrow> i \<notin> started q) \<longrightarrow> off (fst (conf_of h)) i \<longrightarrow> none_starting i h \<longrightarrow>
      off (fst (conf_of h')) i \<and> none_starting i h')"
    using assms(1)
  proof cases
    case (arrives q s l t s' l' ts qs)
    have step: "sched_step (range (serve cfg)) ((s, l), ts) ((s', l'), ts @ [t])"
      by (rule sched_step.arrive [OF _ arrives(4)]) simp
    from worker.step_ok [OF step] assms(2) arrives(1)
    have ok: "placed cfg s'" "grows s s'" "\<forall>u \<in> set (ts @ [t]). thread_ok (placed_conf cfg) grows_conf (s', l') u"
      by (auto simp: host_ok_def)
    have new: "off_turn cfg i (s, l) (s', l') \<and> ?T (s', l') t" if "i \<notin> started q"
      by (rule advance_turns [OF turns_unstarted arrives(4)]) (use that assms(2) arrives(1) in \<open>auto simp: host_ok_def\<close>)
    have "?T (s', l') ((ts @ [t]) ! n)" if "n < length (ts @ [t])" "i \<notin> started ((qs @ [q]) ! n)" for n
      using that new assms(2) arrives(1) ok(2)
      by (cases "n < length ts") (auto simp: host_ok_def nth_append intro: off_turns_later [where a = "(s, l)"])
    with ok assms(2) arrives(1,2) have "host_ok cfg i h'" by (simp add: host_ok_def)
    moreover have "none_starting i h'" if "none_starting i h" "i \<notin> started q"
      using that assms(2) arrives(1,2) by (auto simp: none_starting_def host_ok_def nth_append less_Suc_eq)
    ultimately show ?thesis using new arrives by (auto simp: leaves_off_def)
  next
    case (moves x y qs)
    obtain a ts b ts' where xy: "x = (a, ts)" "y = (b, ts')" by (metis prod.collapse)
    have step: "sched_step (range (serve cfg)) (a, ts) (b, ts')"
      by (rule sched_step_more [of "{}"]) (use moves(3) xy in auto)
    from worker.step_ok [OF step] assms(2) moves(1) xy
    have ok: "placed_conf cfg b" "grows_conf a b" "\<forall>u \<in> set ts'. thread_ok (placed_conf cfg) grows_conf b u"
      by (auto simp: host_ok_def)
    have "sched_step {} (a, ts) (b, ts')" "placed_conf cfg a" "grows_conf a a"
      using moves(1,3) xy assms(2) by (simp_all add: host_ok_def)
    then obtain n t where n: "n < length ts" "ts' = ts[n := t]" "\<forall>r. ts ! n \<noteq> Finished r"
      and turn: "?T a (ts ! n) \<longrightarrow> off_turn cfg i a b \<and> ?T b t"
      by (rule moved [where I = "placed_conf cfg" and R = grows_conf and T = "off_turn cfg i"])
    have new: "off_turn cfg i a b \<and> ?T b t" if "i \<notin> started (qs ! n)"
      by (rule turn [rule_format]) (use assms(2) moves(1) xy that n(1) in \<open>auto simp: host_ok_def\<close>)
    have "?T b (ts' ! m)" if "m < length ts'" "i \<notin> started (qs ! m)" for m
      using that new assms(2) moves(1) xy n(1,2) ok(2)
      by (cases "m = n") (auto simp: host_ok_def intro: off_turns_later [where a = a])
    with ok assms(2) moves(1,2) xy n(2) have "host_ok cfg i h'" by (simp add: host_ok_def)
    moreover have "i \<notin> started (qs ! n)" if "none_starting i h"
      using that moves(1) xy n(1,3) by (auto simp: none_starting_def)
    moreover have "none_starting i h'" if "none_starting i h" "i \<notin> started (qs ! n)"
      using that moves(1,2) xy n(1,2) by (auto simp: none_starting_def nth_list_update)
    ultimately show ?thesis using new moves(1,2) xy by (auto simp: leaves_off_def)
  qed
  then show "host_ok cfg i h'" and "\<forall>q. asked q \<longrightarrow> i \<notin> started q \<Longrightarrow> off (fst (conf_of h)) i \<Longrightarrow> none_starting i h \<Longrightarrow>
      off (fst (conf_of h')) i \<and> none_starting i h'" by blast+
qed

section \<open>The fleet\<close>

text \<open>The workers, and the one that may start the sandbox.\<close>

type_synonym 'h fleet = "('h \<Rightarrow> host) \<times> 'h"

inductive fleet_step :: "('h \<Rightarrow> worker_config) \<Rightarrow> string \<Rightarrow> 'h fleet \<Rightarrow> 'h fleet \<Rightarrow> bool"
  for cfgs i where
  works: "host_step (cfgs h) (\<lambda>q. h = leave \<or> i \<notin> started q) (hosts h) y \<Longrightarrow>
     fleet_step cfgs i (hosts, leave) (hosts(h := y), leave)"
| hands_over: "off (fst (conf_of (hosts leave))) i \<Longrightarrow> none_starting i (hosts leave) \<Longrightarrow>
     fleet_step cfgs i (hosts, leave) (hosts, leave')"

definition fleet_ok :: "('h \<Rightarrow> worker_config) \<Rightarrow> string \<Rightarrow> 'h fleet \<Rightarrow> bool" where
  "fleet_ok cfgs i f \<longleftrightarrow> (\<forall>h. host_ok (cfgs h) i (fst f h))
     \<and> (\<forall>h. h \<noteq> snd f \<longrightarrow> off (fst (conf_of (fst f h))) i \<and> none_starting i (fst f h))"

lemma fleet_step_ok:
  assumes "fleet_step cfgs i f f'" and "fleet_ok cfgs i f"
  shows "fleet_ok cfgs i f'"
  using assms(1)
proof cases
  case (works h leave hosts y)
  have h: "host_ok (cfgs h) i (hosts h)" using assms(2) works(1) by (simp add: fleet_ok_def)
  have "off (fst (conf_of y)) i \<and> none_starting i y" if "h \<noteq> leave"
    by (rule host_step_ok(2) [OF works(3) h]) (use that assms(2) works(1) in \<open>auto simp: fleet_ok_def\<close>)
  with host_step_ok(1) [OF works(3) h] assms(2) works(1,2) show ?thesis by (auto simp: fleet_ok_def)
next
  case (hands_over hosts leave leave')
  have "off (fst (conf_of (hosts h))) i \<and> none_starting i (hosts h)" for h
    using assms(2) hands_over(1,3,4) by (cases "h = leave") (auto simp: fleet_ok_def)
  with assms(2) hands_over(1,2) show ?thesis by (simp add: fleet_ok_def)
qed

lemma fleet_steps_ok: "(fleet_step cfgs i)\<^sup>*\<^sup>* f f' \<Longrightarrow> fleet_ok cfgs i f \<Longrightarrow> fleet_ok cfgs i f'"
  by (induction rule: rtranclp_induct) (auto intro: fleet_step_ok)

text \<open>A worker at rest: a well-formed table and no request under way.\<close>

definition at_rest :: "worker_config \<Rightarrow> host \<Rightarrow> bool" where
  "at_rest cfg h \<longleftrightarrow> placed_conf cfg (conf_of h) \<and> threads_of h = [] \<and> snd h = []"


section \<open>A closed instance\<close>

lemma host_moves: "sched_reach {} x y \<Longrightarrow> (host_step cfg asked)\<^sup>*\<^sup>* (x, qs) (y, qs)"
  by (induction rule: sched_reach.induct) (auto intro: host_step.moves rtranclp.rtrancl_into_rtrancl)

lemma host_runs:
  assumes "run E (serve cfg q) s l = (Value v, s', l')" and "asked q"
  shows "(host_step cfg asked)\<^sup>*\<^sup>* (((s, l), ts), qs) (((s', l'), ts @ [Finished (Inr v)]), qs @ [q])"
proof -
  obtain t s1 l1 where a: "advance (serve cfg q) s l = (t, s1, l1)" by (cases "advance (serve cfg q) s l")
  have "sched_reach {} ((s1, l1), (ts @ [t])[length ts := t]) ((s', l'), (ts @ [t])[length ts := Finished (Inr v)])"
    by (rule run_thread [OF assms(1) a]) simp
  then have "(host_step cfg asked)\<^sup>*\<^sup>* (((s1, l1), ts @ [t]), qs @ [q]) (((s', l'), ts @ [Finished (Inr v)]), qs @ [q])"
    by (intro host_moves) simp
  with host_step.arrives [where asked = asked, OF assms(2) a] show ?thesis by (rule converse_rtranclp_into_rtranclp)
qed

lemma fleet_works:
  "(host_step (cfgs h) (\<lambda>q. h = leave \<or> i \<notin> started q))\<^sup>*\<^sup>* x y \<Longrightarrow>
     (fleet_step cfgs i)\<^sup>*\<^sup>* (hosts(h := x), leave) (hosts(h := y), leave)"
proof (induction rule: rtranclp_induct)
  case (step y z)
  have "fleet_step cfgs i (hosts(h := y), leave) ((hosts(h := y))(h := z), leave)"
    by (rule fleet_step.works) (simp add: step.hyps(2))
  with step.IH show ?case by (metis fun_upd_upd rtranclp.rtrancl_into_rtrancl)
qed simp


end
