(* ===== verification/Peer_Transfer.thy ===== *)
theory Peer_Transfer
  imports Server Worker_Threads
begin

text \<open>
  Two agents. The destination's transfer of a snapshot, with its downloads answered by the
  HTTP server of the source: the request it makes is one the source accepts, and what the
  source sends is what the destination stores.
\<close>

section \<open>What the server of the source sends\<close>

definition artifact_content :: "core \<Rightarrow> disk \<Rightarrow> string \<Rightarrow> artifact_kind \<Rightarrow> string option" where
  "artifact_content c f i k = Option.bind (c_sandboxes c i) (\<lambda>a. f (artifactPath (c_heap c a) k))"

text \<open>
  A reply on its way: the status, the header the client reads, and of a stream the bytes of
  the file in the range. The client reads no body of an error.
\<close>

definition on_wire :: "string \<Rightarrow> http_reply \<Rightarrow> http_response" where
  "on_wire content r =
     (case hr_body r of
        BodyStream v \<Rightarrow> \<lparr>http_status = int (hr_status r), http_hash = map_of (as_headers v) ''x-artifact-sha256'',
          http_body = Some ([slice (fst (as_range v)) (snd (as_range v)) content], None)\<rparr>
      | _ \<Rightarrow> \<lparr>http_status = int (hr_status r), http_hash = None, http_body = Some ([], None)\<rparr>)"

definition no_response :: "int \<Rightarrow> http_response" where
  "no_response status = \<lparr>http_status = status, http_hash = None, http_body = None\<rparr>"

text \<open>The agent behind a base URL, at rest, with its files, asked for an artifact of \<open>i\<close>.\<close>

definition source_agent :: "worker_config \<Rightarrow> string option \<Rightarrow> core \<Rightarrow> disk \<Rightarrow> string \<Rightarrow> string \<Rightarrow> source" where
  "source_agent cfg token c f url i u hs =
     (case find (\<lambda>k. u = artifact_url url i k) ARTIFACT_KINDS of
        None \<Rightarrow> no_response 404
      | Some k \<Rightarrow>
          (case result (run (disk_with f (\<lambda>_ _. no_response 502))
              (http cfg token (artifact_url [] i k) (map_of hs) (ArtifactCall (GetArtifact i k))) c []) of
             Value r \<Rightarrow> on_wire (orelse (artifact_content c f i k) []) r
           | _ \<Rightarrow> no_response 500))"

lemma artifact_url_inject [simp]: "artifact_url url i k = artifact_url url i k' \<longleftrightarrow> k = k'"
  by (cases k; cases k') (simp_all add: artifact_url_def)

lemma find_artifact [simp]: "find ((=) k) ARTIFACT_KINDS = Some k"
  by (cases k) (simp_all add: ARTIFACT_KINDS_def)

lemma kinds_listed [simp]: "k \<in> set ARTIFACT_KINDS" "distinct ARTIFACT_KINDS"
  by (cases k) (simp_all add: ARTIFACT_KINDS_def)

text \<open>An artifact whose file is as it was described.\<close>

definition offers :: "core \<Rightarrow> disk \<Rightarrow> string \<Rightarrow> artifact_kind \<Rightarrow> artifact_descriptor \<Rightarrow> string \<Rightarrow> bool" where
  "offers c f i k d content \<longleftrightarrow> (\<exists>a. c_sandboxes c i = Some a \<and> sr_artifacts (c_heap c a) k = Some d
     \<and> f (artifactPath (c_heap c a) k) = Some content) \<and> ad_size d = int (length content) \<and> content \<noteq> []"

definition may_ask :: "string option \<Rightarrow> (string \<times> string) list \<Rightarrow> bool" where
  "may_ask token hs \<longleftrightarrow> (case token of None \<Rightarrow> True | Some t \<Rightarrow> map_of hs ''authorization'' = Some (''Bearer '' @ t))"

lemma source_agent_reply:
  assumes "offers c f i k d content" and "may_ask token hs"
  shows "source_agent cfg token c f url i (artifact_url url i k) hs = source_reply d content hs"
proof -
  obtain a where a: "c_sandboxes c i = Some a" "sr_artifacts (c_heap c a) k = Some d"
      "f (artifactPath (c_heap c a) k) = Some content" "ad_size d = int (length content)" "content \<noteq> []"
    using assms(1) by (auto simp: offers_def)
  let ?E = "disk_with f (\<lambda>_ _. no_response 502)"
  have auth: "\<not> unauthorized token u (map_of hs)" for u
    using assms(2) by (simp add: may_ask_def unauthorized_def split: option.splits)
  have stat: "?E [] (FsStat (artifactPath (c_heap c a) k)) = OkStat (int (length content)) True" using a by simp
  have open_reply: "run ?E (openArtifactRange (artifactPath (c_heap c a) k) d (map_of hs ''range'')) c []
      = (case parseRangeHeader (map_of hs ''range'') (int (length content)) of
          Inl e \<Rightarrow> (Raised e, c, [FsStat (artifactPath (c_heap c a) k)])
        | Inr rng \<Rightarrow> (Value \<lparr>as_status = (if rng = None then 200 else 206),
            as_headers = serve_headers (case rng of None \<Rightarrow> 0 | Some r \<Rightarrow> rg_start r)
              (case rng of None \<Rightarrow> int (length content) - 1 | Some r \<Rightarrow> rg_end r) (int (length content)) (rng \<noteq> None) d,
            as_range = ((case rng of None \<Rightarrow> 0 | Some r \<Rightarrow> rg_start r),
              (case rng of None \<Rightarrow> int (length content) - 1 | Some r \<Rightarrow> rg_end r))\<rparr>, c, [FsStat (artifactPath (c_heap c a) k)]))"
    using a stat parseRangeHeader_bounds [of "map_of hs ''range''" content]
    by (auto simp: openArtifactRange_def run_bind call_stat_def run_settle Let_def split: sum.split option.split)
  have served: "source_agent cfg token c f url i (artifact_url url i k) hs
      = (case result (run ?E (openArtifactRange (artifactPath (c_heap c a) k) d (map_of hs ''range'')) c []) of
          Value v \<Rightarrow> on_wire content \<lparr>hr_status = as_status v, hr_body = BodyStream v\<rparr>
        | Raised e \<Rightarrow> on_wire content (error_reply e)
        | Blocked \<Rightarrow> no_response 500)"
    using a(1-3) auth
    by (simp add: source_agent_def http_def run_simps readArtifact_def record_of_def at_rec_def artifact_content_def
        split: prod.split outcome.split)
  show ?thesis
  proof (cases "parseRangeHeader (map_of hs ''range'') (int (length content))")
    case (Inl e)
    then obtain why where "e = rangeError why" by (auto simp: parseRangeHeader_def Let_def split: option.splits if_splits)
    with Inl show ?thesis
      by (simp add: served open_reply source_reply_def on_wire_def rangeError_def firemig_def)
  next
    case (Inr rng)
    then show ?thesis by (simp add: served open_reply source_reply_def Let_def on_wire_def serve_headers_def)
  qed
qed

section \<open>One artifact\<close>

text \<open>The three files of a sandbox and their partial files are different files: their last characters differ.\<close>

definition own_paths :: "worker_config \<Rightarrow> string \<Rightarrow> sandbox_record \<Rightarrow> bool" where
  "own_paths cfg i r \<longleftrightarrow> (\<exists>g. sandbox_paths_of (path_model_of cfg) i (Num g) = Inr (sr_paths r))"

fun last_char :: "artifact_kind \<Rightarrow> char" where
  "last_char StateFile = CHR ''e''"
| "last_char MemFile = CHR ''m''"
| "last_char DiskFile = CHR ''4''"

lemma last_path_text: "n \<noteq> [] \<Longrightarrow> last (path_text (ns @ [n])) = last n"
  by (cases "ns = []") (simp_all only: path_text_append not_False_eq_True list.distinct, simp_all add: path_text_def)

lemma artifactPath_last:
  assumes "own_paths cfg i r" and "pm_workerRoot (path_model_of cfg) \<noteq> ''/''"
  shows "artifactPath r k \<noteq> []" and "last (artifactPath r k) = last_char k"
proof -
  obtain g where g: "sandbox_paths_of (path_model_of cfg) i (Num g) = Inr (sr_paths r)"
    using assms(1) by (auto simp: own_paths_def)
  then have i: "safeIdentifier i" "0 \<le> g" "g \<le> max_safe"
    by (auto simp: sandbox_paths_of_def assertIdentifier_def split: if_splits)
  obtain ws where ws: "pm_workerRoot (path_model_of cfg) = path_text ws" "list_all plain_name ws"
    using normal_resolve by (auto simp: path_model_of_def make_path_model_def normal_path_def)
  obtain cs where cs: "pm_canonicalRoot (path_model_of cfg) = path_text cs" "list_all plain_name cs"
    using normal_resolve by (auto simp: path_model_of_def make_path_model_def normal_path_def)
  have "ws \<noteq> []" using assms(2) ws(1) by (auto simp: path_text_def)
  from sandbox_paths_closed [OF ws this cs i] g
  have p: "physical_paths (sr_paths r) = map (\<lambda>n. path_text (ws @ n)) (worker_names i g)" by auto
  define name where "name = (case k of StateFile \<Rightarrow> state_file g | MemFile \<Rightarrow> memory_file g | DiskFile \<Rightarrow> ''rootfs.ext4'')"
  have path: "artifactPath r k = path_text ((ws @ [''sandboxes'', i]) @ [name])"
    using p by (cases k) (simp_all add: physical_paths_def worker_names_def name_def)
  have "name \<noteq> []" "last name = last_char k"
    by (cases k; simp add: state_file_def memory_file_def name_def)+
  then show "last (artifactPath r k) = last_char k" by (metis path last_path_text)
  show "artifactPath r k \<noteq> []" by (simp add: path path_text_def)
qed

lemma artifact_files_apart:
  assumes "own_paths cfg i r" and "pm_workerRoot (path_model_of cfg) \<noteq> ''/''"
  shows "artifactPath r k = artifactPath r k' \<longleftrightarrow> k = k'"
    and "artifactPath r k \<noteq> partial_path (artifactPath r k')"
    and "partial_path (artifactPath r k) = partial_path (artifactPath r k') \<longleftrightarrow> k = k'"
proof -
  note ends = artifactPath_last [OF assms]
  have chars: "last_char k = last_char k' \<longleftrightarrow> k = k'" by (cases k; cases k') simp_all
  then show same: "artifactPath r k = artifactPath r k' \<longleftrightarrow> k = k'" using ends(2) by metis
  have "last (partial_path (artifactPath r k')) = CHR ''l''" by (simp add: partial_path_def)
  moreover have "last_char k \<noteq> CHR ''l''" by (cases k) simp_all
  ultimately show "artifactPath r k \<noteq> partial_path (artifactPath r k')" using ends(2) [of k] by metis
  show "partial_path (artifactPath r k) = partial_path (artifactPath r k') \<longleftrightarrow> k = k'"
    using same by (simp add: partial_path_def)
qed

text \<open>What an earlier attempt left of an artifact: nothing, or a prefix of it.\<close>

definition part_of :: "string option \<Rightarrow> string \<Rightarrow> bool" where
  "part_of old content \<longleftrightarrow> (case old of None \<Rightarrow> True | Some s \<Rightarrow> take (length s) content = s)"

text \<open>An artifact as the manifest describes it.\<close>

definition described :: "worker_config \<Rightarrow> artifact_kind \<Rightarrow> artifact_descriptor \<Rightarrow> string \<Rightarrow> bool" where
  "described cfg k d content \<longleftrightarrow> content \<noteq> [] \<and> int (length content) \<le> max_safe
     \<and> ad_kind d = k \<and> ad_size d = int (length content) \<and> ad_sha256 d = hex_text (wc_sha cfg content)"

definition with_artifact :: "nat \<Rightarrow> artifact_descriptor \<Rightarrow> core \<Rightarrow> core" where
  "with_artifact a d c = c\<lparr>c_heap := (c_heap c)(a := (c_heap c a)\<lparr>sr_artifacts := (sr_artifacts (c_heap c a))(ad_kind d \<mapsto> d)\<rparr>)\<rparr>"

lemma pulled:
  assumes "described cfg k (pull_descriptor q) content" and "map_of (pull_headers q) ''range'' = None"
    and "\<forall>n. g (pull_url q) (download_headers q n) = source_reply (pull_descriptor q) content (download_headers q n)"
    and "part_of (disk_after f l (partial_path (pull_destination q))) content"
  obtains n l' where "run (disk_with f g) (pullArtifact (wc_sha cfg) q) s l = (Value (n, int (length content) - n), s, l')"
    "disk_after f l' = (map_delete (partial_path (pull_destination q)) (disk_after f l))(pull_destination q \<mapsto> content)"
proof -
  let ?p = "partial_path (pull_destination q)"
  define old where "old = kept (disk_after f l) ?p (length content)"
  have "take (length old) content = old"
    using assms(4) by (auto simp: old_def kept_def part_of_def split: option.splits)
  then have got: "old @ drop (length old) content = content" by (metis append_take_drop_id)
  have "\<exists>l'. if hex_text (wc_sha cfg (old @ drop (length old) content)) = ad_sha256 (pull_descriptor q)
    then run (disk_with f g) (pullArtifact (wc_sha cfg) q) s l
           = (Value (int (length old), int (length content) - int (length old)), s, l')
         \<and> disk_after f l' = (map_delete ?p (disk_after f l))(pull_destination q \<mapsto> old @ drop (length old) content)
    else run (disk_with f g) (pullArtifact (wc_sha cfg) q) s l
           = (Raised (hash_mismatch_error (pull_descriptor q) (int (length content)) (hex_text (wc_sha cfg (old @ drop (length old) content)))), s, l')
         \<and> disk_after f l' = map_delete ?p (disk_after f l)"
    unfolding old_def by (rule pull_on_disk) (use assms in \<open>simp_all add: described_def\<close>)
  then show thesis using that assms(1) by (auto simp: got described_def)
qed

lemma transfer_task_pulls:
  assumes "c_sandboxes c i = Some a" and "wc_sharedWorkerRoot cfg = None" and d: "described cfg k d content"
    and "\<forall>hs. may_ask (wc_peerAuthToken cfg) hs \<longrightarrow> g (artifact_url url i k) hs = source_reply d content hs"
    and "part_of (disk_after f l (partial_path (artifactPath (c_heap c a) k))) content"
  shows "\<exists>l'. run (disk_with f g) (transfer_task cfg i src url d aborted) c l = (Value (), with_artifact a d c, l')
    \<and> disk_after f l' = (map_delete (partial_path (artifactPath (c_heap c a) k)) (disk_after f l))(artifactPath (c_heap c a) k \<mapsto> content)"
proof -
  let ?q = "pull_of cfg i url (artifactPath (c_heap c a) k) d"
  have ask: "may_ask (wc_peerAuthToken cfg) (download_headers ?q n)" for n
    by (simp add: may_ask_def pull_of_def download_headers_def split: option.split)
  have kind: "ad_kind d = k" using d by (simp add: described_def)
  obtain n l' where "run (disk_with f g) (pullArtifact (wc_sha cfg) ?q) c l = (Value (n, int (length content) - n), c, l')"
    and disk: "disk_after f l' = (map_delete (partial_path (artifactPath (c_heap c a) k)) (disk_after f l))(artifactPath (c_heap c a) k \<mapsto> content)"
    by (rule pulled [where q = ?q and cfg = cfg and k = k and content = content and f = f and g = g and l = l and s = c])
      (use assms ask kind in \<open>simp_all add: pull_of_def split: option.split\<close>)
  with assms(1,2) kind have "run (disk_with f g) (transfer_task cfg i src url d aborted) c l = (Value (), with_artifact a d c, l')"
    by (simp add: transfer_task_def transferArtifact_def registerArtifact_def record_of_def at_rec_def put_record_def
        run_simps with_artifact_def Let_def)
  with disk show ?thesis by blast
qed

section \<open>The three artifacts\<close>

lemma with_artifact_parts [simp]:
  "c_sandboxes (with_artifact a d c) = c_sandboxes c" "c_epochs (with_artifact a d c) = c_epochs c"
  "sr_artifacts (c_heap (with_artifact a d c) a) = (sr_artifacts (c_heap c a))(ad_kind d \<mapsto> d)"
  "sr_paths (c_heap (with_artifact a d c) a) = sr_paths (c_heap c a)"
  by (simp_all add: with_artifact_def)

lemma same_paths: "sr_paths r = sr_paths r' \<Longrightarrow> artifactPath r k = artifactPath r' k \<and> own_paths cfg i r = own_paths cfg i r'"
  by (cases k) (simp_all add: own_paths_def)

lemma fulfilled_all [simp]: "first_rejected (map (\<lambda>x. Inr (h x)) ks) = None" "fulfilled (map (\<lambda>x. Inr (h x)) ks) = map h ks"
  by (induction ks) (simp_all add: fulfilled_def map_filter_simps)

lemma tasks_pull:
  assumes "c_sandboxes c i = Some a" and "wc_sharedWorkerRoot cfg = None"
    and "own_paths cfg i (c_heap c a)" and "pm_workerRoot (path_model_of cfg) \<noteq> ''/''"
    and "\<forall>k. described cfg k (d k) (content k)" and "distinct ks"
    and "\<forall>k hs. may_ask (wc_peerAuthToken cfg) hs \<longrightarrow> g (artifact_url url i k) hs = source_reply (d k) (content k) hs"
    and "\<forall>k \<in> set ks. part_of (disk_after f l (partial_path (artifactPath (c_heap c a) k))) (content k)"
  shows "\<exists>c' l'. run (disk_with f g) (run_tasks (map (\<lambda>k. transfer_task cfg i src url (d k)) ks) None) c l
      = (Value (map (\<lambda>_. Inr ()) ks), c', l')
    \<and> c_sandboxes c' = c_sandboxes c \<and> sr_paths (c_heap c' a) = sr_paths (c_heap c a)
    \<and> (\<forall>k. sr_artifacts (c_heap c' a) k = (if k \<in> set ks then Some (d k) else sr_artifacts (c_heap c a) k))
    \<and> (\<forall>k. disk_after f l' (artifactPath (c_heap c a) k)
          = (if k \<in> set ks then Some (content k) else disk_after f l (artifactPath (c_heap c a) k)))"
  using assms(1,3,6,8)
proof (induction ks arbitrary: c l)
  case (Cons k ks)
  let ?r = "c_heap c a"
  note apart = artifact_files_apart [OF Cons.prems(2) assms(4)]
  obtain l1 where first: "run (disk_with f g) (transfer_task cfg i src url (d k) None) c l = (Value (), with_artifact a (d k) c, l1)"
    and disk: "disk_after f l1 = (map_delete (partial_path (artifactPath ?r k)) (disk_after f l))(artifactPath ?r k \<mapsto> content k)"
    using transfer_task_pulls [OF Cons.prems(1) assms(2) assms(5) [rule_format], where aborted = None and src = src] Cons.prems(4) assms(7)
    by (metis list.set_intros(1))
  let ?c = "with_artifact a (d k) c"
  have paths: "artifactPath (c_heap ?c a) k' = artifactPath ?r k'" "own_paths cfg i (c_heap ?c a) = own_paths cfg i ?r" for k'
    using same_paths [of "c_heap ?c a" ?r] by simp_all
  have kind: "ad_kind (d k) = k" using assms(5) by (simp add: described_def)
  have parts: "\<forall>k' \<in> set ks. part_of (disk_after f l1 (partial_path (artifactPath (c_heap ?c a) k'))) (content k')"
    using Cons.prems(3,4) disk apart apart(2) [symmetric] by (auto simp: paths)
  have "c_sandboxes ?c i = Some a" "own_paths cfg i (c_heap ?c a)" "distinct ks"
    using Cons.prems paths by simp_all
  from Cons.IH [OF this parts] obtain c' l' where
    rest: "run (disk_with f g) (run_tasks (map (\<lambda>k. transfer_task cfg i src url (d k)) ks) None) ?c l1
        = (Value (map (\<lambda>_. Inr ()) ks), c', l')"
    and post: "c_sandboxes c' = c_sandboxes c" "sr_paths (c_heap c' a) = sr_paths ?r"
      "\<forall>k'. sr_artifacts (c_heap c' a) k' = (if k' \<in> set ks then Some (d k') else sr_artifacts (c_heap ?c a) k')"
      "\<forall>k'. disk_after f l' (artifactPath ?r k') = (if k' \<in> set ks then Some (content k') else disk_after f l1 (artifactPath ?r k'))"
    by (auto simp: paths)
  show ?case
    using first rest post disk apart apart(2) [symmetric] kind by (simp add: run_simps)
qed simp

text \<open>
  C10: a snapshot crosses. A destination that reserved the sandbox and accepts the manifest, and
  that shares its token with the source, asks the source's server for the three artifacts; when
  the source's files are as the manifest describes them, the transfer succeeds, whatever prefix
  of each an earlier attempt had left, and the destination then holds the same three artifacts,
  on its disk and in its table: it could serve them in turn.
\<close>

theorem snapshot_crosses:
  assumes source: "\<forall>k. offers sc sf i k (m_artifacts m k) (content k)"
    and manifest: "\<forall>k. described cfg k (m_artifacts m k) (content k)" "m_sandboxId m = i"
      "assertCompatible m (wc_hostCompatibility cfg) = Inr ()" "orelse (m_ports m) [] = []"
    and peers: "wc_peerAuthToken cfg = token" "wc_sharedWorkerRoot cfg = None" "peer_url cfg src = Some url"
    and reserved: "c_sandboxes c i = Some a" "rec_state (c_heap c a) = Booting" "reservation_problems m (c_heap c a) = []"
      "\<not> transfer_complete (c_heap c a) m" "own_paths cfg i (c_heap c a)" "pm_workerRoot (path_model_of cfg) \<noteq> ''/''"
    and epoch: "\<not> mutating (c_epochs c)" "get_epoch (c_epochs c) i = e" "0 \<le> e" "e \<le> max_safe" "rec_epoch (c_heap c a) \<le> e"
    and parts: "\<forall>k. part_of (f (partial_path (artifactPath (c_heap c a) k))) (content k)"
  shows "\<exists>c' l'. run (disk_with f (source_agent scfg token sc sf url i))
        (transferMigration cfg i e \<lparr>tr_migrationId = m_migrationId m, tr_source = src, tr_manifest = m\<rparr>) c []
      = (Value (totalArtifactBytes m, totalArtifactBytes m), c', l')
    \<and> (\<forall>k. offers c' (disk_after f l') i k (m_artifacts m k) (content k))"
proof -
  let ?E = "disk_with f (source_agent scfg token sc sf url i)"
  have guard: "run ?E (mutableRecord cfg i e (Some Booting)) c [] = (Value a, c, [])"
    by (rule run_mutableRecord_same) (use reserved epoch in simp_all)
  have valid: "run ?E (validateManifest cfg m) c [] = (Value (), c, [])"
    using manifest(2,3) reserved(1,3) by (simp add: validateManifest_def run_simps at_rec_def Let_def)
  have served: "\<forall>k hs. may_ask (wc_peerAuthToken cfg) hs \<longrightarrow>
      source_agent scfg token sc sf url i (artifact_url url i k) hs = source_reply (m_artifacts m k) (content k) hs"
    using source_agent_reply source peers(1) by blast
  obtain c' l' where tasks: "run ?E (run_tasks (map (\<lambda>k. transfer_task cfg i src url (m_artifacts m k)) ARTIFACT_KINDS) None) c []
        = (Value (map (\<lambda>_. Inr ()) ARTIFACT_KINDS), c', l')"
    and post: "c_sandboxes c' = c_sandboxes c" "sr_paths (c_heap c' a) = sr_paths (c_heap c a)"
      "\<forall>k. sr_artifacts (c_heap c' a) k = Some (m_artifacts m k)"
      "\<forall>k. disk_after f l' (artifactPath (c_heap c a) k) = Some (content k)"
    using tasks_pull [OF reserved(1) peers(2) reserved(5,6) manifest(1), where ks = ARTIFACT_KINDS and l = "[]" and f = f
        and g = "source_agent scfg token sc sf url i" and url = url and src = src] served parts
    by auto
  have "run ?E (transferMigration cfg i e \<lparr>tr_migrationId = m_migrationId m, tr_source = src, tr_manifest = m\<rparr>) c []
      = (Value (totalArtifactBytes m, totalArtifactBytes m), c', l')"
    using guard valid tasks reserved(1,4) peers(3) manifest(4)
    by (simp add: transferMigration_def Let_def run_simps runAbortableOperations_def record_of_def at_rec_def)
  moreover have "offers c' (disk_after f l') i k (m_artifacts m k) (content k)" for k
    using post reserved(1) manifest(1) same_paths [of "c_heap c' a" "c_heap c a" k]
    by (auto simp: offers_def described_def)
  ultimately show ?thesis by blast
qed

section \<open>A closed instance\<close>

definition receiving_config :: worker_config where
  "receiving_config = peered_config\<lparr>wc_peerAuthToken := Some ''t''\<rparr>"

fun sample_content :: "artifact_kind \<Rightarrow> string" where
  "sample_content StateFile = ''abc''"
| "sample_content MemFile = ''ab''"
| "sample_content DiskFile = ''x''"

definition sample_artifact :: "artifact_kind \<Rightarrow> artifact_descriptor" where
  "sample_artifact k = \<lparr>ad_kind = k, ad_name = ''x'', ad_size = int (length (sample_content k)),
     ad_sha256 = hex_text (toy_sha (sample_content k))\<rparr>"

definition reserved_record :: sandbox_record where
  "reserved_record = (c_heap waiting_core 0)
     \<lparr>sr_paths := (case sandbox_paths_of (path_model_of receiving_config) ''a'' (Num 0) of Inr p \<Rightarrow> p)\<rparr>"

definition reserving_core :: core where
  "reserving_core = waiting_core\<lparr>c_epochs := set_epoch ''a'' 1 (c_epochs empty_core), c_heap := (\<lambda>_. reserved_record)\<rparr>"

definition holding_core :: core where
  "holding_core = waiting_core\<lparr>c_heap := (\<lambda>_. reserved_record\<lparr>sr_artifacts := (\<lambda>k. Some (sample_artifact k))\<rparr>)\<rparr>"

definition crossing_manifest :: compat_manifest where
  "crossing_manifest = buildManifest receiving_config ''a'' \<lparr>sq_migrationId = ''m'', sq_epoch = 0\<rparr> reserved_record sample_artifact"

definition source_files :: disk where
  "source_files x = map_option sample_content (find (\<lambda>k. x = artifactPath reserved_record k) ARTIFACT_KINDS)"

lemma receiving_paths:
  "own_paths receiving_config ''a'' reserved_record" "pm_workerRoot (path_model_of receiving_config) \<noteq> ''/''"
proof -
  have same: "path_model_of receiving_config = path_model_of sample_config"
    by (simp add: path_model_of_def receiving_config_def peered_config_def)
  have "pm_workerRoot (path_model_of sample_config) \<noteq> ''/''"
    by (simp add: path_model_of_def sample_config_def make_path_model_def path_resolve_def resolve_step_def is_absolute_def
        segments_def norm_segments_def norm_step_def path_text_def)
  then show "pm_workerRoot (path_model_of receiving_config) \<noteq> ''/''" by (simp only: same simp_thms)
  have "safeIdentifier ''a''" by (simp add: safeIdentifier_def is_alnum_def)
  from sample_paths [OF this] show "own_paths receiving_config ''a'' reserved_record"
    by (auto simp: own_paths_def reserved_record_def same)
qed

text \<open>An earlier attempt left one of the two bytes of the memory file.\<close>

theorem snapshot_crosses_witness:
  "\<exists>c' l'. run (disk_with [partial_path (artifactPath reserved_record MemFile) \<mapsto> ''a'']
        (source_agent sample_config (Some ''t'') holding_core source_files ''http://w0/'' ''a''))
      (transferMigration receiving_config ''a'' 1 \<lparr>tr_migrationId = ''m'', tr_source = ''w0'', tr_manifest = crossing_manifest\<rparr>)
      reserving_core [] = (Value (6, 6), c', l')
    \<and> (\<forall>k. offers c' (disk_after [partial_path (artifactPath reserved_record MemFile) \<mapsto> ''a''] l') ''a'' k
        (sample_artifact k) (sample_content k))"
proof -
  let ?r = reserved_record and ?f = "[partial_path (artifactPath reserved_record MemFile) \<mapsto> ''a'']"
  note apart = artifact_files_apart [OF receiving_paths]
  have rec: "rec_state ?r = Booting" "rec_epoch ?r = 1" "sr_artifacts ?r = Map.empty"
    by (simp_all add: reserved_record_def waiting_core_def new_record_def restore_request_def)
  have m: "m_migrationId crossing_manifest = ''m''" "m_artifacts crossing_manifest = sample_artifact" "m_ports crossing_manifest = Some []"
    "m_sandboxId crossing_manifest = ''a''" "reservation_problems crossing_manifest ?r = []"
    by (simp_all add: crossing_manifest_def buildManifest_def reservation_problems_def reserved_record_def waiting_core_def new_record_def Let_def)
  have offered: "offers holding_core source_files ''a'' k (sample_artifact k) (sample_content k)" for k
  proof -
    have "source_files (artifactPath ?r k) = Some (sample_content k)"
      by (simp add: source_files_def apart)
    moreover have "artifactPath (c_heap holding_core a) k = artifactPath ?r k" for a
      using same_paths [of "c_heap holding_core a" ?r] by (simp add: holding_core_def)
    moreover have "sample_content k \<noteq> []" by (cases k) simp_all
    ultimately show ?thesis by (auto simp: offers_def holding_core_def waiting_core_def sample_artifact_def)
  qed
  have core: "c_sandboxes reserving_core ''a'' = Some 0" "c_heap reserving_core 0 = ?r"
    "\<not> mutating (c_epochs reserving_core)" "get_epoch (c_epochs reserving_core) ''a'' = 1"
    by (simp_all add: reserving_core_def waiting_core_def empty_core_def set_epoch_def get_epoch_def)
  have "\<exists>c' l'. run (disk_with ?f (source_agent sample_config (Some ''t'') holding_core source_files ''http://w0/'' ''a''))
      (transferMigration receiving_config ''a'' 1 \<lparr>tr_migrationId = m_migrationId crossing_manifest, tr_source = ''w0'', tr_manifest = crossing_manifest\<rparr>)
      reserving_core [] = (Value (totalArtifactBytes crossing_manifest, totalArtifactBytes crossing_manifest), c', l')
    \<and> (\<forall>k. offers c' (disk_after ?f l') ''a'' k (m_artifacts crossing_manifest k) (sample_content k))"
  proof (rule snapshot_crosses [where a = 0])
    show "\<forall>k. offers holding_core source_files ''a'' k (m_artifacts crossing_manifest k) (sample_content k)"
      using offered by (simp add: m)
    show "\<forall>k. described receiving_config k (m_artifacts crossing_manifest k) (sample_content k)"
    proof
      fix k
      show "described receiving_config k (m_artifacts crossing_manifest k) (sample_content k)"
        by (cases k) (simp_all add: m described_def sample_artifact_def max_safe_def receiving_config_def peered_config_def sample_config_def)
    qed
    show "assertCompatible crossing_manifest (wc_hostCompatibility receiving_config) = Inr ()"
      by (simp add: assertCompatible_def compatibilityProblems_def compat_checks_def crossing_manifest_def buildManifest_def Let_def)
    show "\<forall>k. part_of (?f (partial_path (artifactPath (c_heap reserving_core 0) k))) (sample_content k)"
      by (auto simp: part_of_def core apart simp del: artifactPath.simps)
  qed (use receiving_paths in \<open>simp_all add: m core rec transfer_complete_def ARTIFACT_KINDS_def artifact_matches_def max_safe_def
      receiving_config_def peered_config_def sample_config_def peer_url_def\<close>)
  moreover have "totalArtifactBytes crossing_manifest = 6"
    by (simp add: totalArtifactBytes_def ARTIFACT_KINDS_def m sample_artifact_def)
  ultimately show ?thesis by (simp only: m)
qed

end
