(* ===== verification/Hashing.thy ===== *)
theory Hashing
  imports Json Artifacts "HOL-Library.List_Lexorder" "HOL-Library.Char_ord"
begin

text \<open>
  \<open>packages/common/src/runtime/hash.ts\<close>: the canonical text of a request and its hash. The
  values are those a caller can pass as \<open>unknown\<close>; a finite number is given by the text
  \<open>JSON.stringify\<close> writes for it, a date by what \<open>toJSON\<close> returns. SHA-256 is the
  parameter \<open>sha\<close> of the definitions that use it.
\<close>

section \<open>The code\<close>

datatype js_value =
    VUndefined
  | VNull
  | VBool bool
  | VNumber string
  | VNonFinite
  | VString string
  | VArray "js_value list"
  | VObject "(string \<times> js_value) list"
  | VDate "string option"
  | VFunction
  | VSymbol
  | VBigInt

definition counts :: "js_value \<Rightarrow> bool" where
  "counts v \<longleftrightarrow> v \<notin> {VUndefined, VFunction, VSymbol}"

definition sorted_members :: "(string \<times> js_value) list \<Rightarrow> (string \<times> js_value) list" where
  "sorted_members kvs = sort_key fst (filter (\<lambda>kv. counts (snd kv)) kvs)"

definition cannot_error :: "string \<Rightarrow> js_error" where
  "cannot_error t = JsError (''Cannot canonicalize '' @ t)"

text \<open>\<open>map\<close> with a function that may throw.\<close>

fun all_ok :: "(js_error + 'a) list \<Rightarrow> js_error + 'a list" where
  "all_ok [] = Inr []"
| "all_ok (Inl e # rs) = Inl e"
| "all_ok (Inr v # rs) = map_sum id (\<lambda>vs. v # vs) (all_ok rs)"

lemma member_size [simp]: "kv \<in> set (sorted_members kvs) \<Longrightarrow> size (snd kv) < Suc (size_list (size_prod (\<lambda>_. 0) size) kvs)"
proof -
  assume "kv \<in> set (sorted_members kvs)"
  then have "kv \<in> set kvs" by (simp add: sorted_members_def)
  then have "size (snd kv) \<le> size_list (size_prod (\<lambda>_. 0) size) kvs"
    by (rule size_list_estimation') (cases kv, simp)
  then show ?thesis by simp
qed

function canonicalJson :: "js_value \<Rightarrow> js_error + string" where
  "canonicalJson VNull = Inr ''null''"
| "canonicalJson (VString s) = Inr (quoted s)"
| "canonicalJson (VBool b) = Inr (if b then ''true'' else ''false'')"
| "canonicalJson (VNumber t) = Inr t"
| "canonicalJson VNonFinite = Inr ''null''"
| "canonicalJson VUndefined = Inr ''null''"
| "canonicalJson VFunction = Inl (cannot_error ''function'')"
| "canonicalJson VSymbol = Inl (cannot_error ''symbol'')"
| "canonicalJson VBigInt = Inl (cannot_error ''bigint'')"
| "canonicalJson (VArray xs) =
     map_sum id (\<lambda>ts. ''['' @ join_with '','' ts @ '']'') (all_ok (map canonicalJson xs))"
| "canonicalJson (VDate d) = Inr (case d of None \<Rightarrow> ''null'' | Some t \<Rightarrow> quoted t)"
| "canonicalJson (VObject kvs) =
     map_sum id (\<lambda>ts. ''{'' @ join_with '','' ts @ ''}'')
       (all_ok (map (\<lambda>kv. map_sum id (\<lambda>t. quoted (fst kv) @ '':'' @ t) (canonicalJson (snd kv))) (sorted_members kvs)))"
  by pat_completeness auto

termination
  by (relation "measure size") (auto simp: less_Suc_eq_le size_list_estimation' intro: member_size [unfolded less_Suc_eq_le])

definition requestHash :: "(string \<Rightarrow> string) \<Rightarrow> js_value \<Rightarrow> js_error + string" where
  "requestHash sha v = map_sum id sha (canonicalJson v)"

text \<open>The hash of a file, read as a stream.\<close>

definition sha256File :: "(string \<Rightarrow> string) \<Rightarrow> string \<Rightarrow> ('s, string) prog" where
  "sha256File sha path = bind (call_chunks (FsReadStream path None)) (\<lambda>(chunks, broken).
     case broken of Some e \<Rightarrow> Throw e | None \<Rightarrow> Return (sha (concat chunks)))"

lemma sha256File_content:
  assumes "honest_disk E f" and "run E (sha256File sha path) s l = (Value h, s', l')"
  shows "\<exists>content. disk_after f l path = Some content \<and> h = sha content"
proof -
  from assms(2) obtain chunks where "E l (FsReadStream path None) = OkChunks chunks None" "h = sha (concat chunks)"
    by (auto simp: sha256File_def run_ok split: option.splits)
  with honestD(3) [OF assms(1)] show ?thesis by blast
qed

section \<open>What a value stands for\<close>

text \<open>
  The JSON value without its text: an object is a finite map, so that the order of its keys
  has no place in it.
\<close>

datatype meaning =
    MNull
  | MBool bool
  | MNumber string
  | MString string
  | MArray "meaning list"
  | MObject "string \<Rightarrow> meaning option"

function meaning_of :: "js_value \<Rightarrow> meaning" where
  "meaning_of VNull = MNull"
| "meaning_of VUndefined = MNull"
| "meaning_of VNonFinite = MNull"
| "meaning_of VFunction = MNull"
| "meaning_of VSymbol = MNull"
| "meaning_of VBigInt = MNull"
| "meaning_of (VBool b) = MBool b"
| "meaning_of (VNumber t) = MNumber t"
| "meaning_of (VString s) = MString s"
| "meaning_of (VDate d) = (case d of None \<Rightarrow> MNull | Some t \<Rightarrow> MString t)"
| "meaning_of (VArray xs) = MArray (map meaning_of xs)"
| "meaning_of (VObject kvs) =
     MObject (map_of (map (\<lambda>kv. (fst kv, meaning_of (snd kv))) (filter (\<lambda>kv. counts (snd kv)) kvs)))"
  by pat_completeness auto

termination
proof (relation "measure size")
  fix kvs :: "(string \<times> js_value) list" and kv
  assume "kv \<in> set (filter (\<lambda>kv. counts (snd kv)) kvs)"
  then show "(snd kv, VObject kvs) \<in> measure size"
    using member_size [of kv kvs] by (simp add: sorted_members_def)
qed (auto simp: less_Suc_eq_le size_list_estimation')

text \<open>What every value of the language satisfies: number texts are number texts, keys are distinct.\<close>

function value_ok :: "js_value \<Rightarrow> bool" where
  "value_ok (VNumber t) = num_ok t"
| "value_ok (VArray xs) = list_all value_ok xs"
| "value_ok (VObject kvs) = (distinct (map fst kvs) \<and> list_all (\<lambda>kv. value_ok (snd kv)) (filter (\<lambda>kv. counts (snd kv)) kvs))"
| "value_ok VNull = True"
| "value_ok VUndefined = True"
| "value_ok VNonFinite = True"
| "value_ok VFunction = True"
| "value_ok VSymbol = True"
| "value_ok VBigInt = True"
| "value_ok (VBool b) = True"
| "value_ok (VString s) = True"
| "value_ok (VDate d) = True"
  by pat_completeness auto

termination
proof (relation "measure size")
  fix kvs :: "(string \<times> js_value) list" and kv
  assume "kv \<in> set (filter (\<lambda>kv. counts (snd kv)) kvs)"
  then show "(snd kv, VObject kvs) \<in> measure size"
    using member_size [of kv kvs] by (simp add: sorted_members_def)
qed (auto simp: less_Suc_eq_le size_list_estimation')

section \<open>The canonical text says what the value stands for, and nothing else\<close>

function canon :: "js_value \<Rightarrow> tree" where
  "canon VNull = TNull"
| "canon VUndefined = TNull"
| "canon VNonFinite = TNull"
| "canon VFunction = TNull"
| "canon VSymbol = TNull"
| "canon VBigInt = TNull"
| "canon (VBool b) = TBool b"
| "canon (VNumber t) = TNum t"
| "canon (VString s) = TStr s"
| "canon (VDate d) = (case d of None \<Rightarrow> TNull | Some t \<Rightarrow> TStr t)"
| "canon (VArray xs) = TArr (map canon xs)"
| "canon (VObject kvs) = TObj (map (\<lambda>kv. (fst kv, canon (snd kv))) (sorted_members kvs))"
  by pat_completeness auto

termination
  by (relation "measure size") (auto simp: less_Suc_eq_le size_list_estimation' intro: member_size [unfolded less_Suc_eq_le])

fun tree_meaning :: "tree \<Rightarrow> meaning" where
  "tree_meaning TNull = MNull"
| "tree_meaning (TBool b) = MBool b"
| "tree_meaning (TNum t) = MNumber t"
| "tree_meaning (TStr s) = MString s"
| "tree_meaning (TArr xs) = MArray (map tree_meaning xs)"
| "tree_meaning (TObj kvs) = MObject (map_of (map (\<lambda>(k, v). (k, tree_meaning v)) kvs))"

fun sorted_tree :: "tree \<Rightarrow> bool" where
  "sorted_tree (TArr xs) = list_all sorted_tree xs"
| "sorted_tree (TObj kvs) = (sorted (map fst kvs) \<and> distinct (map fst kvs) \<and> list_all (\<lambda>(k, v). sorted_tree v) kvs)"
| "sorted_tree _ = True"

lemma set_sorted_members [simp]: "set (sorted_members kvs) = {kv \<in> set kvs. counts (snd kv)}"
  by (auto simp: sorted_members_def)

lemma sorted_members_keys:
  assumes "distinct (map fst kvs)"
  shows "sorted (map fst (sorted_members kvs))" and "distinct (map fst (sorted_members kvs))"
proof -
  show "sorted (map fst (sorted_members kvs))" by (simp add: sorted_members_def)
  have "distinct (map fst (filter (\<lambda>kv. counts (snd kv)) kvs))" using assms by (rule distinct_map_filter)
  then show "distinct (map fst (sorted_members kvs))"
    by (simp add: sorted_members_def distinct_map)
qed

lemma canon_sorted: "value_ok v \<Longrightarrow> sorted_tree (canon v)"
proof (induction v rule: canon.induct)
  case (12 kvs)
  then show ?case
    using sorted_members_keys [of kvs] by (auto simp: list_all_iff comp_def)
qed (auto simp: list_all_iff split: option.split)

lemma canon_meaning: "value_ok v \<Longrightarrow> tree_meaning (canon v) = meaning_of v"
proof (induction v rule: canon.induct)
  case (12 kvs)
  let ?left = "map (\<lambda>kv. (fst kv, tree_meaning (canon (snd kv)))) (sorted_members kvs)"
  let ?right = "map (\<lambda>kv. (fst kv, meaning_of (snd kv))) (filter (\<lambda>kv. counts (snd kv)) kvs)"
  have keys: "distinct (map fst kvs)" using 12 by simp
  have "distinct (map fst ?left)" using sorted_members_keys(2) [OF keys] by (simp add: comp_def)
  moreover have "distinct (map fst ?right)" using distinct_map_filter [OF keys] by (simp add: comp_def)
  moreover have "set ?left = set ?right" using 12 by (auto simp: list_all_iff image_iff)
  ultimately have "map_of ?left = map_of ?right" using map_of_inject_set by blast
  then show ?case by (simp add: comp_def)
qed (auto simp: list_all_iff split: option.split)

lemma tree_meaning_inject:
  "sorted_tree t \<Longrightarrow> sorted_tree u \<Longrightarrow> tree_meaning t = tree_meaning u \<Longrightarrow> t = u"
proof (induction t arbitrary: u rule: tree_meaning.induct)
  case (5 xs)
  then obtain ys where u: "u = TArr ys" by (cases u) auto
  have "xs = ys"
    by (rule list.inj_map_strong [of xs ys tree_meaning tree_meaning]) (use 5 u in \<open>auto simp: list_all_iff\<close>)
  then show ?case using u by simp
next
  case (6 kvs)
  then obtain kvs' where u: "u = TObj kvs'" by (cases u) auto
  let ?f = "\<lambda>(k, v). (k, tree_meaning v)"
  have keys: "map fst (map ?f kvs) = map fst kvs" "map fst (map ?f kvs') = map fst kvs'"
    by (simp_all add: comp_def case_prod_unfold)
  have "map_of (map ?f kvs) = map_of (map ?f kvs')" using 6 u by simp
  then have sets: "set (map ?f kvs) = set (map ?f kvs')"
    using 6 u map_of_inject_set keys by (metis sorted_tree.simps(2))
  have "inj_on fst (set (map ?f kvs) \<union> set (map ?f kvs'))"
    using 6 sets keys by (metis Un_absorb distinct_map sorted_tree.simps(2))
  then have "map ?f kvs = map ?f kvs'"
    by (rule map_sorted_distinct_set_unique) (use 6 u sets keys in \<open>simp_all only: sorted_tree.simps\<close>)
  then have "kvs = kvs'"
    by (rule list.inj_map_strong [rotated]) (use 6 u in \<open>fastforce simp: list_all_iff\<close>)
  then show ?case using u by simp
qed (rename_tac u; case_tac u; simp)+

lemma map_sum_Inr: "map_sum id f r = Inr t \<longleftrightarrow> (\<exists>x. r = Inr x \<and> t = f x)"
  by (cases r) auto

lemma all_ok_map: "all_ok rs = Inr ts \<longleftrightarrow> rs = map Inr ts"
  by (induction rs arbitrary: ts rule: all_ok.induct) (auto simp: map_sum_Inr Cons_eq_map_conv)

lemma all_ok_Inr: "all_ok rs = Inr ts \<longleftrightarrow> list_all2 (\<lambda>r t. r = Inr t) rs ts"
  unfolding all_ok_map by (simp add: list.rel_eq [symmetric] list_all2_map2)

lemma canonical_text: "value_ok v \<Longrightarrow> canonicalJson v = Inr s \<Longrightarrow> tree_ok (canon v) \<and> s = json_text (canon v)"
proof (induction v arbitrary: s rule: canonicalJson.induct)
  case (10 xs)
  then obtain ts where ts: "list_all2 (\<lambda>r t. r = Inr t) (map canonicalJson xs) ts" "s = ''['' @ join_with '','' ts @ '']''"
    by (auto simp: map_sum_Inr all_ok_Inr)
  have "list_all2 (\<lambda>x t. tree_ok (canon x) \<and> t = json_text (canon x)) xs ts"
    using ts(1) 10 by (fastforce simp: list_all2_conv_all_nth list_all_iff)
  then have "list_all tree_ok (map canon xs) \<and> ts = map (json_text \<circ> canon) xs"
    by (induction rule: list_all2_induct) simp_all
  then show ?case using ts(2) by simp
next
  case (12 kvs)
  let ?text = "\<lambda>kv. quoted (fst kv) @ '':'' @ json_text (canon (snd kv))"
  obtain ts where ts: "list_all2 (\<lambda>r t. r = Inr t)
      (map (\<lambda>kv. map_sum id (\<lambda>t. quoted (fst kv) @ '':'' @ t) (canonicalJson (snd kv))) (sorted_members kvs)) ts"
    "s = ''{'' @ join_with '','' ts @ ''}''"
    using 12 by (auto simp: map_sum_Inr all_ok_Inr)
  have ok: "value_ok (snd kv)" if "kv \<in> set (sorted_members kvs)" for kv
    using 12(2) that by (cases kv) (auto simp: list_all_iff)
  have "list_all2 (\<lambda>kv t. tree_ok (canon (snd kv)) \<and> t = ?text kv) (sorted_members kvs) ts"
    unfolding list_all2_conv_all_nth
  proof (intro conjI allI impI)
    show "length (sorted_members kvs) = length ts" using ts(1) by (simp add: list_all2_conv_all_nth)
  next
    fix n
    assume n: "n < length (sorted_members kvs)"
    then have m: "sorted_members kvs ! n \<in> set (sorted_members kvs)" by (rule nth_mem)
    obtain x where "canonicalJson (snd (sorted_members kvs ! n)) = Inr x" "ts ! n = quoted (fst (sorted_members kvs ! n)) @ '':'' @ x"
      using ts(1) n by (auto simp: list_all2_conv_all_nth map_sum_Inr)
    with 12(1) [OF m ok [OF m]] show "tree_ok (canon (snd (sorted_members kvs ! n)))"
      and "ts ! n = ?text (sorted_members kvs ! n)" by simp_all
  qed
  then have all: "list_all (\<lambda>kv. tree_ok (canon (snd kv))) (sorted_members kvs) \<and> ts = map ?text (sorted_members kvs)"
    by (induction rule: list_all2_induct) simp_all
  have "map (\<lambda>(k, v). quoted k @ '':'' @ json_text v) (map (\<lambda>kv. (fst kv, canon (snd kv))) (sorted_members kvs))
      = map ?text (sorted_members kvs)" by simp
  moreover have "distinct (map fst (sorted_members kvs))" using 12 sorted_members_keys(2) by simp
  ultimately show ?case
    using all ts(2) by (auto simp: list_all_iff comp_def)
qed (auto split: option.split)

text \<open>
  C26: two requests have the same canonical text exactly when they stand for the same JSON
  value: objects are compared as maps, whatever the order of their keys, and members that are
  undefined, functions or symbols do not count. The text is that value's JSON, so that parsing
  it loses nothing; \<open>requestHash\<close> then tells requests apart as far as SHA-256 does.
\<close>

theorem canonicalJson_exact:
  assumes "value_ok v" and "value_ok w" and "canonicalJson v = Inr s" and "canonicalJson w = Inr t"
  shows "(s = t \<longleftrightarrow> meaning_of v = meaning_of w) \<and> map_option tree_meaning (read_tree s) = Some (meaning_of v)
    \<and> (requestHash sha v = requestHash sha w \<longleftrightarrow> sha s = sha t)"
proof -
  note v = canonical_text [OF assms(1,3)] canon_sorted [OF assms(1)] canon_meaning [OF assms(1)]
  note w = canonical_text [OF assms(2,4)] canon_sorted [OF assms(2)] canon_meaning [OF assms(2)]
  have "s = t \<longleftrightarrow> canon v = canon w" using v(1) w(1) json_text_inject by blast
  also have "\<dots> \<longleftrightarrow> meaning_of v = meaning_of w" using v(2,3) w(2,3) tree_meaning_inject by metis
  finally show ?thesis
    using v assms(3,4) by (auto simp: requestHash_def read_json_text)
qed

lemma sorted_sample:
  "sorted_members [(''b'', VNumber ''1''), (''c'', VUndefined), (''a'', VNull)] = [(''a'', VNull), (''b'', VNumber ''1'')]"
  "sorted_members [(''a'', VNull), (''b'', VNumber ''1'')] = [(''a'', VNull), (''b'', VNumber ''1'')]"
  by (simp_all add: sorted_members_def counts_def)

theorem canonicalJson_exact_witness:
  "\<exists>s. canonicalJson (VObject [(''b'', VNumber ''1''), (''c'', VUndefined), (''a'', VNull)]) = Inr s
    \<and> canonicalJson (VObject [(''a'', VNull), (''b'', VNumber ''1'')]) = Inr s
    \<and> meaning_of (VObject [(''b'', VNumber ''1''), (''c'', VUndefined), (''a'', VNull)])
      = meaning_of (VObject [(''a'', VNull), (''b'', VNumber ''1'')])"
proof -
  have "num_ok ''1''" by (simp add: num_ok_def scan_number_def is_digit_def scan_fraction_def scan_exponent_def after_fraction_def)
  then show ?thesis
    using canonicalJson_exact [of "VObject [(''b'', VNumber ''1''), (''c'', VUndefined), (''a'', VNull)]"
        "VObject [(''a'', VNull), (''b'', VNumber ''1'')]"]
    by (simp add: sorted_sample counts_def)
qed

end
