(* ===== verification/Sdk_Request.thy ===== *)
theory Sdk_Request
  imports Async Network Json
begin

text \<open>
  Requests of the SDK: \<open>packages/sdk/src/client/request.ts\<close>, \<open>errors.ts\<close> and the
  headers of \<open>client.ts\<close>. A request is a program over the calls of the run time; the
  caller's abort signal, when there is one, is asked for its state, and a \<open>sleep\<close> it cuts
  short is a call that fails.
\<close>

section \<open>Options\<close>

record client_options =
  co_baseUrl :: string
  co_token :: "string option"
  co_maxRetries :: "nat option"

record mutation_options =
  mo_key :: "string option"
  mo_signal :: bool

definition no_options :: mutation_options where
  "no_options = \<lparr>mo_key = None, mo_signal = False\<rparr>"

record request_options = mutation_options +
  ro_method :: "string option"
  ro_body :: "json option"
  ro_idempotent :: "bool option"
  ro_accept :: "string option"
  ro_headers :: "(string \<times> string) list"

definition base_url :: "client_options \<Rightarrow> string" where
  "base_url cx = strip_slash (co_baseUrl cx)"

definition max_retries :: "client_options \<Rightarrow> nat" where
  "max_retries cx = orelse (co_maxRetries cx) 3"

definition buildHeaders :: "client_options \<Rightarrow> 'a request_options_scheme \<Rightarrow> string option \<Rightarrow> (string \<times> string) list" where
  "buildHeaders cx q key =
     AList.merge
       ([(''accept'', orelse (ro_accept q) ''application/json'')]
        @ (case co_token cx of None \<Rightarrow> [] | Some t \<Rightarrow> [(''authorization'', ''Bearer '' @ t)])
        @ (case key of None \<Rightarrow> [] | Some k \<Rightarrow> [(''idempotency-key'', k)]))
       (ro_headers q)"

section \<open>Errors\<close>

text \<open>The classes of \<open>errors.ts\<close>; the value thrown is the \<open>FiremigError\<close> they extend.\<close>

datatype api_class = PlainApi | FencedApi | ConflictApi

definition api_class_of :: "error_body \<Rightarrow> api_class" where
  "api_class_of b =
     (if err_code b = code_text Fenced then FencedApi
      else if err_code b = code_text IdempotencyKeyConflict then ConflictApi
      else PlainApi)"

definition response_error :: "fetch_response \<Rightarrow> error_body" where
  "response_error r =
     (case json_parse (fr_text r) of
        Some v \<Rightarrow> if isErrorEnvelope v then envelope_body v
          else \<lparr>err_code = ''HTTP_'' @ nat_text (fr_status r),
                err_message = (if fr_statusText r = [] then ''API request failed'' else fr_statusText r),
                err_retryable = 500 \<le> fr_status r, err_details = None\<rparr>
      | None \<Rightarrow> \<lparr>err_code = ''HTTP_'' @ nat_text (fr_status r),
                err_message = (if fr_statusText r = [] then ''API request failed'' else fr_statusText r),
                err_retryable = 500 \<le> fr_status r, err_details = None\<rparr>)"

definition errorFromResponse :: "fetch_response \<Rightarrow> js_error" where
  "errorFromResponse r = FiremigError (response_error r) (Some (fr_status r))"

section \<open>A request with its retries\<close>

definition call_fetch :: "syscall \<Rightarrow> ('s, fetch_response) prog" where
  "call_fetch c = Call c (\<lambda>r. case r of Fail e \<Rightarrow> Throw e | OkFetch v \<Rightarrow> Return v | _ \<Rightarrow> Throw TypeFault)"

definition math_random :: "('s, rat) prog" where
  "math_random = Call MathRandom (\<lambda>r. case r of OkRandom x \<Rightarrow> Return x | _ \<Rightarrow> Return 0)"

definition signal_aborted :: "('s, bool) prog" where
  "signal_aborted = Call SignalAborted (\<lambda>r. Return (r = OkInt 1))"

definition pause_before_retry :: "nat \<Rightarrow> ('s, unit) prog" where
  "pause_before_retry attempts = bind math_random (\<lambda>x. call_unit (SleepFor (default_backoff (int attempts) x)))"

definition ok_status :: "nat \<Rightarrow> bool" where
  "ok_status n \<longleftrightarrow> 200 \<le> n \<and> n \<le> 299"

definition response_value :: "fetch_response \<Rightarrow> js_error + json option" where
  "response_value r = (if fr_status r = 204 then Inr None
     else case json_parse (fr_text r) of None \<Rightarrow> Inl (JsError ''SyntaxError'') | Some v \<Rightarrow> Inr (Some v))"

record wire_request =
  wr_url :: string
  wr_method :: string
  wr_headers :: "(string \<times> string) list"
  wr_body :: "json option"

definition wire_call :: "wire_request \<Rightarrow> syscall" where
  "wire_call w = Fetch (wr_url w) (wr_method w) (wr_headers w) (wr_body w)"

function send_attempt :: "nat \<Rightarrow> bool \<Rightarrow> bool \<Rightarrow> wire_request \<Rightarrow> nat \<Rightarrow> ('s, json option) prog" where
  "send_attempt retries retryable signal w attempts =
     bind (attempt (call_fetch (wire_call w))) (\<lambda>r. case r of
       Inl e \<Rightarrow>
         if retries \<le> attempts \<or> \<not> retryable then Throw e
         else bind (if signal then signal_aborted else Return False) (\<lambda>aborted.
           if aborted then Throw e
           else seq (pause_before_retry attempts) (send_attempt retries retryable signal w (Suc attempts)))
     | Inr response \<Rightarrow>
         if ok_status (fr_status response) then settle (response_value response)
         else if \<not> err_retryable (response_error response) \<or> retries \<le> attempts \<or> \<not> retryable
         then Throw (errorFromResponse response)
         else seq (pause_before_retry attempts) (send_attempt retries retryable signal w (Suc attempts)))"
  by pat_completeness auto

termination
  by (relation "measure (\<lambda>(retries, _, _, _, attempts). retries - attempts)") auto

declare send_attempt.simps [simp del]

definition is_mutation :: "'a request_options_scheme \<Rightarrow> bool" where
  "is_mutation q \<longleftrightarrow> orelse (ro_method q) ''GET'' \<noteq> ''GET''"

definition idempotency_key :: "'a request_options_scheme \<Rightarrow> ('s, string option) prog" where
  "idempotency_key q =
     (if is_mutation q \<and> ro_idempotent q = Some True
      then (case mo_key q of Some k \<Rightarrow> Return (Some k) | None \<Rightarrow> bind (call_text RandomUuid) (\<lambda>k. Return (Some k)))
      else Return (mo_key q))"

definition wire_of :: "client_options \<Rightarrow> string \<Rightarrow> 'a request_options_scheme \<Rightarrow> string option \<Rightarrow> wire_request" where
  "wire_of cx path q key =
     \<lparr>wr_url = base_url cx @ path, wr_method = orelse (ro_method q) ''GET'',
      wr_headers = (let hs = buildHeaders cx q key in
        if ro_body q = None then hs else AList.update ''content-type'' ''application/json'' hs),
      wr_body = ro_body q\<rparr>"

definition sendRequest :: "client_options \<Rightarrow> string \<Rightarrow> 'a request_options_scheme \<Rightarrow> ('s, json option) prog" where
  "sendRequest cx path q =
     bind (idempotency_key q) (\<lambda>key.
       send_attempt (max_retries cx) (\<not> is_mutation q \<or> key \<noteq> None) (mo_signal q) (wire_of cx path q key) 0)"

section \<open>What reaches the coordinator\<close>

text \<open>The requests among the calls.\<close>

fun is_fetch :: "syscall \<Rightarrow> bool" where
  "is_fetch (Fetch u m h b) = True"
| "is_fetch _ = False"

definition fetches :: "syscall list \<Rightarrow> syscall list" where
  "fetches l = filter is_fetch l"

lemma run_pause:
  "\<exists>r t. run E (pause_before_retry n) s l = (r, s, l @ t) \<and> r \<noteq> Blocked \<and> fetches t = []"
  by (auto simp: pause_before_retry_def math_random_def run_bind call_unit_def fetches_def split: reply.split)

lemma run_aborted: "\<exists>b t. run E (if signal then signal_aborted else Return False) s l = (Value b, s, l @ t) \<and> fetches t = []"
  by (auto simp: signal_aborted_def fetches_def)

lemma run_fetch: "\<exists>r. run E (attempt (call_fetch (wire_call w))) s l = (Value r, s, l @ [wire_call w])"
  by (auto simp: run_attempt call_fetch_def split: reply.split)

definition sends :: "environment \<Rightarrow> ('s, 'a) prog \<Rightarrow> wire_request \<Rightarrow> 's \<Rightarrow> syscall list \<Rightarrow> nat \<Rightarrow> bool" where
  "sends E p w s l k \<longleftrightarrow> (\<exists>r t n. run E p s l = (r, s, l @ t) \<and> r \<noteq> Blocked \<and> fetches t = replicate n (wire_call w) \<and> n \<le> k)"

lemma fetches_append: "fetches (t @ u) = fetches t @ fetches u"
  by (simp add: fetches_def)

lemma sends_then:
  assumes "\<exists>r t. run E p s l = (r, s, l @ t) \<and> r \<noteq> Blocked \<and> fetches t = []" and "\<And>v t. sends E (f v) w s (l @ t) k"
  shows "sends E (bind p f) w s l k"
proof -
  obtain r t where p: "run E p s l = (r, s, l @ t)" "r \<noteq> Blocked" "fetches t = []" using assms(1) by blast
  show ?thesis
  proof (cases r)
    case (Value v)
    obtain r' t' n where "run E (f v) s (l @ t) = (r', s, (l @ t) @ t')" "r' \<noteq> Blocked" "fetches t' = replicate n (wire_call w)" "n \<le> k"
      using assms(2) [of v t] by (auto simp: sends_def)
    then show ?thesis
      unfolding sends_def using p Value by (intro exI [of _ r'] exI [of _ "t @ t'"] exI [of _ n]) (simp add: run_bind fetches_append)
  next
    case (Raised e)
    then have "run E (bind p f) s l = (Raised e, s, l @ t)" using p by (simp add: run_bind)
    then show ?thesis
      unfolding sends_def using p by (intro exI [of _ "Raised e"] exI [of _ t] exI [of _ 0]) simp
  qed (use p in simp)
qed

lemma sends_nothing: "run E p s l = (r, s, l) \<Longrightarrow> r \<noteq> Blocked \<Longrightarrow> sends E p w s l k"
  unfolding sends_def by (intro exI [of _ r] exI [of _ "[]"] exI [of _ 0]) (simp add: fetches_def)

lemma sends_throw: "sends E (Throw e) w s l k"
  by (rule sends_nothing [where r = "Raised e"]) simp_all

lemma sends_settle: "sends E (settle v) w s l k"
  by (rule sends_nothing [where r = "case v of Inl e \<Rightarrow> Raised e | Inr a \<Rightarrow> Value a"]) (simp_all add: run_settle split: sum.split)

lemma send_attempt_sends:
  "\<exists>r t n. run E (send_attempt retries retryable signal w attempts) s l = (r, s, l @ t) \<and> r \<noteq> Blocked
    \<and> fetches t = replicate (Suc n) (wire_call w) \<and> n \<le> (if retryable then retries - attempts else 0)"
proof (induction retries retryable signal w attempts arbitrary: l rule: send_attempt.induct)
  case (1 retries retryable signal w attempts)
  let ?k = "if retryable then retries - attempts else 0"
  let ?again = "seq (pause_before_retry attempts) (send_attempt retries retryable signal w (Suc attempts))"
  have again: "sends E ?again w s l' ?k" if "\<not> (retries \<le> attempts \<or> \<not> retryable)" and
    IH: "\<And>l. \<exists>r t n. run E (send_attempt retries retryable signal w (Suc attempts)) s l = (r, s, l @ t) \<and> r \<noteq> Blocked
      \<and> fetches t = replicate (Suc n) (wire_call w) \<and> n \<le> (if retryable then retries - Suc attempts else 0)" for l'
  proof (rule sends_then [OF run_pause])
    fix v t
    show "sends E (send_attempt retries retryable signal w (Suc attempts)) w s (l' @ t) ?k"
    proof -
      obtain r u n where *: "run E (send_attempt retries retryable signal w (Suc attempts)) s (l' @ t) = (r, s, (l' @ t) @ u)"
        "r \<noteq> Blocked" "fetches u = replicate (Suc n) (wire_call w)" "n \<le> (if retryable then retries - Suc attempts else 0)"
        using IH [of "l' @ t"] by blast
      then have "Suc n \<le> ?k" using that(1) by auto
      with * show ?thesis unfolding sends_def by (intro exI conjI)
    qed
  qed
  let ?rest = "\<lambda>r. case r of
       Inl e \<Rightarrow>
         if retries \<le> attempts \<or> \<not> retryable then Throw e
         else bind (if signal then signal_aborted else Return False) (\<lambda>aborted.
           if aborted then Throw e else ?again)
     | Inr response \<Rightarrow>
         if ok_status (fr_status response) then settle (response_value response)
         else if \<not> err_retryable (response_error response) \<or> retries \<le> attempts \<or> \<not> retryable
         then Throw (errorFromResponse response) else ?again"
  have rest: "sends E (?rest r) w s l' ?k" for r l'
  proof (cases r)
    case (Inl e)
    have "sends E (bind (if signal then signal_aborted else Return False) (\<lambda>aborted. if aborted then Throw e else ?again)) w s l' ?k"
      if "\<not> (retries \<le> attempts \<or> \<not> retryable)"
    proof (rule sends_then)
      show "\<exists>r t. run E (if signal then signal_aborted else Return False) s l' = (r, s, l' @ t) \<and> r \<noteq> Blocked \<and> fetches t = []"
        using run_aborted [of E signal s l'] by blast
    next
      fix v t
      show "sends E (if v then Throw e else ?again) w s (l' @ t) ?k"
      proof (cases v)
        case False
        then show ?thesis using again [OF that 1(1) [OF that False]] False by simp
      qed (simp add: sends_throw)
    qed
    then show ?thesis using Inl sends_throw by auto
  next
    case (Inr response)
    show ?thesis
    proof (cases "ok_status (fr_status response) \<or> \<not> err_retryable (response_error response) \<or> retries \<le> attempts \<or> \<not> retryable")
      case True
      then show ?thesis using Inr sends_throw sends_settle by auto
    next
      case False
      then have open': "\<not> ok_status (fr_status response)"
        "\<not> (\<not> err_retryable (response_error response) \<or> retries \<le> attempts \<or> \<not> retryable)" by blast+
      then have "sends E ?again w s l' ?k" using again [OF _ 1(2) [OF open']] open' by blast
      then show ?thesis using Inr open' by simp
    qed
  qed
  obtain r where "run E (attempt (call_fetch (wire_call w))) s l = (Value r, s, l @ [wire_call w])"
    using run_fetch [of E w s l] by auto
  moreover obtain r' t n where "run E (?rest r) s (l @ [wire_call w]) = (r', s, (l @ [wire_call w]) @ t)" "r' \<noteq> Blocked"
    "fetches t = replicate n (wire_call w)" "n \<le> ?k" using rest [of r "l @ [wire_call w]"] by (auto simp: sends_def)
  ultimately show ?case
    by (intro exI [of _ r'] exI [of _ "wire_call w # t"] exI [of _ n])
      (simp add: send_attempt.simps [of retries] run_bind fetches_def wire_call_def)
qed

lemma run_key:
  "\<exists>r t. run E (idempotency_key q) s l = (r, s, l @ t) \<and> r \<noteq> Blocked \<and> fetches t = []
    \<and> (\<forall>key. r = Value key \<longrightarrow> (if is_mutation q \<and> ro_idempotent q = Some True then key \<noteq> None else key = mo_key q))"
  by (auto simp: idempotency_key_def run_bind call_text_def fetches_def split: option.split reply.split)

lemma key_header:
  assumes "''idempotency-key'' \<notin> fst ` set (ro_headers q)"
  shows "map_of (wr_headers (wire_of cx path q key)) ''idempotency-key'' = key"
proof -
  have "map_of (ro_headers q) ''idempotency-key'' = None" using assms by (simp add: map_of_eq_None_iff)
  then have "map_of (buildHeaders cx q key) ''idempotency-key'' = key"
    by (simp add: buildHeaders_def merge_conv' map_add_def split: option.split)
  then show ?thesis by (simp add: wire_of_def Let_def update_conv')
qed

text \<open>
  C21: no mutation is sent twice without a key. Whatever the network and the coordinator
  answer, a request ends; what it sends is one and the same request each time, at most once
  more than the retries allowed; and when it is not a GET and carries no idempotency key, at
  most once. An idempotent mutation always carries a key, the caller's if there is one, and
  the key is in the header of every attempt.
\<close>

theorem sendRequest_sends:
  assumes "''idempotency-key'' \<notin> fst ` set (ro_headers q)"
  shows "\<exists>r t n w. run E (sendRequest cx path q) s l = (r, s, l @ t) \<and> r \<noteq> Blocked
    \<and> fetches t = replicate n (wire_call w) \<and> wr_url w = base_url cx @ path \<and> wr_body w = ro_body q
    \<and> (let key = map_of (wr_headers w) ''idempotency-key'' in
        (if is_mutation q \<and> key = None then n \<le> 1 else n \<le> Suc (max_retries cx))
        \<and> (if is_mutation q \<and> ro_idempotent q = Some True then n = 0 \<or> key \<noteq> None else n = 0 \<or> key = mo_key q))"
proof -
  obtain r t where key: "run E (idempotency_key q) s l = (r, s, l @ t)" "r \<noteq> Blocked" "fetches t = []"
    "\<forall>key. r = Value key \<longrightarrow> (if is_mutation q \<and> ro_idempotent q = Some True then key \<noteq> None else key = mo_key q)"
    using run_key [of E q s l] by blast
  show ?thesis
  proof (cases r)
    case (Value k)
    let ?w = "wire_of cx path q k"
    obtain r' t' n where send: "run E (send_attempt (max_retries cx) (\<not> is_mutation q \<or> k \<noteq> None) (mo_signal q) ?w 0) s (l @ t)
        = (r', s, (l @ t) @ t')" "r' \<noteq> Blocked" "fetches t' = replicate (Suc n) (wire_call ?w)"
      "n \<le> (if \<not> is_mutation q \<or> k \<noteq> None then max_retries cx - 0 else 0)"
      using send_attempt_sends [of E "max_retries cx" "\<not> is_mutation q \<or> k \<noteq> None" "mo_signal q" ?w 0 s "l @ t"] by blast
    then have "run E (sendRequest cx path q) s l = (r', s, l @ (t @ t'))" using key(1) Value by (simp add: sendRequest_def run_bind)
    moreover have "fetches (t @ t') = replicate (Suc n) (wire_call ?w)" using key(3) send(3) by (simp add: fetches_append)
    moreover have "wr_url ?w = base_url cx @ path" "wr_body ?w = ro_body q" by (simp_all add: wire_of_def)
    ultimately show ?thesis
      using send(2,4) key(4) Value key_header [OF assms, of cx path k]
      by (intro exI [of _ r'] exI [of _ "t @ t'"] exI [of _ "Suc n"] exI [of _ ?w]) (auto simp: Let_def split: if_splits)
  next
    case (Raised e)
    then have "run E (sendRequest cx path q) s l = (Raised e, s, l @ t)" using key(1) by (simp add: sendRequest_def run_bind)
    then show ?thesis
      using key(3) by (intro exI [of _ "Raised e"] exI [of _ t] exI [of _ 0] exI [of _ "wire_of cx path q None"])
        (simp add: wire_of_def Let_def)
  qed (use key in simp)
qed

definition sample_client :: client_options where
  "sample_client = \<lparr>co_baseUrl = ''http://c/'', co_token = None, co_maxRetries = Some 2\<rparr>"

text \<open>A coordinator that always answers 503.\<close>

fun unavailable :: environment where
  "unavailable l (Fetch u m h b) = OkFetch \<lparr>fr_status = 503, fr_statusText = [], fr_contentType = None, fr_text = Bytes [], fr_stream = None\<rparr>"
| "unavailable l c = Ok"

theorem sendRequest_sends_witness:
  "\<exists>r t n w. run unavailable (sendRequest sample_client ''/x'' \<lparr>mo_key = None, mo_signal = False, ro_method = Some ''POST'',
      ro_body = None, ro_idempotent = None, ro_accept = None, ro_headers = []\<rparr>) () [] = (r, (), t)
    \<and> fetches t = replicate n (wire_call w) \<and> n \<le> 1"
proof -
  let ?q = "\<lparr>mo_key = None, mo_signal = False, ro_method = Some ''POST'', ro_body = None, ro_idempotent = None,
    ro_accept = None, ro_headers = []\<rparr> :: request_options"
  have "is_mutation ?q" by (simp add: is_mutation_def)
  with sendRequest_sends [of ?q unavailable sample_client "''/x''" "()" "[]"] show ?thesis
    by (fastforce simp: Let_def)
qed

end
