(* ===== verification/Phoenix.thy ===== *)
theory Phoenix
  imports Turns Sdk_Request Promises
begin

text \<open>
  The Phoenix socket of the SDK: \<open>packages/sdk/src/phoenix/\<close> (\<open>protocol.ts\<close>,
  \<open>pending.ts\<close>, \<open>connect.ts\<close>, \<open>socket.ts\<close>). One object keeps the current WebSocket,
  the pushes that wait for a reply and the topics joined; the code that runs on behalf of
  callers and the listeners of the WebSockets, of timers and of abort signals are programs
  over that object, interleaved at their suspensions.
\<close>

section \<open>Messages\<close>

text \<open>A message: join reference, reference, topic, event and payload.\<close>

type_synonym phoenix_message = "string option \<times> string option \<times> string \<times> string \<times> json"

fun m_ref :: "phoenix_message \<Rightarrow> string option" where
  "m_ref (j, r, t, e, p) = r"

fun opt_str :: "string option \<Rightarrow> json" where
  "opt_str None = JNull"
| "opt_str (Some s) = JStr s"

fun message_json :: "phoenix_message \<Rightarrow> json" where
  "message_json (j, r, t, e, p) = JArr [opt_str j, opt_str r, JStr t, JStr e, p]"

text \<open>\<open>isPhoenixMessage\<close> and the typed view of a value that passed it.\<close>

fun str_or_null :: "json \<Rightarrow> bool" where
  "str_or_null (JStr s) = True"
| "str_or_null JNull = True"
| "str_or_null _ = False"

fun isPhoenixMessage :: "json \<Rightarrow> bool" where
  "isPhoenixMessage (JArr [j, r, t, e, p]) \<longleftrightarrow>
     str_or_null j \<and> str_or_null r \<and> is_str (Some t) \<and> is_str (Some e)"
| "isPhoenixMessage _ \<longleftrightarrow> False"

fun str_option :: "json \<Rightarrow> string option" where
  "str_option (JStr s) = Some s"
| "str_option _ = None"

fun message_of :: "json \<Rightarrow> phoenix_message" where
  "message_of (JArr [j, r, t, e, p]) = (str_option j, str_option r, str_of (Some t), str_of (Some e), p)"
| "message_of _ = (None, None, [], [], JNull)"

lemma message_json_ok: "isPhoenixMessage (message_json m) \<and> message_of (message_json m) = m"
proof -
  obtain j r t e p where "m = (j, r, t, e, p)" by (cases m)
  then show ?thesis by (cases j; cases r) simp_all
qed

fun isReplyPayload :: "json \<Rightarrow> bool" where
  "isReplyPayload (JObj kvs) \<longleftrightarrow> is_str (map_of kvs ''status'') \<and> map_of kvs ''response'' \<noteq> None"
| "isReplyPayload _ \<longleftrightarrow> False"

definition isErrorBody :: "json \<Rightarrow> bool" where
  "isErrorBody v \<longleftrightarrow> is_str (obj_get v ''code'') \<and> is_str (obj_get v ''message'') \<and> is_bool (obj_get v ''retryable'')"

definition errorBody :: "json option \<Rightarrow> error_body" where
  "errorBody v = (case v of
       Some x \<Rightarrow>
         if isErrorEnvelope x then envelope_body x
         else if isErrorBody x then body_of x
         else \<lparr>err_code = code_text Internal,
                err_message = (if is_str (obj_get x ''reason'') then str_of (obj_get x ''reason'')
                  else ''Phoenix channel request failed''),
                err_retryable = False, err_details = None\<rparr>
     | None \<Rightarrow> \<lparr>err_code = code_text Internal, err_message = ''Phoenix channel request failed'',
                err_retryable = False, err_details = None\<rparr>)"

definition channelError :: "json option \<Rightarrow> js_error" where
  "channelError v = FiremigError (errorBody v) None"

text \<open>
  The data of a socket frame: text, the bytes of a buffer (decoded as text), a blob whose text
  is read asynchronously and may fail, or something else.
\<close>

datatype frame_data = TextFrame string | BufferFrame string | BlobFrame "js_error + string" | OtherFrame

fun messageText :: "frame_data \<Rightarrow> ('s, string option) prog" where
  "messageText (TextFrame t) = Return (Some t)"
| "messageText (BufferFrame t) = Return (Some t)"
| "messageText (BlobFrame r) = Yield (\<lambda>_. True) (bind (settle r) (\<lambda>t. Return (Some t)))"
| "messageText OtherFrame = Return None"

text \<open>The reason of an aborted signal: an \<open>Error\<close>, or any other value.\<close>

datatype abort_reason = ErrorReason js_error | OtherReason

fun abortError :: "abort_reason \<Rightarrow> js_error" where
  "abortError (ErrorReason e) = e"
| "abortError OtherReason = JsError ''The operation was aborted''"

section \<open>The state of a socket\<close>

text \<open>Promises in the order they were made, each with what it was made for.\<close>

definition settle_at :: "nat \<Rightarrow> 'a promise \<Rightarrow> ('k \<times> 'a promise) list \<Rightarrow> ('k \<times> 'a promise) list" where
  "settle_at i v ps = (if i < length ps then ps[i := (fst (ps ! i), settle_promise v (snd (ps ! i)))] else ps)"

definition promise_at :: "('k \<times> 'a promise) list \<Rightarrow> nat \<Rightarrow> 'a promise" where
  "promise_at ps i = (if i < length ps then snd (ps ! i) else Pending)"

text \<open>\<open>await\<close> of a promise of the object.\<close>

definition wait_for :: "('s \<Rightarrow> 'a promise) \<Rightarrow> ('s, 'a) prog" where
  "wait_for p = Yield (\<lambda>s. p s \<noteq> Pending) (Read (\<lambda>s. settle (promise_result (p s))))"

text \<open>
  WebSockets are numbered in the order they were made; so are the promises of pushes, joins and
  command completions. \<open>px_ready\<close>, \<open>px_opened\<close> and \<open>px_opening\<close> are the ready state of each
  WebSocket and the flag and the promise of its \<open>attachSocket\<close>; a timer is named by the
  WebSocket it beats for. An entry of \<open>px_entries\<close> maps the reference of a push to its promise
  and its signal, an element of \<open>px_aborts\<close> is a listener for the abort of a signal. The last
  four fields record what was sent, which replies and events were taken in, and what commands
  ended with.
\<close>

record phoenix =
  px_socket :: "nat option"
  px_ready :: "nat \<Rightarrow> nat"
  px_made :: nat
  px_opened :: "nat set"
  px_opening :: "nat \<Rightarrow> unit promise"
  px_connecting :: "nat option"
  px_heartbeat :: "nat option"
  px_timers :: "nat set"
  px_nextRef :: nat
  px_entries :: "(string \<times> nat \<times> nat option) list"
  px_aborts :: "(nat \<times> string \<times> nat) list"
  px_requests :: "(string \<times> json promise) list"
  px_joined :: "(string \<times> string) list"
  px_joining :: "(string \<times> nat) list"
  px_joins :: "(string \<times> string promise) list"
  px_listeners :: "(nat \<times> string \<times> string) list"
  px_completions :: "((string \<times> string) \<times> json promise) list"
  px_signals :: "nat \<Rightarrow> abort_reason option"
  px_sent :: "(nat \<times> phoenix_message) list"
  px_replies :: "(string \<times> json) list"
  px_events :: "phoenix_message list"
  px_outcomes :: "((string \<times> string \<times> json \<times> string) \<times> (js_error + json)) list"

definition new_phoenix :: phoenix where
  "new_phoenix = \<lparr>px_socket = None, px_ready = (\<lambda>_. 0), px_made = 0, px_opened = {}, px_opening = (\<lambda>_. Pending),
     px_connecting = None, px_heartbeat = None, px_timers = {}, px_nextRef = 1, px_entries = [], px_aborts = [],
     px_requests = [], px_joined = [], px_joining = [], px_joins = [], px_listeners = [], px_completions = [],
     px_signals = (\<lambda>_. None), px_sent = [], px_replies = [], px_events = [], px_outcomes = []\<rparr>"

text \<open>
  The WebSocket API as far as it may throw: whether making a WebSocket throws, given the ones
  made before, and whether \<open>send\<close> does, given what was sent before.
\<close>

record websocket_api =
  wa_make :: "string \<Rightarrow> nat \<Rightarrow> js_error option"
  wa_send :: "(nat \<times> phoenix_message) list \<Rightarrow> nat \<Rightarrow> phoenix_message \<Rightarrow> js_error option"

abbreviation (input) CONNECTING :: nat where "CONNECTING \<equiv> 0"
abbreviation (input) OPEN :: nat where "OPEN \<equiv> 1"
abbreviation (input) CLOSING :: nat where "CLOSING \<equiv> 2"
abbreviation (input) CLOSED :: nat where "CLOSED \<equiv> 3"

definition is_open :: "phoenix \<Rightarrow> bool" where
  "is_open s = (case px_socket s of None \<Rightarrow> False | Some k \<Rightarrow> px_ready s k = OPEN)"

text \<open>\<open>WebSocket.close\<close> starts the closing handshake of a socket that is not closing yet.\<close>

definition close_websocket :: "nat \<Rightarrow> phoenix \<Rightarrow> phoenix" where
  "close_websocket k s = (if px_ready s k < CLOSING then s\<lparr>px_ready := (px_ready s)(k := CLOSING)\<rparr> else s)"

section \<open>Pending replies\<close>

definition settle_request :: "nat \<Rightarrow> json promise \<Rightarrow> phoenix \<Rightarrow> phoenix" where
  "settle_request i v s = s\<lparr>px_requests := settle_at i v (px_requests s)\<rparr>"

definition add_listener :: "nat option \<Rightarrow> string \<Rightarrow> nat \<Rightarrow> phoenix \<Rightarrow> phoenix" where
  "add_listener sg r i s = (case sg of None \<Rightarrow> s | Some n \<Rightarrow> s\<lparr>px_aborts := px_aborts s @ [(n, r, i)]\<rparr>)"

definition remove_listener :: "nat option \<Rightarrow> string \<Rightarrow> nat \<Rightarrow> phoenix \<Rightarrow> phoenix" where
  "remove_listener sg r i s = (case sg of None \<Rightarrow> s | Some n \<Rightarrow> s\<lparr>px_aborts := filter (\<lambda>x. x \<noteq> (n, r, i)) (px_aborts s)\<rparr>)"

text \<open>\<open>add\<close>, with the promise that the caller of \<open>push\<close> will wait for.\<close>

definition pending_add :: "string \<Rightarrow> nat option \<Rightarrow> phoenix \<Rightarrow> phoenix" where
  "pending_add r sg s = (let i = length (px_requests s); s' = add_listener sg r i s in
     s'\<lparr>px_entries := AList.update r (i, sg) (px_entries s'), px_requests := px_requests s' @ [(r, Pending)]\<rparr>)"

definition pending_discard :: "string \<Rightarrow> nat \<Rightarrow> nat option \<Rightarrow> phoenix \<Rightarrow> phoenix" where
  "pending_discard r i sg s = remove_listener sg r i (s\<lparr>px_entries := AList.delete r (px_entries s)\<rparr>)"

text \<open>The verdict of a reply on the push it answers: \<open>settleReply\<close>.\<close>

definition settleReply :: "json \<Rightarrow> json promise" where
  "settleReply p =
     (if \<not> isReplyPayload p
      then Rejected (FiremigError \<lparr>err_code = code_text Internal, err_message = ''Invalid Phoenix reply'',
             err_retryable = False, err_details = None\<rparr> None)
      else if str_of (obj_get p ''status'') = ''ok'' then Fulfilled (the (obj_get p ''response''))
      else Rejected (channelError (obj_get p ''response'')))"

text \<open>\<open>take\<close> the entry of a reference and settle it.\<close>

definition take_reply :: "string \<Rightarrow> json \<Rightarrow> phoenix \<Rightarrow> phoenix" where
  "take_reply r p s = (let s = s\<lparr>px_replies := px_replies s @ [(r, p)]\<rparr> in
     case map_of (px_entries s) r of
       None \<Rightarrow> s
     | Some (i, sg) \<Rightarrow> settle_request i (settleReply p) (pending_discard r i sg s))"

definition rejectAll :: "js_error \<Rightarrow> phoenix \<Rightarrow> phoenix" where
  "rejectAll e s = (foldl (\<lambda>s (r, i, sg). settle_request i (Rejected e) (remove_listener sg r i s)) s (px_entries s))\<lparr>px_entries := []\<rparr>"

text \<open>The abort of a signal runs its listeners, each of which rejects the push it was added for.\<close>

definition on_abort :: "js_error \<Rightarrow> phoenix \<Rightarrow> nat \<times> string \<times> nat \<Rightarrow> phoenix" where
  "on_abort e s x = (case x of (n, r, i) \<Rightarrow>
     let s = s\<lparr>px_aborts := filter (\<lambda>y. y \<noteq> x) (px_aborts s)\<rparr> in
     if r \<in> fst ` set (px_entries s) then settle_request i (Rejected e) (s\<lparr>px_entries := AList.delete r (px_entries s)\<rparr>) else s)"

definition abort_signal :: "nat \<Rightarrow> abort_reason \<Rightarrow> phoenix \<Rightarrow> phoenix" where
  "abort_signal n why s = (if px_signals s n \<noteq> None then s
     else foldl (on_abort (abortError why)) (s\<lparr>px_signals := (px_signals s)(n := Some why)\<rparr>)
       (filter (\<lambda>(n', r, i). n' = n) (px_aborts s)))"

section \<open>Connection\<close>

definition disconnect :: "nat \<Rightarrow> js_error \<Rightarrow> phoenix \<Rightarrow> phoenix" where
  "disconnect k e s = (if px_socket s \<noteq> Some k then s
     else rejectAll e (s\<lparr>px_socket := None, px_joined := [],
       px_timers := (case px_heartbeat s of None \<Rightarrow> px_timers s | Some b \<Rightarrow> px_timers s - {b}),
       px_heartbeat := None\<rparr>))"

definition settle_opening :: "nat \<Rightarrow> unit promise \<Rightarrow> phoenix \<Rightarrow> phoenix" where
  "settle_opening k v s = s\<lparr>px_opening := (px_opening s)(k := settle_promise v (px_opening s k))\<rparr>"

text \<open>The listeners of \<open>attachSocket\<close>, with the change of the ready state that comes with the event.\<close>

definition on_open :: "nat \<Rightarrow> phoenix \<Rightarrow> phoenix" where
  "on_open k s = (let s = s\<lparr>px_ready := (px_ready s)(k := OPEN)\<rparr> in
     if px_socket s \<noteq> Some k then s
     else settle_opening k (Fulfilled ())
       (s\<lparr>px_opened := insert k (px_opened s), px_heartbeat := Some k, px_timers := insert k (px_timers s)\<rparr>))"

definition on_error :: "nat \<Rightarrow> phoenix \<Rightarrow> phoenix" where
  "on_error k s = (let e = JsError ''Firemig WebSocket connection failed'' in
     close_websocket k (disconnect k e (if k \<in> px_opened s then s else settle_opening k (Rejected e) s)))"

definition on_close :: "nat \<Rightarrow> string \<Rightarrow> phoenix \<Rightarrow> phoenix" where
  "on_close k reason s = (let s = s\<lparr>px_ready := (px_ready s)(k := CLOSED)\<rparr>;
       e = JsError (''Firemig WebSocket closed'' @ (if reason = [] then [] else '': '' @ reason)) in
     disconnect k e (if k \<in> px_opened s then s else settle_opening k (Rejected e) s))"

text \<open>The peer starts to close a connection that is open.\<close>

definition on_closing :: "nat \<Rightarrow> phoenix \<Rightarrow> phoenix" where
  "on_closing k s = (if px_ready s k = OPEN then s\<lparr>px_ready := (px_ready s)(k := CLOSING)\<rparr> else s)"

definition px_close :: "phoenix \<Rightarrow> phoenix" where
  "px_close s = (case px_socket s of None \<Rightarrow> s
     | Some k \<Rightarrow> close_websocket k (disconnect k (JsError ''Firemig WebSocket client closed'') s))"

text \<open>\<open>ref\<close>.\<close>

definition next_ref :: "(phoenix, string) prog" where
  "next_ref = bind (gets px_nextRef) (\<lambda>n. seq (modify (\<lambda>s. s\<lparr>px_nextRef := Suc (px_nextRef s)\<rparr>)) (Return (nat_text n)))"

definition heartbeat_message :: "string \<Rightarrow> phoenix_message" where
  "heartbeat_message r = (None, Some r, ''phoenix'', ''heartbeat'', JObj [])"

definition record_sent :: "nat \<Rightarrow> phoenix_message \<Rightarrow> phoenix \<Rightarrow> phoenix" where
  "record_sent k m s = s\<lparr>px_sent := px_sent s @ [(k, m)]\<rparr>"

text \<open>A tick of the interval timer of a WebSocket: \<open>startHeartbeat\<close>.\<close>

definition heartbeat_tick :: "websocket_api \<Rightarrow> nat \<Rightarrow> (phoenix, unit) prog" where
  "heartbeat_tick W k = Read (\<lambda>s.
     if k \<notin> px_timers s \<or> px_socket s \<noteq> Some k \<or> px_ready s k \<noteq> OPEN then skip
     else bind next_ref (\<lambda>r. Read (\<lambda>s.
       case wa_send W (px_sent s) k (heartbeat_message r) of
         Some e \<Rightarrow> Throw e
       | None \<Rightarrow> modify (record_sent k (heartbeat_message r)))))"

definition new_websocket :: "phoenix \<Rightarrow> phoenix" where
  "new_websocket s = s\<lparr>px_socket := Some (px_made s), px_connecting := Some (px_made s), px_made := Suc (px_made s),
     px_ready := (px_ready s)(px_made s := CONNECTING), px_opening := (px_opening s)(px_made s := Pending),
     px_opened := px_opened s - {px_made s}\<rparr>"

definition wait_opening :: "nat \<Rightarrow> (phoenix, unit) prog" where
  "wait_opening k = wait_for (\<lambda>s. px_opening s k)"

definition connect :: "websocket_api \<Rightarrow> js_error + string \<Rightarrow> (phoenix, unit) prog" where
  "connect W url = Read (\<lambda>s.
     if is_open s then skip
     else case px_connecting s of
       Some k \<Rightarrow> wait_opening k
     | None \<Rightarrow> bind (settle url) (\<lambda>u.
         case wa_make W u (px_made s) of
           Some e \<Rightarrow> Throw e
         | None \<Rightarrow> seq (modify new_websocket)
             (try_finally (wait_opening (px_made s))
               (modify (\<lambda>t. if px_connecting t = Some (px_made s) then t\<lparr>px_connecting := None\<rparr> else t)))))"

section \<open>Pushes\<close>

text \<open>The part of \<open>push\<close> that runs when the promise is made: \<open>send\<close> may throw.\<close>

definition send_push :: "websocket_api \<Rightarrow> nat \<Rightarrow> string \<Rightarrow> phoenix_message \<Rightarrow> nat option \<Rightarrow> phoenix \<Rightarrow> phoenix" where
  "send_push W k r m sg s = (let i = length (px_requests s); s' = pending_add r sg s in
     case wa_send W (px_sent s') k m of
       None \<Rightarrow> record_sent k m s'
     | Some e \<Rightarrow> settle_request i (Rejected e) (pending_discard r i sg s'))"

definition wait_reply :: "nat \<Rightarrow> (phoenix, json) prog" where
  "wait_reply i = wait_for (\<lambda>s. promise_at (px_requests s) i)"

definition signal_of :: "phoenix \<Rightarrow> nat option \<Rightarrow> abort_reason option" where
  "signal_of s sg = (case sg of None \<Rightarrow> None | Some n \<Rightarrow> px_signals s n)"

definition push :: "websocket_api \<Rightarrow> phoenix_message \<Rightarrow> nat option \<Rightarrow> (phoenix, json) prog" where
  "push W m sg = (case m_ref m of
       None \<Rightarrow> Throw (JsError ''Phoenix request ref is required'')
     | Some r \<Rightarrow> Read (\<lambda>s. case signal_of s sg of
         Some why \<Rightarrow> Throw (abortError why)
       | None \<Rightarrow> (case px_socket s of
           None \<Rightarrow> Throw (JsError ''Firemig WebSocket is not connected'')
         | Some k \<Rightarrow>
           if px_ready s k \<noteq> OPEN then Throw (JsError ''Firemig WebSocket is not connected'')
           else seq (modify (send_push W k r m sg)) (wait_reply (length (px_requests s))))))"

section \<open>Joining a topic\<close>

definition join_message :: "string \<Rightarrow> string \<Rightarrow> phoenix_message" where
  "join_message topic r = (Some r, Some r, topic, ''phx_join'', JObj [])"

definition run_join :: "websocket_api \<Rightarrow> js_error + string \<Rightarrow> string \<Rightarrow> (phoenix, string) prog" where
  "run_join W url topic =
     seq (await (connect W url))
    (bind next_ref (\<lambda>r.
     seq (await (push W (join_message topic r) None))
    (seq (modify (\<lambda>s. s\<lparr>px_joined := AList.update topic r (px_joined s)\<rparr>))
         (Return r))))"

definition wait_join :: "nat \<Rightarrow> (phoenix, string) prog" where
  "wait_join j = wait_for (\<lambda>s. promise_at (px_joins s) j)"

fun outcome_promise :: "js_error + 'a \<Rightarrow> 'a promise" where
  "outcome_promise (Inl e) = Rejected e"
| "outcome_promise (Inr v) = Fulfilled v"

definition settle_join :: "nat \<Rightarrow> js_error + string \<Rightarrow> phoenix \<Rightarrow> phoenix" where
  "settle_join j r s = s\<lparr>px_joins := settle_at j (outcome_promise r) (px_joins s)\<rparr>"

definition begin_join :: "string \<Rightarrow> phoenix \<Rightarrow> phoenix" where
  "begin_join topic s = s\<lparr>px_joins := px_joins s @ [(topic, Pending)], px_joining := AList.update topic (length (px_joins s)) (px_joining s)\<rparr>"

definition end_join :: "string \<Rightarrow> nat \<Rightarrow> phoenix \<Rightarrow> phoenix" where
  "end_join topic j s = (if map_of (px_joining s) topic = Some j then s\<lparr>px_joining := AList.delete topic (px_joining s)\<rparr> else s)"

text \<open>
  The promise of the inner \<open>async\<close> function is numbered before its body starts; nobody reads
  \<open>joiningTopics\<close> before the body first suspends.
\<close>

definition join :: "websocket_api \<Rightarrow> js_error + string \<Rightarrow> string \<Rightarrow> (phoenix, string) prog" where
  "join W url topic = Read (\<lambda>s. case map_of (px_joined s) topic of
       Some r \<Rightarrow> Return r
     | None \<Rightarrow> (case map_of (px_joining s) topic of
         Some j \<Rightarrow> wait_join j
       | None \<Rightarrow>
         seq (modify (begin_join topic))
        (bind (attempt (run_join W url topic)) (\<lambda>r.
         seq (modify (settle_join (length (px_joins s)) r))
        (Yield (\<lambda>_. True)
        (seq (modify (end_join topic (length (px_joins s)))) (settle r)))))))"

end
