(* ===== verification/Phoenix_Commands.thy ===== *)
theory Phoenix_Commands
  imports Phoenix
begin

text \<open>
  Commands over the Phoenix socket: \<open>packages/sdk/src/websocket.ts\<close> and the part of
  \<open>socket.ts\<close> that hands frames to listeners. The only listeners are those of
  \<open>commandCompletion\<close>.
\<close>

section \<open>Completion events\<close>

definition command_event :: "json \<Rightarrow> (string \<times> string) option" where
  "command_event v = (if is_str (obj_get v ''commandId'') \<and> is_str (obj_get v ''status'')
     then Some (str_of (obj_get v ''commandId''), str_of (obj_get v ''status'')) else None)"

text \<open>\<open>payload.result ?? {commandId}\<close>.\<close>

definition event_result :: "json \<Rightarrow> string \<Rightarrow> json" where
  "event_result p c = (case obj_get p ''result'' of
       None \<Rightarrow> JObj [(''commandId'', JStr c)]
     | Some v \<Rightarrow> if v = JNull then JObj [(''commandId'', JStr c)] else v)"

text \<open>The verdict of an event on a command that waits for its completion, if it is about that command.\<close>

fun completion_verdict :: "string \<Rightarrow> string \<Rightarrow> phoenix_message \<Rightarrow> json promise option" where
  "completion_verdict topic c (j, r, t, e, p) =
     (if t \<noteq> topic \<or> e \<noteq> ''command_result'' then None
      else case command_event p of
        None \<Rightarrow> None
      | Some (c', status) \<Rightarrow>
          if c' \<noteq> c then None
          else if status = ''failed'' then Some (Rejected (channelError (obj_get p ''error'')))
          else if status = ''done'' then Some (Fulfilled (event_result p c'))
          else None)"

definition settle_completion :: "nat \<Rightarrow> json promise \<Rightarrow> phoenix \<Rightarrow> phoenix" where
  "settle_completion c v s = s\<lparr>px_completions := settle_at c v (px_completions s)\<rparr>"

definition call_listener :: "phoenix_message \<Rightarrow> phoenix \<Rightarrow> nat \<times> string \<times> string \<Rightarrow> phoenix" where
  "call_listener m s x = (case x of (c, topic, key) \<Rightarrow>
     case completion_verdict topic key m of None \<Rightarrow> s | Some v \<Rightarrow> settle_completion c v s)"

definition deliver_event :: "phoenix_message \<Rightarrow> phoenix \<Rightarrow> phoenix" where
  "deliver_event m s = foldl (call_listener m) (s\<lparr>px_events := px_events s @ [m]\<rparr>) (px_listeners s)"

text \<open>\<open>dispatchFrame\<close> on a decoded message.\<close>

fun receive_message :: "phoenix_message \<Rightarrow> phoenix \<Rightarrow> phoenix" where
  "receive_message (j, r, t, e, p) s =
     (if e \<noteq> ''phx_reply'' then deliver_event (j, r, t, e, p) s
      else case r of None \<Rightarrow> deliver_event (j, r, t, e, p) s | Some r \<Rightarrow> take_reply r p s)"

definition dispatchFrame :: "frame_data \<Rightarrow> (phoenix, unit) prog" where
  "dispatchFrame data = bind (await (messageText data)) (\<lambda>text. case text of
       None \<Rightarrow> skip
     | Some t \<Rightarrow> (case json_read t of
         None \<Rightarrow> skip
       | Some v \<Rightarrow> if isPhoenixMessage v then modify (receive_message (message_of v)) else skip))"

definition handleMessage :: "nat \<Rightarrow> frame_data \<Rightarrow> (phoenix, unit) prog" where
  "handleMessage k data = bind (attempt (dispatchFrame data)) (\<lambda>r. case r of
       Inr _ \<Rightarrow> skip
     | Inl e \<Rightarrow> Yield (\<lambda>_. True) (modify (\<lambda>s. close_websocket k (disconnect k e s))))"

section \<open>Commands\<close>

definition subscribe :: "nat \<Rightarrow> string \<Rightarrow> string \<Rightarrow> phoenix \<Rightarrow> phoenix" where
  "subscribe c topic key s = s\<lparr>px_listeners := px_listeners s @ [(c, topic, key)]\<rparr>"

definition unsubscribe :: "nat \<Rightarrow> phoenix \<Rightarrow> phoenix" where
  "unsubscribe c s = s\<lparr>px_listeners := filter (\<lambda>x. fst x \<noteq> c) (px_listeners s)\<rparr>"

text \<open>\<open>commandCompletion\<close> makes a promise and the listener that settles it.\<close>

definition commandCompletion :: "string \<Rightarrow> string \<Rightarrow> phoenix \<Rightarrow> phoenix" where
  "commandCompletion topic key s =
     subscribe (length (px_completions s)) topic key (s\<lparr>px_completions := px_completions s @ [((topic, key), Pending)]\<rparr>)"

text \<open>An abort comes before the continuation of the completion, unless that has already run.\<close>

definition waitForCompletion :: "nat \<Rightarrow> nat option \<Rightarrow> (phoenix, json) prog" where
  "waitForCompletion c sg = Read (\<lambda>s. case signal_of s sg of
       Some why \<Rightarrow> Throw (abortError why)
     | None \<Rightarrow> Yield (\<lambda>s. promise_at (px_completions s) c \<noteq> Pending \<or> signal_of s sg \<noteq> None)
         (Read (\<lambda>s. case signal_of s sg of
             Some why \<Rightarrow> Throw (abortError why)
           | None \<Rightarrow> settle (promise_result (promise_at (px_completions s) c)))))"

text \<open>\<open>accepted.queued\<close>: reading a member of \<open>null\<close> throws.\<close>

definition is_queued :: "json \<Rightarrow> js_error + bool" where
  "is_queued v = (if v = JNull then Inl TypeFault else Inr (obj_get v ''queued'' = Some (JBool True)))"

text \<open>The own members that a spread copies.\<close>

definition indexed :: "json list \<Rightarrow> (string \<times> json) list" where
  "indexed vs = zip (map nat_text [0..<length vs]) vs"

fun spread :: "json \<Rightarrow> (string \<times> json) list" where
  "spread (JObj kvs) = kvs"
| "spread (JArr vs) = indexed vs"
| "spread (JStr s) = indexed (map (\<lambda>ch. JStr [ch]) s)"
| "spread _ = []"

definition queued_result :: "json \<Rightarrow> string \<Rightarrow> json" where
  "queued_result v key = JObj (AList.update ''queued'' (JBool True) (AList.update ''commandId'' (JStr key) (spread v)))"

definition command_topic :: "string \<Rightarrow> string \<Rightarrow> string" where
  "command_topic sandbox user = ''sandbox:'' @ sandbox @ '':'' @ user"

definition command_message :: "string \<Rightarrow> string \<Rightarrow> string \<Rightarrow> string \<Rightarrow> json \<Rightarrow> phoenix_message" where
  "command_message j r topic key request = (Some j, Some r, topic, ''command'',
     JObj [(''commandId'', JStr key), (''idempotencyKey'', JStr key), (''payload'', request)])"

text \<open>
  The address of the socket. \<open>origin\<close> stands for what \<open>new URL\<close> reads in the base address,
  its protocol and host, when it does not throw; the query is form-encoded.
\<close>

definition form_char :: "char \<Rightarrow> string" where
  "form_char ch = (if ch = CHR '' '' then ''+''
     else if is_alnum ch \<or> ch \<in> set ''*-._'' then [ch]
     else [CHR ''%'', upper_hex (of_char ch div 16), upper_hex (of_char ch mod 16)])"

definition form_encode :: "string \<Rightarrow> string" where
  "form_encode s = concat (map form_char s)"

definition socketUrl :: "(string \<Rightarrow> (string \<times> string) option) \<Rightarrow> string \<Rightarrow> string \<Rightarrow> string option \<Rightarrow> js_error + string" where
  "socketUrl origin baseUrl user token = (case origin baseUrl of
       None \<Rightarrow> Inl TypeFault
     | Some (protocol, host) \<Rightarrow> Inr
         ((if protocol = ''https:'' then ''wss:'' else ''ws:'') @ ''//'' @ host @ ''/socket/websocket?vsn=2.0.0&userId='' @ form_encode user
          @ (case token of None \<Rightarrow> [] | Some t \<Rightarrow> ''&token='' @ form_encode t)))"

definition await_command :: "websocket_api \<Rightarrow> phoenix_message \<Rightarrow> string \<Rightarrow> nat option \<Rightarrow> nat \<Rightarrow> (phoenix, json) prog" where
  "await_command W m key sg c = try_finally
     (bind (await (push W m sg)) (\<lambda>accepted.
      bind (settle (is_queued accepted)) (\<lambda>queued.
      if \<not> queued then Return accepted
      else bind (await (waitForCompletion c sg)) (\<lambda>v. Return (queued_result v key)))))
     (modify (unsubscribe c))"

definition runCommand :: "websocket_api \<Rightarrow> js_error + string \<Rightarrow> string \<Rightarrow> string \<Rightarrow> json \<Rightarrow> string \<Rightarrow> nat option \<Rightarrow> bool \<Rightarrow>
    (phoenix, json) prog" where
  "runCommand W url user sandbox request key sg awaitCompletion =
     (let topic = command_topic sandbox user in
      bind (await (join W url topic)) (\<lambda>j.
      bind next_ref (\<lambda>r.
      if \<not> awaitCompletion then await (push W (command_message j r topic key request) sg)
      else Read (\<lambda>s. seq (modify (commandCompletion topic key))
        (await_command W (command_message j r topic key request) key sg (length (px_completions s)))))))"

text \<open>\<open>FiremigClient.runCommand\<close>: a command without a key gets a new one.\<close>

definition client_runCommand :: "websocket_api \<Rightarrow> js_error + string \<Rightarrow> string \<Rightarrow> string \<Rightarrow> json \<Rightarrow> string option \<Rightarrow> nat option \<Rightarrow> bool \<Rightarrow>
    (phoenix, json) prog" where
  "client_runCommand W url user sandbox request key sg awaitCompletion =
     bind (case key of Some k \<Rightarrow> Return k | None \<Rightarrow> call_text RandomUuid) (\<lambda>k.
       runCommand W url user sandbox request k sg awaitCompletion)"

section \<open>Everything that runs\<close>

text \<open>A call of \<open>runCommand\<close>, whose outcome is recorded.\<close>

definition command_thread :: "websocket_api \<Rightarrow> js_error + string \<Rightarrow> string \<Rightarrow> string \<Rightarrow> json \<Rightarrow> string \<Rightarrow> nat option \<Rightarrow> bool \<Rightarrow>
    (phoenix, unit) prog" where
  "command_thread W url user sandbox request key sg awaitCompletion =
     bind (attempt (runCommand W url user sandbox request key sg awaitCompletion)) (\<lambda>r.
     modify (\<lambda>s. s\<lparr>px_outcomes := px_outcomes s @ [((sandbox, user, request, key), r)]\<rparr>))"

text \<open>What may happen to a transport: a command is called for, or an event of a WebSocket, a timer, a signal or the caller arrives.\<close>

inductive transport :: "websocket_api \<Rightarrow> js_error + string \<Rightarrow> string \<Rightarrow> (phoenix, unit) prog \<Rightarrow> bool" for W url user where
  command: "transport W url user (command_thread W url user sandbox request key sg awaitCompletion)"
| opened: "transport W url user (modify (on_open k))"
| message: "transport W url user (handleMessage k data)"
| failed: "transport W url user (modify (on_error k))"
| closing: "transport W url user (modify (on_closing k))"
| closed: "transport W url user (modify (on_close k reason))"
| tick: "transport W url user (heartbeat_tick W k)"
| aborted: "transport W url user (modify (abort_signal n why))"
| close: "transport W url user (modify px_close)"

end
