(* ===== verification/Phoenix_Replies.thy ===== *)
theory Phoenix_Replies
  imports Phoenix_Commands Rely "HOL-Library.Sublist"
begin

text \<open>
  What a transport promises, whatever happens to its sockets: it implements a table of
  requests in which each is answered once, by the reply to its own reference, or fails; a
  command is sent only on a topic whose join was confirmed; and what \<open>runCommand\<close> returns is
  what the coordinator answered.
\<close>

section \<open>The table of requests\<close>

type_synonym board = "(string \<times> json promise) list \<times> (string \<times> json) list"

text \<open>
  A request is made under a new reference; a reply settles the pending request of its
  reference, or nothing when there is none; a pending request may fail at any time.
\<close>

inductive board_step :: "board \<Rightarrow> board \<Rightarrow> bool" where
  issue: "r \<notin> fst ` set q \<Longrightarrow> board_step (q, g) (q @ [(r, Pending)], g)"
| answer: "i < length q \<Longrightarrow> q ! i = (r, Pending) \<Longrightarrow> board_step (q, g) (q[i := (r, settleReply p)], g @ [(r, p)])"
| stray: "(r, Pending) \<notin> set q \<Longrightarrow> board_step (q, g) (q, g @ [(r, p)])"
| fails: "i < length q \<Longrightarrow> q ! i = (r, Pending) \<Longrightarrow> board_step (q, g) (q[i := (r, Rejected e)], g)"

inductive_cases board_stepE: "board_step b b'"

definition board :: "phoenix \<Rightarrow> board" where
  "board s = (px_requests s, px_replies s)"

text \<open>References are used once, and a request is fulfilled only by a reply to it.\<close>

definition board_ok :: "board \<Rightarrow> bool" where
  "board_ok b \<longleftrightarrow> distinct (map fst (fst b))
     \<and> (\<forall>r v. (r, Fulfilled v) \<in> set (fst b) \<longrightarrow> (\<exists>p. (r, p) \<in> set (snd b) \<and> settleReply p = Fulfilled v))"

lemma map_fst_update: "i < length q \<Longrightarrow> q ! i = (r, x) \<Longrightarrow> map fst (q[i := (r, y)]) = map fst q"
  by (metis fst_conv list_update_id map_update nth_map)

lemma board_step_ok:
  assumes "board_step b b'" and "board_ok b"
  shows "board_ok b'"
  using assms
proof (cases rule: board_step.cases)
  case (issue r q g)
  with assms(2) show ?thesis by (auto simp: board_ok_def)
next
  case (answer i q r g p)
  with assms(2) show ?thesis
    by (auto simp: board_ok_def map_fst_update dest!: set_update_subset_insert [THEN subsetD])
next
  case (stray r q g p)
  with assms(2) show ?thesis by (auto simp: board_ok_def)
next
  case (fails i q r g e)
  with assms(2) show ?thesis
    by (auto simp: board_ok_def map_fst_update dest!: set_update_subset_insert [THEN subsetD])
qed

lemma board_steps_ok: "board_step\<^sup>*\<^sup>* b b' \<Longrightarrow> board_ok b \<Longrightarrow> board_ok b'"
  by (induction rule: rtranclp_induct) (auto intro: board_step_ok)

section \<open>Promises only settle\<close>

definition extends :: "('k \<times> 'a promise) list \<Rightarrow> ('k \<times> 'a promise) list \<Rightarrow> bool" where
  "extends ps qs \<longleftrightarrow> length ps \<le> length qs
     \<and> (\<forall>i < length ps. fst (qs ! i) = fst (ps ! i) \<and> (snd (ps ! i) \<noteq> Pending \<longrightarrow> qs ! i = ps ! i))"

lemma extends_refl [simp]: "extends ps ps"
  by (simp add: extends_def)

lemma extends_trans: "extends ps qs \<Longrightarrow> extends qs rs \<Longrightarrow> extends ps rs"
  unfolding extends_def by (metis le_trans less_le_trans)

lemma settle_at_length [simp]: "length (settle_at i v ps) = length ps"
  by (simp add: settle_at_def)

lemma settle_at_keys [simp]: "map fst (settle_at i v ps) = map fst ps"
  by (simp add: settle_at_def map_update) (metis list_update_id nth_map)

lemma settle_at_nth: "j < length ps \<Longrightarrow> settle_at i v ps ! j =
    (if j = i then (fst (ps ! i), settle_promise v (snd (ps ! i))) else ps ! j)"
  by (auto simp: settle_at_def nth_list_update)

lemma settle_at_extends [simp]: "extends ps (settle_at i v ps)"
  by (auto simp: extends_def settle_at_nth settle_promise_settled prod_eq_iff)

lemma settle_at_pending: "i < length ps \<Longrightarrow> ps ! i = (k, Pending) \<Longrightarrow> settle_at i v ps = ps[i := (k, v)]"
  by (simp add: settle_at_def)

lemma append_extends [simp]: "extends ps (ps @ qs)"
  by (simp add: extends_def nth_append)

lemma extends_fulfilled: "extends ps qs \<Longrightarrow> (k, Fulfilled v) \<in> set ps \<Longrightarrow> (k, Fulfilled v) \<in> set qs"
  unfolding extends_def in_set_conv_nth by (metis less_le_trans promise.distinct(1) snd_conv)

lemma extends_at: "extends ps qs \<Longrightarrow> i < length ps \<Longrightarrow> ps ! i = (k, Fulfilled v) \<Longrightarrow> qs ! i = (k, Fulfilled v)"
  by (simp add: extends_def)

section \<open>The invariant\<close>

definition entries_ok :: "phoenix \<Rightarrow> bool" where
  "entries_ok s \<longleftrightarrow> distinct (map fst (px_entries s)) \<and> distinct (map fst (px_requests s))
     \<and> (\<forall>(r, i, sg) \<in> set (px_entries s). i < length (px_requests s) \<and> px_requests s ! i = (r, Pending))
     \<and> (\<forall>r. (r, Pending) \<in> set (px_requests s) \<longrightarrow> r \<in> fst ` set (px_entries s))
     \<and> (\<forall>r \<in> fst ` set (px_requests s). \<exists>n < px_nextRef s. r = nat_text n)
     \<and> (\<forall>(n, r, i) \<in> set (px_aborts s). i < length (px_requests s) \<and> fst (px_requests s ! i) = r)"

text \<open>A topic counts as joined under a reference whose join was sent and confirmed.\<close>

definition joined_as :: "string \<Rightarrow> string \<Rightarrow> phoenix \<Rightarrow> bool" where
  "joined_as t r s \<longleftrightarrow> (\<exists>k. (k, join_message t r) \<in> set (px_sent s)) \<and> (\<exists>v. (r, Fulfilled v) \<in> set (px_requests s))"

definition joins_ok :: "phoenix \<Rightarrow> bool" where
  "joins_ok s \<longleftrightarrow> (\<forall>t r. (t, Fulfilled r) \<in> set (px_joins s) \<longrightarrow> joined_as t r s)
     \<and> (\<forall>(t, r) \<in> set (px_joined s). joined_as t r s)
     \<and> (\<forall>(t, j) \<in> set (px_joining s). j < length (px_joins s) \<and> fst (px_joins s ! j) = t)"

definition completed :: "string \<times> string \<Rightarrow> json \<Rightarrow> phoenix \<Rightarrow> bool" where
  "completed c v s \<longleftrightarrow> (\<exists>m \<in> set (px_events s). completion_verdict (fst c) (snd c) m = Some (Fulfilled v))"

definition completions_ok :: "phoenix \<Rightarrow> bool" where
  "completions_ok s \<longleftrightarrow> (\<forall>c v. (c, Fulfilled v) \<in> set (px_completions s) \<longrightarrow> completed c v s)
     \<and> (\<forall>(c, t, key) \<in> set (px_listeners s). c < length (px_completions s) \<and> fst (px_completions s ! c) = (t, key))"

definition is_command :: "string \<Rightarrow> string \<Rightarrow> phoenix_message \<Rightarrow> bool" where
  "is_command t j m \<longleftrightarrow> (\<exists>r key q. m = command_message j r t key q)"

text \<open>Every command sent is preceded by the join of its topic.\<close>

definition orderly :: "(nat \<times> phoenix_message) list \<Rightarrow> bool" where
  "orderly l \<longleftrightarrow> (\<forall>xs k m ys t j. l = xs @ (k, m) # ys \<longrightarrow> is_command t j m \<longrightarrow> (\<exists>k'. (k', join_message t j) \<in> set xs))"

definition genuine :: "string \<times> string \<times> json \<times> string \<Rightarrow> json \<Rightarrow> phoenix \<Rightarrow> bool" where
  "genuine c v s \<longleftrightarrow> (case c of (sandbox, user, request, key) \<Rightarrow>
     \<exists>k j r w. (k, command_message j r (command_topic sandbox user) key request) \<in> set (px_sent s)
       \<and> (r, Fulfilled w) \<in> set (px_requests s)
       \<and> (v = w \<or> obj_get w ''queued'' = Some (JBool True)
            \<and> (\<exists>x. completed (command_topic sandbox user, key) x s \<and> v = queued_result x key)))"

definition outcomes_ok :: "phoenix \<Rightarrow> bool" where
  "outcomes_ok s \<longleftrightarrow> (\<forall>c v. (c, Inr v) \<in> set (px_outcomes s) \<longrightarrow> genuine c v s)"

definition px_inv :: "phoenix \<Rightarrow> bool" where
  "px_inv s \<longleftrightarrow> entries_ok s \<and> joins_ok s \<and> completions_ok s \<and> orderly (px_sent s) \<and> outcomes_ok s"

definition later :: "phoenix \<Rightarrow> phoenix \<Rightarrow> bool" where
  "later s t \<longleftrightarrow> board_step\<^sup>*\<^sup>* (board s) (board t) \<and> extends (px_requests s) (px_requests t)
     \<and> extends (px_joins s) (px_joins t) \<and> extends (px_completions s) (px_completions t)
     \<and> prefix (px_sent s) (px_sent t) \<and> prefix (px_events s) (px_events t) \<and> px_nextRef s \<le> px_nextRef t"

lemma later_refl [simp]: "later s s"
  by (simp add: later_def)

lemma later_trans: "later s t \<Longrightarrow> later t u \<Longrightarrow> later s u"
  unfolding later_def by (auto intro: extends_trans prefix_order.trans)

interpretation px: forward px_inv later later
  by unfold_locales (auto intro: later_trans)

text \<open>Facts that last.\<close>

lemma prefix_set: "prefix xs ys \<Longrightarrow> x \<in> set xs \<Longrightarrow> x \<in> set ys"
  by (auto dest: set_mono_prefix)

lemma joined_as_later: "later s t \<Longrightarrow> joined_as p r s \<Longrightarrow> joined_as p r t"
  unfolding later_def joined_as_def by (blast intro: prefix_set extends_fulfilled)

lemma completed_later: "later s t \<Longrightarrow> completed c v s \<Longrightarrow> completed c v t"
  unfolding later_def completed_def by (blast intro: prefix_set)

lemma genuine_later: "later s t \<Longrightarrow> genuine c v s \<Longrightarrow> genuine c v t"
  unfolding genuine_def by (cases c) (fastforce simp: later_def intro: prefix_set extends_fulfilled completed_later [of s t, unfolded later_def])

lemma joins_ok_later:
  assumes "later s t" and "joins_ok s" and "px_joins t = px_joins s" and "px_joining t = px_joining s"
    and "set (px_joined t) \<subseteq> set (px_joined s)"
  shows "joins_ok t"
  using assms(2-5) joined_as_later [OF assms(1)] unfolding joins_ok_def by fastforce

lemma completions_ok_later:
  "later s t \<Longrightarrow> completions_ok s \<Longrightarrow> px_completions t = px_completions s \<Longrightarrow> set (px_listeners t) \<subseteq> set (px_listeners s) \<Longrightarrow> completions_ok t"
  using completed_later [of s t] unfolding completions_ok_def by fastforce

lemma outcomes_ok_later: "later s t \<Longrightarrow> outcomes_ok s \<Longrightarrow> px_outcomes t = px_outcomes s \<Longrightarrow> outcomes_ok t"
  unfolding outcomes_ok_def by (auto intro: genuine_later)

lemma px_inv_later:
  assumes "px_inv s" and "entries_ok t" and "later s t" and "px_joins t = px_joins s" and "px_joining t = px_joining s"
    and "set (px_joined t) \<subseteq> set (px_joined s)" and "px_completions t = px_completions s"
    and "set (px_listeners t) \<subseteq> set (px_listeners s)" and "px_sent t = px_sent s" and "px_outcomes t = px_outcomes s"
  shows "px_inv t"
  using assms unfolding px_inv_def
  by (auto intro: joins_ok_later completions_ok_later outcomes_ok_later)

section \<open>Settling requests\<close>

lemma entry_of:
  assumes "entries_ok s" and "(r, i, sg) \<in> set (px_entries s)"
  shows "i < length (px_requests s)" and "px_requests s ! i = (r, Pending)"
  using assms unfolding entries_ok_def by auto

text \<open>The entry of a reference names its request.\<close>

lemma entry_request:
  assumes "entries_ok s" and "i < length (px_requests s)" and "fst (px_requests s ! i) = r" and "r \<in> fst ` set (px_entries s)"
  shows "px_requests s ! i = (r, Pending)"
proof -
  obtain j sg where e: "(r, j, sg) \<in> set (px_entries s)" using assms(4) by force
  have d: "distinct (map fst (px_requests s))" using assms(1) by (simp add: entries_ok_def)
  note j = entry_of [OF assms(1) e]
  have "map fst (px_requests s) ! i = map fst (px_requests s) ! j" using assms(2,3) j by simp
  with nth_eq_iff_index_eq [OF d, of i j] assms(2) j(1) have "i = j" by (simp del: nth_map)
  with j show ?thesis by simp
qed

lemma entries_ok_finish:
  assumes "entries_ok s" and "i < length (px_requests s)" and "px_requests s ! i = (r, Pending)" and "v \<noteq> Pending"
    and "px_entries t = AList.delete r (px_entries s)" and "px_requests t = (px_requests s)[i := (r, v)]"
    and "set (px_aborts t) \<subseteq> set (px_aborts s)" and "px_nextRef s \<le> px_nextRef t"
  shows "entries_ok t"
proof -
  have keys: "map fst (px_requests t) = map fst (px_requests s)" using assms(2,3,6) by (simp add: map_fst_update)
  have d: "distinct (map fst (px_requests s))" using assms(1) by (simp add: entries_ok_def)
  have other: "j \<noteq> i" if "(r', j, sg) \<in> set (px_entries t)" for r' j sg
    using that assms(1,3,5) entry_of [OF assms(1), of r' j sg] by (auto simp: AList.delete_eq)
  have "j < length (px_requests t) \<and> px_requests t ! j = (r', Pending)" if "(r', j, sg) \<in> set (px_entries t)" for r' j sg
    using that other [OF that] assms(5,6) entry_of [OF assms(1), of r' j sg] by (auto simp: AList.delete_eq)
  moreover have "r' \<in> fst ` set (px_entries t)" if "(r', Pending) \<in> set (px_requests t)" for r'
  proof -
    from that obtain j where j: "j < length (px_requests s)" "px_requests t ! j = (r', Pending)"
      using assms(6) by (auto simp: in_set_conv_nth)
    with assms(2,4,6) have "j \<noteq> i" "px_requests s ! j = (r', Pending)" by (auto simp: nth_list_update split: if_splits)
    moreover from this d j(1) assms(2,3) have "r' \<noteq> r"
      by (metis fst_conv length_map nth_eq_iff_index_eq nth_map)
    moreover have "r' \<in> fst ` set (px_entries s)" using assms(1) j(1) calculation(2) unfolding entries_ok_def by (metis nth_mem)
    ultimately obtain x where "(r', x) \<in> set (px_entries t)" using assms(5) by (auto simp: AList.delete_eq)
    then show ?thesis by force
  qed
  moreover have "distinct (map fst (px_entries t))" using assms(1,5) by (simp add: entries_ok_def AList.distinct_delete)
  moreover have "i' < length (px_requests t) \<and> fst (px_requests t ! i') = r'" if "(n, r', i') \<in> set (px_aborts t)" for n r' i'
  proof -
    from that assms(7) have "(n, r', i') \<in> set (px_aborts s)" by blast
    with assms(1) have "i' < length (px_requests s) \<and> fst (px_requests s ! i') = r'" unfolding entries_ok_def by auto
    with keys show ?thesis by (metis length_map nth_map)
  qed
  moreover have "\<forall>r' \<in> fst ` set (px_requests t). \<exists>n < px_nextRef t. r' = nat_text n"
  proof -
    have "fst ` set (px_requests t) = fst ` set (px_requests s)" using keys by (metis set_map)
    with assms(1,8) show ?thesis unfolding entries_ok_def by (metis less_le_trans)
  qed
  ultimately show ?thesis using keys d unfolding entries_ok_def by auto
qed

lemma finish_ok:
  assumes "entries_ok s" and "i < length (px_requests s)" and "px_requests s ! i = (r, Pending)"
    and "px_entries t = AList.delete r (px_entries s)" and "px_requests t = settle_at i (Rejected e) (px_requests s)"
    and "set (px_aborts t) \<subseteq> set (px_aborts s)" and "px_nextRef t = px_nextRef s" and "px_replies t = px_replies s"
  shows "entries_ok t \<and> board_step (board s) (board t)"
proof -
  have q: "px_requests t = (px_requests s)[i := (r, Rejected e)]" using assms(2,3,5) by (simp add: settle_at_pending)
  have "entries_ok t" by (rule entries_ok_finish [OF assms(1-3) _ assms(4) q assms(6)]) (simp_all add: assms(7))
  moreover have "board_step (board s) (board t)"
    unfolding board_def q assms(8) by (rule board_step.fails [OF assms(2,3)])
  ultimately show ?thesis by blast
qed

text \<open>What a settled request leaves alone.\<close>

definition same_rest :: "phoenix \<Rightarrow> phoenix \<Rightarrow> bool" where
  "same_rest s t \<longleftrightarrow> px_joins t = px_joins s \<and> px_joining t = px_joining s \<and> px_completions t = px_completions s
     \<and> px_listeners t = px_listeners s \<and> px_sent t = px_sent s \<and> px_events t = px_events s \<and> px_outcomes t = px_outcomes s
     \<and> px_nextRef t = px_nextRef s"

lemma same_rest_refl [simp]: "same_rest s s"
  by (simp add: same_rest_def)

lemma same_rest_trans: "same_rest s t \<Longrightarrow> same_rest t u \<Longrightarrow> same_rest s u"
  by (simp add: same_rest_def)

lemma remove_listener_simps [simp]:
  "px_entries (remove_listener sg r i s) = px_entries s" "px_requests (remove_listener sg r i s) = px_requests s"
  "px_replies (remove_listener sg r i s) = px_replies s" "px_joined (remove_listener sg r i s) = px_joined s"
  "set (px_aborts (remove_listener sg r i s)) \<subseteq> set (px_aborts s)" "same_rest s (remove_listener sg r i s)"
  "px_nextRef (remove_listener sg r i s) = px_nextRef s"
  by (auto simp: remove_listener_def same_rest_def split: option.split)

definition rejects :: "phoenix \<Rightarrow> phoenix \<Rightarrow> bool" where
  "rejects s t \<longleftrightarrow> entries_ok t \<and> board_step\<^sup>*\<^sup>* (board s) (board t) \<and> extends (px_requests s) (px_requests t)
     \<and> same_rest s t \<and> px_joined t = px_joined s"

lemma rejects_refl [simp]: "entries_ok s \<Longrightarrow> rejects s s"
  by (simp add: rejects_def)

lemma rejects_trans: "rejects s t \<Longrightarrow> rejects t u \<Longrightarrow> rejects s u"
  unfolding rejects_def by (auto intro: extends_trans same_rest_trans)

lemma rejects_inv:
  assumes "px_inv s" and "rejects s t"
  shows "px_inv t \<and> later s t"
proof -
  have l: "later s t" using assms(2) by (simp add: rejects_def later_def same_rest_def)
  then show ?thesis using px_inv_later [OF assms(1) _ l] assms(2) by (simp add: rejects_def same_rest_def)
qed

text \<open>Only the socket, its state or its timers change.\<close>

lemma rejects_aside:
  assumes "entries_ok s" and "px_entries t = px_entries s" and "px_requests t = px_requests s" and "px_replies t = px_replies s"
    and "set (px_aborts t) \<subseteq> set (px_aborts s)" and "same_rest s t" and "px_joined t = px_joined s"
  shows "rejects s t"
proof -
  have "px_nextRef t = px_nextRef s" using assms(6) by (simp add: same_rest_def)
  then have "entries_ok t" using assms(1-5) unfolding entries_ok_def by auto
  with assms show ?thesis by (simp add: rejects_def board_def)
qed

lemma rejects_finish:
  assumes "entries_ok s" and "i < length (px_requests s)" and "px_requests s ! i = (r, Pending)"
    and "px_entries t = AList.delete r (px_entries s)" and "px_requests t = settle_at i (Rejected e) (px_requests s)"
    and "set (px_aborts t) \<subseteq> set (px_aborts s)" and "px_replies t = px_replies s" and "same_rest s t" and "px_joined t = px_joined s"
  shows "rejects s t"
proof -
  have "px_nextRef t = px_nextRef s" using assms(8) by (simp add: same_rest_def)
  from finish_ok [OF assms(1-6) this assms(7)] assms(5,8,9) show ?thesis
    by (simp add: rejects_def r_into_rtranclp)
qed

lemma rejects_on_abort:
  assumes "entries_ok s" and "i < length (px_requests s)" and "fst (px_requests s ! i) = r"
  shows "rejects s (on_abort e s (n, r, i))"
proof (cases "r \<in> fst ` set (px_entries s)")
  case True
  from entry_request [OF assms True] show ?thesis
    by (intro rejects_finish [OF assms(1,2), where r = r and e = e]) (use True in \<open>auto simp: on_abort_def settle_request_def same_rest_def Let_def\<close>)
next
  case False
  then show ?thesis
    by (intro rejects_aside [OF assms(1)]) (auto simp: on_abort_def same_rest_def Let_def)
qed

lemma rejects_aborts:
  assumes "entries_ok s" and "\<forall>(n, r, i) \<in> set xs. i < length (px_requests s) \<and> fst (px_requests s ! i) = r"
  shows "rejects s (foldl (on_abort e) s xs)"
  using assms
proof (induction xs arbitrary: s)
  case (Cons x xs)
  obtain n r i where x: "x = (n, r, i)" by (cases x)
  with Cons.prems have t: "rejects s (on_abort e s x)" by (auto intro: rejects_on_abort)
  then have "\<forall>(n, r, i) \<in> set xs. i < length (px_requests (on_abort e s x)) \<and> fst (px_requests (on_abort e s x) ! i) = r"
    using Cons.prems(2) by (auto simp: rejects_def extends_def)
  with Cons.IH [of "on_abort e s x"] t show ?case by (auto simp: rejects_def intro: extends_trans same_rest_trans)
qed simp

lemma rejects_abort_signal: "entries_ok s \<Longrightarrow> rejects s (abort_signal n why s)"
proof (cases "px_signals s n = None")
  case True
  assume s: "entries_ok s"
  let ?t = "s\<lparr>px_signals := (px_signals s)(n := Some why)\<rparr>"
  have t: "rejects s ?t" by (rule rejects_aside [OF s]) (simp_all add: same_rest_def)
  have "rejects ?t (foldl (on_abort (abortError why)) ?t (filter (\<lambda>(n', r, i). n' = n) (px_aborts s)))"
    by (rule rejects_aborts) (use s t in \<open>auto simp: rejects_def entries_ok_def\<close>)
  with rejects_trans [OF t] True show ?thesis by (simp add: abort_signal_def)
qed (simp add: abort_signal_def)

lemma rejects_all:
  assumes "entries_ok (s\<lparr>px_entries := xs\<rparr>)"
  shows "rejects (s\<lparr>px_entries := xs\<rparr>)
    ((foldl (\<lambda>s (r, i, sg). settle_request i (Rejected e) (remove_listener sg r i s)) s xs)\<lparr>px_entries := []\<rparr>)"
  using assms
proof (induction xs arbitrary: s)
  case (Cons x xs)
  obtain r i sg where x: "x = (r, i, sg)" by (cases x)
  let ?t = "settle_request i (Rejected e) (remove_listener sg r i s)"
  have "i < length (px_requests s)" "px_requests s ! i = (r, Pending)"
    using entry_of [OF Cons.prems, of r i sg] x by simp_all
  moreover have "AList.delete r ((r, i, sg) # xs) = xs"
  proof -
    have "r \<notin> fst ` set xs" using Cons.prems x by (auto simp: entries_ok_def)
    then show ?thesis by (simp add: AList.delete_idem)
  qed
  ultimately have t: "rejects (s\<lparr>px_entries := x # xs\<rparr>) (?t\<lparr>px_entries := xs\<rparr>)"
    using remove_listener_simps(5,6) [where sg = sg and r = r and i = i and s = s] x
    by (intro rejects_finish [OF Cons.prems, where i = i and r = r and e = e]) (auto simp: settle_request_def same_rest_def)
  then have "entries_ok (?t\<lparr>px_entries := xs\<rparr>)" by (simp add: rejects_def)
  from rejects_trans [OF t Cons.IH [OF this]] x show ?case by simp
qed simp

lemma rejects_rejectAll: "entries_ok s \<Longrightarrow> rejects s (rejectAll e s)"
  using rejects_all [where s = s and xs = "px_entries s" and e = e] by (simp add: rejectAll_def)

section \<open>The events of a socket\<close>

abbreviation moves :: "(phoenix \<Rightarrow> phoenix) \<Rightarrow> bool" where
  "moves u \<equiv> \<forall>s. px_inv s \<longrightarrow> px_inv (u s) \<and> later s (u s)"

lemma px_inv_entries: "px_inv s \<Longrightarrow> entries_ok s"
  by (simp add: px_inv_def)

lemma moves_comp: "moves u \<Longrightarrow> moves v \<Longrightarrow> moves (\<lambda>s. v (u s))"
  by (blast intro: later_trans)

lemma moves_rejects: "(\<And>s. entries_ok s \<Longrightarrow> rejects s (u s)) \<Longrightarrow> moves u"
  using rejects_inv px_inv_entries by blast

lemma moves_disconnect: "moves (disconnect k e)"
proof (intro allI impI)
  fix s
  assume s: "px_inv s"
  let ?t = "s\<lparr>px_socket := None, px_joined := [], px_timers := (case px_heartbeat s of None \<Rightarrow> px_timers s | Some b \<Rightarrow> px_timers s - {b}),
    px_heartbeat := None\<rparr>"
  have l: "later s ?t" by (simp add: later_def board_def)
  have "entries_ok ?t" using px_inv_entries [OF s] by (simp add: entries_ok_def)
  from px_inv_later [OF s this l] have t: "px_inv ?t" by simp
  from rejects_inv [OF t rejects_rejectAll [OF px_inv_entries [OF t]]] l s
  show "px_inv (disconnect k e s) \<and> later s (disconnect k e s)"
    unfolding disconnect_def by (auto intro: later_trans)
qed

lemma rejects_closing: "entries_ok s \<Longrightarrow> rejects s (close_websocket k s)"
  by (rule rejects_aside) (simp_all add: close_websocket_def same_rest_def)

lemma rejects_opening: "entries_ok s \<Longrightarrow> rejects s (settle_opening k v s)"
  by (rule rejects_aside) (simp_all add: settle_opening_def same_rest_def)

lemma rejects_unless: "entries_ok s \<Longrightarrow> rejects s (if k \<in> px_opened s then s else settle_opening k v s)"
  by (simp add: rejects_opening)

lemma moves_events:
  "moves (on_open k)" "moves (on_closing k)" "moves (abort_signal n why)" "moves (on_error k)" "moves (on_close k reason)" "moves px_close"
proof -
  show "moves (on_open k)"
    by (rule moves_rejects) (auto simp: on_open_def settle_opening_def Let_def same_rest_def intro!: rejects_aside)
  show "moves (on_closing k)"
    by (rule moves_rejects) (auto simp: on_closing_def same_rest_def intro!: rejects_aside)
  show "moves (abort_signal n why)" by (rule moves_rejects) (rule rejects_abort_signal)
  have close: "moves (\<lambda>s. close_websocket k (disconnect k e s))" for k e
    by (rule moves_comp [OF moves_disconnect moves_rejects]) (rule rejects_closing)
  have unless: "moves (\<lambda>s. if k \<in> px_opened s then s else settle_opening k v s)" for v
    by (rule moves_rejects) (rule rejects_unless)
  show "moves (on_error k)"
    unfolding on_error_def Let_def by (rule moves_comp [OF unless close])
  have ready: "moves (\<lambda>s. s\<lparr>px_ready := (px_ready s)(k := CLOSED)\<rparr>)"
    by (rule moves_rejects, rule rejects_aside) (simp_all add: same_rest_def)
  show "moves (on_close k reason)"
    using moves_comp [OF moves_comp [OF ready unless] moves_disconnect] unfolding on_close_def Let_def by simp
  show "moves px_close"
    using close by (simp add: px_close_def split: option.split)
qed

section \<open>Messages that arrive\<close>

lemma settleReply_settled: "settleReply p \<noteq> Pending"
  by (simp add: settleReply_def)

lemma moves_take_reply: "moves (take_reply r p)"
proof (intro allI impI)
  fix s
  assume s: "px_inv s"
  note ok = px_inv_entries [OF s]
  show "px_inv (take_reply r p s) \<and> later s (take_reply r p s)"
  proof (cases "map_of (px_entries s) r")
    case None
    then have "r \<notin> fst ` set (px_entries s)" by (simp add: map_of_eq_None_iff)
    then have "(r, Pending) \<notin> set (px_requests s)" using ok unfolding entries_ok_def by blast
    then have "board_step (board s) (board (take_reply r p s))"
      using None by (simp add: take_reply_def board_def board_step.stray)
    then have l: "later s (take_reply r p s)" using None by (simp add: take_reply_def later_def)
    have "entries_ok (take_reply r p s)" using ok None by (simp add: take_reply_def entries_ok_def)
    from px_inv_later [OF s this l] l None show ?thesis by (simp add: take_reply_def)
  next
    case (Some x)
    obtain i sg where x: "x = (i, sg)" by (cases x)
    let ?t = "take_reply r p s"
    have e: "(r, i, sg) \<in> set (px_entries s)" using Some x by (simp add: map_of_SomeD)
    note i = entry_of [OF ok e]
    have t: "?t = settle_request i (settleReply p) (remove_listener sg r i
        (s\<lparr>px_replies := px_replies s @ [(r, p)], px_entries := AList.delete r (px_entries s)\<rparr>))"
      using Some x by (simp add: take_reply_def pending_discard_def)
    have q: "px_requests ?t = (px_requests s)[i := (r, settleReply p)]"
      unfolding t using i by (simp add: settle_request_def settle_at_pending)
    have rest: "set (px_aborts ?t) \<subseteq> set (px_aborts s)" "px_nextRef ?t = px_nextRef s" "px_joins ?t = px_joins s" "px_joining ?t = px_joining s"
      "px_completions ?t = px_completions s" "px_listeners ?t = px_listeners s" "px_sent ?t = px_sent s"
      "px_events ?t = px_events s" "px_outcomes ?t = px_outcomes s" "px_joined ?t = px_joined s" "px_replies ?t = px_replies s @ [(r, p)]"
      "px_entries ?t = AList.delete r (px_entries s)"
      unfolding t by (auto simp: settle_request_def remove_listener_def split: option.split)
    have "board_step (board s) (board ?t)"
      unfolding board_def q rest by (rule board_step.answer [OF i])
    moreover have "extends (px_requests s) (px_requests ?t)"
      unfolding t by (simp add: settle_request_def)
    ultimately have l: "later s ?t" by (simp add: later_def rest)
    have "entries_ok ?t" by (rule entries_ok_finish [OF ok i settleReply_settled rest(12) q rest(1)]) (simp add: rest)
    from px_inv_later [OF s this l] l show ?thesis by (simp add: rest)
  qed
qed

lemma call_listener_ok:
  assumes "px_inv s" and "m \<in> set (px_events s)" and "c < length (px_completions s)" and "fst (px_completions s ! c) = (t, key)"
  shows "px_inv (call_listener m s (c, t, key)) \<and> later s (call_listener m s (c, t, key))"
proof (cases "completion_verdict t key m")
  case None
  with assms(1) show ?thesis by (simp add: call_listener_def)
next
  case (Some v)
  let ?t = "call_listener m s (c, t, key)"
  have t: "?t = s\<lparr>px_completions := settle_at c v (px_completions s)\<rparr>"
    using Some by (simp add: call_listener_def settle_completion_def)
  have l: "later s ?t" by (simp add: t later_def board_def)
  have "completed d w s" if "(d, Fulfilled w) \<in> set (px_completions ?t)" for d w
  proof -
    from that obtain i where i: "i < length (px_completions s)" "settle_at c v (px_completions s) ! i = (d, Fulfilled w)"
      by (auto simp: t in_set_conv_nth)
    show ?thesis
    proof (cases "i = c \<and> snd (px_completions s ! c) = Pending")
      case True
      with i assms(4) have "d = (t, key)" "v = Fulfilled w" by (simp_all add: settle_at_nth prod_eq_iff)
      with Some assms(2) show ?thesis by (auto simp: completed_def)
    next
      case False
      with i have "px_completions s ! i = (d, Fulfilled w)"
        by (auto simp: settle_at_nth settle_promise_settled prod_eq_iff split: if_splits)
      with i(1) assms(1) show ?thesis unfolding px_inv_def completions_ok_def by (metis nth_mem)
    qed
  qed
  with assms(1) have "completions_ok ?t"
    unfolding px_inv_def completions_ok_def
    by (auto simp: t completed_def settle_at_nth)
  moreover have "joins_ok ?t" "outcomes_ok ?t"
    using assms(1) l unfolding px_inv_def by (auto simp: t intro!: joins_ok_later [OF l [unfolded t]] outcomes_ok_later [OF l [unfolded t]])
  moreover have "entries_ok ?t" using px_inv_entries [OF assms(1)] by (simp add: t entries_ok_def)
  ultimately show ?thesis using l assms(1) by (simp add: px_inv_def t)
qed

lemma call_listeners_ok:
  assumes "px_inv s" and "m \<in> set (px_events s)" and "\<forall>(c, x) \<in> set xs. c < length (px_completions s) \<and> fst (px_completions s ! c) = x"
  shows "px_inv (foldl (call_listener m) s xs) \<and> later s (foldl (call_listener m) s xs)"
  using assms
proof (induction xs arbitrary: s)
  case (Cons x xs)
  obtain c t key where x: "x = (c, t, key)" by (cases x)
  let ?t = "call_listener m s x"
  have t: "px_inv ?t" "later s ?t" using call_listener_ok [OF Cons.prems(1,2), of c t key] Cons.prems(3) x by auto
  then have "m \<in> set (px_events ?t)" using Cons.prems(2) by (auto simp: later_def dest: set_mono_prefix)
  moreover have "\<forall>(c, x) \<in> set xs. c < length (px_completions ?t) \<and> fst (px_completions ?t ! c) = x"
    using t(2) Cons.prems(3) by (auto simp: later_def extends_def)
  ultimately have "px_inv (foldl (call_listener m) ?t xs) \<and> later ?t (foldl (call_listener m) ?t xs)" by (rule Cons.IH [OF t(1)])
  with t(2) show ?case by (auto intro: later_trans)
qed simp

lemma moves_deliver_event: "moves (deliver_event m)"
proof (intro allI impI)
  fix s
  assume s: "px_inv s"
  let ?t = "s\<lparr>px_events := px_events s @ [m]\<rparr>"
  have l: "later s ?t" by (simp add: later_def board_def)
  have "entries_ok ?t" using px_inv_entries [OF s] by (simp add: entries_ok_def)
  from px_inv_later [OF s this l] have t: "px_inv ?t" by simp
  have "px_inv (foldl (call_listener m) ?t (px_listeners s)) \<and> later ?t (foldl (call_listener m) ?t (px_listeners s))"
    by (rule call_listeners_ok [OF t]) (use s in \<open>auto simp: px_inv_def completions_ok_def\<close>)
  with l show "px_inv (deliver_event m s) \<and> later s (deliver_event m s)"
    by (auto simp: deliver_event_def intro: later_trans)
qed

lemma moves_receive: "moves (receive_message m)"
proof -
  obtain j r t e p where "m = (j, r, t, e, p)" by (cases m)
  then show ?thesis using moves_take_reply moves_deliver_event by (cases r) simp_all
qed

end
