(* ===== verification/Phoenix_Safety.thy ===== *)
theory Phoenix_Safety
  imports Phoenix_Replies
begin

text \<open>
  The callers of a transport: joins, pushes and commands keep the invariant of
  \<open>Phoenix_Replies\<close> at every suspension, and what they return is what was confirmed. So
  does every interleaving of whatever may happen to a transport.
\<close>

section \<open>Waiting and references\<close>

lemma ensures_wait_for:
  assumes "px.stable P" and "\<And>v s. px_inv s \<Longrightarrow> P s \<Longrightarrow> p s = Fulfilled v \<Longrightarrow> Q v s" and "\<And>s. P s \<Longrightarrow> X s"
  shows "px.ensures P (wait_for p) Q X"
  unfolding wait_for_def
proof (rule px.ensures_Yield [where P' = "\<lambda>s. P s \<and> p s \<noteq> Pending"])
  show "P t \<and> p t \<noteq> Pending" if "px_inv s" "P s" "px_inv t" "later s t" "p t \<noteq> Pending" for s t
    using that assms(1) by (auto simp: px.stable_def)
  show "px.ensures (\<lambda>s. P s \<and> p s \<noteq> Pending) (Read (\<lambda>s. settle (promise_result (p s)))) Q X"
  proof (rule px.ensures_Read, rule px.ensures_settle)
    show "Q v t" if "promise_result (p s) = Inr v" "px_inv t" "t = s \<and> P t \<and> p t \<noteq> Pending" for v s t
      using that assms(2) by (cases "p s") auto
  qed (use assms(3) in blast)
qed

definition fresh :: "string \<Rightarrow> phoenix \<Rightarrow> bool" where
  "fresh r s \<longleftrightarrow> (\<exists>n < px_nextRef s. r = nat_text n) \<and> r \<notin> fst ` set (px_requests s)"

lemma moves_next: "px_inv s \<Longrightarrow> px_inv (s\<lparr>px_nextRef := Suc (px_nextRef s)\<rparr>) \<and> later s (s\<lparr>px_nextRef := Suc (px_nextRef s)\<rparr>)"
proof -
  assume s: "px_inv s"
  let ?t = "s\<lparr>px_nextRef := Suc (px_nextRef s)\<rparr>"
  have l: "later s ?t" by (simp add: later_def board_def)
  have "entries_ok ?t" using px_inv_entries [OF s] unfolding entries_ok_def by (auto intro: less_SucI)
  from px_inv_later [OF s this l] l show ?thesis by simp
qed

lemma ensures_next_ref:
  assumes "px.stable F"
  shows "px.ensures F next_ref (\<lambda>r s. F s \<and> fresh r s) F"
  unfolding next_ref_def
proof (rule px.ensures_bind)
  show "px.ensures F (gets px_nextRef) (\<lambda>n s. F s \<and> n = px_nextRef s) F"
    by (rule px.ensures_Read, rule px.ensures_Return) simp
  show "px.ensures (\<lambda>s. F s \<and> n = px_nextRef s) (seq (modify (\<lambda>s. s\<lparr>px_nextRef := Suc (px_nextRef s)\<rparr>)) (Return (nat_text n)))
      (\<lambda>r s. F s \<and> fresh r s) F" for n
    unfolding bind.simps
  proof (rule px.ensures_Write)
    fix s
    assume s: "px_inv s" "F s \<and> n = px_nextRef s"
    let ?t = "s\<lparr>px_nextRef := Suc (px_nextRef s)\<rparr>"
    note t = moves_next [OF s(1)]
    have "nat_text n \<notin> fst ` set (px_requests s)"
      using px_inv_entries [OF s(1)] s(2) unfolding entries_ok_def by (auto simp: nat_text_inject)
    then have "fresh (nat_text n) ?t" using s(2) by (auto simp: fresh_def)
    with t s assms show "px_inv ?t \<and> later s ?t \<and> F ?t \<and> fresh (nat_text n) ?t" by (auto simp: px.stable_def)
  qed (rule px.ensures_Return, simp)
qed

section \<open>Pushes\<close>

definition may_send :: "phoenix_message \<Rightarrow> phoenix \<Rightarrow> bool" where
  "may_send m s \<longleftrightarrow> (\<forall>t j. is_command t j m \<longrightarrow> (\<exists>k. (k, join_message t j) \<in> set (px_sent s)))"

lemma orderly_snoc:
  assumes "orderly l" and "\<forall>t j. is_command t j m \<longrightarrow> (\<exists>k'. (k', join_message t j) \<in> set l)"
  shows "orderly (l @ [(k, m)])"
  using assms unfolding orderly_def
  by (metis (no_types, lifting) append_assoc append_butlast_last_id append_eq_append_conv2 append_self_conv butlast_append butlast_snoc
      last_snoc list.distinct(1) last_appendR append_Cons prod.inject last_ConsL)

lemma record_sent_ok:
  assumes "px_inv s" and "may_send m s"
  shows "px_inv (record_sent k m s) \<and> later s (record_sent k m s)"
proof -
  let ?t = "record_sent k m s"
  have l: "later s ?t" by (simp add: record_sent_def later_def board_def)
  have "joins_ok ?t" "completions_ok ?t" "outcomes_ok ?t"
    using assms(1) unfolding px_inv_def
    by (auto simp: record_sent_def intro: joins_ok_later [OF l [unfolded record_sent_def]] completions_ok_later [OF l [unfolded record_sent_def]]
        outcomes_ok_later [OF l [unfolded record_sent_def]])
  moreover have "entries_ok ?t" using px_inv_entries [OF assms(1)] by (simp add: record_sent_def entries_ok_def)
  moreover have "orderly (px_sent ?t)"
    using assms unfolding px_inv_def may_send_def by (simp add: record_sent_def orderly_snoc)
  ultimately show ?thesis using l by (simp add: px_inv_def)
qed

lemma pending_add_ok:
  assumes "px_inv s" and "fresh r s"
  shows "px_inv (pending_add r sg s) \<and> later s (pending_add r sg s)"
proof -
  let ?t = "pending_add r sg s"
  note ok = px_inv_entries [OF assms(1)]
  have new: "r \<notin> fst ` set (px_requests s)" using assms(2) by (simp add: fresh_def)
  have "r \<notin> fst ` set (px_entries s)"
  proof
    assume "r \<in> fst ` set (px_entries s)"
    then obtain i g where "(r, i, g) \<in> set (px_entries s)" by force
    from entry_of [OF ok this] new show False by (metis fst_conv image_eqI nth_mem)
  qed
  then have entries: "px_entries ?t = px_entries s @ [(r, length (px_requests s), sg)]"
    by (simp add: pending_add_def add_listener_def Let_def update_fresh split: option.split)
  have rest: "px_requests ?t = px_requests s @ [(r, Pending)]" "same_rest s ?t" "px_joined ?t = px_joined s" "px_replies ?t = px_replies s"
    "set (px_aborts ?t) \<subseteq> set (px_aborts s) \<union> (\<lambda>n. (n, r, length (px_requests s))) ` UNIV"
    by (auto simp: pending_add_def add_listener_def Let_def same_rest_def split: option.split)
  have "board_step (board s) (board ?t)" unfolding board_def rest by (rule board_step.issue [OF new])
  then have l: "later s ?t" using rest by (simp add: later_def same_rest_def)
  have nr: "px_nextRef ?t = px_nextRef s" using rest(2) by (simp add: same_rest_def)
  have "entries_ok ?t"
    using ok new assms(2) \<open>r \<notin> fst ` set (px_entries s)\<close> rest(5)
    unfolding entries_ok_def entries rest(1) nr
    by (auto simp: nth_append fresh_def)
  from px_inv_later [OF assms(1) this l] l rest(2,3) show ?thesis by (simp add: same_rest_def)
qed

definition pushed :: "nat \<Rightarrow> string \<Rightarrow> phoenix_message \<Rightarrow> phoenix \<Rightarrow> bool" where
  "pushed i r m s \<longleftrightarrow> i < length (px_requests s) \<and> fst (px_requests s ! i) = r
     \<and> ((\<exists>k. (k, m) \<in> set (px_sent s)) \<or> (\<exists>e. snd (px_requests s ! i) = Rejected e))"

lemma send_push_ok:
  assumes "px_inv s" and "fresh r s" and "may_send m s" and "px_requests s = q"
  shows "px_inv (send_push W k r m sg s) \<and> later s (send_push W k r m sg s) \<and> pushed (length q) r m (send_push W k r m sg s)"
proof -
  let ?t = "pending_add r sg s"
  note t = pending_add_ok [OF assms(1,2), of sg]
  have q: "px_requests ?t = q @ [(r, Pending)]"
    using assms(4) by (simp add: pending_add_def add_listener_def Let_def split: option.split)
  show ?thesis
  proof (cases "wa_send W (px_sent (pending_add r sg s)) k m")
    case None
    have "may_send m ?t" using assms(3) t unfolding may_send_def later_def by (meson prefix_set)
    from record_sent_ok [OF t [THEN conjunct1] this, of k] t None assms(4) q show ?thesis
      by (auto simp: send_push_def Let_def pushed_def record_sent_def nth_append intro: later_trans)
  next
    case (Some e)
    let ?u = "settle_request (length q) (Rejected e) (pending_discard r (length q) sg ?t)"
    have "rejects ?t ?u"
    proof (rule rejects_finish [where i = "length q" and r = r and e = e])
      show "entries_ok ?t" using px_inv_entries t by blast
      show "length q < length (px_requests ?t)" "px_requests ?t ! length q = (r, Pending)" using q by simp_all
      show "px_entries ?u = AList.delete r (px_entries ?t)" "px_requests ?u = settle_at (length q) (Rejected e) (px_requests ?t)"
        "px_replies ?u = px_replies ?t" "px_joined ?u = px_joined ?t" "same_rest ?t ?u"
        by (cases sg; simp add: settle_request_def pending_discard_def same_rest_def remove_listener_def)+
      show "set (px_aborts ?u) \<subseteq> set (px_aborts ?t)"
        by (cases sg) (auto simp: settle_request_def pending_discard_def remove_listener_def)
    qed
    from rejects_inv [OF t [THEN conjunct1] this] t have "px_inv ?u \<and> later s ?u" by (blast intro: later_trans)
    moreover have "px_requests ?u = q @ [(r, Rejected e)]"
      using q by (simp add: settle_request_def pending_discard_def settle_at_def nth_append)
    ultimately show ?thesis using Some assms(4) by (simp add: send_push_def Let_def pushed_def)
  qed
qed

lemma stable_pushed: "px.stable (pushed i r m)"
  unfolding px.stable_def
proof (intro allI impI)
  fix s t
  assume l: "later s t" and s: "pushed i r m s"
  then have "i < length (px_requests t)" "fst (px_requests t ! i) = r" by (auto simp: pushed_def later_def extends_def)
  moreover have "(k, m) \<in> set (px_sent t)" if "(k, m) \<in> set (px_sent s)" for k
    using that l by (auto simp: later_def intro: prefix_set)
  moreover have "snd (px_requests t ! i) = Rejected e" if "snd (px_requests s ! i) = Rejected e" for e
    using that l s by (auto simp: pushed_def later_def extends_def)
  ultimately show "pushed i r m t" using s by (auto simp: pushed_def)
qed

lemma ensures_push:
  assumes "m_ref m = Some r"
  shows "px.ensures (\<lambda>s. fresh r s \<and> may_send m s) (push W m sg)
    (\<lambda>v s. (\<exists>k. (k, m) \<in> set (px_sent s)) \<and> (r, Fulfilled v) \<in> set (px_requests s)) (\<lambda>_. True)"
proof -
  have wait: "px.ensures (pushed i r m) (wait_reply i)
    (\<lambda>v s. (\<exists>k. (k, m) \<in> set (px_sent s)) \<and> (r, Fulfilled v) \<in> set (px_requests s)) (\<lambda>_. True)" for i
    unfolding wait_reply_def
  proof (rule ensures_wait_for [OF stable_pushed])
    show "(\<exists>k. (k, m) \<in> set (px_sent s)) \<and> (r, Fulfilled v) \<in> set (px_requests s)"
      if "pushed i r m s" "promise_at (px_requests s) i = Fulfilled v" for v s
      using that by (auto simp: pushed_def promise_at_def in_set_conv_nth prod_eq_iff)
  qed simp
  have send: "px.ensures (\<lambda>t. t = s \<and> fresh r t \<and> may_send m t) (seq (modify (send_push W k r m sg)) (wait_reply (length (px_requests s))))
    (\<lambda>v s. (\<exists>k. (k, m) \<in> set (px_sent s)) \<and> (r, Fulfilled v) \<in> set (px_requests s)) (\<lambda>_. True)" for s k
    unfolding bind.simps by (rule px.ensures_Write [OF _ wait]) (use send_push_ok in auto)
  show ?thesis
    unfolding push_def assms option.case
  proof (rule px.ensures_Read)
    fix s
    show "px.ensures (\<lambda>t. t = s \<and> fresh r t \<and> may_send m t)
      (case signal_of s sg of Some why \<Rightarrow> Throw (abortError why)
       | None \<Rightarrow> (case px_socket s of None \<Rightarrow> Throw (JsError ''Firemig WebSocket is not connected'')
         | Some k \<Rightarrow> if px_ready s k \<noteq> OPEN then Throw (JsError ''Firemig WebSocket is not connected'')
           else seq (modify (send_push W k r m sg)) (wait_reply (length (px_requests s)))))
      (\<lambda>v s. (\<exists>k. (k, m) \<in> set (px_sent s)) \<and> (r, Fulfilled v) \<in> set (px_requests s)) (\<lambda>_. True)"
      using send [of s] by (auto simp: px.ensures_Throw split: option.split)
  qed
qed

section \<open>Joins\<close>

lemma ensures_moves:
  assumes "moves u" and "\<And>s. px_inv s \<Longrightarrow> P s \<Longrightarrow> Q () (u s)"
  shows "px.ensures P (modify u) Q X"
  by (rule px.ensures_modify) (use assms in blast)

lemma moves_same:
  assumes "\<And>s. px_entries (u s) = px_entries s \<and> px_requests (u s) = px_requests s \<and> px_replies (u s) = px_replies s
      \<and> px_aborts (u s) = px_aborts s \<and> same_rest s (u s) \<and> px_joined (u s) = px_joined s"
  shows "moves u"
  by (rule moves_rejects, rule rejects_aside) (use assms in auto)

lemma ensures_True: "px.ensures P p Q X \<Longrightarrow> px.ensures P p (\<lambda>_ _. True) (\<lambda>_. True)"
  by (erule px.ensures_conseq) simp_all

lemma ensures_connect: "px.ensures (\<lambda>_. True) (connect W url) (\<lambda>_ _. True) (\<lambda>_. True)"
proof -
  have wait: "px.ensures (\<lambda>_. True) (wait_opening k) (\<lambda>_ _. True) (\<lambda>_. True)" for k
    unfolding wait_opening_def by (rule ensures_wait_for) simp_all
  have clear: "px.ensures (\<lambda>_. True) (modify (\<lambda>t. if px_connecting t = Some k then t\<lparr>px_connecting := None\<rparr> else t)) (\<lambda>_ _. True) (\<lambda>_. True)" for k
    by (rule ensures_moves, rule moves_same) (simp_all add: same_rest_def)
  have made: "px.ensures (\<lambda>_. True) (seq (modify new_websocket)
      (try_finally (wait_opening k) (modify (\<lambda>t. if px_connecting t = Some k then t\<lparr>px_connecting := None\<rparr> else t)))) (\<lambda>_ _. True) (\<lambda>_. True)" for k
  proof (rule px.ensures_bind)
    show "px.ensures (\<lambda>_. True) (modify new_websocket) (\<lambda>_ _. True) (\<lambda>_. True)"
      by (rule ensures_moves, rule moves_same) (simp_all add: new_websocket_def same_rest_def)
    show "px.ensures (\<lambda>_. True) (try_finally (wait_opening k) (modify (\<lambda>t. if px_connecting t = Some k then t\<lparr>px_connecting := None\<rparr> else t))) (\<lambda>_ _. True) (\<lambda>_. True)"
      by (rule px.ensures_finally [OF wait clear clear])
  qed
  show ?thesis
    unfolding connect_def
  proof (rule px.ensures_Read)
    fix s
    show "px.ensures (\<lambda>t. t = s \<and> True) (if is_open s then skip
     else case px_connecting s of Some k \<Rightarrow> wait_opening k
     | None \<Rightarrow> bind (settle url) (\<lambda>u. case wa_make W u (px_made s) of Some e \<Rightarrow> Throw e
         | None \<Rightarrow> seq (modify new_websocket) (try_finally (wait_opening (px_made s))
               (modify (\<lambda>t. if px_connecting t = Some (px_made s) then t\<lparr>px_connecting := None\<rparr> else t))))) (\<lambda>_ _. True) (\<lambda>_. True)"
      by (rule px.ensures_conseq [where P' = "\<lambda>_. True" and Q' = "\<lambda>_ _. True" and X' = "\<lambda>_. True"], cases url)
        (auto intro: wait made [unfolded bind.simps] px.ensures_Return px.ensures_Throw split: option.split)
  qed
qed

lemma stable_joined_as: "px.stable (joined_as t r)"
  by (auto simp: px.stable_def intro: joined_as_later)

lemma may_send_join: "may_send (join_message t r) s"
  by (simp add: may_send_def is_command_def join_message_def command_message_def)

lemma set_joined_ok:
  assumes "px_inv s" and "joined_as t r s"
  shows "px_inv (s\<lparr>px_joined := AList.update t r (px_joined s)\<rparr>) \<and> later s (s\<lparr>px_joined := AList.update t r (px_joined s)\<rparr>)"
proof -
  let ?t = "s\<lparr>px_joined := AList.update t r (px_joined s)\<rparr>"
  have l: "later s ?t" by (simp add: later_def board_def)
  have "list_all (\<lambda>(t, r). joined_as t r s) (AList.update t r (px_joined s))"
    by (rule update_all) (use assms in \<open>auto simp: px_inv_def joins_ok_def list_all_iff\<close>)
  then have "joins_ok ?t" using assms(1) unfolding px_inv_def joins_ok_def by (auto simp: list_all_iff joined_as_def)
  moreover have "completions_ok ?t" "outcomes_ok ?t"
    using assms(1) unfolding px_inv_def by (auto intro: completions_ok_later [OF l] outcomes_ok_later [OF l])
  moreover have "entries_ok ?t" using px_inv_entries [OF assms(1)] by (simp add: entries_ok_def)
  ultimately show ?thesis using l assms(1) by (simp add: px_inv_def)
qed

lemma ensures_run_join: "px.ensures (\<lambda>_. True) (run_join W url t) (\<lambda>r. joined_as t r) (\<lambda>_. True)"
  unfolding run_join_def
proof (rule px.ensures_bind)
  show "px.ensures (\<lambda>_. True) (await (connect W url)) (\<lambda>_ _. True) (\<lambda>_. True)" by (rule px.ensures_await [OF ensures_connect]) simp_all
  show "px.ensures (\<lambda>_. True) (bind next_ref (\<lambda>r. seq (await (push W (join_message t r) None))
      (seq (modify (\<lambda>s. s\<lparr>px_joined := AList.update t r (px_joined s)\<rparr>)) (Return r)))) (\<lambda>r. joined_as t r) (\<lambda>_. True)"
  proof (rule px.ensures_bind [OF ensures_next_ref])
    fix r
    have "px.ensures (\<lambda>s. fresh r s \<and> may_send (join_message t r) s) (await (push W (join_message t r) None)) (\<lambda>_. joined_as t r) (\<lambda>_. True)"
    proof (rule px.ensures_await)
      show "px.ensures (\<lambda>s. fresh r s \<and> may_send (join_message t r) s) (push W (join_message t r) None) (\<lambda>_. joined_as t r) (\<lambda>_. True)"
        by (rule px.ensures_conseq [OF ensures_push [where r = r]]) (auto simp: join_message_def joined_as_def)
    qed (simp_all add: stable_joined_as)
    then have "px.ensures (\<lambda>s. True \<and> fresh r s) (await (push W (join_message t r) None)) (\<lambda>_. joined_as t r) (\<lambda>_. True)"
      by (rule px.ensures_conseq) (simp_all add: may_send_join)
    moreover have "px.ensures (joined_as t r) (seq (modify (\<lambda>s. s\<lparr>px_joined := AList.update t r (px_joined s)\<rparr>)) (Return r)) (\<lambda>r. joined_as t r) (\<lambda>_. True)"
    proof (rule px.ensures_bind)
      show "px.ensures (joined_as t r) (modify (\<lambda>s. s\<lparr>px_joined := AList.update t r (px_joined s)\<rparr>)) (\<lambda>_. joined_as t r) (\<lambda>_. True)"
        by (rule px.ensures_modify) (use set_joined_ok in \<open>auto intro: joined_as_later\<close>)
    qed (rule px.ensures_Return, simp)
    ultimately show "px.ensures (\<lambda>s. True \<and> fresh r s) (seq (await (push W (join_message t r) None))
      (seq (modify (\<lambda>s. s\<lparr>px_joined := AList.update t r (px_joined s)\<rparr>)) (Return r))) (\<lambda>r. joined_as t r) (\<lambda>_. True)"
      by (rule px.ensures_bind)
  qed simp_all
qed

text \<open>The promise of a join, and who waits for it.\<close>

definition join_of :: "string \<Rightarrow> nat \<Rightarrow> phoenix \<Rightarrow> bool" where
  "join_of t j s \<longleftrightarrow> j < length (px_joins s) \<and> fst (px_joins s ! j) = t"

lemma stable_join_of: "px.stable (join_of t j)"
  by (auto simp: px.stable_def join_of_def later_def extends_def)

lemma ensures_wait_join: "px.ensures (join_of t j) (wait_join j) (\<lambda>r. joined_as t r) (\<lambda>_. True)"
  unfolding wait_join_def
proof (rule ensures_wait_for [OF stable_join_of])
  fix v s
  assume s: "px_inv s" "join_of t j s" "promise_at (px_joins s) j = Fulfilled v"
  then have "(t, Fulfilled v) \<in> set (px_joins s)"
    unfolding join_of_def promise_at_def by (metis nth_mem prod.collapse)
  with s(1) show "joined_as t v s" by (simp add: px_inv_def joins_ok_def)
qed simp

lemma joins_change:
  assumes "px_inv s" and "extends (px_joins s) js" and "joins_ok (s\<lparr>px_joins := js, px_joining := jg\<rparr>)"
  shows "px_inv (s\<lparr>px_joins := js, px_joining := jg\<rparr>) \<and> later s (s\<lparr>px_joins := js, px_joining := jg\<rparr>)"
proof -
  let ?u = "s\<lparr>px_joins := js, px_joining := jg\<rparr>"
  have l: "later s ?u" using assms(2) by (simp add: later_def board_def)
  have "entries_ok ?u" using px_inv_entries [OF assms(1)] by (simp add: entries_ok_def)
  moreover have "completions_ok ?u" "outcomes_ok ?u"
    using assms(1) unfolding px_inv_def by (auto intro: completions_ok_later [OF l] outcomes_ok_later [OF l])
  ultimately show ?thesis using assms(1,3) l by (simp add: px_inv_def)
qed

lemma begin_join_ok:
  assumes "px_inv s"
  shows "px_inv (begin_join t s) \<and> later s (begin_join t s) \<and> join_of t (length (px_joins s)) (begin_join t s)"
proof -
  have j: "joins_ok s" using assms by (simp add: px_inv_def)
  let ?jg = "AList.update t (length (px_joins s)) (px_joining s)"
  have "list_all (\<lambda>(t', j). j < Suc (length (px_joins s)) \<and> fst ((px_joins s @ [(t, Pending)]) ! j) = t') ?jg"
    by (rule update_all) (use j in \<open>auto simp: joins_ok_def list_all_iff nth_append\<close>)
  with j have "joins_ok (s\<lparr>px_joins := px_joins s @ [(t, Pending)], px_joining := ?jg\<rparr>)"
    by (auto simp: joins_ok_def list_all_iff joined_as_def)
  from joins_change [OF assms append_extends this] show ?thesis
    by (simp add: begin_join_def join_of_def)
qed

lemma settle_join_ok:
  assumes "px_inv s" and "join_of t j s" and "\<And>v. r = Inr v \<Longrightarrow> joined_as t v s"
  shows "px_inv (settle_join j r s) \<and> later s (settle_join j r s)"
proof -
  have ok: "joins_ok s" using assms(1) by (simp add: px_inv_def)
  let ?js = "settle_at j (outcome_promise r) (px_joins s)"
  have "joined_as t' v s" if v: "(t', Fulfilled v) \<in> set ?js" for t' v
  proof -
    from v obtain i where i: "i < length (px_joins s)" "?js ! i = (t', Fulfilled v)" by (auto simp: in_set_conv_nth)
    show ?thesis
    proof (cases "i = j \<and> snd (px_joins s ! j) = Pending")
      case True
      with i assms(2) have "t' = t" "outcome_promise r = Fulfilled v" by (simp_all add: settle_at_nth join_of_def prod_eq_iff)
      with assms(3) show ?thesis by (cases r) simp_all
    next
      case False
      with i have "px_joins s ! i = (t', Fulfilled v)"
        by (auto simp: settle_at_nth settle_promise_settled prod_eq_iff split: if_splits)
      with i(1) ok show ?thesis unfolding joins_ok_def by (metis nth_mem)
    qed
  qed
  with ok have "joins_ok (s\<lparr>px_joins := ?js, px_joining := px_joining s\<rparr>)"
    by (auto simp: joins_ok_def settle_at_nth joined_as_def)
  from joins_change [OF assms(1) settle_at_extends this] show ?thesis by (simp add: settle_join_def)
qed

lemma end_join_ok: "moves (end_join t j)"
proof (intro allI impI)
  fix s
  assume s: "px_inv s"
  then have "joins_ok (s\<lparr>px_joins := px_joins s, px_joining := AList.delete t (px_joining s)\<rparr>)"
    by (auto simp: px_inv_def joins_ok_def joined_as_def AList.delete_eq)
  from joins_change [OF s extends_refl this] s show "px_inv (end_join t j s) \<and> later s (end_join t j s)"
    by (simp add: end_join_def)
qed

lemma ensures_join: "px.ensures (\<lambda>_. True) (join W url t) (\<lambda>r. joined_as t r) (\<lambda>_. True)"
proof -
  let ?Q = "\<lambda>r s. case r of Inl _ \<Rightarrow> True | Inr v \<Rightarrow> joined_as t v s"
  have stable_Q: "px.stable (?Q r)" for r using stable_joined_as by (cases r) simp_all
  have rest: "px.ensures (?Q r) (Yield (\<lambda>_. True) (seq (modify (end_join t j)) (settle r))) (\<lambda>r. joined_as t r) (\<lambda>_. True)" for j r
  proof (rule px.ensures_Yield [where P' = "?Q r"])
    show "?Q r u" if "px_inv s" "?Q r s" "px_inv u" "later s u" for s u using that stable_Q by (auto simp: px.stable_def)
    show "px.ensures (?Q r) (seq (modify (end_join t j)) (settle r)) (\<lambda>r. joined_as t r) (\<lambda>_. True)"
    proof (rule px.ensures_bind)
      show "px.ensures (?Q r) (modify (end_join t j)) (\<lambda>_. ?Q r) (\<lambda>_. True)"
        by (rule ensures_moves [OF end_join_ok], rule stable_Q [of r, unfolded px.stable_def, rule_format])
          (use end_join_ok in blast)+
    qed (rule px.ensures_settle, auto)
  qed
  have settled: "px.ensures (\<lambda>s. join_of t j s \<and> ?Q r s) (seq (modify (settle_join j r)) (Yield (\<lambda>_. True) (seq (modify (end_join t j)) (settle r))))
      (\<lambda>r. joined_as t r) (\<lambda>_. True)" for j r
  proof (rule px.ensures_bind [OF _ rest])
    have "px_inv (settle_join j r s) \<and> later s (settle_join j r s)" if "px_inv s" "join_of t j s \<and> ?Q r s" for s
      by (rule settle_join_ok) (use that in auto)
    then show "px.ensures (\<lambda>s. join_of t j s \<and> ?Q r s) (modify (settle_join j r)) (\<lambda>_. ?Q r) (\<lambda>_. True)"
      by (intro px.ensures_modify) (use stable_Q [of r] in \<open>auto simp: px.stable_def\<close>)
  qed
  have body: "px.ensures (join_of t j) (attempt (run_join W url t)) (\<lambda>r s. join_of t j s \<and> ?Q r s) (\<lambda>_. True)" for j
  proof (rule px.ensures_attempt)
    show "px.ensures (join_of t j) (run_join W url t) (\<lambda>r s. joined_as t r s \<and> join_of t j s) (\<lambda>s. True \<and> join_of t j s)"
      by (rule px.ensures_frame [OF ensures_run_join stable_join_of]) simp
  qed simp_all
  have start: "px.ensures (\<lambda>u. u = s \<and> True) (seq (modify (begin_join t))
        (bind (attempt (run_join W url t)) (\<lambda>r. seq (modify (settle_join (length (px_joins s)) r))
        (Yield (\<lambda>_. True) (seq (modify (end_join t (length (px_joins s)))) (settle r)))))) (\<lambda>r. joined_as t r) (\<lambda>_. True)" for s
  proof (rule px.ensures_bind [OF _ px.ensures_bind [OF body settled]])
    show "px.ensures (\<lambda>u. u = s \<and> True) (modify (begin_join t)) (\<lambda>_. join_of t (length (px_joins s))) (\<lambda>_. True)"
      by (rule px.ensures_modify) (use begin_join_ok in auto)
  qed
  show ?thesis
    unfolding join_def
  proof (rule px.ensures_Read)
    fix s
    show "px.ensures (\<lambda>u. u = s \<and> True) (case map_of (px_joined s) t of Some r \<Rightarrow> Return r
     | None \<Rightarrow> (case map_of (px_joining s) t of Some j \<Rightarrow> wait_join j
       | None \<Rightarrow> seq (modify (begin_join t)) (bind (attempt (run_join W url t)) (\<lambda>r.
         seq (modify (settle_join (length (px_joins s)) r)) (Yield (\<lambda>_. True)
        (seq (modify (end_join t (length (px_joins s)))) (settle r))))))) (\<lambda>r. joined_as t r) (\<lambda>_. True)"
    proof (cases "map_of (px_joined s) t")
      case (Some r)
      then have "(t, r) \<in> set (px_joined s)" by (rule map_of_SomeD)
      with Some show ?thesis by (auto simp: px_inv_def joins_ok_def intro!: px.ensures_Return)
    next
      case None
      show ?thesis
      proof (cases "map_of (px_joining s) t")
        case (Some j)
        then have "(t, j) \<in> set (px_joining s)" by (rule map_of_SomeD)
        with None Some show ?thesis
          by (auto intro!: px.ensures_conseq [OF ensures_wait_join [of t j]] simp: join_of_def px_inv_def joins_ok_def)
      qed (use None start [of s] in simp)
    qed
  qed
qed

section \<open>Commands\<close>

definition answered :: "string \<Rightarrow> phoenix_message \<Rightarrow> json \<Rightarrow> phoenix \<Rightarrow> bool" where
  "answered r m v s \<longleftrightarrow> (\<exists>k. (k, m) \<in> set (px_sent s)) \<and> (r, Fulfilled v) \<in> set (px_requests s)"

lemma stable_answered: "px.stable (answered r m v)"
  unfolding px.stable_def answered_def later_def by (blast intro: prefix_set extends_fulfilled)

definition waited :: "string \<times> string \<Rightarrow> nat \<Rightarrow> phoenix \<Rightarrow> bool" where
  "waited x c s \<longleftrightarrow> c < length (px_completions s) \<and> fst (px_completions s ! c) = x"

lemma stable_waited: "px.stable (waited x c)"
  by (auto simp: px.stable_def waited_def later_def extends_def)

lemma stable_completed: "px.stable (completed x v)"
  by (auto simp: px.stable_def intro: completed_later)

lemma stable_genuine: "px.stable (genuine x v)"
  by (auto simp: px.stable_def intro: genuine_later)

lemma ensures_push_command:
  assumes "m = command_message j r t key q"
  shows "px.ensures (\<lambda>s. fresh r s \<and> joined_as t j s) (await (push W m sg)) (\<lambda>v. answered r m v) (\<lambda>_. True)"
proof (rule px.ensures_await)
  have ref: "m_ref m = Some r" by (simp add: assms command_message_def)
  have may: "may_send m s" if "joined_as t j s" for s
    using that by (auto simp: assms may_send_def is_command_def command_message_def joined_as_def)
  show "px.ensures (\<lambda>s. fresh r s \<and> joined_as t j s) (push W m sg) (\<lambda>v. answered r m v) (\<lambda>_. True)"
    by (rule px.ensures_conseq [OF ensures_push [OF ref]]) (simp_all add: may answered_def)
qed (simp_all add: stable_answered)

lemma commandCompletion_ok:
  assumes "px_inv s"
  shows "px_inv (commandCompletion t key s) \<and> later s (commandCompletion t key s)
    \<and> waited (t, key) (length (px_completions s)) (commandCompletion t key s)"
proof -
  let ?t = "commandCompletion t key s"
  have eq: "?t = s\<lparr>px_completions := px_completions s @ [((t, key), Pending)], px_listeners := px_listeners s @ [(length (px_completions s), t, key)]\<rparr>"
    by (simp add: commandCompletion_def subscribe_def)
  have l: "later s ?t" by (simp add: eq later_def board_def)
  have "completions_ok ?t"
    using assms unfolding px_inv_def completions_ok_def eq by (auto simp: completed_def nth_append)
  moreover have "joins_ok ?t" "outcomes_ok ?t"
    using assms unfolding px_inv_def by (auto simp: eq intro: joins_ok_later [OF l [unfolded eq]] outcomes_ok_later [OF l [unfolded eq]])
  moreover have "entries_ok ?t" using px_inv_entries [OF assms] by (simp add: eq entries_ok_def)
  moreover have "waited (t, key) (length (px_completions s)) ?t" by (simp add: eq waited_def)
  ultimately show ?thesis using l assms by (simp add: px_inv_def eq)
qed

lemma unsubscribe_ok: "moves (unsubscribe c)"
proof (intro allI impI)
  fix s
  assume s: "px_inv s"
  have l: "later s (unsubscribe c s)" by (simp add: unsubscribe_def later_def board_def)
  have "entries_ok (unsubscribe c s)" using px_inv_entries [OF s] by (simp add: unsubscribe_def entries_ok_def)
  from px_inv_later [OF s this l] l show "px_inv (unsubscribe c s) \<and> later s (unsubscribe c s)"
    by (auto simp: unsubscribe_def)
qed

lemma ensures_wait_completion: "px.ensures (waited x c) (await (waitForCompletion c sg)) (\<lambda>v. completed x v) (\<lambda>_. True)"
proof (rule px.ensures_await)
  show "px.ensures (waited x c) (waitForCompletion c sg) (\<lambda>v. completed x v) (\<lambda>_. True)"
    unfolding waitForCompletion_def
  proof (rule px.ensures_Read)
    fix s
    let ?k = "\<lambda>s. case signal_of s sg of Some why \<Rightarrow> Throw (abortError why) | None \<Rightarrow> settle (promise_result (promise_at (px_completions s) c))"
    have finished: "px.ensures (waited x c) (Read ?k) (\<lambda>v. completed x v) (\<lambda>_. True)"
    proof (rule px.ensures_Read)
      fix s
      have got: "completed x v s" if "px_inv s" "waited x c s" "promise_result (promise_at (px_completions s) c) = Inr v" for v
      proof -
        from that have "(x, Fulfilled v) \<in> set (px_completions s)"
          unfolding waited_def promise_at_def
          by (cases "snd (px_completions s ! c)") (auto simp: in_set_conv_nth prod_eq_iff)
        with that(1) show ?thesis by (cases x) (simp add: px_inv_def completions_ok_def)
      qed
      show "px.ensures (\<lambda>t. t = s \<and> waited x c t) (?k s) (\<lambda>v. completed x v) (\<lambda>_. True)"
        using got by (auto intro!: px.ensures_settle px.ensures_Throw split: option.split)
    qed
    have stays: "waited x c t" if "px_inv s" "waited x c s" "px_inv t" "later s t" for s t
      using that stable_waited by (auto simp: px.stable_def)
    show "px.ensures (\<lambda>t. t = s \<and> waited x c t) (case signal_of s sg of Some why \<Rightarrow> Throw (abortError why)
     | None \<Rightarrow> Yield (\<lambda>s. promise_at (px_completions s) c \<noteq> Pending \<or> signal_of s sg \<noteq> None) (Read ?k)) (\<lambda>v. completed x v) (\<lambda>_. True)"
    proof (cases "signal_of s sg")
      case None
      have "px.ensures (\<lambda>t. t = s \<and> waited x c t) (Yield (\<lambda>s. promise_at (px_completions s) c \<noteq> Pending \<or> signal_of s sg \<noteq> None) (Read ?k))
          (\<lambda>v. completed x v) (\<lambda>_. True)"
        by (rule px.ensures_Yield [OF _ finished]) (use stays in blast)
      with None show ?thesis by simp
    qed (simp add: px.ensures_Throw)
  qed
qed (simp_all add: stable_completed)

lemma genuine_direct:
  "answered r (command_message j r (command_topic sandbox user) key request) w s \<Longrightarrow> genuine (sandbox, user, request, key) w s"
  unfolding genuine_def answered_def by blast

lemma genuine_queued:
  "answered r (command_message j r (command_topic sandbox user) key request) w s \<Longrightarrow> obj_get w ''queued'' = Some (JBool True) \<Longrightarrow>
     completed (command_topic sandbox user, key) x s \<Longrightarrow> genuine (sandbox, user, request, key) (queued_result x key) s"
  unfolding genuine_def answered_def by blast

lemma ensures_await_command:
  assumes m: "m = command_message j r (command_topic sandbox user) key request"
  shows "px.ensures (\<lambda>s. (fresh r s \<and> joined_as (command_topic sandbox user) j s) \<and> waited (command_topic sandbox user, key) c s)
    (await_command W m key sg c) (\<lambda>v. genuine (sandbox, user, request, key) v) (\<lambda>_. True)"
proof -
  let ?t = "command_topic sandbox user"
  let ?c = "(sandbox, user, request, key)"
  have wait: "px.ensures (\<lambda>s. obj_get w ''queued'' = Some (JBool True) \<and> answered r m w s \<and> waited (?t, key) c s)
     (bind (await (waitForCompletion c sg)) (\<lambda>v. Return (queued_result v key))) (\<lambda>v. genuine ?c v) (\<lambda>_. True)" for w
  proof (rule px.ensures_bind)
    show "px.ensures (\<lambda>s. obj_get w ''queued'' = Some (JBool True) \<and> answered r m w s \<and> waited (?t, key) c s) (await (waitForCompletion c sg))
       (\<lambda>v s. completed (?t, key) v s \<and> (obj_get w ''queued'' = Some (JBool True) \<and> answered r m w s)) (\<lambda>_. True)"
    proof (rule px.ensures_conseq)
      show "px.ensures (\<lambda>s. obj_get w ''queued'' = Some (JBool True) \<and> answered r m w s \<and> waited (?t, key) c s) (await (waitForCompletion c sg))
         (\<lambda>v s. completed (?t, key) v s \<and> (obj_get w ''queued'' = Some (JBool True) \<and> answered r m w s))
         (\<lambda>s. True \<and> (obj_get w ''queued'' = Some (JBool True) \<and> answered r m w s))"
        by (rule px.ensures_frame [OF ensures_wait_completion px.stable_conj [OF px.stable_const stable_answered]]) blast
    qed blast+
    show "px.ensures (\<lambda>s. completed (?t, key) v s \<and> (obj_get w ''queued'' = Some (JBool True) \<and> answered r m w s)) (Return (queued_result v key))
       (\<lambda>v. genuine ?c v) (\<lambda>_. True)" for v
      by (rule px.ensures_Return) (use genuine_queued m in blast)
  qed
  have queued: "px.ensures (\<lambda>s. answered r m w s \<and> waited (?t, key) c s)
     (bind (settle (is_queued w)) (\<lambda>b. if \<not> b then Return w
        else bind (await (waitForCompletion c sg)) (\<lambda>v. Return (queued_result v key)))) (\<lambda>v. genuine ?c v) (\<lambda>_. True)" for w
  proof (cases "is_queued w")
    case (Inr b)
    then have "b \<longleftrightarrow> obj_get w ''queued'' = Some (JBool True)" by (auto simp: is_queued_def split: if_splits)
    with Inr wait [of w] show ?thesis
      using genuine_direct by (auto simp: m intro!: px.ensures_Return)
  qed (simp add: px.ensures_Throw)
  have clear: "px.ensures P (modify (unsubscribe c)) (\<lambda>_. P) (\<lambda>_. True)" if "px.stable P" for P
    by (rule ensures_moves [OF unsubscribe_ok]) (use unsubscribe_ok that in \<open>auto simp: px.stable_def\<close>)
  show ?thesis
    unfolding await_command_def
  proof (rule px.ensures_finally)
    show "px.ensures (\<lambda>s. (fresh r s \<and> joined_as ?t j s) \<and> waited (?t, key) c s)
      (bind (await (push W m sg)) (\<lambda>accepted. bind (settle (is_queued accepted)) (\<lambda>b. if \<not> b then Return accepted
        else bind (await (waitForCompletion c sg)) (\<lambda>v. Return (queued_result v key))))) (\<lambda>v. genuine ?c v) (\<lambda>_. True)"
    proof (rule px.ensures_bind [OF _ queued])
      show "px.ensures (\<lambda>s. (fresh r s \<and> joined_as ?t j s) \<and> waited (?t, key) c s) (await (push W m sg))
        (\<lambda>v s. answered r m v s \<and> waited (?t, key) c s) (\<lambda>_. True)"
      proof (rule px.ensures_conseq)
        show "px.ensures (\<lambda>s. (fresh r s \<and> joined_as ?t j s) \<and> waited (?t, key) c s) (await (push W m sg))
          (\<lambda>v s. answered r m v s \<and> waited (?t, key) c s) (\<lambda>s. True \<and> waited (?t, key) c s)"
          by (rule px.ensures_frame [OF ensures_push_command [OF m] stable_waited]) blast
      qed simp_all
    qed
    show "px.ensures (\<lambda>s. genuine ?c v s) (modify (unsubscribe c)) (\<lambda>_ s. genuine ?c v s) (\<lambda>_. True)" for v
      by (rule clear [OF stable_genuine])
    show "px.ensures (\<lambda>_. True) (modify (unsubscribe c)) (\<lambda>_ _. True) (\<lambda>_. True)" by (rule clear) simp
  qed
qed

lemma ensures_runCommand:
  "px.ensures (\<lambda>_. True) (runCommand W url user sandbox request key sg aw) (\<lambda>v. genuine (sandbox, user, request, key) v) (\<lambda>_. True)"
proof -
  let ?t = "command_topic sandbox user"
  let ?m = "\<lambda>j r. command_message j r ?t key request"
  have plain: "px.ensures (\<lambda>s. joined_as ?t j s \<and> fresh r s) (await (push W (?m j r) sg)) (\<lambda>v. genuine (sandbox, user, request, key) v) (\<lambda>_. True)" for j r
    by (rule px.ensures_conseq [OF ensures_push_command [OF refl]]) (use genuine_direct in auto)
  have waiting: "px.ensures (\<lambda>s. joined_as ?t j s \<and> fresh r s) (Read (\<lambda>s. seq (modify (commandCompletion ?t key))
        (await_command W (?m j r) key sg (length (px_completions s))))) (\<lambda>v. genuine (sandbox, user, request, key) v) (\<lambda>_. True)" for j r
  proof (rule px.ensures_Read, rule px.ensures_bind [OF _ ensures_await_command [OF refl]])
    fix s
    show "px.ensures (\<lambda>u. u = s \<and> joined_as ?t j u \<and> fresh r u) (modify (commandCompletion ?t key))
      (\<lambda>_ u. (fresh r u \<and> joined_as ?t j u) \<and> waited (?t, key) (length (px_completions s)) u) (\<lambda>_. True)"
      by (rule px.ensures_modify)
        (use commandCompletion_ok in \<open>auto simp: fresh_def joined_as_def commandCompletion_def subscribe_def\<close>)
  qed
  show ?thesis
    unfolding runCommand_def Let_def
  proof (rule px.ensures_bind)
    show "px.ensures (\<lambda>_. True) (await (join W url ?t)) (\<lambda>j. joined_as ?t j) (\<lambda>_. True)"
      by (rule px.ensures_await [OF ensures_join stable_joined_as]) simp
    show "px.ensures (joined_as ?t j) (bind next_ref (\<lambda>r. if \<not> aw then await (push W (?m j r) sg)
      else Read (\<lambda>s. seq (modify (commandCompletion ?t key)) (await_command W (?m j r) key sg (length (px_completions s))))))
      (\<lambda>v. genuine (sandbox, user, request, key) v) (\<lambda>_. True)" for j
    proof (rule px.ensures_bind)
      show "px.ensures (joined_as ?t j) next_ref (\<lambda>r s. joined_as ?t j s \<and> fresh r s) (\<lambda>_. True)"
        by (rule px.ensures_conseq [OF ensures_next_ref [OF stable_joined_as]]) simp_all
    qed (use plain waiting in simp)
  qed
qed

section \<open>Everything that runs\<close>

lemma outcome_ok:
  assumes "px_inv s" and "\<And>v. r = Inr v \<Longrightarrow> genuine c v s"
  shows "px_inv (s\<lparr>px_outcomes := px_outcomes s @ [(c, r)]\<rparr>) \<and> later s (s\<lparr>px_outcomes := px_outcomes s @ [(c, r)]\<rparr>)"
proof -
  let ?t = "s\<lparr>px_outcomes := px_outcomes s @ [(c, r)]\<rparr>"
  have l: "later s ?t" by (simp add: later_def board_def)
  have "outcomes_ok ?t"
    using assms genuine_later [OF l] unfolding px_inv_def outcomes_ok_def by auto
  moreover have "joins_ok ?t" "completions_ok ?t"
    using assms(1) unfolding px_inv_def by (auto intro: joins_ok_later [OF l] completions_ok_later [OF l])
  moreover have "entries_ok ?t" using px_inv_entries [OF assms(1)] by (simp add: entries_ok_def)
  ultimately show ?thesis using l assms(1) by (simp add: px_inv_def)
qed

lemma ensures_command_thread: "px.ensures (\<lambda>_. True) (command_thread W url user sandbox request key sg aw) (\<lambda>_ _. True) (\<lambda>_. True)"
  unfolding command_thread_def
proof (rule px.ensures_bind)
  let ?Q = "\<lambda>r s. case r of Inl _ \<Rightarrow> True | Inr v \<Rightarrow> genuine (sandbox, user, request, key) v s"
  show "px.ensures (\<lambda>_. True) (attempt (runCommand W url user sandbox request key sg aw)) ?Q (\<lambda>_. True)"
    by (rule px.ensures_attempt [OF ensures_runCommand]) simp_all
  show "px.ensures (?Q r) (modify (\<lambda>s. s\<lparr>px_outcomes := px_outcomes s @ [((sandbox, user, request, key), r)]\<rparr>)) (\<lambda>_ _. True) (\<lambda>_. True)" for r
  proof (rule px.ensures_modify)
    fix s
    assume "px_inv s" "?Q r s"
    then show "px_inv (s\<lparr>px_outcomes := px_outcomes s @ [((sandbox, user, request, key), r)]\<rparr>)
      \<and> later s (s\<lparr>px_outcomes := px_outcomes s @ [((sandbox, user, request, key), r)]\<rparr>) \<and> True"
      using outcome_ok [of s r "(sandbox, user, request, key)"] by (cases r) simp_all
  qed
qed

lemma ensures_heartbeat: "px.ensures (\<lambda>_. True) (heartbeat_tick W k) (\<lambda>_ _. True) (\<lambda>_. True)"
proof -
  have send: "px.ensures (\<lambda>_. True) (Read (\<lambda>s. case wa_send W (px_sent s) k (heartbeat_message r) of Some e \<Rightarrow> Throw e
       | None \<Rightarrow> modify (record_sent k (heartbeat_message r)))) (\<lambda>_ _. True) (\<lambda>_. True)" for r
  proof (rule px.ensures_Read)
    fix s
    have "px.ensures (\<lambda>t. t = s \<and> True) (modify (record_sent k (heartbeat_message r))) (\<lambda>_ _. True) (\<lambda>_. True)"
      by (rule px.ensures_modify) (simp add: record_sent_ok may_send_def is_command_def heartbeat_message_def command_message_def)
    then show "px.ensures (\<lambda>t. t = s \<and> True) (case wa_send W (px_sent s) k (heartbeat_message r) of Some e \<Rightarrow> Throw e
       | None \<Rightarrow> modify (record_sent k (heartbeat_message r))) (\<lambda>_ _. True) (\<lambda>_. True)"
      by (simp add: px.ensures_Throw split: option.split)
  qed
  have beat: "px.ensures (\<lambda>_. True) (bind next_ref (\<lambda>r. Read (\<lambda>s. case wa_send W (px_sent s) k (heartbeat_message r) of Some e \<Rightarrow> Throw e
       | None \<Rightarrow> modify (record_sent k (heartbeat_message r))))) (\<lambda>_ _. True) (\<lambda>_. True)"
    by (rule px.ensures_bind [OF ensures_True [OF ensures_next_ref] send]) simp
  show ?thesis
    unfolding heartbeat_tick_def
  proof (rule px.ensures_Read)
    fix s
    show "px.ensures (\<lambda>t. t = s \<and> True) (if k \<notin> px_timers s \<or> px_socket s \<noteq> Some k \<or> px_ready s k \<noteq> OPEN then skip
      else bind next_ref (\<lambda>r. Read (\<lambda>s. case wa_send W (px_sent s) k (heartbeat_message r) of Some e \<Rightarrow> Throw e
        | None \<Rightarrow> modify (record_sent k (heartbeat_message r))))) (\<lambda>_ _. True) (\<lambda>_. True)"
      by (rule px.ensures_conseq [where P' = "\<lambda>_. True" and Q' = "\<lambda>_ _. True" and X' = "\<lambda>_. True"])
        (use beat in \<open>auto intro: px.ensures_Return\<close>)
  qed
qed

lemma ensures_event: "moves u \<Longrightarrow> px.ensures P (modify u) (\<lambda>_ _. True) (\<lambda>_. True)"
  by (rule ensures_moves) simp_all

lemma ensures_handleMessage: "px.ensures (\<lambda>_. True) (handleMessage k data) (\<lambda>_ _. True) (\<lambda>_. True)"
proof -
  have frame: "px.ensures (\<lambda>_. True) (messageText data) (\<lambda>_ _. True) (\<lambda>_. True)"
    by (cases data) (auto intro!: px.ensures_Return px.ensures_Throw px.ensures_Yield [where P' = "\<lambda>_. True"] px.ensures_bind [where Q' = "\<lambda>_ _. True"] px.ensures_settle)
  have dispatch: "px.ensures (\<lambda>_. True) (dispatchFrame data) (\<lambda>_ _. True) (\<lambda>_. True)"
    unfolding dispatchFrame_def
    by (rule px.ensures_bind [OF px.ensures_await [OF frame]])
      (auto intro!: px.ensures_Return ensures_event moves_receive [rule_format] split: option.split)
  have fail: "moves (\<lambda>s. close_websocket k (disconnect k e s))" for e
    by (rule moves_comp [OF moves_disconnect moves_rejects]) (rule rejects_closing)
  show ?thesis
    unfolding handleMessage_def
  proof (rule px.ensures_bind)
    show "px.ensures (\<lambda>_. True) (attempt (dispatchFrame data)) (\<lambda>_ _. True) (\<lambda>_. True)"
      by (rule px.ensures_attempt [OF dispatch]) simp_all
    show "px.ensures (\<lambda>_. True) (case r of Inr _ \<Rightarrow> skip | Inl e \<Rightarrow> Yield (\<lambda>_. True) (modify (\<lambda>s. close_websocket k (disconnect k e s))))
        (\<lambda>_ _. True) (\<lambda>_. True)" for r
      using px.ensures_Yield [OF _ ensures_event [OF fail]] by (cases r) (auto intro: px.ensures_Return)
  qed
qed

lemma ensures_transport: "transport W url user p \<Longrightarrow> px.ensures (\<lambda>_. True) p (\<lambda>_ _. True) (\<lambda>_. True)"
  by (induction rule: transport.induct)
    (rule ensures_command_thread ensures_handleMessage ensures_heartbeat ensures_event [OF moves_events(1)] ensures_event [OF moves_events(2)]
      ensures_event [OF moves_events(3)] ensures_event [OF moves_events(4)] ensures_event [OF moves_events(5)] ensures_event [OF moves_events(6)])+

abbreviation programs :: "websocket_api \<Rightarrow> js_error + string \<Rightarrow> string \<Rightarrow> (phoenix, unit) prog set" where
  "programs W url user \<equiv> Collect (transport W url user)"

interpretation phx: rely_guarantee px.JC px.MC "programs W url user" for W url user
proof unfold_locales
  show "rg_prog px.JC px.MC p" if "p \<in> programs W url user" for p
    using that ensures_transport by (intro px.ensures_rg_prog) simp
qed (auto intro: later_trans)

lemma px_inv_new: "px_inv new_phoenix"
  by (simp add: px_inv_def new_phoenix_def entries_ok_def joins_ok_def completions_ok_def orderly_def outcomes_ok_def)

lemma phoenix_reach:
  assumes "sched_reach (programs W url user) ((new_phoenix, []), []) ((s, l), ts)"
  shows "px_inv s \<and> board_step\<^sup>*\<^sup>* ([], []) (board s)"
  using phx.reach_ok [OF assms] px_inv_new by (simp add: later_def board_def new_phoenix_def)

text \<open>WebSockets that never throw, for closed instances.\<close>

definition calm_sockets :: websocket_api where
  "calm_sockets = \<lparr>wa_make = (\<lambda>_ _. None), wa_send = (\<lambda>_ _ _. None)\<rparr>"

end
