(* ===== verification/Phoenix_Schedules.thy ===== *)
theory Phoenix_Schedules
  imports Phoenix_Safety
begin

text \<open>
  The promises of a transport under every interleaving, and concrete schedules: a command that
  is queued and completes, and two ways in which a connection that breaks is not noticed. A
  join that belongs to an earlier WebSocket is used on the next one, and a command that waits
  for its completion goes on waiting.
\<close>

section \<open>A command from call to completion\<close>

abbreviation sample_transport :: "(phoenix, unit) prog set" where
  "sample_transport \<equiv> programs calm_sockets (Inr ''ws://host'') ''u''"

definition run_in :: "string \<Rightarrow> string \<Rightarrow> bool \<Rightarrow> (phoenix, unit) move" where
  "run_in sandbox key aw = Arrive (command_thread calm_sockets (Inr ''ws://host'') ''u'' sandbox JNull key None aw)"

definition event :: "(phoenix \<Rightarrow> phoenix) \<Rightarrow> (phoenix, unit) move" where
  "event u = Arrive (modify u)"

text \<open>A frame for the topic of sandbox \<open>s\<close> arrives on a WebSocket and is dispatched by thread \<open>i\<close>.\<close>

definition frame :: "nat \<Rightarrow> string option \<Rightarrow> string \<Rightarrow> tree \<Rightarrow> nat \<Rightarrow> (phoenix, unit) move list" where
  "frame k r e p i = [Arrive (handleMessage k (TextFrame (json_text (TArr
     [TNull, case r of None \<Rightarrow> TNull | Some r \<Rightarrow> TStr r, TStr (command_topic ''s'' ''u''), TStr e, p])))), Turn i]"

definition reply :: "nat \<Rightarrow> string \<Rightarrow> (string \<times> tree) list \<Rightarrow> nat \<Rightarrow> (phoenix, unit) move list" where
  "reply k r v = frame k (Some r) ''phx_reply'' (TObj [(''status'', TStr ''ok''), (''response'', TObj v)])"

definition queued_moves :: "(phoenix, unit) move list" where
  "queued_moves = [run_in ''s'' ''k'' True, event (on_open 0)] @ replicate 4 (Turn 0)
     @ reply 0 ''1'' [] 2 @ replicate 6 (Turn 0)
     @ reply 0 ''2'' [(''queued'', TBool True)] 3 @ replicate 4 (Turn 0)"

definition completed_moves :: "(phoenix, unit) move list" where
  "completed_moves = queued_moves
     @ frame 0 None ''command_result'' (TObj [(''commandId'', TStr ''k''), (''status'', TStr ''done''),
         (''result'', TObj [(''exitCode'', TNum ''0'')])]) 4
     @ replicate 4 (Turn 0)"

definition after :: "(phoenix, unit) move list \<Rightarrow> (phoenix, unit) system" where
  "after ms = foldl perform ((new_phoenix, []), []) ms"

lemma move_ok:
  "Arrive p = run_in sandbox key aw \<Longrightarrow> transport calm_sockets (Inr ''ws://host'') ''u'' p"
  "Arrive p \<in> set (frame k r e v i) \<Longrightarrow> transport calm_sockets (Inr ''ws://host'') ''u'' p"
  "Arrive p \<in> set (reply k r' w i) \<Longrightarrow> transport calm_sockets (Inr ''ws://host'') ''u'' p"
  "Arrive p = event (on_open k) \<Longrightarrow> transport calm_sockets (Inr ''ws://host'') ''u'' p"
  "Arrive p = event (on_closing k) \<Longrightarrow> transport calm_sockets (Inr ''ws://host'') ''u'' p"
  "Arrive p = event (on_close k why) \<Longrightarrow> transport calm_sockets (Inr ''ws://host'') ''u'' p"
  by (auto simp: run_in_def frame_def reply_def event_def intro: transport.intros)

lemma queued_moves_ok: "Arrive p \<in> set queued_moves \<Longrightarrow> p \<in> sample_transport"
  by (auto simp: queued_moves_def dest: move_ok)

lemma completed_reach: "sched_reach sample_transport ((new_phoenix, []), []) (after completed_moves)"
  unfolding after_def by (rule performs_reach) (auto simp: completed_moves_def dest: queued_moves_ok move_ok)

lemma completed_state:
  "px_sent (fst (fst (after completed_moves))) =
     [(0, join_message (command_topic ''s'' ''u'') ''1'')] @ (0, command_message ''1'' ''2'' (command_topic ''s'' ''u'') ''k'' JNull) # []
   \<and> px_outcomes (fst (fst (after completed_moves))) = [((''s'', ''u'', JNull, ''k''),
       Inr (JObj [(''exitCode'', JNum (Num 0)), (''commandId'', JStr ''k''), (''queued'', JBool True)]))]"
  by code_simp

section \<open>What a transport promises\<close>

text \<open>
  C5: the transport implements the table of requests: whatever commands are called for and
  whatever happens to sockets, signals and timers, each step of an interleaving is a sequence
  of steps of the table, in which every request has a reference of its own, is settled at most
  once, and is fulfilled only by the reply to its own reference.
\<close>

theorem replies_refine:
  assumes "sched_reach (programs W url user) ((new_phoenix, []), []) y" and "sched_step (programs W url user) y z"
  shows "board_step\<^sup>*\<^sup>* ([], []) (board (fst (fst y))) \<and> board_step\<^sup>*\<^sup>* (board (fst (fst y))) (board (fst (fst z)))"
proof -
  obtain s l ts where y: "y = ((s, l), ts)" by (metis prod.collapse)
  have inv: "px.JC (new_phoenix, [])" using px_inv_new by simp
  note ok = phx.reach_ok [OF assms(1) inv]
  have "px.MC (fst y) (fst z)" using phx.step_ok [where a = "fst y" and ts = "snd y" and b = "fst z" and ts' = "snd z"] assms(2) ok by simp
  with phoenix_reach [OF assms(1) [unfolded y]] y show ?thesis by (simp add: later_def)
qed

text \<open>
  C6: a command that returns a value returns what the coordinator answered: a command frame
  with its key and request was sent on its topic, its reference was answered with status
  \<open>ok\<close>, and the value is that response or, when the response says that the command is queued,
  the result of a completion event for its topic and key.
\<close>

theorem command_result_genuine:
  assumes "sched_reach (programs W url user) ((new_phoenix, []), []) ((s, l), ts)"
    and "((sandbox, u, request, key), Inr v) \<in> set (px_outcomes s)"
  shows "\<exists>k j r p w. (k, command_message j r (command_topic sandbox u) key request) \<in> set (px_sent s)
    \<and> (r, p) \<in> set (px_replies s) \<and> settleReply p = Fulfilled w
    \<and> (v = w \<or> obj_get w ''queued'' = Some (JBool True)
         \<and> (\<exists>m \<in> set (px_events s). \<exists>x. completion_verdict (command_topic sandbox u) key m = Some (Fulfilled x)
              \<and> v = queued_result x key))"
proof -
  note reach = phoenix_reach [OF assms(1)]
  have "board_ok ([], [])" by (simp add: board_ok_def)
  from board_steps_ok [OF reach [THEN conjunct2] this] have board: "\<exists>p. (r, p) \<in> set (px_replies s) \<and> settleReply p = Fulfilled w"
    if "(r, Fulfilled w) \<in> set (px_requests s)" for r w using that by (auto simp: board_ok_def board_def)
  have "genuine (sandbox, u, request, key) v s"
    using reach assms(2) by (simp add: px_inv_def outcomes_ok_def)
  then have "\<exists>k j r w. (k, command_message j r (command_topic sandbox u) key request) \<in> set (px_sent s)
       \<and> (r, Fulfilled w) \<in> set (px_requests s)
       \<and> (v = w \<or> obj_get w ''queued'' = Some (JBool True)
            \<and> (\<exists>x. completed (command_topic sandbox u, key) x s \<and> v = queued_result x key))"
    by (simp only: genuine_def prod.case)
  then obtain k j r w where g: "(k, command_message j r (command_topic sandbox u) key request) \<in> set (px_sent s)"
    "(r, Fulfilled w) \<in> set (px_requests s)" "v = w \<or> obj_get w ''queued'' = Some (JBool True)
            \<and> (\<exists>x. completed (command_topic sandbox u, key) x s \<and> v = queued_result x key)"
    by blast
  from board [OF g(2)] g(1,3) show ?thesis unfolding completed_def fst_conv snd_conv by blast
qed

text \<open>
  C11: no command goes out on a topic that was not joined: before every command frame the join
  frame of its topic, with the command's join reference, has been sent.
\<close>

theorem command_after_join:
  assumes "sched_reach (programs W url user) ((new_phoenix, []), []) ((s, l), ts)"
    and "px_sent s = xs @ (k, command_message j r t key q) # ys"
  shows "\<exists>k'. (k', join_message t j) \<in> set xs"
proof -
  have "orderly (px_sent s)" using phoenix_reach [OF assms(1)] by (simp add: px_inv_def)
  moreover have "is_command t j (command_message j r t key q)" by (auto simp: is_command_def)
  ultimately show ?thesis using assms(2) unfolding orderly_def by blast
qed

theorem replies_refine_witness:
  "board_step\<^sup>*\<^sup>* ([], []) (board (fst (fst (after completed_moves))))"
proof -
  obtain s l ts where a: "after completed_moves = ((s, l), ts)" by (metis prod.collapse)
  have "modify px_close \<in> sample_transport" by (simp add: transport.close)
  moreover have "advance (modify px_close) s l = (Finished (Inr ()), px_close s, l)" by simp
  ultimately have "sched_step sample_transport (after completed_moves) ((px_close s, l), ts @ [Finished (Inr ())])"
    unfolding a by (rule sched_step.arrive)
  from replies_refine [OF completed_reach this] show ?thesis by blast
qed

theorem command_result_genuine_witness:
  "\<exists>k j r p w. (k, command_message j r (command_topic ''s'' ''u'') ''k'' JNull) \<in> set (px_sent (fst (fst (after completed_moves))))
    \<and> (r, p) \<in> set (px_replies (fst (fst (after completed_moves)))) \<and> settleReply p = Fulfilled w"
proof -
  obtain s l ts where a: "after completed_moves = ((s, l), ts)" by (metis prod.collapse)
  note reach = completed_reach [unfolded a]
  have "((''s'', ''u'', JNull, ''k''), Inr (JObj [(''exitCode'', JNum (Num 0)), (''commandId'', JStr ''k''), (''queued'', JBool True)]))
      \<in> set (px_outcomes s)"
    using completed_state a by simp
  from command_result_genuine [OF reach this] obtain k j r p w where g:
    "(k, command_message j r (command_topic ''s'' ''u'') ''k'' JNull) \<in> set (px_sent s)"
    "(r, p) \<in> set (px_replies s)" "settleReply p = Fulfilled w" by blast
  then show ?thesis unfolding a fst_conv by blast
qed

theorem command_after_join_witness:
  "\<exists>s l ts xs k ys k'. sched_reach sample_transport ((new_phoenix, []), []) ((s, l), ts)
    \<and> px_sent s = xs @ (k, command_message ''1'' ''2'' (command_topic ''s'' ''u'') ''k'' JNull) # ys
    \<and> (k', join_message (command_topic ''s'' ''u'') ''1'') \<in> set xs"
proof -
  obtain s l ts where a: "after completed_moves = ((s, l), ts)" by (metis prod.collapse)
  note reach = completed_reach [unfolded a]
  have sent: "px_sent s = [(0, join_message (command_topic ''s'' ''u'') ''1'')] @ (0, command_message ''1'' ''2'' (command_topic ''s'' ''u'') ''k'' JNull) # []"
    using completed_state a by simp
  from command_after_join [OF reach sent] reach sent show ?thesis by blast
qed

section \<open>Connections that break\<close>

text \<open>
  The peer starts to close the first WebSocket; before it has closed, another command makes a
  second one. The close event of the first is then ignored, with the topics joined on it.
\<close>

definition stale_moves :: "(phoenix, unit) move list" where
  "stale_moves = [run_in ''s'' ''k'' False, event (on_open 0)] @ replicate 4 (Turn 0)
     @ reply 0 ''1'' [] 2 @ replicate 6 (Turn 0)
     @ reply 0 ''2'' [] 3 @ replicate 4 (Turn 0)
     @ [event (on_closing 0), run_in ''t'' ''k2'' False, event (on_close 0 []), event (on_open 1)]
     @ [run_in ''s'' ''k3'' False] @ replicate 4 (Turn 8)"

lemma stale_reach: "sched_reach sample_transport ((new_phoenix, []), []) (after stale_moves)"
  unfolding after_def by (rule performs_reach) (auto simp: stale_moves_def dest: move_ok)

text \<open>
  C12: a command can go out on a WebSocket on which its topic was never joined: when a
  WebSocket is replaced while it closes, the topics joined on it stay joined.
\<close>

theorem stale_join_reused:
  "\<exists>s l ts k j r key. sched_reach sample_transport ((new_phoenix, []), []) ((s, l), ts)
    \<and> (k, command_message j r (command_topic ''s'' ''u'') key JNull) \<in> set (px_sent s)
    \<and> (k, join_message (command_topic ''s'' ''u'') j) \<notin> set (px_sent s)"
proof -
  obtain s l ts where a: "after stale_moves = ((s, l), ts)" by (metis prod.collapse)
  have sent: "px_sent (fst (fst (after stale_moves))) =
     [(0, join_message (command_topic ''s'' ''u'') ''1''), (0, command_message ''1'' ''2'' (command_topic ''s'' ''u'') ''k'' JNull),
      (1, command_message ''1'' ''3'' (command_topic ''s'' ''u'') ''k3'' JNull)]" by code_simp
  have "sched_reach sample_transport ((new_phoenix, []), []) ((s, l), ts)" using stale_reach a by simp
  moreover have "(1, command_message ''1'' ''3'' (command_topic ''s'' ''u'') ''k3'' JNull) \<in> set (px_sent s)" using sent a by simp
  moreover have "(1, join_message (command_topic ''s'' ''u'') ''1'') \<notin> set (px_sent s)"
    using sent a by (simp add: join_message_def command_message_def)
  ultimately show ?thesis by blast
qed

text \<open>
  A command that was accepted as queued waits for its completion event; nothing settles that
  promise when the WebSocket closes, so its guard stays false.
\<close>

lemma waiting_after_close:
  "map (\<lambda>t. case t of Ready g p \<Rightarrow> \<not> g (fst (fst (after (queued_moves @ [event (on_close 0 [])])))) | _ \<Rightarrow> False)
      (take 1 (snd (after (queued_moves @ [event (on_close 0 [])])))) = [True]
    \<and> px_socket (fst (fst (after (queued_moves @ [event (on_close 0 [])])))) = None"
  by code_simp

end
