(* ===== verification/Demo.thy ===== *)
theory Demo
  imports Json Phoenix
begin

text \<open>
  The acceptance demo, \<open>packages/demo\<close>: the collector of counter events (\<open>tcp.ts\<close>) and
  the validator of what it observed (\<open>validator.ts\<close>, \<open>validation/sequence.ts\<close>,
  \<open>validation/events.ts\<close>). A chunk of data is the text it decodes to.
\<close>

section \<open>Counter events\<close>

record counter_event =
  ce_seq :: int
  ce_boot :: string
  ce_pid :: int
  ce_counter :: int
  ce_time :: string

fun safe_int :: "json option \<Rightarrow> int option" where
  "safe_int (Some (JNum x)) = (if is_safe_integer x then Some (num_val x) else None)"
| "safe_int _ = None"

definition parseCounterEvent :: "string \<Rightarrow> js_error + counter_event" where
  "parseCounterEvent line = (case json_read line of
       None \<Rightarrow> Inl (JsError ''SyntaxError'')
     | Some v \<Rightarrow>
         if v = JNull then Inl TypeFault
         else case (safe_int (obj_get v ''seq''), safe_int (obj_get v ''pid''), safe_int (obj_get v ''counter'')) of
           (Some n, Some p, Some c) \<Rightarrow>
             if is_str (obj_get v ''boot_id'') \<and> str_of (obj_get v ''boot_id'') \<noteq> [] \<and> is_str (obj_get v ''time'')
             then Inr \<lparr>ce_seq = n, ce_boot = str_of (obj_get v ''boot_id''), ce_pid = p, ce_counter = c,
                    ce_time = str_of (obj_get v ''time'')\<rparr>
             else Inl (JsError ''Invalid counter event'')
         | _ \<Rightarrow> Inl (JsError ''Invalid counter event''))"

section \<open>Sequences\<close>

record sequence_analysis =
  sa_missing :: "int list"
  sa_duplicates :: "int list"
  sa_observed :: "int list"
  sa_outOfOrder :: nat
  sa_exact :: bool

fun repeats :: "int set \<Rightarrow> int list \<Rightarrow> int list" where
  "repeats seen [] = []"
| "repeats seen (x # xs) = (if x \<in> seen then x # repeats (insert x seen) xs else repeats (insert x seen) xs)"

fun jumps :: "int list \<Rightarrow> nat" where
  "jumps (x # y # ys) = (if y \<noteq> x + 1 then 1 else 0) + jumps (y # ys)"
| "jumps _ = 0"

definition analyzeSequence :: "counter_event list \<Rightarrow> int \<Rightarrow> int \<Rightarrow> sequence_analysis" where
  "analyzeSequence events a b =
     (let expected = map (\<lambda>i. a + int i) [0..<nat (b - a + 1)]; observed = map ce_seq events in
      \<lparr>sa_missing = filter (\<lambda>v. v \<notin> set observed) expected,
       sa_duplicates = repeats {} observed,
       sa_observed = observed,
       sa_outOfOrder = jumps observed,
       sa_exact = (length observed = length expected \<and> list_all (\<lambda>i. observed ! i = expected ! i) [0..<length observed])\<rparr>)"

section \<open>The report\<close>

type_synonym observation = "counter_event \<times> int"

record validation_input =
  vi_observations :: "observation list"
  vi_totalMs :: int
  vi_pauseMs :: "js_number option"
  vi_bytes :: js_number
  vi_reconnects :: nat
  vi_start :: "int option"
  vi_end :: "int option"
  vi_accepted :: "bool option"
  vi_replayed :: "bool option"

record validation_report =
  vr_passed :: bool
  vr_events :: nat
  vr_totalMs :: int
  vr_pauseMs :: "js_number option"
  vr_longestGap :: int
  vr_bytes :: js_number
  vr_reconnects :: nat
  vr_boot :: bool
  vr_pid :: bool
  vr_monotonic :: bool
  vr_missing :: "int list"
  vr_duplicates :: "int list"
  vr_outOfOrder :: nat
  vr_observed :: "int list"
  vr_exact :: bool
  vr_accepted :: bool
  vr_replayed :: bool

fun gap_step :: "observation list \<Rightarrow> int \<Rightarrow> int" where
  "gap_step (x # y # ys) longest = gap_step (y # ys) (max longest (snd y - snd x))"
| "gap_step _ longest = longest"

definition longestGapMs :: "observation list \<Rightarrow> int" where
  "longestGapMs xs = gap_step xs 0"

definition same_as_first :: "(counter_event \<Rightarrow> 'a) \<Rightarrow> counter_event list \<Rightarrow> bool" where
  "same_as_first f events = (case events of [] \<Rightarrow> False | first # _ \<Rightarrow> list_all (\<lambda>ev. f ev = f first) events)"

definition monotonic :: "counter_event list \<Rightarrow> bool" where
  "monotonic events = list_all (\<lambda>i. i = 0 \<or> ce_counter (events ! (i - 1)) \<le> ce_counter (events ! i)) [0..<length events]"

definition validateContinuity :: "validation_input \<Rightarrow> validation_report" where
  "validateContinuity v =
     (let events = map fst (vi_observations v);
          boot = same_as_first ce_boot events;
          pid = same_as_first ce_pid events;
          monotone = monotonic events;
          sa = analyzeSequence events (orelse (vi_start v) 1) (orelse (vi_end v) 50);
          accepted = orelse (vi_accepted v) True;
          replayed = orelse (vi_replayed v) True in
      \<lparr>vr_passed = (sa_exact sa \<and> boot \<and> pid \<and> monotone \<and> vi_reconnects v = 0 \<and> accepted \<and> replayed),
       vr_events = length events, vr_totalMs = vi_totalMs v, vr_pauseMs = vi_pauseMs v,
       vr_longestGap = longestGapMs (vi_observations v), vr_bytes = vi_bytes v, vr_reconnects = vi_reconnects v,
       vr_boot = boot, vr_pid = pid, vr_monotonic = monotone,
       vr_missing = sa_missing sa, vr_duplicates = sa_duplicates sa, vr_outOfOrder = sa_outOfOrder sa,
       vr_observed = sa_observed sa, vr_exact = sa_exact sa, vr_accepted = accepted, vr_replayed = replayed\<rparr>)"

section \<open>The collector\<close>

text \<open>
  A waiter is a promise of \<open>waitForCount\<close> and the count it waits for; \<open>now\<close> gives the time
  at which each observation is made.
\<close>

record collector =
  co_observations :: "observation list"
  co_errors :: "js_error list"
  co_connected :: bool
  co_link :: "unit promise"
  co_closed :: bool
  co_buffer :: string
  co_attempts :: nat
  co_waiters :: "(nat \<times> nat) list"
  co_waits :: "(nat \<times> unit promise) list"

definition new_collector :: collector where
  "new_collector = \<lparr>co_observations = [], co_errors = [], co_connected = False, co_link = Pending, co_closed = False, co_buffer = [], co_attempts = 0,
     co_waiters = [], co_waits = []\<rparr>"

definition reconnectCount :: "collector \<Rightarrow> nat" where
  "reconnectCount c = co_attempts c - 1"

text \<open>\<open>connect\<close> makes the socket; the promise it returns is settled by the socket's events.\<close>

definition link_up :: "collector \<Rightarrow> collector" where
  "link_up c = c\<lparr>co_attempts := co_attempts c + 1, co_connected := True\<rparr>"

definition collector_connect :: "collector \<Rightarrow> js_error + collector" where
  "collector_connect c = (if co_connected c then Inl (JsError ''RawTcpCollector uses exactly one connection'')
     else Inr (link_up c))"

definition on_link :: "unit promise \<Rightarrow> collector \<Rightarrow> collector" where
  "on_link v c = c\<lparr>co_link := settle_promise v (co_link c)\<rparr>"

text \<open>\<open>close\<close> destroys the socket, which then has no more data.\<close>

definition collector_close :: "collector \<Rightarrow> collector" where
  "collector_close c = c\<lparr>co_closed := co_connected c\<rparr>"

text \<open>\<open>check\<close>, called for every waiter after each line.\<close>

definition check_waiter :: "collector \<Rightarrow> nat \<times> nat \<Rightarrow> collector" where
  "check_waiter c w = (if length (co_observations c) < snd w then c
     else c\<lparr>co_waiters := filter (\<lambda>x. x \<noteq> w) (co_waiters c), co_waits := settle_at (fst w) (Fulfilled ()) (co_waits c)\<rparr>)"

definition check_waiters :: "collector \<Rightarrow> collector" where
  "check_waiters c = foldl check_waiter c (co_waiters c)"

definition observe :: "(nat \<Rightarrow> int) \<Rightarrow> string \<Rightarrow> collector \<Rightarrow> collector" where
  "observe now line c = (case parseCounterEvent line of
       Inr ev \<Rightarrow> c\<lparr>co_observations := co_observations c @ [(ev, now (length (co_observations c)))]\<rparr>
     | Inl e \<Rightarrow> c\<lparr>co_errors := co_errors c @ [e]\<rparr>)"

lemma buffer_kept [simp]:
  "co_buffer (observe now line c) = co_buffer c" "co_buffer (check_waiters c) = co_buffer c"
  "co_observations (check_waiters c) = co_observations c" "co_attempts (observe now line c) = co_attempts c"
  "co_attempts (check_waiters c) = co_attempts c"
proof -
  have "co_buffer (foldl check_waiter c ws) = co_buffer c \<and> co_observations (foldl check_waiter c ws) = co_observations c
      \<and> co_attempts (foldl check_waiter c ws) = co_attempts c" for ws
    by (induction ws arbitrary: c) (simp_all add: check_waiter_def)
  then show "co_buffer (check_waiters c) = co_buffer c" "co_observations (check_waiters c) = co_observations c"
    "co_attempts (check_waiters c) = co_attempts c" by (simp_all add: check_waiters_def)
  show "co_buffer (observe now line c) = co_buffer c" "co_attempts (observe now line c) = co_attempts c"
    by (simp_all add: observe_def split: sum.split)
qed

definition take_line :: "(nat \<Rightarrow> int) \<Rightarrow> string \<Rightarrow> string \<Rightarrow> collector \<Rightarrow> collector" where
  "take_line now line rest c = (let c' = c\<lparr>co_buffer := rest\<rparr> in
     if trim line = [] then c' else check_waiters (observe now (trim line) c'))"

lemma take_line_buffer [simp]: "co_buffer (take_line now line rest c) = rest"
  by (simp add: take_line_def Let_def)

text \<open>The loop of \<open>consume\<close>: it ends when the buffer holds no complete line.\<close>

function take_lines :: "(nat \<Rightarrow> int) \<Rightarrow> collector \<Rightarrow> collector" where
  "take_lines now c = (case index_of (CHR 0x0A) (co_buffer c) of
       None \<Rightarrow> c
     | Some n \<Rightarrow> take_lines now (take_line now (take n (co_buffer c)) (drop (n + 1) (co_buffer c)) c))"
  by pat_completeness auto

termination
  by (relation "measure (\<lambda>(_, c). length (co_buffer c))") (auto dest: index_of_Some)

declare take_lines.simps [simp del]

definition consume :: "(nat \<Rightarrow> int) \<Rightarrow> string \<Rightarrow> collector \<Rightarrow> collector" where
  "consume now chunk c = take_lines now (c\<lparr>co_buffer := co_buffer c @ chunk\<rparr>)"

text \<open>\<open>waitForCount\<close> and the timeout of its signal.\<close>

definition waitForCount :: "nat \<Rightarrow> (collector, unit) prog" where
  "waitForCount count = Read (\<lambda>c. if count \<le> length (co_observations c) then skip
     else seq (modify (\<lambda>c. c\<lparr>co_waiters := co_waiters c @ [(length (co_waits c), count)], co_waits := co_waits c @ [(count, Pending)]\<rparr>))
       (wait_for (\<lambda>d. promise_at (co_waits d) (length (co_waits c)))))"

definition wait_timeout :: "nat \<Rightarrow> collector \<Rightarrow> collector" where
  "wait_timeout i c = (if i < length (co_waits c) \<and> snd (co_waits c ! i) = Pending then
       c\<lparr>co_waiters := filter (\<lambda>x. fst x \<noteq> i) (co_waiters c),
         co_waits := settle_at i (Rejected (JsError (''Timed out waiting for '' @ nat_text (fst (co_waits c ! i))
           @ '' counter events; received '' @ nat_text (length (co_observations c))))) (co_waits c)\<rparr>
     else c)"

section \<open>Framing\<close>

lemma index_of_extend: "index_of x s = Some n \<Longrightarrow> index_of x (s @ t) = Some n"
  by (induction s arbitrary: n) (auto split: if_splits)

lemma observe_buffer: "observe now line (c\<lparr>co_buffer := b\<rparr>) = (observe now line c)\<lparr>co_buffer := b\<rparr>"
  by (simp add: observe_def split: sum.split)

lemma check_waiter_buffer: "check_waiter (c\<lparr>co_buffer := b\<rparr>) w = (check_waiter c w)\<lparr>co_buffer := b\<rparr>"
  by (cases c) (simp add: check_waiter_def)

lemma check_waiters_buffer: "check_waiters (c\<lparr>co_buffer := b\<rparr>) = (check_waiters c)\<lparr>co_buffer := b\<rparr>"
proof -
  have "foldl check_waiter (c\<lparr>co_buffer := b\<rparr>) ws = (foldl check_waiter c ws)\<lparr>co_buffer := b\<rparr>" for ws
    by (induction ws arbitrary: c) (simp_all add: check_waiter_buffer)
  then show ?thesis by (simp add: check_waiters_def)
qed

lemma take_line_rest: "take_line now line r (c\<lparr>co_buffer := b\<rparr>) = (take_line now line r' c)\<lparr>co_buffer := r\<rparr>"
  by (simp add: take_line_def Let_def observe_buffer check_waiters_buffer)

text \<open>How the text is cut into chunks makes no difference.\<close>

lemma take_lines_append:
  "take_lines now ((take_lines now c)\<lparr>co_buffer := co_buffer (take_lines now c) @ t\<rparr>) = take_lines now (c\<lparr>co_buffer := co_buffer c @ t\<rparr>)"
proof (induction now c rule: take_lines.induct)
  case (1 now c)
  show ?case
  proof (cases "index_of (CHR 0x0A) (co_buffer c)")
    case None
    then show ?thesis by (simp add: take_lines.simps [of now c])
  next
    case (Some n)
    let ?c = "take_line now (take n (co_buffer c)) (drop (n + 1) (co_buffer c)) c"
    have n: "n < length (co_buffer c)" using index_of_Some [OF Some] by simp
    have first: "take_lines now c = take_lines now ?c" using Some by (simp add: take_lines.simps [of now c])
    have "take_line now (take n (co_buffer c @ t)) (drop (n + 1) (co_buffer c @ t)) (c\<lparr>co_buffer := co_buffer c @ t\<rparr>)
        = ?c\<lparr>co_buffer := co_buffer ?c @ t\<rparr>"
      using n by (simp add: take_line_rest [where r' = "drop (n + 1) (co_buffer c)"])
    then have "take_lines now (c\<lparr>co_buffer := co_buffer c @ t\<rparr>) = take_lines now (?c\<lparr>co_buffer := co_buffer ?c @ t\<rparr>)"
      using index_of_extend [OF Some, of t] by (simp add: take_lines.simps [of now "c\<lparr>co_buffer := co_buffer c @ t\<rparr>"])
    with 1 [OF Some] first show ?thesis by simp
  qed
qed

lemma consume_append: "consume now t (consume now s c) = consume now (s @ t) c"
  using take_lines_append [of now "c\<lparr>co_buffer := co_buffer c @ s\<rparr>" t] by (simp add: consume_def)

abbreviation lines_of :: "string \<Rightarrow> string list" where
  "lines_of text \<equiv> butlast (split_on (CHR 0x0A) text)"

definition received :: "string \<Rightarrow> counter_event list" where
  "received t = concat (map (\<lambda>line. case parseCounterEvent (trim line) of Inr ev \<Rightarrow> [ev] | Inl e \<Rightarrow> []) (lines_of t))"

lemma split_first:
  assumes "index_of ch s = Some n"
  shows "split_on ch s = take n s # split_on ch (drop (n + 1) s)"
proof -
  have n: "n < length s" "s ! n = ch" "ch \<notin> set (take n s)" using index_of_Some [OF assms] by simp_all
  have "s = take n s @ ch # drop (n + 1) s" using id_take_nth_drop [OF n(1)] n(2) by simp
  then show ?thesis using split_on_append [OF n(3), of "drop (n + 1) s"] by simp
qed

lemma parse_empty: "parseCounterEvent [] = Inl (JsError ''SyntaxError'')"
  by code_simp

lemma take_lines_received:
  "map fst (co_observations (take_lines now c)) = map fst (co_observations c) @ received (co_buffer c)
    \<and> co_buffer (take_lines now c) = last (split_on (CHR 0x0A) (co_buffer c)) \<and> co_attempts (take_lines now c) = co_attempts c"
proof (induction now c rule: take_lines.induct)
  case (1 now c)
  show ?case
  proof (cases "index_of (CHR 0x0A) (co_buffer c)")
    case None
    then have "take_lines now c = c" by (simp add: take_lines.simps [of now c])
    with None show ?thesis by (simp add: index_of_None split_on_atom received_def)
  next
    case (Some n)
    let ?line = "take n (co_buffer c)"
    let ?rest = "drop (n + 1) (co_buffer c)"
    have step: "map fst (co_observations (take_line now ?line ?rest c)) = map fst (co_observations c)
        @ (case parseCounterEvent (trim ?line) of Inr ev \<Rightarrow> [ev] | Inl e \<Rightarrow> [])"
      by (cases "trim ?line = []") (simp_all add: take_line_def Let_def parse_empty observe_def split: sum.split)
    have attempts: "co_attempts (take_line now ?line ?rest c) = co_attempts c"
      by (simp add: take_line_def Let_def)
    have rec: "received (co_buffer c) = (case parseCounterEvent (trim ?line) of Inr ev \<Rightarrow> [ev] | Inl e \<Rightarrow> []) @ received ?rest"
      by (simp add: received_def split_first [OF Some])
    from 1 [OF Some] Some step attempts rec show ?thesis
      by (simp add: take_lines.simps [of now c] split_first [OF Some])
  qed
qed

lemma consume_chunks:
  assumes "co_buffer c = []"
  shows "foldl (\<lambda>c chunk. consume now chunk c) c chunks = consume now (concat chunks) c"
proof -
  have same: "c\<lparr>co_buffer := co_buffer c @ []\<rparr> = c" by (cases c) simp
  have "take_lines now c = c" using assms by (simp add: take_lines.simps [of now c])
  then have none: "consume now [] c = c" by (simp only: consume_def same)
  have "foldl (\<lambda>c chunk. consume now chunk c) (consume now s c) chunks = consume now (s @ concat chunks) c" for s
    by (induction chunks arbitrary: s) (simp_all add: consume_append)
  from this [of "[]"] show ?thesis by (simp add: none)
qed

lemma chunks_received:
  assumes "co_buffer c = []"
  shows "map fst (co_observations (foldl (\<lambda>c chunk. consume now chunk c) c chunks)) = map fst (co_observations c) @ received (concat chunks)"
    and "co_attempts (foldl (\<lambda>c chunk. consume now chunk c) c chunks) = co_attempts c"
proof -
  have "foldl (\<lambda>c chunk. consume now chunk c) c chunks = take_lines now (c\<lparr>co_buffer := concat chunks\<rparr>)"
    unfolding consume_chunks [OF assms] by (simp add: consume_def assms)
  with take_lines_received [of now "c\<lparr>co_buffer := concat chunks\<rparr>"]
  show "map fst (co_observations (foldl (\<lambda>c chunk. consume now chunk c) c chunks)) = map fst (co_observations c) @ received (concat chunks)"
    "co_attempts (foldl (\<lambda>c chunk. consume now chunk c) c chunks) = co_attempts c" by simp_all
qed

section \<open>What a report says\<close>

lemma repeats_spec: "set (repeats seen xs) \<subseteq> set xs \<and> (repeats seen xs = [] \<longleftrightarrow> distinct xs \<and> set xs \<inter> seen = {})"
  by (induction seen xs rule: repeats.induct) auto

lemma jumps_upto: "jumps [a..b] = 0"
proof (induction "nat (b - a + 1)" arbitrary: a)
  case 0
  then show ?case by simp
next
  case (Suc n)
  then have ab: "a \<le> b" and "jumps [a + 1..b] = 0" by simp_all
  then show ?case by (cases "a + 1 \<le> b") (simp_all add: upto_rec1)
qed

lemma expected_upto: "map (\<lambda>i. a + int i) [0..<nat (b - a + 1)] = [a..b]"
proof (induction "nat (b - a + 1)" arbitrary: b)
  case 0
  then show ?case by simp
next
  case (Suc n)
  then have n: "n = nat (b - a)" "a \<le> b" "nat (b - a + 1) = Suc (nat (b - a))" by simp_all
  with Suc(1) [of "b - 1"] have "map (\<lambda>i. a + int i) [0..<nat (b - a)] = [a..b - 1]" by simp
  with n(2) show ?case unfolding n(3) by (simp add: upto_rec2)
qed

lemma exact_upto: "sa_exact (analyzeSequence events a b) \<longleftrightarrow> map ce_seq events = [a..b]"
proof -
  have "(length xs = length ys \<and> list_all (\<lambda>i. xs ! i = ys ! i) [0..<length xs]) \<longleftrightarrow> xs = ys" for xs ys :: "int list"
    unfolding list_eq_iff_nth_eq [of xs ys] by (auto simp: list_all_iff)
  then show ?thesis by (simp add: analyzeSequence_def Let_def expected_upto)
qed

text \<open>An exact sequence has nothing missing, repeated or out of order.\<close>

lemma exact_is_clean:
  assumes "sa_exact (analyzeSequence events a b)"
  shows "sa_missing (analyzeSequence events a b) = [] \<and> sa_duplicates (analyzeSequence events a b) = []
   \<and> sa_outOfOrder (analyzeSequence events a b) = 0"
proof -
  have e: "map ce_seq events = [a..b]" using assms by (simp add: exact_upto)
  moreover have "repeats {} [a..b] = []" using repeats_spec [of "{}" "[a..b]"] by simp
  ultimately show ?thesis by (simp add: analyzeSequence_def Let_def jumps_upto expected_upto filter_empty_conv)
qed

lemma same_as_first_iff: "same_as_first f events \<longleftrightarrow> events \<noteq> [] \<and> (\<exists>x. \<forall>ev \<in> set events. f ev = x)"
  by (cases events) (auto simp: same_as_first_def list_all_iff)

lemma monotonic_iff: "monotonic events \<longleftrightarrow> sorted (map ce_counter events)"
proof -
  have "monotonic events \<longleftrightarrow> (\<forall>i. Suc i < length events \<longrightarrow> ce_counter (events ! i) \<le> ce_counter (events ! Suc i))"
    unfolding monotonic_def list_all_iff
  proof (intro iffI allI impI ballI)
    fix i
    assume "\<forall>i \<in> set [0..<length events]. i = 0 \<or> ce_counter (events ! (i - 1)) \<le> ce_counter (events ! i)" "Suc i < length events"
    then show "ce_counter (events ! i) \<le> ce_counter (events ! Suc i)" by force
  next
    fix i
    assume "\<forall>i. Suc i < length events \<longrightarrow> ce_counter (events ! i) \<le> ce_counter (events ! Suc i)" "i \<in> set [0..<length events]"
    then show "i = 0 \<or> ce_counter (events ! (i - 1)) \<le> ce_counter (events ! i)" by (cases i) auto
  qed
  then show ?thesis by (simp add: sorted_iff_nth_Suc)
qed

text \<open>
  The demo passes exactly when the lines received, however they were cut into chunks, carry
  the expected numbers in order and nothing else, from one boot and one process, with a
  counter that never falls, and the queued command was accepted and replayed.
\<close>

lemma report_iff:
  assumes "collector_connect new_collector = Inr c"
  shows "vr_passed (validateContinuity
      \<lparr>vi_observations = co_observations (foldl (\<lambda>c chunk. consume now chunk c) c chunks), vi_totalMs = ms, vi_pauseMs = pause,
       vi_bytes = bytes, vi_reconnects = reconnectCount (foldl (\<lambda>c chunk. consume now chunk c) c chunks),
       vi_start = Some a, vi_end = Some b, vi_accepted = Some accepted, vi_replayed = Some replayed\<rparr>)
    \<longleftrightarrow> map ce_seq (received (concat chunks)) = [a..b] \<and> a \<le> b
      \<and> (\<exists>boot pid. \<forall>ev \<in> set (received (concat chunks)). ce_boot ev = boot \<and> ce_pid ev = pid)
      \<and> sorted (map ce_counter (received (concat chunks))) \<and> accepted \<and> replayed"
proof -
  have c: "c = new_collector\<lparr>co_attempts := 1, co_connected := True\<rparr>"
    using assms by (simp add: collector_connect_def new_collector_def link_up_def)
  let ?d = "foldl (\<lambda>c chunk. consume now chunk c) c chunks"
  have fresh: "co_buffer c = []" "co_observations c = []" "co_attempts c = 1" by (simp_all add: c new_collector_def)
  have "reconnectCount ?d = 0" using chunks_received(2) [OF fresh(1)] fresh(3) by (simp add: reconnectCount_def)
  moreover have "map fst (co_observations ?d) = received (concat chunks)" using chunks_received(1) [OF fresh(1)] fresh(2) by simp
  moreover have "[a..b] \<noteq> [] \<longleftrightarrow> a \<le> b" by (simp add: not_less)
  ultimately show ?thesis
    by (auto simp: validateContinuity_def Let_def exact_upto same_as_first_iff monotonic_iff)
qed

definition sample_line :: "string \<Rightarrow> string" where
  "sample_line n = json_text (TObj [(''seq'', TNum n), (''boot_id'', TStr ''b''), (''pid'', TNum ''7''), (''counter'', TNum n),
     (''time'', TStr ''t'')]) @ [CHR 0x0A]"

end
