(* ===== verification/Sse.thy ===== *)
theory Sse
  imports Json
begin

text \<open>
  \<open>packages/sdk/src/sse.ts\<close>: server-sent events out of a stream of chunks. A chunk is the
  text the decoder returned for it, whole characters in UTF-8; the events are those the
  generator yields, in order, with the error that ends it when the stream breaks.
\<close>

section \<open>Blocks\<close>

record sse_event =
  se_event :: string
  se_data :: string
  se_id :: "string option"
  se_retry :: "js_number option"

record block_state =
  bs_event :: string
  bs_id :: "string option"
  bs_retry :: "js_number option"
  bs_data :: "string list"

abbreviation lf :: char where "lf \<equiv> CHR 0x0A"
abbreviation cr :: char where "cr \<equiv> CHR 0x0D"

definition all_digits :: "string \<Rightarrow> bool" where
  "all_digits s \<longleftrightarrow> s \<noteq> [] \<and> list_all is_digit s"

definition line_field :: "string \<Rightarrow> string" where
  "line_field line = (case index_of CHR '':'' line of None \<Rightarrow> line | Some n \<Rightarrow> take n line)"

definition line_value :: "string \<Rightarrow> string" where
  "line_value line = (let v = (case index_of CHR '':'' line of None \<Rightarrow> [] | Some n \<Rightarrow> drop (n + 1) line) in
     if starts_with v '' '' then tl v else v)"

definition sse_line :: "block_state \<Rightarrow> string \<Rightarrow> block_state" where
  "sse_line b line =
     (if line = [] \<or> starts_with line '':'' then b
      else let v = line_value line in
        if line_field line = ''event'' then b\<lparr>bs_event := v\<rparr>
        else if line_field line = ''data'' then b\<lparr>bs_data := bs_data b @ [v]\<rparr>
        else if line_field line = ''id'' \<and> CHR 0x00 \<notin> set v then b\<lparr>bs_id := Some v\<rparr>
        else if line_field line = ''retry'' \<and> all_digits v then b\<lparr>bs_retry := Some (decimal False v [] 0)\<rparr>
        else b)"

definition parseSseBlock :: "string \<Rightarrow> sse_event option" where
  "parseSseBlock block =
     (let b = foldl sse_line \<lparr>bs_event = ''message'', bs_id = None, bs_retry = None, bs_data = []\<rparr> (split_on lf block) in
      if bs_data b = [] then None
      else Some \<lparr>se_event = bs_event b, se_data = join_with [lf] (bs_data b), se_id = bs_id b, se_retry = bs_retry b\<rparr>)"

section \<open>The stream\<close>

text \<open>\<open>/\r\n\r\n|\n\n|\r\r/\<close>: where the first empty line begins, and its length.\<close>

fun boundary :: "string \<Rightarrow> (nat \<times> nat) option" where
  "boundary [] = None"
| "boundary (c # s) =
     (if starts_with (c # s) [cr, lf, cr, lf] then Some (0, 4)
      else if starts_with (c # s) [lf, lf] \<or> starts_with (c # s) [cr, cr] then Some (0, 2)
      else map_option (\<lambda>(i, n). (Suc i, n)) (boundary s))"

fun crlf_to_lf :: "string \<Rightarrow> string" where
  "crlf_to_lf (c # d # s) = (if c = cr \<and> d = lf then lf # crlf_to_lf s else c # crlf_to_lf (d # s))"
| "crlf_to_lf s = s"

definition unify_newlines :: "string \<Rightarrow> string" where
  "unify_newlines s = map (\<lambda>c. if c = cr then lf else c) (crlf_to_lf s)"

definition block_event :: "string \<Rightarrow> sse_event list" where
  "block_event s = (case parseSseBlock (unify_newlines s) of None \<Rightarrow> [] | Some e \<Rightarrow> [e])"

lemma boundary_bounds: "boundary s = Some (i, n) \<Longrightarrow> i + n \<le> length s \<and> 2 \<le> n"
  by (induction s arbitrary: i) (auto simp: starts_with_def prefix_length_le dest!: prefix_length_le split: if_splits)

text \<open>The events of the complete blocks in the buffer, and the rest of it.\<close>

function drain :: "string \<Rightarrow> sse_event list \<times> string" where
  "drain buffer = (case boundary buffer of
       None \<Rightarrow> ([], buffer)
     | Some (i, n) \<Rightarrow> let (es, r) = drain (drop (i + n) buffer) in (block_event (take i buffer) @ es, r))"
  by pat_completeness auto

termination
  by (relation "measure length") (auto dest: boundary_bounds)

declare drain.simps [simp del]

definition last_event :: "string \<Rightarrow> sse_event list" where
  "last_event buffer = (if trim buffer = [] then [] else block_event buffer)"

definition byte_order_mark :: string where
  "byte_order_mark = [CHR 0xEF, CHR 0xBB, CHR 0xBF]"

definition strip_mark :: "string \<Rightarrow> string" where
  "strip_mark s = (if starts_with s byte_order_mark then drop 3 s else s)"

text \<open>How a stream ends: with what the decoder still held, or with an error.\<close>

datatype stream_end = StreamDone string | StreamFailed js_error

fun sse_read :: "bool \<Rightarrow> string \<Rightarrow> string list \<Rightarrow> stream_end \<Rightarrow> sse_event list \<times> js_error option" where
  "sse_read first buffer (chunk # chunks) ending =
     (let text' = (if first then strip_mark (buffer @ chunk) else buffer @ chunk);
          (es, r) = drain text'; (more, e) = sse_read False r chunks ending in (es @ more, e))"
| "sse_read first buffer [] (StreamDone flush) =
     (let text' = (if first then strip_mark (buffer @ flush) else buffer @ flush);
          (es, r) = drain text' in (es @ last_event r, None))"
| "sse_read first buffer [] (StreamFailed e) = ([], Some e)"

definition parseSse :: "string list \<Rightarrow> stream_end \<Rightarrow> sse_event list \<times> js_error option" where
  "parseSse chunks ending = sse_read True [] chunks ending"

section \<open>Chunks do not matter\<close>

lemma boundary_append:
  assumes "boundary s = Some (i, n)"
  shows "boundary (s @ t) = Some (i, n)"
  using assms
proof (induction s arbitrary: i)
  case (Cons c s)
  show ?case
  proof (cases "starts_with (c # s) [cr, lf, cr, lf] \<or> starts_with (c # s) [lf, lf] \<or> starts_with (c # s) [cr, cr]")
    case True
    then show ?thesis using Cons.prems by (auto simp: starts_with_def prefix_def)
  next
    case False
    then obtain j where j: "boundary s = Some (j, n)" "i = Suc j" using Cons.prems by (auto split: if_splits)
    have long: "2 \<le> length s" using boundary_bounds [OF j(1)] by simp
    then obtain d e u where s: "s = d # e # u" by (cases s; cases "tl s") auto
    have "\<not> (c = cr \<and> d = lf \<and> e = cr \<and> u = [])"
      using j(1) s by (auto simp: starts_with_def)
    then have "\<not> starts_with (c # s @ t) [cr, lf, cr, lf]" "\<not> starts_with (c # s @ t) [lf, lf]" "\<not> starts_with (c # s @ t) [cr, cr]"
      using False s by (auto simp: starts_with_def neq_Nil_conv)
    then show ?thesis using Cons.IH [OF j(1)] j(2) by simp
  qed
qed simp

lemma drain_None: "boundary s = None \<Longrightarrow> drain s = ([], s)"
  by (simp add: drain.simps)

lemma drain_Some: "boundary s = Some (i, n) \<Longrightarrow>
    drain s = (block_event (take i s) @ fst (drain (drop (i + n) s)), snd (drain (drop (i + n) s)))"
  by (subst drain.simps) (simp add: Let_def case_prod_beta)

lemma drain_append: "drain (s @ t) = (fst (drain s) @ fst (drain (snd (drain s) @ t)), snd (drain (snd (drain s) @ t)))"
proof (induction s rule: drain.induct)
  case (1 s)
  show ?case
  proof (cases "boundary s")
    case (Some b)
    obtain i n where b: "b = (i, n)" by (cases b)
    then have at: "boundary s = Some (i, n)" using Some by simp
    have "drain (s @ t) = (block_event (take i s) @ fst (drain (drop (i + n) s @ t)), snd (drain (drop (i + n) s @ t)))"
      using drain_Some [OF boundary_append [OF at, of t]] boundary_bounds [OF at] by simp
    then show ?thesis using 1 [OF Some, of i n] b drain_Some [OF at] by simp
  qed (simp add: drain_None)
qed

lemma sse_read_whole:
  "sse_read False buffer chunks (StreamDone flush)
    = (let (es, r) = drain (buffer @ concat chunks @ flush) in (es @ last_event r, None))"
proof (induction chunks arbitrary: buffer)
  case (Cons c cs)
  then show ?case
    using drain_append [of "buffer @ c" "concat cs @ flush"] by (simp add: Let_def case_prod_beta)
qed simp

text \<open>The events of a whole text.\<close>

definition sse_events :: "string \<Rightarrow> sse_event list" where
  "sse_events s = (let (es, r) = drain (strip_mark s) in es @ last_event r)"

lemma parseSse_whole:
  assumes "starts_with (concat chunks @ flush) byte_order_mark \<Longrightarrow> chunks \<noteq> [] \<Longrightarrow> starts_with (hd chunks) byte_order_mark"
  shows "parseSse chunks (StreamDone flush) = (sse_events (concat chunks @ flush), None)"
proof (cases chunks)
  case (Cons c cs)
  have "strip_mark c @ concat cs @ flush = strip_mark (c @ concat cs @ flush)"
    using assms Cons by (auto simp: strip_mark_def starts_with_def prefix_def byte_order_mark_def)
  then show ?thesis
    using Cons drain_append [of "strip_mark c" "concat cs @ flush"]
    by (simp add: parseSse_def sse_events_def sse_read_whole Let_def case_prod_beta)
qed (simp add: parseSse_def sse_events_def case_prod_beta Let_def)

section \<open>What the coordinator sends is received\<close>

text \<open>The lines the coordinator writes for an event.\<close>

definition sse_lines :: "sse_event \<Rightarrow> string list" where
  "sse_lines ev = (case se_id ev of None \<Rightarrow> [] | Some i \<Rightarrow> [''id: '' @ i]) @ [''event: '' @ se_event ev]
     @ map (\<lambda>l. ''data: '' @ l) (split_on lf (se_data ev))"

definition sse_text :: "sse_event \<Rightarrow> string" where
  "sse_text ev = join_with [lf] (sse_lines ev) @ [lf, lf]"

definition event_plain :: "sse_event \<Rightarrow> bool" where
  "event_plain ev \<longleftrightarrow> se_retry ev = None \<and> lf \<notin> set (se_event ev) \<and> cr \<notin> set (se_event ev) \<and> cr \<notin> set (se_data ev)
     \<and> (case se_id ev of None \<Rightarrow> True | Some i \<Rightarrow> lf \<notin> set i \<and> cr \<notin> set i \<and> CHR 0x00 \<notin> set i)"

definition plain_line :: "string \<Rightarrow> bool" where
  "plain_line l \<longleftrightarrow> l \<noteq> [] \<and> lf \<notin> set l \<and> cr \<notin> set l"

lemma split_on_set: "x \<in> set (split_on c s) \<Longrightarrow> set x \<subseteq> set s"
proof (induction s arbitrary: x)
  case (Cons a s)
  then show ?case by (cases "split_on c s") (fastforce split: if_splits)+
qed simp

lemma sse_lines_plain: "event_plain ev \<Longrightarrow> list_all plain_line (sse_lines ev) \<and> sse_lines ev \<noteq> []"
  using split_on_no_sep [of _ lf "se_data ev"] split_on_set [of _ lf "se_data ev"]
  by (auto simp: sse_lines_def event_plain_def plain_line_def list_all_iff split: option.splits)

lemma boundary_skip: "c \<noteq> lf \<Longrightarrow> c \<noteq> cr \<Longrightarrow> boundary (c # s) = map_option (\<lambda>(i, n). (Suc i, n)) (boundary s)"
  by (simp add: starts_with_def)

lemma boundary_line: "lf \<notin> set l \<Longrightarrow> cr \<notin> set l \<Longrightarrow> boundary (l @ s) = map_option (\<lambda>(i, n). (length l + i, n)) (boundary s)"
proof (induction l)
  case (Cons c l)
  then have "boundary ((c # l) @ s) = map_option (\<lambda>(i, n). (Suc i, n)) (boundary (l @ s))"
    unfolding append_Cons by (intro boundary_skip) auto
  with Cons show ?case by (simp add: option.map_comp comp_def case_prod_beta del: boundary.simps)
qed (simp add: option.map_id)

lemma boundary_lines:
  assumes "list_all plain_line ls" and "ls \<noteq> []"
  shows "boundary (join_with [lf] ls @ [lf, lf] @ t) = Some (length (join_with [lf] ls), 2)"
  using assms(2,1)
proof (induction ls rule: list_nonempty_induct)
  case (single l)
  then show ?case by (simp add: boundary_line plain_line_def starts_with_def)
next
  case (cons l ls)
  obtain c u where first: "join_with [lf] ls = c # u" and c: "c \<noteq> lf"
    using cons by (cases ls; cases "tl ls"; cases "hd ls") (auto simp: plain_line_def)
  have "boundary (lf # join_with [lf] ls @ [lf, lf] @ t) = Some (Suc (length (join_with [lf] ls)), 2)"
    using cons.IH cons.prems first c by (simp add: starts_with_def)
  then show ?case
    using cons by (simp add: join_Cons boundary_line plain_line_def)
qed

lemma unify_plain: "cr \<notin> set s \<Longrightarrow> unify_newlines s = s"
proof -
  have "cr \<notin> set s \<Longrightarrow> crlf_to_lf s = s" by (induction s rule: crlf_to_lf.induct) auto
  moreover assume "cr \<notin> set s"
  ultimately show ?thesis by (auto simp: unify_newlines_def intro: map_idI)
qed

lemma join_chars: "set (join_with sep xs) \<subseteq> set sep \<union> \<Union> (set ` set xs)"
  by (induction sep xs rule: join_with.induct) auto

lemma sse_line_kinds:
  "sse_line b (''id: '' @ i) = (if CHR 0x00 \<in> set i then b else b\<lparr>bs_id := Some i\<rparr>)"
  "sse_line b (''event: '' @ e) = b\<lparr>bs_event := e\<rparr>"
  "sse_line b (''data: '' @ d) = b\<lparr>bs_data := bs_data b @ [d]\<rparr>"
  by (simp_all add: sse_line_def line_field_def line_value_def starts_with_def)

lemma sse_line_data: "foldl sse_line b (map (\<lambda>l. ''data: '' @ l) ds) = b\<lparr>bs_data := bs_data b @ ds\<rparr>"
proof (induction ds arbitrary: b)
  case (Cons d ds)
  have "foldl sse_line b (map (\<lambda>l. ''data: '' @ l) (d # ds)) = foldl sse_line (sse_line b (''data: '' @ d)) (map (\<lambda>l. ''data: '' @ l) ds)"
    by simp
  also have "\<dots> = b\<lparr>bs_data := bs_data b @ d # ds\<rparr>"
    unfolding sse_line_kinds Cons by simp
  finally show ?case .
qed simp

lemma block_event_text:
  assumes "event_plain ev"
  shows "block_event (join_with [lf] (sse_lines ev)) = [ev]"
proof -
  note plain = sse_lines_plain [OF assms]
  have "cr \<notin> set (join_with [lf] (sse_lines ev))"
    using join_chars [of "[lf]" "sse_lines ev"] plain by (auto simp: list_all_iff plain_line_def)
  then have unified: "unify_newlines (join_with [lf] (sse_lines ev)) = join_with [lf] (sse_lines ev)" by (rule unify_plain)
  have "split_on lf (join_with [lf] (sse_lines ev)) = sse_lines ev"
    by (rule split_join) (use plain in \<open>auto simp: list_all_iff plain_line_def\<close>)
  then show ?thesis
    using assms unified
    by (cases "se_id ev"; cases ev)
      (simp_all add: block_event_def parseSseBlock_def sse_lines_def sse_line_kinds [simplified] sse_line_data [simplified]
        join_split event_plain_def)
qed

lemma drain_texts: "list_all event_plain evs \<Longrightarrow> drain (concat (map sse_text evs)) = (evs, [])"
proof (induction evs)
  case (Cons ev evs)
  have at: "boundary (join_with [lf] (sse_lines ev) @ [lf, lf] @ concat (map sse_text evs))
      = Some (length (join_with [lf] (sse_lines ev)), 2)"
    using boundary_lines sse_lines_plain Cons.prems by simp
  have "concat (map sse_text (ev # evs)) = join_with [lf] (sse_lines ev) @ [lf, lf] @ concat (map sse_text evs)"
    by (simp add: sse_text_def)
  then show ?case
    using drain_Some [OF at] Cons block_event_text [of ev] by simp
qed (simp add: drain_None)

text \<open>
  C24: the events of a migration arrive as they were sent. However the text of a list of
  events is cut into chunks, the generator yields exactly those events, in order, each once,
  with their identifiers, names and data, and then ends without an error.
\<close>

theorem sse_delivers:
  assumes "list_all event_plain evs" and "concat chunks @ flush = concat (map sse_text evs)"
  shows "parseSse chunks (StreamDone flush) = (evs, None)"
proof -
  have "\<not> starts_with (concat (map sse_text evs)) byte_order_mark"
  proof (cases evs)
    case (Cons ev rest)
    then obtain c u where "join_with [lf] (sse_lines ev) = c # u" "c \<in> {CHR ''i'', CHR ''e''}"
      by (cases "se_id ev"; cases "split_on lf (se_data ev)") (auto simp: sse_lines_def)
    then show ?thesis using Cons by (auto simp: sse_text_def starts_with_def byte_order_mark_def)
  qed (simp add: starts_with_def byte_order_mark_def)
  then show ?thesis
    using parseSse_whole [of chunks flush] drain_texts [OF assms(1)] assms(2)
    by (simp add: sse_events_def strip_mark_def last_event_def trim_def)
qed

theorem sse_delivers_witness:
  "parseSse [''id: 1'' @ [lf] @ ''event: pro'', ''gress'' @ [lf] @ ''data: {}'' @ [lf], [lf]] (StreamDone [])
     = ([\<lparr>se_event = ''progress'', se_data = ''{}'', se_id = Some ''1'', se_retry = None\<rparr>], None)"
  by (rule sse_delivers) (simp_all add: event_plain_def sse_text_def sse_lines_def)

end
