(* ===== verification/Sdk_Client.thy ===== *)
theory Sdk_Client
  imports Sdk_Request Sse Base64
begin

text \<open>
  The client of the SDK: \<open>client.ts\<close>, \<open>client/sandbox.ts\<close>, \<open>client/migration.ts\<close>
  and \<open>client/migration-progress.ts\<close>. What a generator has yielded is the state of its
  program, a list that grows at the end.
\<close>

section \<open>Sandboxes\<close>

definition sandbox_path :: "string \<Rightarrow> string" where
  "sandbox_path i = ''/v1/sandboxes/'' @ encodeURIComponent i"

definition mutation :: "string \<Rightarrow> json \<Rightarrow> mutation_options \<Rightarrow> request_options" where
  "mutation meth body mo =
     \<lparr>mo_key = mo_key mo, mo_signal = mo_signal mo, ro_method = Some meth, ro_body = Some body, ro_idempotent = Some True,
      ro_accept = None, ro_headers = []\<rparr>"

definition query :: "bool \<Rightarrow> request_options" where
  "query signal =
     \<lparr>mo_key = None, mo_signal = signal, ro_method = None, ro_body = None, ro_idempotent = None, ro_accept = None, ro_headers = []\<rparr>"

definition sandboxes_create :: "client_options \<Rightarrow> json \<Rightarrow> mutation_options \<Rightarrow> ('s, json option) prog" where
  "sandboxes_create cx body mo = sendRequest cx ''/v1/sandboxes'' (mutation ''POST'' body mo)"

definition sandboxes_get :: "client_options \<Rightarrow> string \<Rightarrow> bool \<Rightarrow> ('s, json option) prog" where
  "sandboxes_get cx i signal = sendRequest cx (sandbox_path i) (query signal)"

datatype file_source = TextSource string | ByteSource string

fun content_member :: "file_source \<Rightarrow> string \<times> json" where
  "content_member (TextSource t) = (''content'', JStr t)"
| "content_member (ByteSource bytes) = (''contentBase64'', JStr (base64_text bytes))"

definition files_write :: "client_options \<Rightarrow> string \<Rightarrow> string \<Rightarrow> file_source \<Rightarrow> js_number option \<Rightarrow> mutation_options \<Rightarrow>
    ('s, json option) prog" where
  "files_write cx i path content mode mo =
     sendRequest cx (sandbox_path i @ ''/files'')
       (mutation ''PUT'' (JObj ([(''path'', JStr path), content_member content]
          @ (case mode of None \<Rightarrow> [] | Some n \<Rightarrow> [(''mode'', JNum n)]))) mo)"

definition ports_expose :: "client_options \<Rightarrow> string \<Rightarrow> json \<Rightarrow> mutation_options \<Rightarrow> ('s, json option) prog" where
  "ports_expose cx i body mo = sendRequest cx (sandbox_path i @ ''/ports'') (mutation ''POST'' body mo)"

record migration =
  mg_sandboxId :: string
  mg_migrationId :: string

text \<open>\<open>new Migration(client, \{ ...info, \<dots> \})\<close>, of which the methods use the two identifiers.\<close>

definition sandbox_migrate :: "client_options \<Rightarrow> string \<Rightarrow> json \<Rightarrow> mutation_options \<Rightarrow> ('s, migration) prog" where
  "sandbox_migrate cx i body mo =
     bind (sendRequest cx (sandbox_path i @ ''/migrations'') (mutation ''POST'' body mo)) (\<lambda>info.
       case info of None \<Rightarrow> Throw TypeFault
       | Some v \<Rightarrow> if v = JNull then Throw TypeFault
           else Return \<lparr>mg_sandboxId = str_of (obj_get v ''sandboxId''), mg_migrationId = str_of (obj_get v ''migrationId'')\<rparr>)"

section \<open>Progress\<close>

record progress =
  mp_phase :: string
  mp_bytes :: js_number
  mp_total :: js_number
  mp_ts :: json
  mp_id :: "json option"
  mp_error :: "json option"

fun num_of :: "json option \<Rightarrow> js_number option" where
  "num_of (Some (JNum n)) = Some n"
| "num_of _ = None"

definition present :: "json option \<Rightarrow> json option" where
  "present v = (if v = Some JNull then None else v)"

definition progress_error :: js_error where
  "progress_error = firemig BadRequest ''Invalid migration progress event'' False None None"

definition parseProgress :: "string \<Rightarrow> string option \<Rightarrow> ('s, progress) prog" where
  "parseProgress text_data' i =
     (case json_read text_data' of
        None \<Rightarrow> Throw (JsError ''SyntaxError'')
      | Some v \<Rightarrow>
          if v = JNull then Throw TypeFault
          else (case (obj_get v ''phase'', num_of (obj_get v ''bytesTransferred'')) of
              (Some (JStr phase), Some bytes) \<Rightarrow>
                bind (case present (obj_get v ''ts'') of Some ts \<Rightarrow> Return ts
                      | None \<Rightarrow> bind (call_text IsoNow) (\<lambda>t. Return (JStr t))) (\<lambda>ts.
                  Return \<lparr>mp_phase = phase, mp_bytes = bytes, mp_total = orelse (num_of (obj_get v ''bytesTotal'')) (Num 0),
                    mp_ts = ts, mp_id = (case i of None \<Rightarrow> obj_get v ''id'' | Some t \<Rightarrow> Some (JStr t)),
                    mp_error = obj_get v ''error''\<rparr>)
            | _ \<Rightarrow> Throw progress_error))"

definition isFailure :: "string \<Rightarrow> bool" where
  "isFailure phase \<longleftrightarrow> phase \<in> phase_text ` {Failed, RolledBack, OrphanedAmbiguous}"

definition is_terminal :: "string \<Rightarrow> bool" where
  "is_terminal phase \<longleftrightarrow> phase \<in> phase_text ` terminalPhases"

definition migrationError :: "progress \<Rightarrow> js_error" where
  "migrationError p = FiremigError
     (case present (mp_error p) of Some e \<Rightarrow> body_of e
      | None \<Rightarrow> \<lparr>err_code = code_text Internal, err_message = ''Migration terminated in '' @ mp_phase p,
          err_retryable = False, err_details = None\<rparr>) None"

section \<open>Watching a migration\<close>

record watch_options =
  wo_signal :: bool
  wo_poll :: "int option"
  wo_reconnects :: "nat option"

definition statusPath :: "migration \<Rightarrow> string" where
  "statusPath m = sandbox_path (mg_sandboxId m) @ ''/migrations/'' @ encodeURIComponent (mg_migrationId m)"

definition migration_get :: "client_options \<Rightarrow> migration \<Rightarrow> bool \<Rightarrow> ('s, json option) prog" where
  "migration_get cx m signal = sendRequest cx (statusPath m) (query signal)"

definition contains_text :: "string \<Rightarrow> string \<Rightarrow> bool" where
  "contains_text s t \<longleftrightarrow> list_ex (\<lambda>n. starts_with (drop n s) t) [0..<Suc (length s)]"

definition client_raw :: "client_options \<Rightarrow> string \<Rightarrow> request_options \<Rightarrow> ('s, fetch_response) prog" where
  "client_raw cx path q = call_fetch (Fetch (base_url cx @ path) (orelse (ro_method q) ''GET'') (buildHeaders cx q None) None)"

definition openStream :: "client_options \<Rightarrow> migration \<Rightarrow> string option \<Rightarrow> bool \<Rightarrow> ('s, (string list \<times> (js_error + string)) option) prog" where
  "openStream cx m lastEventId signal =
     bind (attempt (client_raw cx (statusPath m @ ''/events'')
         \<lparr>mo_key = None, mo_signal = signal, ro_method = None, ro_body = None, ro_idempotent = None,
          ro_accept = Some ''text/event-stream'',
          ro_headers = (case lastEventId of None \<Rightarrow> [] | Some i \<Rightarrow> [(''last-event-id'', i)])\<rparr>)) (\<lambda>r. case r of
       Inl e \<Rightarrow> Return None
     | Inr response \<Rightarrow>
         Return (if \<not> ok_status (fr_status response) \<or> \<not> contains_text (orelse (fr_contentType response) []) ''text/event-stream''
           then None else fr_stream response))"

definition emit :: "'x \<Rightarrow> ('x list, unit) prog" where
  "emit x = modify (\<lambda>ys. ys @ [x])"

text \<open>
  The events of one stream: \<open>None\<close> when the generator returns, else the last identifier and
  the delay for the next connection.
\<close>

fun consume_events :: "sse_event list \<Rightarrow> string option \<Rightarrow> int \<Rightarrow> (progress list, (string option \<times> int) option) prog" where
  "consume_events [] lastEventId retryMs = Return (Some (lastEventId, retryMs))"
| "consume_events (ev # evs) lastEventId retryMs =
     bind (parseProgress (se_data ev) (se_id ev)) (\<lambda>p.
     seq (emit p)
      (if se_event ev = ''error'' \<or> isFailure (mp_phase p) then Throw (migrationError p)
       else if se_event ev = ''done'' \<or> is_terminal (mp_phase p) then Return None
       else consume_events evs (case se_id ev of None \<Rightarrow> lastEventId | Some i \<Rightarrow> Some i)
         (case se_retry ev of None \<Rightarrow> retryMs | Some n \<Rightarrow> num_val n)))"

definition stream_events :: "string list \<times> (js_error + string) \<Rightarrow> sse_event list \<times> js_error option" where
  "stream_events st = parseSse (fst st) (case snd st of Inl e \<Rightarrow> StreamFailed e | Inr flush \<Rightarrow> StreamDone flush)"

definition consume_stream :: "string list \<times> (js_error + string) \<Rightarrow> string option \<Rightarrow> int \<Rightarrow>
    (progress list, (string option \<times> int) option) prog" where
  "consume_stream st lastEventId retryMs =
     (let (events, failure) = stream_events st in
      bind (consume_events events lastEventId retryMs) (\<lambda>r.
        case (r, failure) of (Some x, Some e) \<Rightarrow> Throw e | _ \<Rightarrow> Return r))"

text \<open>The connections that are left; \<open>False\<close> is the way to polling.\<close>

fun stream_loop :: "client_options \<Rightarrow> migration \<Rightarrow> bool \<Rightarrow> nat \<Rightarrow> string option \<Rightarrow> int \<Rightarrow> (progress list, bool) prog" where
  "stream_loop cx m signal 0 lastEventId retryMs = Return False"
| "stream_loop cx m signal (Suc left) lastEventId retryMs =
     bind (await (openStream cx m lastEventId signal)) (\<lambda>opened. case opened of
       None \<Rightarrow> Return False
     | Some st \<Rightarrow>
         bind (consume_stream st lastEventId retryMs) (\<lambda>r. case r of
           None \<Rightarrow> Return True
         | Some (i, retry) \<Rightarrow>
             seq (if 0 < left then call_unit (SleepFor retry) else skip)
               (stream_loop cx m signal left i retry)))"

definition status_progress :: "json \<Rightarrow> string \<Rightarrow> progress" where
  "status_progress v ts =
     \<lparr>mp_phase = str_of (obj_get v ''phase''), mp_bytes = orelse (num_of (obj_get v ''bytesTransferred'')) NotInteger,
      mp_total = orelse (num_of (obj_get v ''bytesTotal'')) NotInteger, mp_ts = JStr ts, mp_id = None,
      mp_error = obj_get v ''error''\<rparr>"

text \<open>What the signature of a status tells apart.\<close>

definition signature_of :: "progress \<Rightarrow> string \<times> js_number \<times> js_number" where
  "signature_of p = (mp_phase p, mp_bytes p, mp_total p)"

definition status_value :: "json option \<Rightarrow> js_error + json" where
  "status_value v = (case v of None \<Rightarrow> Inl TypeFault | Some j \<Rightarrow> if j = JNull then Inl TypeFault else Inr j)"

text \<open>The loop is bounded by its first argument; without fuel it waits for ever.\<close>

fun poll :: "nat \<Rightarrow> client_options \<Rightarrow> migration \<Rightarrow> watch_options \<Rightarrow> (string \<times> js_number \<times> js_number) option \<Rightarrow>
    (progress list, unit) prog" where
  "poll 0 cx m q sig = Yield (\<lambda>_. False) skip"
| "poll (Suc n) cx m q sig =
     bind (await (migration_get cx m (wo_signal q))) (\<lambda>status.
     bind (settle (status_value status)) (\<lambda>v.
     bind (call_text IsoNow) (\<lambda>ts.
     let p = status_progress v ts in
     seq (if Some (signature_of p) \<noteq> sig then emit p else skip)
      (if isFailure (mp_phase p) then Throw (migrationError p)
       else if is_terminal (mp_phase p) then skip
       else seq (call_unit (SleepFor (orelse (wo_poll q) 500)))
         (poll n cx m q (Some (signature_of p)))))))"

definition watch :: "nat \<Rightarrow> client_options \<Rightarrow> migration \<Rightarrow> watch_options \<Rightarrow> (progress list, unit) prog" where
  "watch n cx m q =
     bind (stream_loop cx m (wo_signal q) (Suc (orelse (wo_reconnects q) 2)) None (orelse (wo_poll q) 500)) (\<lambda>returned.
       if returned then skip else poll n cx m q None)"

section \<open>What a watcher is told\<close>

lemma quiet_call_fetch [simp]: "quiet (call_fetch c)"
  by (simp add: call_fetch_def split: reply.split)

lemma run_sleep: "\<exists>r l'. run E (if b then call_unit c else skip) s l = (r, s, l') \<and> r \<noteq> Blocked"
  by (auto simp: run_call_unit split: reply.split)

lemma quiet_send_attempt: "quiet (send_attempt retries retryable signal w attempts)"
proof (induction retries retryable signal w attempts rule: send_attempt.induct)
  case (1 retries retryable signal w attempts)
  have "quiet (pause_before_retry attempts)"
    unfolding pause_before_retry_def math_random_def by (auto intro!: quiet_bind split: reply.split)
  moreover have "quiet (if signal then signal_aborted else Return False)" by (simp add: signal_aborted_def)
  ultimately show ?case
    using 1 by (subst send_attempt.simps) (auto intro!: quiet_bind split: sum.split)
qed

lemma quiet_sendRequest: "quiet (sendRequest cx path q)"
  unfolding sendRequest_def idempotency_key_def
  by (auto intro!: quiet_bind quiet_send_attempt split: option.split)

lemma quiet_migration_get: "quiet (migration_get cx m signal)"
  unfolding migration_get_def by (rule quiet_sendRequest)

lemma quiet_openStream: "quiet (openStream cx m i signal)"
  unfolding openStream_def client_raw_def call_fetch_def by (auto intro!: quiet_bind quiet_attempt split: sum.split reply.split)

lemma quiet_parseProgress: "quiet (parseProgress t i)"
  unfolding parseProgress_def by (auto intro!: quiet_bind split: option.split json.split)

lemma run_emit [run_simps]: "run E (emit x) ys l = (Value (), ys @ [x], l)"
  by (simp add: emit_def)

text \<open>A progress after which the watcher goes on, and what it has seen when it stops.\<close>

definition going :: "progress \<Rightarrow> bool" where
  "going p \<longleftrightarrow> \<not> isFailure (mp_phase p) \<and> \<not> is_terminal (mp_phase p)"

definition finished_well :: "progress list \<Rightarrow> bool" where
  "finished_well ys \<longleftrightarrow> ys \<noteq> [] \<and> list_all going (butlast ys) \<and> \<not> isFailure (mp_phase (last ys))"

lemma list_all_butlast: "list_all P xs \<Longrightarrow> list_all P (butlast xs)"
  by (auto simp: list_all_iff dest: in_set_butlastD)

lemma consume_verdict:
  assumes "list_all going ys" and "run E (consume_events evs i ms) ys l = (r, ys', l')"
  shows "r \<noteq> Blocked \<and> list_all going (butlast ys') \<and> (\<forall>x. r = Value (Some x) \<longrightarrow> list_all going ys')
    \<and> (r = Value None \<longrightarrow> finished_well ys')"
  using assms
proof (induction evs arbitrary: i ms ys l)
  case Nil
  then show ?case by (auto simp: list_all_butlast)
next
  case (Cons ev evs)
  have "quiet (parseProgress (se_data ev) (se_id ev) :: (progress list, progress) prog)" by (rule quiet_parseProgress)
  then show ?case
  proof (cases rule: quiet_runE [of _ E ys l])
    case (ret p l1)
    show ?thesis
    proof (cases "se_event ev = ''error'' \<or> isFailure (mp_phase p) \<or> se_event ev = ''done'' \<or> is_terminal (mp_phase p)")
      case True
      then show ?thesis
        using Cons.prems ret by (auto simp: run_simps finished_well_def split: if_splits)
    next
      case False
      then have "list_all going (ys @ [p])" using Cons.prems(1) by (simp add: going_def [of p])
      moreover have "run E (consume_events evs (case se_id ev of None \<Rightarrow> i | Some i \<Rightarrow> Some i)
          (case se_retry ev of None \<Rightarrow> ms | Some n \<Rightarrow> num_val n)) (ys @ [p]) l1 = (r, ys', l')"
        using Cons.prems(2) ret False by (simp add: run_simps)
      ultimately show ?thesis by (rule Cons.IH)
    qed
  next
    case (err e l1)
    then show ?thesis using Cons.prems by (auto simp: run_simps list_all_butlast)
  qed
qed

lemma consume_stream_verdict:
  assumes "list_all going ys" and "run E (consume_stream st i ms) ys l = (r, ys', l')"
  shows "r \<noteq> Blocked \<and> list_all going (butlast ys') \<and> (\<forall>x. r = Value (Some x) \<longrightarrow> list_all going ys')
    \<and> (r = Value None \<longrightarrow> finished_well ys')"
proof -
  obtain events failure where st: "stream_events st = (events, failure)" by (cases "stream_events st")
  obtain r1 y1 l1 where run: "run E (consume_events events i ms) ys l = (r1, y1, l1)" by (cases "run E (consume_events events i ms) ys l")
  from consume_verdict [OF assms(1) run] assms(2) run st show ?thesis
    by (auto simp: consume_stream_def run_bind split: outcome.splits option.splits)
qed

lemma stream_loop_verdict:
  assumes "list_all going ys" and "run E (stream_loop cx m signal left i ms) ys l = (r, ys', l')"
  shows "r \<noteq> Blocked \<and> list_all going (butlast ys') \<and> (r = Value False \<longrightarrow> list_all going ys') \<and> (r = Value True \<longrightarrow> finished_well ys')"
  using assms
proof (induction left arbitrary: i ms ys l)
  case (Suc left)
  have "quiet (openStream cx m i signal :: (progress list, _) prog)" by (rule quiet_openStream)
  then show ?case
  proof (cases rule: quiet_runE [of _ E ys l])
    case (ret opened l1)
    show ?thesis
    proof (cases opened)
      case (Some st)
      obtain r2 y2 l2 where run: "run E (consume_stream st i ms) ys l1 = (r2, y2, l2)" by (cases "run E (consume_stream st i ms) ys l1")
      note verdict = consume_stream_verdict [OF Suc.prems(1) run]
      show ?thesis
      proof (cases "\<exists>x retry. r2 = Value (Some (x, retry))")
        case True
        then obtain x retry where r2: "r2 = Value (Some (x, retry))" by blast
        obtain r3 l3 where sleep: "run E (if 0 < left then call_unit (SleepFor retry) else skip) y2 l2 = (r3, y2, l3)" "r3 \<noteq> Blocked"
          using run_sleep [of E "0 < left" "SleepFor retry" y2 l2] by auto
        have ys2: "list_all going y2" using verdict r2 by simp
        show ?thesis
        proof (cases r3)
          case (Value u)
          have "run E (stream_loop cx m signal left x retry) y2 l3 = (r, ys', l')"
            using Suc.prems(2) ret Some run r2 sleep Value by (simp add: run_bind run_await)
          then show ?thesis using Suc.IH [OF ys2] by blast
        next
          case (Raised e)
          then have "r = Raised e" "ys' = y2" using Suc.prems(2) ret Some run r2 sleep by (simp_all add: run_bind run_await)
          then show ?thesis using ys2 by (simp add: list_all_butlast)
        qed (use sleep in simp)
      next
        case False
        then show ?thesis
          using Suc.prems(2) ret Some run verdict by (auto simp: run_bind run_await split: outcome.splits option.splits)
      qed
    qed (use Suc.prems ret in \<open>auto simp: run_bind run_await list_all_butlast\<close>)
  next
    case (err e l1)
    then show ?thesis using Suc.prems by (auto simp: run_bind run_await list_all_butlast)
  qed
qed (auto simp: list_all_butlast)

lemma poll_verdict:
  assumes "list_all going ys" and "sig = None \<or> (ys \<noteq> [] \<and> sig = Some (signature_of (last ys)))"
    and "run E (poll n cx m q sig) ys l = (r, ys', l')"
  shows "list_all going (butlast ys') \<and> (r = Value () \<longrightarrow> finished_well ys')"
  using assms
proof (induction n arbitrary: sig ys l)
  case (Suc n)
  have "quiet (migration_get cx m (wo_signal q) :: (progress list, _) prog)" by (rule quiet_migration_get)
  then show ?case
  proof (cases rule: quiet_runE [of _ E ys l])
    case (ret status l1)
    show ?thesis
    proof (cases "\<exists>v ts. status_value status = Inr v \<and> E l1 IsoNow = OkText ts")
      case True
      then obtain v ts where v: "status_value status = Inr v" and ts: "E l1 IsoNow = OkText ts" by blast
      let ?p = "status_progress v ts"
      let ?ys = "if Some (signature_of ?p) \<noteq> sig then ys @ [?p] else ys"
      let ?rest = "if isFailure (mp_phase ?p) then Throw (migrationError ?p)
       else if is_terminal (mp_phase ?p) then skip
       else seq (call_unit (SleepFor (orelse (wo_poll q) 500))) (poll n cx m q (Some (signature_of ?p)))"
      have run: "run E ?rest ?ys (l1 @ [IsoNow]) = (r, ys', l')"
        using Suc.prems(3) ret v ts by (auto simp: run_simps Let_def call_text_def split: if_splits)
      have seen: "going ?p" if "Some (signature_of ?p) = sig"
      proof -
        have "mp_phase (last ys) = mp_phase ?p" "ys \<noteq> []" using that Suc.prems(2) by (auto simp: signature_of_def)
        then show ?thesis using Suc.prems(1) by (metis going_def last_in_set list_all_iff)
      qed
      show ?thesis
      proof (cases "going ?p")
        case False
        then have "?ys = ys @ [?p]" using seen by auto
        then show ?thesis
          using run False Suc.prems(1) by (auto simp: going_def [of ?p] finished_well_def split: if_splits)
      next
        case True
        have all: "list_all going ?ys" using Suc.prems(1) True by simp
        have sig: "?ys \<noteq> [] \<and> Some (signature_of ?p) = Some (signature_of (last ?ys))" using Suc.prems(2) by auto
        obtain r3 l3 where sleep: "run E (call_unit (SleepFor (orelse (wo_poll q) 500))) ?ys (l1 @ [IsoNow]) = (r3, ?ys, l3)" "r3 \<noteq> Blocked"
          using run_sleep [of E True "SleepFor (orelse (wo_poll q) 500)" ?ys "l1 @ [IsoNow]"] by auto
        show ?thesis
        proof (cases r3)
          case (Value u)
          then have "run E (poll n cx m q (Some (signature_of ?p))) ?ys l3 = (r, ys', l')"
            using run True sleep by (simp add: run_bind going_def [of ?p] del: poll.simps)
          from Suc.IH [OF all _ this] sig show ?thesis by blast
        next
          case (Raised e)
          then have "r = Raised e \<and> ys' = ?ys" using run True sleep by (simp add: run_bind going_def [of ?p] del: poll.simps)
          then show ?thesis using list_all_butlast [OF all] by simp
        qed (use sleep in simp)
      qed
    next
      case False
      then show ?thesis
        using Suc.prems ret
        by (auto simp: run_simps call_text_def list_all_butlast split: sum.splits reply.splits)
    qed
  next
    case (err e l1)
    then show ?thesis using Suc.prems by (auto simp: run_bind run_await list_all_butlast)
  qed
qed (auto simp: list_all_butlast)

text \<open>The phases, as they are sent, in which a migration ended without its sandbox moved.\<close>

definition failed_phases :: "string set" where
  "failed_phases = {''FAILED'', ''ROLLED_BACK'', ''ORPHANED_AMBIGUOUS''}"

lemma isFailure_texts: "isFailure phase \<longleftrightarrow> phase \<in> failed_phases"
  by (auto simp: isFailure_def failed_phases_def phase_text.simps)

text \<open>
  C22: a watcher is never told of the end of a migration before the end, and never of a failure
  as of a success. Whatever the coordinator streams or answers, every progress yielded but the
  last one is of a phase the migration still leaves, over all the connections and the
  polling that follows them; and when the generator returns, the last progress was yielded
  and is not \<open>FAILED\<close>, \<open>ROLLED_BACK\<close> or \<open>ORPHANED_AMBIGUOUS\<close>.
\<close>

theorem watch_verdict:
  assumes "run E (watch n cx m q) [] l = (r, ys, l')"
  shows "list_all going (butlast ys) \<and> (r = Value () \<longrightarrow> ys \<noteq> [] \<and> mp_phase (last ys) \<notin> failed_phases)"
proof -
  let ?loop = "stream_loop cx m (wo_signal q) (Suc (orelse (wo_reconnects q) 2)) None (orelse (wo_poll q) 500)"
  obtain r1 y1 l1 where run: "run E ?loop [] l = (r1, y1, l1)" by (cases "run E ?loop [] l")
  have "list_all going []" by simp
  note verdict = stream_loop_verdict [OF this run]
  show ?thesis
  proof (cases "r1 = Value False")
    case True
    then have "run E (poll n cx m q None) y1 l1 = (r, ys, l')" using assms run by (simp add: watch_def run_bind del: stream_loop.simps)
    from poll_verdict [OF _ _ this] verdict True show ?thesis by (simp add: finished_well_def isFailure_texts)
  next
    case False
    then have "r = (case r1 of Value b \<Rightarrow> Value () | Raised e \<Rightarrow> Raised e | Blocked \<Rightarrow> Blocked)" "ys = y1"
      using assms run by (auto simp: watch_def run_bind simp del: stream_loop.simps split: outcome.splits if_splits)
    then show ?thesis using verdict False by (auto simp: finished_well_def isFailure_texts split: outcome.splits)
  qed
qed

text \<open>
  A stream that breaks ends the watch with its error, however many connections are left:
  only a stream that ends is connected to again.
\<close>

lemma consume_all:
  assumes "run E (consume_events evs i ms) ys l = (Value (Some x), ys', l')" and "stream_events st = (evs, Some e)"
  shows "run E (consume_stream st i ms) ys l = (Raised e, ys', l')"
  using assms by (simp add: consume_stream_def run_bind)

lemma broken_stream_ends_watch:
  assumes "run E (openStream cx m i signal) ys l = (Value (Some st), ys, l1)" and "stream_events st = (evs, Some e)"
    and "run E (consume_events evs i ms) ys l1 = (Value (Some x), ys', l')"
  shows "run E (stream_loop cx m signal (Suc left) i ms) ys l = (Raised e, ys', l')"
  using assms consume_all [OF assms(3,2)] by (simp add: run_bind run_await)

section \<open>A coordinator without a stream\<close>

text \<open>
  An environment that has no event stream and answers the status requests with one status
  after the other.
\<close>

type_synonym status = "string \<times> int \<times> int"

fun status_json :: "status \<Rightarrow> json" where
  "status_json (phase, bytes, amount) =
     JObj [(''phase'', JStr phase), (''bytesTransferred'', JNum (Num bytes)), (''bytesTotal'', JNum (Num amount))]"

fun polled :: "status list \<Rightarrow> environment" where
  "polled vs l (Fetch u m h b) = OkFetch \<lparr>fr_status = 200, fr_statusText = [], fr_contentType = None,
     fr_text = JsonText (status_json (vs ! (length (fetches l) - 1))), fr_stream = None\<rparr>"
| "polled vs l IsoNow = OkText []"
| "polled vs l c = Ok"

text \<open>Statuses that differ from the one before.\<close>

fun changes :: "'a option \<Rightarrow> 'a list \<Rightarrow> 'a list" where
  "changes last_one [] = []"
| "changes last_one (v # vs) = (if Some v = last_one then [] else [v]) @ changes (Some v) vs"

lemma changes_remdups: "changes (Some v) vs = tl (remdups_adj (v # vs))"
  by (induction vs arbitrary: v) (auto split: list.splits)

lemma changes_None: "changes None vs = remdups_adj vs"
proof (cases vs)
  case (Cons v ws)
  then show ?thesis by (cases ws) (auto simp: changes_remdups remdups_adj_Cons split: list.splits)
qed simp

fun view :: "status \<Rightarrow> string \<times> js_number \<times> js_number" where
  "view (phase, bytes, amount) = (phase, Num bytes, Num amount)"

lemma status_signature [simp]: "signature_of (status_progress (status_json v) ts) = view v"
  by (cases v) (simp add: signature_of_def status_progress_def)

lemma status_phase [simp]: "mp_phase (status_progress (status_json v) ts) = fst v"
  by (cases v) (simp add: status_progress_def)

lemma run_status:
  "run (polled vs) (migration_get cx m signal) s l
     = (Value (Some (status_json (vs ! (length (fetches l) - 1)))), s,
        l @ [wire_call (wire_of cx (statusPath m) (query signal) None)])"
proof -
  have "\<not> is_mutation (query signal)" by (simp add: is_mutation_def query_def)
  then show ?thesis
    by (simp add: migration_get_def sendRequest_def idempotency_key_def query_def run_bind send_attempt.simps run_attempt
        call_fetch_def wire_call_def ok_status_def response_value_def)
qed

lemma poll_run:
  assumes "ws \<noteq> []" and "\<forall>v\<in>set (butlast ws). \<not> isFailure (fst v) \<and> \<not> is_terminal (fst v)" and "is_terminal (fst (last ws))"
    and "vs = us @ ws" and "length (fetches l) = Suc (length us)"
  shows "\<exists>new l'. run (polled vs) (poll (length ws) cx m q sig) ys l
      = (if isFailure (fst (last ws)) then Raised (migrationError (status_progress (status_json (last ws)) [])) else Value (), ys @ new, l')
    \<and> map signature_of new = changes sig (map view ws)"
  using assms
proof (induction ws arbitrary: us l sig ys)
  case (Cons w ws)
  let ?p = "status_progress (status_json w) []"
  let ?new = "if Some (view w) \<noteq> sig then [?p] else []"
  let ?call = "wire_call (wire_of cx (statusPath m) (query (wo_signal q)) None)"
  let ?rest = "if isFailure (fst w) then Throw (migrationError ?p) else if is_terminal (fst w) then skip
       else seq (call_unit (SleepFor (orelse (wo_poll q) 500))) (poll (length ws) cx m q (Some (view w)))"
  have at: "vs ! (length (fetches l) - 1) = w" using Cons.prems by simp
  have got: "run (polled vs) (migration_get cx m (wo_signal q)) ys l = (Value (Some (status_json w)), ys, l @ [?call])"
    using run_status [of vs cx m "wo_signal q" ys l] at by simp
  have "status_json w \<noteq> JNull" by (cases w) simp
  then have step: "run (polled vs) (poll (length (w # ws)) cx m q sig) ys l
      = run (polled vs) ?rest (ys @ ?new) (l @ [?call, IsoNow])"
    by (cases "Some (view w) = sig") (simp_all add: run_bind run_await got status_value_def call_text_def Let_def run_emit)
  show ?case
  proof (cases ws)
    case Nil
    then have "is_terminal (fst w)" using Cons.prems by simp
    then show ?thesis unfolding step using Nil by auto
  next
    case (Cons v rest)
    then have on: "\<not> isFailure (fst w)" "\<not> is_terminal (fst w)" using Cons.prems(2) by auto
    have "fetches (l @ [?call, IsoNow, SleepFor n]) = fetches l @ [?call]" for n
      by (simp add: fetches_def wire_call_def)
    moreover have "ws \<noteq> []" "\<forall>v\<in>set (butlast ws). \<not> isFailure (fst v) \<and> \<not> is_terminal (fst v)" "is_terminal (fst (last ws))"
      "vs = (us @ [w]) @ ws" using Cons Cons.prems by auto
    ultimately obtain new l' where tail: "run (polled vs) (poll (length ws) cx m q (Some (view w))) (ys @ ?new)
        (l @ [?call, IsoNow, SleepFor (orelse (wo_poll q) 500)])
      = (if isFailure (fst (last ws)) then Raised (migrationError (status_progress (status_json (last ws)) [])) else Value (),
         (ys @ ?new) @ new, l')" "map signature_of new = changes (Some (view w)) (map view ws)"
      using Cons.IH [of "us @ [w]" "l @ [?call, IsoNow, SleepFor (orelse (wo_poll q) 500)]" "Some (view w)" "ys @ ?new"] Cons.prems(5)
      by fastforce
    have "run (polled vs) ?rest (ys @ ?new) (l @ [?call, IsoNow])
        = run (polled vs) (poll (length ws) cx m q (Some (view w))) (ys @ ?new) (l @ [?call, IsoNow, SleepFor (orelse (wo_poll q) 500)])"
      using on by (simp add: run_bind run_call_unit)
    with step tail have "run (polled vs) (poll (length (w # ws)) cx m q sig) ys l
      = (if isFailure (fst (last (w # ws))) then Raised (migrationError (status_progress (status_json (last (w # ws))) [])) else Value (),
         ys @ (?new @ new), l')" using Cons by simp
    moreover have "map signature_of (?new @ new) = changes sig (map view (w # ws))" using tail(2) by simp
    ultimately show ?thesis by blast
  qed
qed simp

text \<open>
  C23: watching works without a stream. When the coordinator offers no event stream and its
  answers to the status requests reach a final phase, the watcher ends after that many
  requests; it has yielded every status that differs from the one before, in order and
  once, and it fails exactly when the final phase is a failure.
\<close>

theorem watch_polls:
  assumes "vs \<noteq> []" and "\<forall>v\<in>set (butlast vs). \<not> isFailure (fst v) \<and> \<not> is_terminal (fst v)" and "is_terminal (fst (last vs))"
  shows "\<exists>ys l'. run (polled vs) (watch (length vs) cx m q) [] []
      = (if isFailure (fst (last vs)) then Raised (migrationError (status_progress (status_json (last vs)) [])) else Value (), ys, l')
    \<and> map signature_of ys = remdups_adj (map view vs)"
proof -
  obtain call where open': "run (polled vs) (openStream cx m None (wo_signal q)) ys [] = (Value None, ys, [call])" "is_fetch call"
    for ys :: "progress list"
    by (simp add: openStream_def client_raw_def call_fetch_def run_bind run_attempt contains_text_def starts_with_def)
  then have "run (polled vs) (watch (length vs) cx m q) [] [] = run (polled vs) (poll (length vs) cx m q None) [] [call]"
    by (simp add: watch_def run_bind run_await del: poll.simps)
  moreover have "length (fetches [call]) = Suc (length [])" using open'(2) by (simp add: fetches_def)
  ultimately show ?thesis
    using poll_run [OF assms, where vs = vs and us = "[]" and l = "[call]" and sig = None and ys = "[]" and cx = cx and m = m and q = q]
    by (simp add: changes_None)
qed

definition sample_statuses :: "status list" where
  "sample_statuses = [(''TRANSFERRING'', 1, 3), (''TRANSFERRING'', 1, 3), (''TRANSFERRING'', 3, 3), (''DONE'', 3, 3)]"

definition sample_watch :: watch_options where
  "sample_watch = \<lparr>wo_signal = False, wo_poll = None, wo_reconnects = None\<rparr>"

lemma sample_phases: "\<not> isFailure ''TRANSFERRING''" "\<not> is_terminal ''TRANSFERRING''" "\<not> isFailure ''DONE''" "is_terminal ''DONE''"
  by (auto simp: isFailure_def is_terminal_def terminalPhases_def phase_text.simps)

theorem watch_polls_witness:
  "\<exists>ys l'. run (polled sample_statuses) (watch (length sample_statuses) sample_client \<lparr>mg_sandboxId = ''a'', mg_migrationId = ''m''\<rparr> sample_watch) [] []
      = (Value (), ys, l')
    \<and> map signature_of ys = [(''TRANSFERRING'', Num 1, Num 3), (''TRANSFERRING'', Num 3, Num 3), (''DONE'', Num 3, Num 3)]"
  using watch_polls [of sample_statuses sample_client "\<lparr>mg_sandboxId = ''a'', mg_migrationId = ''m''\<rparr>" sample_watch]
  by (simp add: sample_statuses_def sample_phases)

theorem watch_verdict_witness:
  "\<exists>r ys l'. run (polled [(''DONE'', 3, 3)]) (watch 1 sample_client \<lparr>mg_sandboxId = ''a'', mg_migrationId = ''m''\<rparr> sample_watch) [] []
      = (r, ys, l') \<and> list_all going (butlast ys) \<and> (r = Value () \<longrightarrow> ys \<noteq> [] \<and> mp_phase (last ys) \<notin> failed_phases)"
proof -
  obtain r ys l' where "run (polled [(''DONE'', 3, 3)]) (watch 1 sample_client \<lparr>mg_sandboxId = ''a'', mg_migrationId = ''m''\<rparr> sample_watch) [] []
      = (r, ys, l')" by (cases "run (polled [(''DONE'', 3, 3)]) (watch 1 sample_client \<lparr>mg_sandboxId = ''a'', mg_migrationId = ''m''\<rparr> sample_watch) [] []")
  with watch_verdict [OF this] show ?thesis by blast
qed

end
