(* ===== verification/Demo_Run.thy ===== *)
theory Demo_Run
  imports Demo Sdk_Client Phoenix_Safety
begin

text \<open>
  The demo itself, \<open>packages/demo/src/demo.ts\<close>: a script over the operations of the SDK,
  with the collector, the Phoenix socket of its client and the events of the collector's
  connection beside it. From the interleavings of all of these: a report that passes speaks of
  the text that was received.
\<close>

section \<open>The script\<close>

text \<open>
  The state of a demo: the socket of its client, its collector, what the watcher has yielded,
  and on record the text received and the reports returned, each with the number of events it
  was asked for.
\<close>

record demo =
  dm_phoenix :: phoenix
  dm_collector :: collector
  dm_progress :: "progress list"
  dm_text :: string
  dm_reports :: "(int \<times> validation_report) list"

record demo_options =
  do_source :: "string option"
  do_destination :: "string option"
  do_cpu :: "int option"
  do_memory :: "int option"
  do_pre :: "nat option"
  do_total :: "nat option"

definition on_phoenix :: "(phoenix, 'a) prog \<Rightarrow> (demo, 'a) prog" where
  "on_phoenix p = zoom dm_phoenix dm_phoenix_update p"

definition on_collector :: "(collector, 'a) prog \<Rightarrow> (demo, 'a) prog" where
  "on_collector p = zoom dm_collector dm_collector_update p"

definition on_progress :: "(progress list, 'a) prog \<Rightarrow> (demo, 'a) prog" where
  "on_progress p = zoom dm_progress dm_progress_update p"

text \<open>\<open>new Sandbox(client, info)\<close> reads the identifier of what the coordinator answered.\<close>

definition sandbox_id :: "json option \<Rightarrow> js_error + string" where
  "sandbox_id v = (case v of None \<Rightarrow> Inl TypeFault
     | Some j \<Rightarrow> if j = JNull then Inl TypeFault else Inr (str_of (obj_get j ''id'')))"

definition command_json :: "string \<Rightarrow> bool \<Rightarrow> json" where
  "command_json c background = JObj ((''command'', JStr c) # (if background then [(''background'', JBool True)] else []))"

text \<open>The guest is asked every 100 ms whether its server listens; the loop is bounded by its first argument.\<close>

fun await_server :: "nat \<Rightarrow> (demo, json) prog \<Rightarrow> int \<Rightarrow> (demo, unit) prog" where
  "await_server 0 probe deadline = Yield (\<lambda>_. False) skip"
| "await_server (Suc n) probe deadline =
     bind (await probe) (\<lambda>v.
     if v = JNull then Throw TypeFault
     else if obj_get v ''exitCode'' = Some (JNum (Num 0)) then skip
     else bind (call_int DateNow) (\<lambda>now.
       if deadline \<le> now then Throw (JsError ''Guest counter server did not become ready'')
       else seq (call_unit (SleepFor 100)) (await_server n probe deadline)))"

text \<open>\<open>Math.max\<close>, where a value that is not an integer leaves the result open.\<close>

fun js_max :: "js_number \<Rightarrow> js_number \<Rightarrow> js_number" where
  "js_max (Num a) (Num b) = Num (max a b)"
| "js_max _ _ = NotInteger"

definition bytes_of :: "json \<Rightarrow> js_number" where
  "bytes_of v = orelse (num_of (obj_get v ''bytesTransferred'')) NotInteger"

definition pause_of :: "json \<Rightarrow> js_number option" where
  "pause_of v = (case present (obj_get v ''metrics'') of None \<Rightarrow> None | Some m \<Rightarrow> num_of (obj_get m ''vmPauseMs''))"

definition connect_collector :: "(collector, unit) prog" where
  "connect_collector = Read (\<lambda>c. case collector_connect c of
       Inl e \<Rightarrow> Throw e
     | Inr _ \<Rightarrow> seq (modify link_up) (wait_for co_link))"

text \<open>The part between \<open>try\<close> and \<open>finally\<close>; \<open>ask\<close> runs the command that is queued during the migration.\<close>

definition demo_body :: "nat \<Rightarrow> client_options \<Rightarrow> string \<Rightarrow> demo_options \<Rightarrow> (string \<Rightarrow> json \<Rightarrow> (demo, json) prog) \<Rightarrow> (demo, validation_report) prog" where
  "demo_body fuel cx i q ask =
     (let tot = orelse (do_total q) 50 in
      seq (await (on_collector (waitForCount (orelse (do_pre q) 15))))
     (bind (call_int DateNow) (\<lambda>started.
      bind (await (sandbox_migrate cx i (JObj [(''destination'', JStr (orelse (do_destination q) ''worker-b''))]) no_options)) (\<lambda>migration.
      bind (await (ask (''demo-redpanda-command-'' @ i) (command_json ''printf redpanda-replayed > /tmp/firemig-queued-command'' False))) (\<lambda>queued.
      bind (settle (if queued = JNull then Inl TypeFault else Inr ())) (\<lambda>_.
      seq (on_progress (modify (\<lambda>_. [])))
     (seq (await (on_progress (watch fuel cx migration \<lparr>wo_signal = False, wo_poll = None, wo_reconnects = None\<rparr>)))
     (bind (call_int DateNow) (\<lambda>ended.
      seq (await (on_collector (waitForCount tot)))
     (bind (await (migration_get cx migration False)) (\<lambda>status.
      Read (\<lambda>s. case co_errors (dm_collector s) of
        e # _ \<Rightarrow> Throw e
      | [] \<Rightarrow> bind (settle (status_value status)) (\<lambda>v.
          Return (validateContinuity
            \<lparr>vi_observations = co_observations (dm_collector s), vi_totalMs = ended - started, vi_pauseMs = pause_of v,
             vi_bytes = js_max (foldl (\<lambda>n p. js_max n (mp_bytes p)) (Num 0) (dm_progress s)) (bytes_of v),
             vi_reconnects = reconnectCount (dm_collector s), vi_start = Some 1, vi_end = Some (int tot),
             vi_accepted = Some (obj_get queued ''queued'' = Some (JBool True)),
             vi_replayed = Some (obj_get queued ''exitCode'' = Some (JNum (Num 0)))\<rparr>))))))))))))))"

definition runDemo :: "nat \<Rightarrow> websocket_api \<Rightarrow> js_error + string \<Rightarrow> client_options \<Rightarrow> string \<Rightarrow> string \<Rightarrow> demo_options \<Rightarrow> nat \<Rightarrow>
    (demo, validation_report) prog" where
  "runDemo fuel W url cx user program q sg =
     bind (await (sandboxes_create cx (JObj [(''region'', JStr (orelse (do_source q) ''worker-a'')),
         (''cpu'', JNum (Num (orelse (do_cpu q) 2))), (''memoryMb'', JNum (Num (orelse (do_memory q) 256)))]) no_options)) (\<lambda>info.
     bind (settle (sandbox_id info)) (\<lambda>i.
     let exec = (\<lambda>c background. on_phoenix (client_runCommand W url user i (command_json c background) None None False)) in
     seq (await (files_write cx i ''/opt/demo/server.py'' (TextSource program) (Some (Num 493)) no_options))
    (seq (await (exec ''python3 /opt/demo/server.py'' True))
    (bind (call_int DateNow) (\<lambda>now.
     seq (await_server fuel (exec (''python3 -c '' @ quoted ''import socket; socket.create_connection(('127.0.0.1', 8080), 1).close()'') False) (now + 30000))
    (bind (await (ports_expose cx i (JObj [(''guestPort'', JNum (Num 8080)), (''sequenceAware'', JBool True)]) no_options)) (\<lambda>port.
     bind (settle (status_value port)) (\<lambda>_.
     seq (await (on_collector connect_collector))
      (try_finally (demo_body fuel cx i q (\<lambda>key c. on_phoenix (client_runCommand W url user i c (Some key) (Some sg) True)))
        (seq (on_collector (modify collector_close)) (on_phoenix (modify px_close))))))))))))"

section \<open>What may happen to a demo\<close>

definition on_data :: "(nat \<Rightarrow> int) \<Rightarrow> string \<Rightarrow> demo \<Rightarrow> demo" where
  "on_data now chunk s = (if co_connected (dm_collector s) \<and> \<not> co_closed (dm_collector s)
     then s\<lparr>dm_collector := consume now chunk (dm_collector s), dm_text := dm_text s @ chunk\<rparr> else s)"

definition demo_thread :: "nat \<Rightarrow> websocket_api \<Rightarrow> js_error + string \<Rightarrow> client_options \<Rightarrow> string \<Rightarrow> string \<Rightarrow> demo_options \<Rightarrow> nat \<Rightarrow>
    (demo, unit) prog" where
  "demo_thread fuel W url cx user program q sg = bind (attempt (runDemo fuel W url cx user program q sg)) (\<lambda>r. case r of
       Inl e \<Rightarrow> skip
     | Inr v \<Rightarrow> modify (\<lambda>s. s\<lparr>dm_reports := dm_reports s @ [(int (orelse (do_total q) 50), v)]\<rparr>))"

inductive demo_event :: "(demo, unit) prog \<Rightarrow> bool" where
  started: "demo_event (demo_thread fuel W url cx user program q sg)"
| data: "demo_event (modify (on_data now chunk))"
| link: "demo_event (on_collector (modify (on_link v)))"
| timed_out: "demo_event (on_collector (modify (wait_timeout i)))"
| socket: "transport W url user p \<Longrightarrow> demo_event (on_phoenix p)"

definition new_demo :: demo where
  "new_demo = \<lparr>dm_phoenix = new_phoenix, dm_collector = new_collector, dm_progress = [], dm_text = [], dm_reports = []\<rparr>"

section \<open>What the collector holds\<close>

definition in_sequence :: "int \<Rightarrow> string \<Rightarrow> bool" where
  "in_sequence n t \<longleftrightarrow> map ce_seq (received t) = [1..n] \<and> 1 \<le> n
     \<and> (\<exists>boot pid. \<forall>ev \<in> set (received t). ce_boot ev = boot \<and> ce_pid ev = pid) \<and> sorted (map ce_counter (received t))"

definition report_ok :: "int \<Rightarrow> validation_report \<Rightarrow> demo \<Rightarrow> bool" where
  "report_ok n r s \<longleftrightarrow> (vr_passed r \<longrightarrow> vr_accepted r \<and> vr_replayed r \<and> (\<exists>u. prefix u (dm_text s) \<and> in_sequence n u))"

definition dm_inv :: "demo \<Rightarrow> bool" where
  "dm_inv s \<longleftrightarrow> map fst (co_observations (dm_collector s)) = received (dm_text s)
     \<and> co_buffer (dm_collector s) = last (split_on (CHR 0x0A) (dm_text s))
     \<and> (\<forall>(n, r) \<in> set (dm_reports s). report_ok n r s)"

definition dm_later :: "demo \<Rightarrow> demo \<Rightarrow> bool" where
  "dm_later s t \<longleftrightarrow> prefix (dm_text s) (dm_text t)"

interpretation dm: forward dm_inv dm_later dm_later
  by unfold_locales (auto simp: dm_later_def intro: prefix_order.trans)

lemma report_ok_later: "dm_later s t \<Longrightarrow> report_ok n r s \<Longrightarrow> report_ok n r t"
  unfolding report_ok_def dm_later_def by (blast intro: prefix_order.trans)

lemma stable_report_ok: "dm.stable (report_ok n r)"
  by (auto simp: dm.stable_def intro: report_ok_later)

text \<open>Writes that leave what was received and reported alone.\<close>

definition aside :: "(demo \<Rightarrow> demo) \<Rightarrow> bool" where
  "aside u \<longleftrightarrow> (\<forall>s. dm_text (u s) = dm_text s \<and> dm_reports (u s) = dm_reports s
     \<and> co_observations (dm_collector (u s)) = co_observations (dm_collector s)
     \<and> co_buffer (dm_collector (u s)) = co_buffer (dm_collector s))"

definition aside_c :: "(collector \<Rightarrow> collector) \<Rightarrow> bool" where
  "aside_c u \<longleftrightarrow> (\<forall>c. co_observations (u c) = co_observations c \<and> co_buffer (u c) = co_buffer c)"

lemma aside_keeps: "aside u \<Longrightarrow> dm_inv s \<Longrightarrow> dm_inv (u s) \<and> dm_later s (u s)"
  unfolding aside_def dm_inv_def dm_later_def report_ok_def by simp

lemma acts_phoenix: "acts aside (\<lambda>_. True) (on_phoenix p)"
  unfolding on_phoenix_def by (rule acts_on_field [OF acts_any]) (simp add: aside_def)

lemma acts_progress: "acts aside (\<lambda>_. True) (on_progress p)"
  unfolding on_progress_def by (rule acts_on_field [OF acts_any]) (simp add: aside_def)

lemma acts_collector: "acts aside_c (\<lambda>_. True) p \<Longrightarrow> acts aside (\<lambda>_. True) (on_collector p)"
  unfolding on_collector_def by (erule acts_on_field) (simp add: aside_def aside_c_def)

lemma acts_wait_for: "acts W (\<lambda>_. True) (wait_for p)"
  by (auto simp: wait_for_def intro: acts_rules)

lemma acts_collector_parts:
  "acts aside_c (\<lambda>_. True) (waitForCount n)" "acts aside_c (\<lambda>_. True) connect_collector"
  "acts aside_c (\<lambda>_. True) (modify collector_close)" "acts aside_c (\<lambda>_. True) (modify (on_link v))"
  "acts aside_c (\<lambda>_. True) (modify (wait_timeout i))"
  by (auto simp: waitForCount_def connect_collector_def collector_connect_def link_up_def acts_wait_for aside_c_def collector_close_def on_link_def
      wait_timeout_def)

lemma ensures_aside: "acts aside (\<lambda>_. True) p \<Longrightarrow> dm.ensures (\<lambda>_. True) p (\<lambda>_ _. True) (\<lambda>_. True)"
  by (rule dm.ensures_acts [where W = aside]) (use aside_keeps in blast)

lemma ensures_then:
  assumes "acts aside (\<lambda>_. True) p" and "\<And>v. dm.ensures (\<lambda>_. True) (f v) Q (\<lambda>_. True)"
  shows "dm.ensures (\<lambda>_. True) (bind p f) Q (\<lambda>_. True)"
  by (rule dm.ensures_bind [OF ensures_aside [OF assms(1)]]) (rule assms(2))

section \<open>A report is about what was received\<close>

lemma passed_in_sequence:
  assumes "dm_inv s"
  shows "report_ok (int tot) (validateContinuity
    \<lparr>vi_observations = co_observations (dm_collector s), vi_totalMs = ms, vi_pauseMs = pause, vi_bytes = bytes,
     vi_reconnects = k, vi_start = Some 1, vi_end = Some (int tot), vi_accepted = Some a, vi_replayed = Some b\<rparr>) s"
proof -
  have fst: "map fst (co_observations (dm_collector s)) = received (dm_text s)" using assms by (simp add: dm_inv_def)
  have "in_sequence (int tot) (dm_text s)" if "sa_exact (analyzeSequence (received (dm_text s)) 1 (int tot))"
    "same_as_first ce_boot (received (dm_text s))" "same_as_first ce_pid (received (dm_text s))" "monotonic (received (dm_text s))"
  proof -
    have "map ce_seq (received (dm_text s)) = [1..int tot]" using that(1) by (simp add: exact_upto)
    moreover have "received (dm_text s) \<noteq> []" using that(2) by (simp add: same_as_first_iff)
    ultimately have "1 \<le> int tot" by (metis list.map_disc_iff upto_Nil2 not_less)
    with that show ?thesis by (auto simp: in_sequence_def exact_upto same_as_first_iff monotonic_iff)
  qed
  then show ?thesis by (auto simp: report_ok_def validateContinuity_def Let_def fst)
qed

lemma acts_sdk:
  "acts aside (\<lambda>_. True) (sandboxes_create cx body mo)" "acts aside (\<lambda>_. True) (files_write cx i path content mode mo)"
  "acts aside (\<lambda>_. True) (ports_expose cx i body mo)" "acts aside (\<lambda>_. True) (migration_get cx m signal)"
  "acts aside (\<lambda>_. True) (call_int c)" "acts aside (\<lambda>_. True) (call_unit c)"
  by (simp_all add: acts_quiet_any sandboxes_create_def files_write_def ports_expose_def quiet_sendRequest quiet_migration_get)

lemma acts_migrate: "acts aside (\<lambda>_. True) (sandbox_migrate cx i body mo)"
  unfolding sandbox_migrate_def
  by (rule acts_bind [OF acts_quiet_any [OF quiet_sendRequest]]) (auto split: option.split)

lemma acts_await_server: "acts aside (\<lambda>_. True) probe \<Longrightarrow> acts aside (\<lambda>_. True) (await_server n probe deadline)"
  by (induction n) (auto intro!: acts_bind acts_rules acts_sdk)

lemma ensures_demo_body:
  assumes "\<And>key c. acts aside (\<lambda>_. True) (ask key c)"
  shows "dm.ensures (\<lambda>_. True) (demo_body fuel cx i q ask) (\<lambda>r. report_ok (int (orelse (do_total q) 50)) r) (\<lambda>_. True)"
proof -
  let ?tot = "orelse (do_total q) 50"
  have last: "dm.ensures (\<lambda>_. True) (Read (\<lambda>s. case co_errors (dm_collector s) of
        e # _ \<Rightarrow> Throw e
      | [] \<Rightarrow> bind (settle (status_value status)) (\<lambda>v.
          Return (validateContinuity
            \<lparr>vi_observations = co_observations (dm_collector s), vi_totalMs = ended - started, vi_pauseMs = pause_of v,
             vi_bytes = js_max (foldl (\<lambda>n p. js_max n (mp_bytes p)) (Num 0) (dm_progress s)) (bytes_of v),
             vi_reconnects = reconnectCount (dm_collector s), vi_start = Some 1, vi_end = Some (int ?tot),
             vi_accepted = Some (obj_get queued ''queued'' = Some (JBool True)),
             vi_replayed = Some (obj_get queued ''exitCode'' = Some (JNum (Num 0)))\<rparr>)))) (\<lambda>r. report_ok (int ?tot) r) (\<lambda>_. True)"
    for status ended started queued
    by (rule dm.ensures_Read, cases "status_value status")
      (auto intro!: dm.ensures_Return dm.ensures_Throw passed_in_sequence split: list.split)
  show ?thesis
    unfolding demo_body_def Let_def
    by (intro ensures_then acts_rules assms acts_progress acts_sdk acts_migrate acts_collector acts_collector_parts) (rule last)
qed

lemma ensures_runDemo:
  "dm.ensures (\<lambda>_. True) (runDemo fuel W url cx user program q sg) (\<lambda>r. report_ok (int (orelse (do_total q) 50)) r) (\<lambda>_. True)"
proof -
  have close: "acts aside (\<lambda>_. True) (seq (on_collector (modify collector_close)) (on_phoenix (modify px_close)))"
    by (intro acts_bind acts_collector acts_collector_parts acts_phoenix)
  have body: "dm.ensures (\<lambda>_. True) (try_finally (demo_body fuel cx i q (\<lambda>key c. on_phoenix (client_runCommand W url user i c (Some key) (Some sg) True)))
      (seq (on_collector (modify collector_close)) (on_phoenix (modify px_close)))) (\<lambda>r. report_ok (int (orelse (do_total q) 50)) r) (\<lambda>_. True)" for i
  proof (rule dm.ensures_finally)
    show "dm.ensures (\<lambda>_. True) (demo_body fuel cx i q (\<lambda>key c. on_phoenix (client_runCommand W url user i c (Some key) (Some sg) True)))
        (\<lambda>r. report_ok (int (orelse (do_total q) 50)) r) (\<lambda>_. True)"
      by (rule ensures_demo_body) (rule acts_phoenix)
    show "dm.ensures (\<lambda>_. True) (seq (on_collector (modify collector_close)) (on_phoenix (modify px_close))) (\<lambda>_ _. True) (\<lambda>_. True)"
      by (rule ensures_aside [OF close])
    show "dm.ensures (report_ok n r) (seq (on_collector (modify collector_close)) (on_phoenix (modify px_close))) (\<lambda>_. report_ok n r) (\<lambda>_. True)" for n r
    proof (rule dm.ensures_conseq)
      show "dm.ensures (report_ok n r) (seq (on_collector (modify collector_close)) (on_phoenix (modify px_close)))
          (\<lambda>_ s. True \<and> report_ok n r s) (\<lambda>s. True \<and> report_ok n r s)"
        by (rule dm.ensures_frame [OF ensures_aside [OF close] stable_report_ok]) simp
    qed simp_all
  qed
  show ?thesis
    unfolding runDemo_def Let_def
    by (intro ensures_then acts_rules acts_phoenix acts_sdk acts_collector acts_collector_parts acts_await_server) (rule body)
qed

lemma ensures_demo_thread: "dm.ensures (\<lambda>_. True) (demo_thread fuel W url cx user program q sg) (\<lambda>_ _. True) (\<lambda>_. True)"
  unfolding demo_thread_def
proof (rule dm.ensures_bind)
  let ?n = "int (orelse (do_total q) 50)"
  let ?Q = "\<lambda>r s. case r of Inl _ \<Rightarrow> True | Inr v \<Rightarrow> report_ok ?n v s"
  show "dm.ensures (\<lambda>_. True) (attempt (runDemo fuel W url cx user program q sg)) ?Q (\<lambda>_. True)"
    by (rule dm.ensures_attempt [OF ensures_runDemo]) simp_all
  show "dm.ensures (?Q r) (case r of Inl e \<Rightarrow> skip | Inr v \<Rightarrow> modify (\<lambda>s. s\<lparr>dm_reports := dm_reports s @ [(?n, v)]\<rparr>))
      (\<lambda>_ _. True) (\<lambda>_. True)" for r
  proof (cases r)
    case (Inr v)
    have "dm_inv (s\<lparr>dm_reports := dm_reports s @ [(?n, v)]\<rparr>) \<and> dm_later s (s\<lparr>dm_reports := dm_reports s @ [(?n, v)]\<rparr>)"
      if "dm_inv s" "report_ok ?n v s" for s
      using that by (auto simp: dm_inv_def dm_later_def report_ok_def)
    with Inr show ?thesis by (auto intro!: dm.ensures_modify)
  qed (simp add: dm.ensures_Return)
qed

text \<open>Data that arrives in pieces.\<close>

lemma received_append:
  "received (s @ t) = received s @ received (last (split_on (CHR 0x0A) s) @ t)
    \<and> last (split_on (CHR 0x0A) (s @ t)) = last (split_on (CHR 0x0A) (last (split_on (CHR 0x0A) s) @ t))"
proof -
  let ?now = "\<lambda>_ :: nat. 0 :: int"
  let ?c = "take_lines ?now (new_collector\<lparr>co_buffer := s\<rparr>)"
  have one: "map fst (co_observations ?c) = received s" "co_buffer ?c = last (split_on (CHR 0x0A) s)"
    using take_lines_received [of ?now "new_collector\<lparr>co_buffer := s\<rparr>"] by (simp_all add: new_collector_def)
  have "take_lines ?now (?c\<lparr>co_buffer := co_buffer ?c @ t\<rparr>) = take_lines ?now (new_collector\<lparr>co_buffer := s @ t\<rparr>)"
    using take_lines_append [of ?now "new_collector\<lparr>co_buffer := s\<rparr>" t] by simp
  with take_lines_received [of ?now "?c\<lparr>co_buffer := co_buffer ?c @ t\<rparr>"] take_lines_received [of ?now "new_collector\<lparr>co_buffer := s @ t\<rparr>"]
  show ?thesis using one by (simp add: new_collector_def)
qed

lemma on_data_ok:
  assumes "dm_inv s"
  shows "dm_inv (on_data now chunk s) \<and> dm_later s (on_data now chunk s)"
proof (cases "co_connected (dm_collector s) \<and> \<not> co_closed (dm_collector s)")
  case True
  let ?c = "consume now chunk (dm_collector s)"
  have c: "map fst (co_observations ?c) = received (dm_text s @ chunk)" "co_buffer ?c = last (split_on (CHR 0x0A) (dm_text s @ chunk))"
    using take_lines_received [of now "(dm_collector s)\<lparr>co_buffer := co_buffer (dm_collector s) @ chunk\<rparr>"]
      received_append [of "dm_text s" chunk] assms
    by (simp_all add: consume_def dm_inv_def)
  have l: "dm_later s (on_data now chunk s)" using True by (simp add: on_data_def dm_later_def)
  have "report_ok n r (on_data now chunk s)" if "(n, r) \<in> set (dm_reports s)" for n r
    using that assms report_ok_later [OF l] by (auto simp: dm_inv_def)
  with c l True show ?thesis by (auto simp: dm_inv_def on_data_def)
qed (use assms in \<open>auto simp: on_data_def dm_later_def\<close>)

lemma ensures_demo_event: "demo_event p \<Longrightarrow> dm.ensures (\<lambda>_. True) p (\<lambda>_ _. True) (\<lambda>_. True)"
proof (induction rule: demo_event.induct)
  case (data now chunk)
  show ?case by (rule dm.ensures_modify) (use on_data_ok in blast)
qed (auto intro!: ensures_demo_thread ensures_aside acts_collector acts_collector_parts acts_phoenix)

interpretation demos: rely_guarantee dm.JC dm.MC "Collect demo_event"
proof unfold_locales
  show "rg_prog dm.JC dm.MC p" if "p \<in> Collect demo_event" for p
    using that ensures_demo_event by (intro dm.ensures_rg_prog) simp
qed (auto simp: dm_later_def intro: prefix_order.trans)


section \<open>A demo that passes\<close>

text \<open>Thread 0 runs until it is blocked, its calls answered by an environment.\<close>

fun drive :: "nat \<Rightarrow> environment \<Rightarrow> ('s, 'a) system \<Rightarrow> ('s, 'a) system" where
  "drive 0 E x = x"
| "drive (Suc n) E ((s, l), ts) = (case ts of
       [] \<Rightarrow> ((s, l), ts)
     | t # _ \<Rightarrow> (case t of
         Waiting c k \<Rightarrow> drive n E (perform ((s, l), ts) (Answer 0 (E l c)))
       | Ready g p \<Rightarrow> if g s then drive n E (perform ((s, l), ts) (Turn 0)) else ((s, l), ts)
       | Finished r \<Rightarrow> ((s, l), ts)))"

lemma drive_reach: "sched_reach Progs x (drive n E x)"
proof (induction n E x rule: drive.induct)
  case (2 n E s l ts)
  have "sched_reach Progs ((s, l), ts) (perform ((s, l), ts) (Answer 0 r))" "sched_reach Progs ((s, l), ts) (perform ((s, l), ts) (Turn 0))" for r
    by (rule perform_reach, simp)+
  with 2 show ?case by (auto split: list.split thread.split intro: sched_trans sched_reach.here)
qed (simp add: sched_reach.here)

fun steps :: "environment \<Rightarrow> ('s, 'a) move list list \<Rightarrow> ('s, 'a) system \<Rightarrow> ('s, 'a) system" where
  "steps E [] x = x"
| "steps E (ms # mss) x = steps E mss (drive 30 E (foldl perform x ms))"

lemma steps_reach: "(\<And>p. Arrive p \<in> set (concat mss) \<Longrightarrow> p \<in> Progs) \<Longrightarrow> sched_reach Progs x (steps E mss x)"
proof (induction mss arbitrary: x)
  case (Cons ms mss)
  have "sched_reach Progs x (foldl perform x ms)" by (rule performs_reach) (simp add: Cons.prems)
  moreover have "sched_reach Progs (foldl perform x ms) (drive 30 E (foldl perform x ms))" by (rule drive_reach)
  moreover have "sched_reach Progs (drive 30 E (foldl perform x ms)) (steps E mss (drive 30 E (foldl perform x ms)))"
    by (rule Cons.IH) (simp add: Cons.prems)
  ultimately show ?case by (auto intro: sched_trans)
qed (simp add: sched_reach.here)

fun sample_answers :: environment where
  "sample_answers l (Fetch u m h b) = OkFetch \<lparr>fr_status = 200, fr_statusText = [], fr_contentType = None,
     fr_text = JsonText (JObj [(''id'', JStr ''s''), (''sandboxId'', JStr ''s''), (''migrationId'', JStr ''m''),
       (''phase'', JStr ''DONE''), (''bytesTransferred'', JNum (Num 0)), (''bytesTotal'', JNum (Num 0))]), fr_stream = None\<rparr>"
| "sample_answers l RandomUuid = OkText ''k''"
| "sample_answers l IsoNow = OkText []"
| "sample_answers l DateNow = OkInt 0"
| "sample_answers l c = Ok"

definition sample_frame :: "string \<Rightarrow> tree \<Rightarrow> tree \<Rightarrow> nat \<Rightarrow> (demo, unit) move list" where
  "sample_frame ev r p i = [Arrive (on_phoenix (handleMessage 0 (TextFrame (json_text (TArr [TNull, r, TStr ''sandbox:s:u'', TStr ev, p]))))), Turn i]"

definition sample_reply :: "string \<Rightarrow> (string \<times> tree) list \<Rightarrow> nat \<Rightarrow> (demo, unit) move list" where
  "sample_reply r v = sample_frame ''phx_reply'' (TStr r) (TObj [(''status'', TStr ''ok''), (''response'', TObj v)])"

definition sample_demo :: "(demo, unit) move list list" where
  "sample_demo =
     [[Arrive (demo_thread 5 calm_sockets (Inr ''ws://host'') sample_client ''u'' ''program''
        \<lparr>do_source = None, do_destination = None, do_cpu = None, do_memory = None, do_pre = Some 1, do_total = Some 1\<rparr> 0)],
      [Arrive (on_phoenix (modify (on_open 0)))],
      sample_reply ''1'' [] 2, sample_reply ''2'' [] 3, sample_reply ''3'' [(''exitCode'', TNum ''0'')] 4,
      [Arrive (on_collector (modify (on_link (Fulfilled ()))))],
      [Arrive (modify (on_data (\<lambda>_. 0) (sample_line ''1'')))],
      sample_reply ''4'' [(''queued'', TBool True)] 7,
      sample_frame ''command_result'' TNull (TObj [(''commandId'', TStr ''demo-redpanda-command-s''), (''status'', TStr ''done''),
        (''result'', TObj [(''exitCode'', TNum ''0'')])]) 8]"

lemma sample_demo_ok: "Arrive p \<in> set (concat sample_demo) \<Longrightarrow> demo_event p"
  by (auto simp: sample_demo_def sample_reply_def sample_frame_def intro: demo_event.intros transport.intros)

lemma sample_demo_reports:
  "map (\<lambda>(n, r). (n, vr_passed r)) (dm_reports (fst (fst (steps sample_answers sample_demo ((new_demo, []), []))))) = [(1, True)]"
  by code_simp


end
