(* ===== verification/Counter_Stream.thy ===== *)
theory Counter_Stream
  imports Demo
begin

text \<open>
  The stream of the demo, from end to end: the counter server that runs in the guest
  (\<open>demo/src/server-source.ts\<close>, a Python program), the sequence filter of the proxy
  (\<open>services/proxy\<close>, \<open>session/sequence_filter.ex\<close> with the session that feeds it) and the
  collector. Connections between server and proxy come and go while the sandbox moves. The
  JSON decoder of the proxy is a parameter.
\<close>

section \<open>Events as text\<close>

text \<open>
  \<open>json.dumps\<close> with these separators. It escapes what is not printable ASCII, which neither the
  boot identifier nor a time contains.
\<close>

definition event_tree :: "counter_event \<Rightarrow> tree" where
  "event_tree ev = TObj [(''seq'', TNum (int_text (ce_seq ev))), (''boot_id'', TStr (ce_boot ev)),
     (''pid'', TNum (int_text (ce_pid ev))), (''counter'', TNum (int_text (ce_counter ev))), (''time'', TStr (ce_time ev))]"

definition event_line :: "counter_event \<Rightarrow> string" where
  "event_line ev = json_text (event_tree ev) @ [CHR 0x0A]"

text \<open>The values the server writes.\<close>

definition event_ok :: "counter_event \<Rightarrow> bool" where
  "event_ok ev \<longleftrightarrow> 0 \<le> ce_seq ev \<and> ce_seq ev \<le> max_safe \<and> 0 \<le> ce_pid ev \<and> ce_pid ev \<le> max_safe
     \<and> 0 \<le> ce_counter ev \<and> ce_counter ev \<le> max_safe \<and> ce_boot ev \<noteq> []"

lemma nat_text_start: "\<exists>c r. nat_text n = c # r \<and> is_digit c \<and> (c = CHR ''0'' \<longrightarrow> r = [])"
proof (induction n rule: nat_text.induct)
  case (1 n)
  show ?case
  proof (cases "n < 10")
    case True
    then show ?thesis by (simp add: nat_text.simps [of n] is_digit_digit_char)
  next
    case False
    with 1 obtain c r where c: "nat_text (n div 10) = c # r" "is_digit c" "c = CHR ''0'' \<longrightarrow> r = []" by blast
    have "c \<noteq> CHR ''0''"
    proof
      assume "c = CHR ''0''"
      with c have "digits_nat (nat_text (n div 10)) = 0" by (simp add: digits_nat_def digit_val_def)
      with False show False by (simp add: digits_nat_text)
    qed
    with False c show ?thesis by (simp add: nat_text.simps [of n])
  qed
qed

lemma scan_nat: "scan_number (nat_text n) = Some (False, nat_text n, [], 0)"
proof -
  obtain c r where c: "nat_text n = c # r" "is_digit c" "c = CHR ''0'' \<longrightarrow> r = []" using nat_text_start by blast
  have digits: "takeWhile is_digit r = r" "dropWhile is_digit r = []"
    using nat_text_digits [of n] c(1) by (simp_all add: takeWhile_eq_all_conv list_all_iff)
  have "hd (nat_text n) \<noteq> CHR ''-''" using c not_digit_dash by auto
  then show ?thesis
    using c by (simp add: scan_number_def Let_def digits scan_fraction_def after_fraction_def scan_exponent_def)
qed

lemma number_of_nat:
  assumes "0 \<le> i" and "i \<le> max_safe"
  shows "num_ok (int_text i)" and "number_of (int_text i) = Num i"
proof -
  have chars: "int_text i = nat_text (nat i)" using assms by (simp add: int_text_def)
  show "num_ok (int_text i)" by (simp add: chars num_ok_def scan_nat)
  have "(2::int) ^ 970 * 2 ^ 53 < overflow" unfolding overflow_def by simp
  then have "i < overflow" using assms(2) by (simp add: max_safe_def overflow_def)
  then show "number_of (int_text i) = Num i"
    using assms(1) by (simp add: chars number_of_def scan_nat decimal_digits digits_nat_text)
qed

lemma event_tree_ok: "event_ok ev \<Longrightarrow> tree_ok (event_tree ev)"
  by (simp add: event_ok_def event_tree_def number_of_nat)

lemma event_text_parsed:
  assumes "event_ok ev"
  shows "parseCounterEvent (json_text (event_tree ev)) = Inr ev"
proof -
  have "json_read (json_text (event_tree ev)) = Some (json_of (event_tree ev))"
    using read_json_text [OF event_tree_ok [OF assms]] by (simp add: json_read_def)
  then show ?thesis
    using assms by (simp add: parseCounterEvent_def event_tree_def event_ok_def number_of_nat max_safe_def)
qed

lemma hex_digit_no_newline: "d < 16 \<Longrightarrow> hex_digit d \<noteq> CHR 0x0A"
proof
  assume "d < 16" and h: "hex_digit d = CHR 0x0A"
  then have "hex_value (CHR 0x0A) = Some d" using hex_value_digit by metis
  then show False by (simp add: hex_value_def is_digit_def)
qed

lemma escape_no_newline: "CHR 0x0A \<notin> set (escape_char c)"
proof (cases "c = CHR 0x0A")
  case True
  then show ?thesis by (simp add: escape_char_def short_escapes_def)
next
  case False
  have "(of_char c :: nat) < 32 \<Longrightarrow> hex_digit (of_char c div 16) \<noteq> CHR 0x0A \<and> hex_digit (of_char c mod 16) \<noteq> CHR 0x0A"
    by (simp add: hex_digit_no_newline)
  with False show ?thesis by (auto simp: escape_char_def short_escapes_def)
qed

lemma quoted_no_newline: "CHR 0x0A \<notin> set (quoted t)"
  using escape_no_newline by (auto simp: quoted_def)

lemma int_text_no_newline: "CHR 0x0A \<notin> set (int_text i)"
proof
  assume "CHR 0x0A \<in> set (int_text i)"
  then have "is_digit (CHR 0x0A) \<or> CHR 0x0A = CHR ''-''" by (rule int_text_chars)
  then show False by (simp add: is_digit_def)
qed

lemma event_text_parts:
  "CHR 0x0A \<notin> set (json_text (event_tree ev))" "trim (json_text (event_tree ev)) = json_text (event_tree ev)"
  "json_text (event_tree ev) \<noteq> []"
proof -
  show "CHR 0x0A \<notin> set (json_text (event_tree ev))"
    using quoted_no_newline int_text_no_newline by (simp add: event_tree_def)
  obtain u where "json_text (event_tree ev) = CHR ''{'' # u @ ''}''" by (simp add: event_tree_def)
  then show "trim (json_text (event_tree ev)) = json_text (event_tree ev)" "json_text (event_tree ev) \<noteq> []"
    by (simp_all add: trim_def is_space_def)
qed

section \<open>The server in the guest\<close>

text \<open>
  The variables the threads share. What a thread does under the lock, or between two accesses
  to them, is one step: the counting thread adds an event, a handler looks whether all is
  acknowledged, takes the next event and sends it, or reads a line and takes it for an
  acknowledgement or not. An empty line stands for the end of the connection.
\<close>

record counter_server =
  sv_counter :: nat
  sv_events :: "counter_event list"
  sv_acked :: nat

definition COUNTER_TARGET :: nat where
  "COUNTER_TARGET = 50"

definition new_server :: counter_server where
  "new_server = \<lparr>sv_counter = 0, sv_events = [], sv_acked = 0\<rparr>"

definition server_tick :: "string \<Rightarrow> nat \<Rightarrow> string \<Rightarrow> counter_server \<Rightarrow> counter_server" where
  "server_tick boot pid now s =
     (if sv_counter s < COUNTER_TARGET
      then let n = sv_counter s + 1 in
        s\<lparr>sv_counter := n, sv_events := sv_events s
          @ [\<lparr>ce_seq = int n, ce_boot = boot, ce_pid = int pid, ce_counter = int n, ce_time = now\<rparr>]\<rparr>
      else s)"

datatype handler_state = Checking | Choosing | Awaiting counter_event | Returned

definition handle_check :: "counter_server \<Rightarrow> handler_state" where
  "handle_check s = (if sv_acked s < COUNTER_TARGET then Choosing else Returned)"

definition handle_choose :: "counter_server \<Rightarrow> counter_event option" where
  "handle_choose s = (if sv_acked s < length (sv_events s) then Some (sv_events s ! sv_acked s) else None)"

definition handle_line :: "counter_event \<Rightarrow> string \<Rightarrow> counter_server \<Rightarrow> handler_state \<times> counter_server" where
  "handle_line ev line s =
     (if trim line \<noteq> ''ACK '' @ int_text (ce_seq ev) then (Returned, s)
      else (Checking, if ce_seq ev = int (sv_acked s) + 1 then s\<lparr>sv_acked := nat (ce_seq ev)\<rparr> else s))"

section \<open>The filter of the proxy\<close>

record seq_filter =
  fl_buffer :: string
  fl_last :: int

text \<open>What the decoder finds in a line: the integer that is the member \<open>seq\<close> of an object, if any.\<close>

type_synonym decoder = "string \<Rightarrow> int option"

fun filter_line :: "decoder \<Rightarrow> string \<Rightarrow> string list \<times> int list \<times> int \<Rightarrow> string list \<times> int list \<times> int" where
  "filter_line decode line (out, acks, latest) =
     (if line = [] then (out, acks, latest)
      else case decode line of
          Some n \<Rightarrow> if n \<le> latest then (out, acks @ [n], latest) else (out @ [line @ [CHR 0x0A]], acks @ [n], n)
        | None \<Rightarrow> (out @ [line @ [CHR 0x0A]], acks, latest))"

definition feed :: "decoder \<Rightarrow> string \<Rightarrow> seq_filter \<Rightarrow> string list \<times> int list \<times> seq_filter" where
  "feed decode chunk s =
     (let parts = split_on (CHR 0x0A) (fl_buffer s @ chunk);
          (out, acks, latest) = fold (filter_line decode) (butlast parts) ([], [], fl_last s)
      in (out, acks, \<lparr>fl_buffer = last parts, fl_last = latest\<rparr>))"

definition ack_line :: "int \<Rightarrow> string" where
  "ack_line n = ''ACK '' @ int_text n @ [CHR 0x0A]"

section \<open>The stream\<close>

text \<open>
  The handlers with the lines on their way to them, the one the proxy is connected to and what it
  has sent, the filter of the session and what the session has sent to its client.
\<close>

record handler =
  hd_state :: handler_state
  hd_in :: string
  hd_open :: bool

record stream =
  st_server :: counter_server
  st_handlers :: "handler list"
  st_current :: "nat option"
  st_wire :: string
  st_filter :: seq_filter
  st_client :: string

definition new_stream :: stream where
  "new_stream = \<lparr>st_server = new_server, st_handlers = [], st_current = None, st_wire = [],
     st_filter = \<lparr>fl_buffer = [], fl_last = 0\<rparr>, st_client = []\<rparr>"

definition set_handler :: "nat \<Rightarrow> (handler \<Rightarrow> handler) \<Rightarrow> stream \<Rightarrow> stream" where
  "set_handler n f x = x\<lparr>st_handlers := (st_handlers x)[n := f (st_handlers x ! n)]\<rparr>"

text \<open>
  A connection delivers what was sent in pieces of any length and may end at any moment, losing
  what was on its way in either direction. \<open>tidy\<close> says that it ends between two lines: no part
  of a line is left in the filter.
\<close>

inductive stream_step :: "bool \<Rightarrow> decoder \<Rightarrow> string \<Rightarrow> nat \<Rightarrow> stream \<Rightarrow> stream \<Rightarrow> bool" for tidy decode boot pid where
  ticks: "stream_step tidy decode boot pid x (x\<lparr>st_server := server_tick boot pid now (st_server x)\<rparr>)"
| connects: "st_current x = None \<Longrightarrow>
     stream_step tidy decode boot pid x
       (x\<lparr>st_handlers := st_handlers x @ [\<lparr>hd_state = Checking, hd_in = [], hd_open = True\<rparr>],
          st_current := Some (length (st_handlers x)), st_wire := []\<rparr>)"
| checks: "n < length (st_handlers x) \<Longrightarrow> hd_state (st_handlers x ! n) = Checking \<Longrightarrow>
     stream_step tidy decode boot pid x (set_handler n (hd_state_update (\<lambda>_. handle_check (st_server x))) x)"
| sends: "n < length (st_handlers x) \<Longrightarrow> hd_state (st_handlers x ! n) = Choosing \<Longrightarrow> handle_choose (st_server x) = Some ev \<Longrightarrow>
     stream_step tidy decode boot pid x ((set_handler n (hd_state_update (\<lambda>_. Awaiting ev)) x)
       \<lparr>st_wire := st_wire x @ (if st_current x = Some n then event_line ev else [])\<rparr>)"
| reads: "n < length (st_handlers x) \<Longrightarrow> hd_state (st_handlers x ! n) = Awaiting ev \<Longrightarrow>
     hd_in (st_handlers x ! n) = line @ CHR 0x0A # rest \<Longrightarrow> CHR 0x0A \<notin> set line \<Longrightarrow>
     handle_line ev line (st_server x) = (h, s) \<Longrightarrow>
     stream_step tidy decode boot pid x
       ((set_handler n (\<lambda>d. d\<lparr>hd_state := h, hd_in := rest\<rparr>) x)\<lparr>st_server := s\<rparr>)"
| ends: "n < length (st_handlers x) \<Longrightarrow> hd_state (st_handlers x ! n) = Awaiting ev \<Longrightarrow> \<not> hd_open (st_handlers x ! n) \<Longrightarrow>
     hd_in (st_handlers x ! n) = line \<Longrightarrow> CHR 0x0A \<notin> set line \<Longrightarrow> handle_line ev line (st_server x) = (h, s) \<Longrightarrow>
     stream_step tidy decode boot pid x
       ((set_handler n (\<lambda>d. d\<lparr>hd_state := h, hd_in := []\<rparr>) x)\<lparr>st_server := s\<rparr>)"
| fails: "n < length (st_handlers x) \<Longrightarrow> \<not> hd_open (st_handlers x ! n) \<Longrightarrow>
     stream_step tidy decode boot pid x (set_handler n (hd_state_update (\<lambda>_. Returned)) x)"
| delivers: "st_current x = Some n \<Longrightarrow> st_wire x = chunk @ rest \<Longrightarrow> feed decode chunk (st_filter x) = (out, acks, fl) \<Longrightarrow>
     stream_step tidy decode boot pid x ((set_handler n (hd_in_update (\<lambda>t. t @ concat (map ack_line acks))) x)
       \<lparr>st_wire := rest, st_filter := fl, st_client := st_client x @ concat out\<rparr>)"
| drops: "st_current x = Some n \<Longrightarrow> hd_in (st_handlers x ! n) = came @ lost \<Longrightarrow> (tidy \<Longrightarrow> fl_buffer (st_filter x) = []) \<Longrightarrow>
     stream_step tidy decode boot pid x ((set_handler n (\<lambda>d. d\<lparr>hd_in := came, hd_open := False\<rparr>) x)
       \<lparr>st_current := None, st_wire := []\<rparr>)"

section \<open>Lines and acknowledgements\<close>

abbreviation newline :: char where
  "newline \<equiv> CHR 0x0A"

lemma split_bodies:
  "\<forall>b \<in> set bs. newline \<notin> set b \<Longrightarrow> newline \<notin> set p \<Longrightarrow>
     split_on newline (concat (map (\<lambda>b. b @ [newline]) bs) @ p) = bs @ [p]"
  by (induction bs) (simp_all add: split_on_atom split_on_append)

text \<open>Where a text of lines is cut: between whole lines, after a part of one.\<close>

lemma cut_lines:
  assumes "concat (map (\<lambda>b. b @ [newline]) bs) = xs @ ys" and "\<forall>b \<in> set bs. newline \<notin> set b"
  obtains bs' bs'' p where "bs = bs' @ bs''" "xs = concat (map (\<lambda>b. b @ [newline]) bs') @ p"
    "p @ ys = concat (map (\<lambda>b. b @ [newline]) bs'')" "newline \<notin> set p"
  using assms
proof (induction bs arbitrary: xs thesis)
  case Nil
  then show ?case by (intro Nil.prems(1) [of "[]" "[]" "[]"]) simp_all
next
  case (Cons b bs)
  consider zs where "xs = b @ newline # zs" "concat (map (\<lambda>b. b @ [newline]) bs) = zs @ ys"
    | zs where "b = xs @ zs"
    using Cons.prems(2) by (auto simp: append_eq_append_conv2 append_eq_Cons_conv Cons_eq_append_conv)
  then show ?case
  proof cases
    case 1
    obtain bs' bs'' p where "bs = bs' @ bs''" "zs = concat (map (\<lambda>b. b @ [newline]) bs') @ p"
        "p @ ys = concat (map (\<lambda>b. b @ [newline]) bs'')" "newline \<notin> set p"
      using Cons.IH [OF _ 1(2)] Cons.prems(3) by auto
    with 1 show ?thesis by (intro Cons.prems(1) [of "b # bs'" bs'' p]) simp_all
  next
    case 2
    with Cons.prems(2,3) show ?thesis by (intro Cons.prems(1) [of "[]" "b # bs" xs]) auto
  qed
qed

lemma digits_prefix: "digits_nat u \<le> digits_nat (u @ v)"
proof (induction v rule: rev_induct)
  case (snoc c v)
  have "digits_nat (u @ v) \<le> digits_nat ((u @ v) @ [c])" by (simp only: digits_nat_snoc)
  with snoc show ?case by simp
qed simp

lemma trim_shorter: "length (trim s) \<le> length s"
  unfolding trim_def length_rev by (rule order_trans [OF length_dropWhile_le]) (simp add: length_dropWhile_le)

text \<open>A line that is taken for the acknowledgement of \<open>s\<close>, cut off an acknowledgement of \<open>m\<close>.\<close>

lemma ack_prefix:
  assumes "prefix line (''ACK '' @ int_text m)" and "trim line = ''ACK '' @ int_text s" and "0 \<le> s" and "0 \<le> m"
  shows "s \<le> m"
proof -
  have nums: "int_text s = nat_text (nat s)" "int_text m = nat_text (nat m)" using assms(3,4) by (simp_all add: int_text_def)
  have "length (''ACK '' @ int_text s) \<le> length line" using trim_shorter [of line] assms(2) by simp
  then have "4 < length line" using nat_text_nonempty [of "nat s"] by (simp add: nums) (cases "nat_text (nat s)"; simp)
  have "\<not> prefix line ''ACK ''" using \<open>4 < length line\<close> by (auto dest: prefix_length_le)
  with assms(1) obtain ds where ds: "line = ''ACK '' @ ds" "prefix ds (int_text m)"
    unfolding prefix_append by blast
  with \<open>4 < length line\<close> have "ds \<noteq> []" by auto
  then obtain us d where d: "ds = us @ [d]" "is_digit d"
    using ds(2) nat_text_digits [of "nat m"] by (cases ds rule: rev_cases) (auto simp: nums prefix_def list_all_iff)
  then have "\<not> is_space d" by (auto simp: is_space_def is_digit_def)
  with d have "trim line = line" by (simp add: ds(1) trim_def is_space_def)
  with assms(2) ds have "prefix (nat_text (nat s)) (nat_text (nat m))" by (simp add: nums)
  then obtain v where "nat_text (nat m) = nat_text (nat s) @ v" by (auto simp: prefix_def)
  with digits_prefix [of "nat_text (nat s)" v] have "nat s \<le> nat m" by (metis digits_nat_text)
  with assms(3,4) show ?thesis by linarith
qed

section \<open>The invariant\<close>

definition server_ok :: "string \<Rightarrow> nat \<Rightarrow> counter_server \<Rightarrow> bool" where
  "server_ok boot pid s \<longleftrightarrow> sv_counter s = length (sv_events s) \<and> length (sv_events s) \<le> COUNTER_TARGET
     \<and> (\<forall>j < length (sv_events s). ce_seq (sv_events s ! j) = int j + 1 \<and> ce_counter (sv_events s ! j) = int j + 1
          \<and> ce_boot (sv_events s ! j) = boot \<and> ce_pid (sv_events s ! j) = int pid)"

text \<open>The events with these indices as they stand on the wire.\<close>

definition lines_at :: "counter_event list \<Rightarrow> nat list \<Rightarrow> string" where
  "lines_at es js = concat (map (\<lambda>j. event_line (es ! j)) js)"

text \<open>A line on the wire is that of an event whose predecessors were all acknowledged.\<close>

definition wire_ok :: "counter_server \<Rightarrow> string \<Rightarrow> bool" where
  "wire_ok s t \<longleftrightarrow> (\<exists>js. t = lines_at (sv_events s) js \<and> (\<forall>j \<in> set js. j < length (sv_events s) \<and> j \<le> sv_acked s))"

text \<open>
  On their way to a handler are acknowledgements of events that were passed on; the last of
  them is cut when the connection has ended.
\<close>

definition acks_ok :: "bool \<Rightarrow> int \<Rightarrow> string \<Rightarrow> bool" where
  "acks_ok whole latest t \<longleftrightarrow> (\<exists>ms. (if whole then t = concat (map ack_line ms) else prefix t (concat (map ack_line ms)))
     \<and> (\<forall>m \<in> set ms. 0 \<le> m \<and> m \<le> latest))"

definition handler_ok :: "counter_server \<Rightarrow> int \<Rightarrow> handler \<Rightarrow> bool" where
  "handler_ok s latest d \<longleftrightarrow> acks_ok (hd_open d) latest (hd_in d)
     \<and> (\<forall>ev. hd_state d = Awaiting ev \<longrightarrow> (\<exists>j < length (sv_events s). j \<le> sv_acked s \<and> ev = sv_events s ! j))"

definition stream_ok :: "string \<Rightarrow> nat \<Rightarrow> stream \<Rightarrow> bool" where
  "stream_ok boot pid x \<longleftrightarrow> (\<exists>k. fl_last (st_filter x) = int k \<and> sv_acked (st_server x) \<le> k \<and> k \<le> length (sv_events (st_server x))
       \<and> st_client x = concat (map event_line (take k (sv_events (st_server x)))))
     \<and> server_ok boot pid (st_server x)
     \<and> wire_ok (st_server x) (fl_buffer (st_filter x) @ st_wire x)
     \<and> (st_current x = None \<longrightarrow> fl_buffer (st_filter x) = [] \<and> st_wire x = [])
     \<and> (\<forall>n. st_current x = Some n \<longrightarrow> n < length (st_handlers x) \<and> hd_open (st_handlers x ! n))
     \<and> (\<forall>d \<in> set (st_handlers x). handler_ok (st_server x) (fl_last (st_filter x)) d)"

lemma stream_ok_new: "stream_ok boot pid new_stream"
  by (simp add: stream_ok_def new_stream_def new_server_def server_ok_def wire_ok_def lines_at_def)

text \<open>Events and acknowledgements only grow.\<close>

definition extends :: "counter_server \<Rightarrow> counter_server \<Rightarrow> bool" where
  "extends s s' \<longleftrightarrow> sv_acked s \<le> sv_acked s' \<and> (\<exists>es. sv_events s' = sv_events s @ es)"

lemma wire_ok_extends: "extends s s' \<Longrightarrow> wire_ok s t \<Longrightarrow> wire_ok s' t"
proof -
  assume ext: "extends s s'" and "wire_ok s t"
  then obtain js es where js: "t = lines_at (sv_events s) js" "\<forall>j \<in> set js. j < length (sv_events s) \<and> j \<le> sv_acked s"
    and es: "sv_events s' = sv_events s @ es" "sv_acked s \<le> sv_acked s'"
    by (auto simp: wire_ok_def extends_def)
  then have "t = lines_at (sv_events s') js" by (auto simp: lines_at_def nth_append intro!: arg_cong [where f = concat])
  with js(2) es show ?thesis unfolding wire_ok_def by fastforce
qed

lemma acks_ok_mono: "acks_ok w m t \<Longrightarrow> m \<le> n \<Longrightarrow> acks_ok w n t"
  unfolding acks_ok_def by fastforce

lemma handler_ok_extends: "extends s s' \<Longrightarrow> m \<le> n \<Longrightarrow> handler_ok s m d \<Longrightarrow> handler_ok s' n d"
  unfolding handler_ok_def extends_def
  by (auto intro: acks_ok_mono) (metis length_append nth_append order_trans trans_less_add1)

lemma wire_ok_parts:
  "wire_ok s []" "wire_ok s t \<Longrightarrow> j < length (sv_events s) \<Longrightarrow> j \<le> sv_acked s \<Longrightarrow> wire_ok s (t @ event_line (sv_events s ! j))"
proof -
  show "wire_ok s []" unfolding wire_ok_def by (rule exI [of _ "[]"]) (simp add: lines_at_def)
  assume "wire_ok s t" and j: "j < length (sv_events s)" "j \<le> sv_acked s"
  then obtain js where "t = lines_at (sv_events s) js" "\<forall>j \<in> set js. j < length (sv_events s) \<and> j \<le> sv_acked s"
    by (auto simp: wire_ok_def)
  with j show "wire_ok s (t @ event_line (sv_events s ! j))"
    unfolding wire_ok_def by (intro exI [of _ "js @ [j]"]) (simp add: lines_at_def)
qed

lemma acks_ok_parts:
  "acks_ok w m []" "acks_ok w m (t @ u) \<Longrightarrow> acks_ok False m t"
  "acks_ok True m t \<Longrightarrow> \<forall>n \<in> set ns. 0 \<le> n \<and> n \<le> m \<Longrightarrow> acks_ok True m (t @ concat (map ack_line ns))"
proof -
  show "acks_ok w m []" unfolding acks_ok_def by (rule exI [of _ "[]"]) simp
  show "acks_ok w m (t @ u) \<Longrightarrow> acks_ok False m t"
    unfolding acks_ok_def by (auto split: if_splits dest: append_prefixD) (metis prefixI)
  assume "acks_ok True m t" and ns: "\<forall>n \<in> set ns. 0 \<le> n \<and> n \<le> m"
  then obtain ms where "t = concat (map ack_line ms)" "\<forall>m' \<in> set ms. 0 \<le> m' \<and> m' \<le> m" by (auto simp: acks_ok_def)
  with ns show "acks_ok True m (t @ concat (map ack_line ns))" unfolding acks_ok_def by (intro exI [of _ "ms @ ns"]) auto
qed

lemma first_line: "xs @ c # ys = us @ c # vs \<Longrightarrow> c \<notin> set xs \<Longrightarrow> c \<notin> set us \<Longrightarrow> xs = us \<and> ys = vs"
  by (induction xs arbitrary: us) (auto simp: Cons_eq_append_conv)

text \<open>What a handler reads is an acknowledgement, perhaps cut, and what follows it.\<close>

lemma ack_read:
  assumes "acks_ok w m (line @ newline # rest)" and "newline \<notin> set line"
  shows "acks_ok w m rest" and "\<exists>a. 0 \<le> a \<and> a \<le> m \<and> line = ''ACK '' @ int_text a"
proof -
  obtain ms where ms: "if w then line @ newline # rest = concat (map ack_line ms) else prefix (line @ newline # rest) (concat (map ack_line ms))"
      "\<forall>n \<in> set ms. 0 \<le> n \<and> n \<le> m" using assms(1) by (auto simp: acks_ok_def)
  then obtain a as where a: "ms = a # as" by (cases ms) (auto split: if_splits)
  have first: "newline \<notin> set (''ACK '' @ int_text a)" using int_text_no_newline by simp
  obtain v where v: "line @ newline # rest @ v = (''ACK '' @ int_text a) @ newline # concat (map ack_line as)" "w \<longrightarrow> v = []"
    using ms(1) by (auto simp: a ack_line_def prefix_def split: if_splits)
  from first_line [OF v(1) assms(2) first]
  have "line = ''ACK '' @ int_text a \<and> rest @ v = concat (map ack_line as)" .
  with v(2) ms(2) show "acks_ok w m rest" and "\<exists>a. 0 \<le> a \<and> a \<le> m \<and> line = ''ACK '' @ int_text a"
    by (auto simp: a acks_ok_def prefix_def intro!: exI [of _ as] exI [of _ a]) metis
qed

lemma ack_end:
  assumes "acks_ok w m line" and "newline \<notin> set line"
  shows "line = [] \<or> (\<exists>a. 0 \<le> a \<and> a \<le> m \<and> prefix line (''ACK '' @ int_text a))"
proof -
  obtain ms where ms: "prefix line (concat (map ack_line ms))" "\<forall>n \<in> set ms. 0 \<le> n \<and> n \<le> m"
    using assms(1) by (auto simp: acks_ok_def split: if_splits)
  show ?thesis
  proof (cases ms)
    case Nil
    with ms show ?thesis by simp
  next
    case (Cons a as)
    let ?first = "''ACK '' @ int_text a"
    from ms(1) have "prefix line (?first @ newline # concat (map ack_line as))" by (simp add: Cons ack_line_def)
    then have "prefix line ?first"
      using assms(2) unfolding prefix_append by (auto simp: prefix_Cons)
    with ms(2) Cons show ?thesis by auto
  qed
qed

text \<open>A line taken for an acknowledgement only counts what was passed on.\<close>

lemma handle_line_ok:
  assumes "handle_line ev line s = (h, s')" and "line = [] \<or> (\<exists>a. 0 \<le> a \<and> a \<le> int k \<and> prefix line (''ACK '' @ int_text a))"
    and "0 \<le> ce_seq ev" and "sv_acked s \<le> k"
  shows "extends s s'" and "sv_acked s' \<le> k" and "sv_events s' = sv_events s" and "sv_counter s' = sv_counter s"
    and "\<forall>ev'. h \<noteq> Awaiting ev'"
proof -
  have "ce_seq ev \<le> int k" if "trim line = ''ACK '' @ int_text (ce_seq ev)"
  proof -
    have "line \<noteq> []" using that by (auto simp: trim_def)
    with assms(2) obtain a where "a \<le> int k" "prefix line (''ACK '' @ int_text a)" "0 \<le> a" by blast
    with ack_prefix [OF this(2) that assms(3)] show ?thesis by simp
  qed
  then show "extends s s'" "sv_acked s' \<le> k" "sv_events s' = sv_events s" "sv_counter s' = sv_counter s" "\<forall>ev'. h \<noteq> Awaiting ev'"
    using assms(1,4) by (auto simp: handle_line_def extends_def split: if_splits)
qed

section \<open>The filter passes each event on once\<close>

text \<open>What is relied on of the decoder: it reads the number of an event the server wrote.\<close>

definition reads_events :: "decoder \<Rightarrow> bool" where
  "reads_events decode \<longleftrightarrow> (\<forall>ev. event_ok ev \<longrightarrow> decode (json_text (event_tree ev)) = Some (ce_seq ev))"

lemma filter_events:
  assumes "reads_events decode" and "\<forall>j < length es. event_ok (es ! j) \<and> ce_seq (es ! j) = int j + 1"
    and "\<forall>j \<in> set js. j < length es \<and> j \<le> a" and "a \<le> k" and "k \<le> length es"
  shows "\<exists>out' acks' k'. fold (filter_line decode) (map (\<lambda>j. json_text (event_tree (es ! j))) js) (out, acks, int k)
        = (out @ out', acks @ acks', int k')
    \<and> k \<le> k' \<and> k' \<le> length es \<and> (\<forall>m \<in> set acks'. 0 \<le> m \<and> m \<le> int k')
    \<and> concat (map event_line (take k es)) @ concat out' = concat (map event_line (take k' es))"
  using assms(3-5)
proof (induction js arbitrary: out acks k)
  case Nil
  then show ?case by (intro exI [of _ "[]"] exI [of _ k]) simp
next
  case (Cons j js)
  let ?text = "json_text (event_tree (es ! j))"
  have j: "j < length es" "j \<le> k" "decode ?text = Some (int j + 1)" "?text \<noteq> []"
    using Cons.prems assms(1,2) event_text_parts(3) by (auto simp: reads_events_def)
  show ?case
  proof (cases "j < k")
    case True
    then have "filter_line decode ?text (out, acks, int k) = (out, acks @ [int j + 1], int k)" using j by simp
    moreover obtain out' acks' k' where "fold (filter_line decode) (map (\<lambda>j. json_text (event_tree (es ! j))) js) (out, acks @ [int j + 1], int k)
        = (out @ out', (acks @ [int j + 1]) @ acks', int k')" "k \<le> k'" "k' \<le> length es" "\<forall>m \<in> set acks'. 0 \<le> m \<and> m \<le> int k'"
        "concat (map event_line (take k es)) @ concat out' = concat (map event_line (take k' es))"
      using Cons.IH [of k out "acks @ [int j + 1]"] Cons.prems by auto
    ultimately show ?thesis using True by (intro exI [of _ out'] exI [of _ "(int j + 1) # acks'"] exI [of _ k']) auto
  next
    case False
    with j have jk: "j = k" by simp
    then have "filter_line decode ?text (out, acks, int k) = (out @ [event_line (es ! k)], acks @ [int k + 1], int (k + 1))"
      using j by (simp add: event_line_def)
    moreover obtain out' acks' k' where "fold (filter_line decode) (map (\<lambda>j. json_text (event_tree (es ! j))) js)
          (out @ [event_line (es ! k)], acks @ [int k + 1], int (k + 1))
        = ((out @ [event_line (es ! k)]) @ out', (acks @ [int k + 1]) @ acks', int k')" "k + 1 \<le> k'" "k' \<le> length es"
        "\<forall>m \<in> set acks'. 0 \<le> m \<and> m \<le> int k'"
        "concat (map event_line (take (k + 1) es)) @ concat out' = concat (map event_line (take k' es))"
      using Cons.IH [of "k + 1" "out @ [event_line (es ! k)]" "acks @ [int k + 1]"] Cons.prems j jk by auto
    ultimately show ?thesis using j jk
      by (intro exI [of _ "event_line (es ! k) # out'"] exI [of _ "(int k + 1) # acks'"] exI [of _ k'])
        (auto simp: take_Suc_conv_app_nth add.commute)
  qed
qed

text \<open>A piece of the wire goes through the filter.\<close>

lemma feed_ok:
  assumes "reads_events decode" and "\<forall>j < length (sv_events s). event_ok (sv_events s ! j) \<and> ce_seq (sv_events s ! j) = int j + 1"
    and "wire_ok s (fl_buffer f @ chunk @ rest)" and "fl_last f = int k" and "sv_acked s \<le> k" and "k \<le> length (sv_events s)"
    and "feed decode chunk f = (out, acks, f')"
  shows "wire_ok s (fl_buffer f' @ rest)"
    and "\<exists>k'. fl_last f' = int k' \<and> k \<le> k' \<and> k' \<le> length (sv_events s) \<and> (\<forall>m \<in> set acks. 0 \<le> m \<and> m \<le> int k')
      \<and> concat (map event_line (take k (sv_events s))) @ concat out = concat (map event_line (take k' (sv_events s)))"
proof -
  let ?es = "sv_events s" and ?body = "\<lambda>j. json_text (event_tree (sv_events s ! j))"
  obtain js where js: "fl_buffer f @ chunk @ rest = lines_at ?es js" "\<forall>j \<in> set js. j < length ?es \<and> j \<le> sv_acked s"
    using assms(3) by (auto simp: wire_ok_def)
  have lines: "lines_at ?es is = concat (map (\<lambda>b. b @ [newline]) (map ?body is))" for "is"
    by (simp add: lines_at_def event_line_def comp_def)
  have clean: "\<forall>b \<in> set (map ?body is). newline \<notin> set b" for "is" using event_text_parts(1) by simp
  obtain bs' bs'' p where b: "map ?body js = bs' @ bs''" "fl_buffer f @ chunk = concat (map (\<lambda>b. b @ [newline]) bs') @ p"
      "p @ rest = concat (map (\<lambda>b. b @ [newline]) bs'')" "newline \<notin> set p"
    using cut_lines [of "map ?body js" "fl_buffer f @ chunk" rest] js(1) clean by (auto simp: lines)
  then obtain js1 js2 where j: "js = js1 @ js2" "bs' = map ?body js1" "bs'' = map ?body js2"
    by (auto simp: map_eq_append_conv)
  have "split_on newline (fl_buffer f @ chunk) = bs' @ [p]"
    unfolding b(2) by (rule split_bodies) (use b(4) clean j(2) in auto)
  then have fed: "feed decode chunk f = (case fold (filter_line decode) bs' ([], [], int k) of
      (out, acks, latest) \<Rightarrow> (out, acks, \<lparr>fl_buffer = p, fl_last = latest\<rparr>))"
    using assms(4) by (simp add: feed_def Let_def)
  obtain out' acks' k' where "fold (filter_line decode) bs' ([], [], int k) = ([] @ out', [] @ acks', int k')" "k \<le> k'"
      "k' \<le> length ?es" "\<forall>m \<in> set acks'. 0 \<le> m \<and> m \<le> int k'"
      "concat (map event_line (take k ?es)) @ concat out' = concat (map event_line (take k' ?es))"
    using filter_events [OF assms(1,2) _ assms(5,6), of js1 "[]" "[]"] js(2) j by auto
  with fed assms(7) show "\<exists>k'. fl_last f' = int k' \<and> k \<le> k' \<and> k' \<le> length ?es \<and> (\<forall>m \<in> set acks. 0 \<le> m \<and> m \<le> int k')
      \<and> concat (map event_line (take k ?es)) @ concat out = concat (map event_line (take k' ?es))" by auto
  have "fl_buffer f' = p" using fed assms(7) by (auto split: prod.splits)
  with b(3) j js(2) show "wire_ok s (fl_buffer f' @ rest)" by (auto simp: wire_ok_def lines)
qed

section \<open>Every step keeps the invariant\<close>

lemma server_events_ok:
  assumes "server_ok boot pid s" and "boot \<noteq> []" and "int pid \<le> max_safe"
  shows "\<forall>j < length (sv_events s). event_ok (sv_events s ! j) \<and> ce_seq (sv_events s ! j) = int j + 1"
  using assms by (auto simp: server_ok_def event_ok_def COUNTER_TARGET_def max_safe_def)

lemma stream_ok_server:
  assumes "stream_ok boot pid x" and "extends (st_server x) s" and "server_ok boot pid s"
    and "int (sv_acked s) \<le> fl_last (st_filter x)"
  shows "stream_ok boot pid (x\<lparr>st_server := s\<rparr>)"
proof -
  obtain k where k: "fl_last (st_filter x) = int k" "k \<le> length (sv_events (st_server x))"
    "st_client x = concat (map event_line (take k (sv_events (st_server x))))" using assms(1) by (auto simp: stream_ok_def)
  obtain es where es: "sv_events s = sv_events (st_server x) @ es" using assms(2) by (auto simp: extends_def)
  have "\<exists>k. fl_last (st_filter x) = int k \<and> sv_acked s \<le> k \<and> k \<le> length (sv_events s)
      \<and> st_client x = concat (map event_line (take k (sv_events s)))"
    using k es assms(4) by (intro exI [of _ k]) simp
  then show ?thesis
    using assms(1,3) wire_ok_extends [OF assms(2)] handler_ok_extends [OF assms(2) order_refl] by (simp add: stream_ok_def)
qed

lemma stream_ok_handler:
  assumes "stream_ok boot pid x" and "n < length (st_handlers x)"
    and "handler_ok (st_server x) (fl_last (st_filter x)) (f (st_handlers x ! n))"
    and "st_current x = Some n \<Longrightarrow> hd_open (f (st_handlers x ! n))"
  shows "stream_ok boot pid (set_handler n f x)"
  using assms by (auto simp: stream_ok_def set_handler_def nth_list_update dest!: set_update_subset_insert [THEN subsetD])

lemma set_handler_server: "(set_handler n f x)\<lparr>st_server := s\<rparr> = set_handler n f (x\<lparr>st_server := s\<rparr>)"
  by (cases x) (simp add: set_handler_def)

lemma handler_at: "stream_ok boot pid x \<Longrightarrow> n < length (st_handlers x) \<Longrightarrow>
    handler_ok (st_server x) (fl_last (st_filter x)) (st_handlers x ! n)"
  by (simp add: stream_ok_def)

lemma server_ok_tick:
  assumes "server_ok boot pid s"
  shows "extends s (server_tick boot pid now s)" and "server_ok boot pid (server_tick boot pid now s)"
    and "sv_acked (server_tick boot pid now s) = sv_acked s"
  using assms by (auto simp: server_tick_def extends_def server_ok_def Let_def nth_append less_Suc_eq)

lemma stream_step_ok:
  assumes "stream_step True decode boot pid x y" and ok: "stream_ok boot pid x"
    and "reads_events decode" and "boot \<noteq> []" and "int pid \<le> max_safe"
  shows "stream_ok boot pid y"
  using assms(1)
proof cases
  case (ticks now)
  have "server_ok boot pid (st_server x)" "int (sv_acked (st_server x)) \<le> fl_last (st_filter x)" using ok by (auto simp: stream_ok_def)
  from server_ok_tick [OF this(1)] this(2) show ?thesis unfolding ticks by (intro stream_ok_server [OF ok]) simp_all
next
  case connects
  then show ?thesis using ok acks_ok_parts(1) by (auto simp: stream_ok_def handler_ok_def nth_append)
next
  case (checks n)
  show ?thesis unfolding checks(1)
    by (rule stream_ok_handler [OF ok checks(2)]) (use handler_at [OF ok checks(2)] ok in \<open>auto simp: handler_ok_def handle_check_def stream_ok_def split: if_splits\<close>)
next
  case (sends n ev)
  then obtain j where j: "ev = sv_events (st_server x) ! j" "j = sv_acked (st_server x)" "j < length (sv_events (st_server x))"
    by (auto simp: handle_choose_def split: if_splits)
  have "stream_ok boot pid (set_handler n (hd_state_update (\<lambda>_. Awaiting ev)) x)"
    by (rule stream_ok_handler [OF ok sends(2)]) (use handler_at [OF ok sends(2)] ok j in \<open>auto simp: handler_ok_def stream_ok_def\<close>)
  moreover have "wire_ok (st_server x) (fl_buffer (st_filter x) @ st_wire x @ event_line ev)"
    using wire_ok_parts(2) [of "st_server x" "fl_buffer (st_filter x) @ st_wire x" j] ok j by (simp add: stream_ok_def)
  ultimately show ?thesis unfolding sends(1) by (auto simp: stream_ok_def set_handler_def)
next
  case (reads n ev line rest h s)
  obtain k where k: "fl_last (st_filter x) = int k" "sv_acked (st_server x) \<le> k" using ok by (auto simp: stream_ok_def)
  have server: "server_ok boot pid (st_server x)" using ok by (simp add: stream_ok_def)
  note d = handler_at [OF ok reads(2), unfolded handler_ok_def]
  then obtain a where a: "0 \<le> a" "a \<le> int k" "line = ''ACK '' @ int_text a" "acks_ok (hd_open (st_handlers x ! n)) (int k) rest"
    using ack_read [of _ _ line rest] reads(4,5) k(1) by metis
  have "0 \<le> ce_seq ev" using d reads(3) server by (auto simp: server_ok_def)
  have "line = [] \<or> (\<exists>a. 0 \<le> a \<and> a \<le> int k \<and> prefix line (''ACK '' @ int_text a))" using a(1-3) by blast
  note line = handle_line_ok [OF reads(6) this \<open>0 \<le> ce_seq ev\<close> k(2)]
  have s: "extends (st_server x) s" "sv_acked s \<le> k" "server_ok boot pid s" "\<forall>ev'. h \<noteq> Awaiting ev'"
    using line server k by (auto simp: server_ok_def)
  have "stream_ok boot pid (x\<lparr>st_server := s\<rparr>)" by (rule stream_ok_server [OF ok s(1,3)]) (simp add: k s)
  then have "stream_ok boot pid (set_handler n (\<lambda>d. d\<lparr>hd_state := h, hd_in := rest\<rparr>) (x\<lparr>st_server := s\<rparr>))"
    by (rule stream_ok_handler) (use reads(2) a(4) s(4) k(1) ok in \<open>auto simp: handler_ok_def stream_ok_def\<close>)
  then show ?thesis unfolding reads(1) set_handler_server .
next
  case (ends n ev line h s)
  obtain k where k: "fl_last (st_filter x) = int k" "sv_acked (st_server x) \<le> k" using ok by (auto simp: stream_ok_def)
  have server: "server_ok boot pid (st_server x)" using ok by (simp add: stream_ok_def)
  note d = handler_at [OF ok ends(2), unfolded handler_ok_def]
  then have a: "line = [] \<or> (\<exists>a. 0 \<le> a \<and> a \<le> int k \<and> prefix line (''ACK '' @ int_text a))"
    using ack_end [of _ _ line] ends(5,6) k(1) by metis
  have "0 \<le> ce_seq ev" using d ends(3) server by (auto simp: server_ok_def)
  note line = handle_line_ok [OF ends(7) a this k(2)]
  have s: "extends (st_server x) s" "sv_acked s \<le> k" "server_ok boot pid s" "\<forall>ev'. h \<noteq> Awaiting ev'"
    using line server k by (auto simp: server_ok_def)
  have "stream_ok boot pid (x\<lparr>st_server := s\<rparr>)" by (rule stream_ok_server [OF ok s(1,3)]) (simp add: k s)
  then have "stream_ok boot pid (set_handler n (\<lambda>d. d\<lparr>hd_state := h, hd_in := []\<rparr>) (x\<lparr>st_server := s\<rparr>))"
    by (rule stream_ok_handler) (use ends(2) s(4) acks_ok_parts(1) ok in \<open>auto simp: handler_ok_def stream_ok_def\<close>)
  then show ?thesis unfolding ends(1) set_handler_server .
next
  case (fails n)
  show ?thesis unfolding fails(1)
    by (rule stream_ok_handler [OF ok fails(2)]) (use handler_at [OF ok fails(2)] ok in \<open>auto simp: handler_ok_def stream_ok_def\<close>)
next
  case (delivers n chunk rest out acks fl)
  let ?s = "st_server x"
  have n: "n < length (st_handlers x)" "hd_open (st_handlers x ! n)" using ok delivers(2) by (simp_all add: stream_ok_def)
  obtain k where k: "fl_last (st_filter x) = int k" "sv_acked ?s \<le> k" "k \<le> length (sv_events ?s)"
    "st_client x = concat (map event_line (take k (sv_events ?s)))" using ok by (auto simp: stream_ok_def)
  have server: "server_ok boot pid ?s" and wire: "wire_ok ?s (fl_buffer (st_filter x) @ chunk @ rest)"
    using ok delivers(3) by (simp_all add: stream_ok_def)
  note fed = feed_ok [OF assms(3) server_events_ok [OF server assms(4,5)] wire k(1-3) delivers(4)]
  then obtain k' where k': "fl_last fl = int k'" "k \<le> k'" "k' \<le> length (sv_events ?s)" "\<forall>m \<in> set acks. 0 \<le> m \<and> m \<le> int k'"
    "concat (map event_line (take k (sv_events ?s))) @ concat out = concat (map event_line (take k' (sv_events ?s)))" by blast
  have old: "handler_ok ?s (fl_last fl) d" if "d \<in> set (st_handlers x)" for d
    by (rule handler_ok_extends [of ?s ?s "int k"]) (use that ok k(1) k'(1,2) in \<open>auto simp: stream_ok_def extends_def\<close>)
  have "handler_ok ?s (fl_last fl) (hd_in_update (\<lambda>t. t @ concat (map ack_line acks)) (st_handlers x ! n))"
    using old [OF nth_mem [OF n(1)]] n(2) k'(1,4) acks_ok_parts(3) by (simp add: handler_ok_def)
  with old have "\<forall>d \<in> set ((st_handlers x)[n := hd_in_update (\<lambda>t. t @ concat (map ack_line acks)) (st_handlers x ! n)]).
      handler_ok ?s (fl_last fl) d" by (auto dest!: set_update_subset_insert [THEN subsetD])
  with fed(1) k k' server n delivers(2) show ?thesis
    unfolding delivers(1) by (auto simp: stream_ok_def set_handler_def intro!: exI [of _ k'])
next
  case (drops n came lost)
  have n: "n < length (st_handlers x)" using ok drops(2) by (simp add: stream_ok_def)
  have "handler_ok (st_server x) (fl_last (st_filter x)) ((st_handlers x ! n)\<lparr>hd_in := came, hd_open := False\<rparr>)"
    using handler_at [OF ok n] acks_ok_parts(2) [of _ _ came lost] drops(3) by (auto simp: handler_ok_def)
  with ok drops(4) show ?thesis
    unfolding drops(1) using wire_ok_parts(1)
    by (auto simp: stream_ok_def set_handler_def dest!: set_update_subset_insert [THEN subsetD])
qed

section \<open>Exactly once\<close>

lemma stream_steps_ok:
  assumes "(stream_step True decode boot pid)\<^sup>*\<^sup>* x y" and "stream_ok boot pid x"
    and "reads_events decode" and "boot \<noteq> []" and "int pid \<le> max_safe"
  shows "stream_ok boot pid y"
  using assms(1,2) by (induction rule: rtranclp_induct) (blast intro: stream_step_ok [OF _ _ assms(3-5)])+

lemma received_lines:
  assumes "\<forall>ev \<in> set es. event_ok ev"
  shows "received (concat (map event_line es)) = es"
proof -
  have "concat (map event_line es) = concat (map (\<lambda>b. b @ [newline]) (map (\<lambda>ev. json_text (event_tree ev)) es)) @ []"
    by (simp add: event_line_def [abs_def] comp_def)
  then have "split_on newline (concat (map event_line es)) = map (\<lambda>ev. json_text (event_tree ev)) es @ [[]]"
    using split_bodies [of "map (\<lambda>ev. json_text (event_tree ev)) es" "[]"] event_text_parts(1) by simp
  then show ?thesis
    using assms by (simp add: received_def comp_def event_text_parts(2) event_text_parsed cong: map_cong)
qed

lemma from_one: "map (\<lambda>j. int j + 1) [0..<k] = [1..int k]"
  by (induction k) (simp_all add: upto_rec2 add.commute)

text \<open>
  C7: the client of the demo receives every event exactly once. Whatever connections between
  the proxy and the server in the guest come and go, as long as they end between two lines,
  whatever is lost with them in either direction, and however slowly old handlers go on: the
  client has received the events 1 to \<open>k\<close> in order, each once, from one boot and one process,
  and nothing else; and the report on it passes exactly when all 50 have arrived.
\<close>

theorem exactly_once:
  assumes "(stream_step True decode boot pid)\<^sup>*\<^sup>* new_stream x"
    and "reads_events decode" and "boot \<noteq> []" and "int pid \<le> max_safe"
  shows "\<exists>k. received (st_client x) = take k (sv_events (st_server x)) \<and> k \<le> length (sv_events (st_server x))
    \<and> st_client x = concat (map event_line (received (st_client x)))
    \<and> map ce_seq (received (st_client x)) = [1..int k]
    \<and> (\<forall>ev \<in> set (received (st_client x)). ce_boot ev = boot \<and> ce_pid ev = int pid)
    \<and> (\<forall>c now chunks ms pause bytes. collector_connect new_collector = Inr c \<longrightarrow> concat chunks = st_client x \<longrightarrow>
        (vr_passed (validateContinuity
          \<lparr>vi_observations = co_observations (foldl (\<lambda>c chunk. consume now chunk c) c chunks), vi_totalMs = ms, vi_pauseMs = pause,
           vi_bytes = bytes, vi_reconnects = reconnectCount (foldl (\<lambda>c chunk. consume now chunk c) c chunks),
           vi_start = Some 1, vi_end = Some 50, vi_accepted = Some True, vi_replayed = Some True\<rparr>) \<longleftrightarrow> k = COUNTER_TARGET))"
proof -
  have ok: "stream_ok boot pid x" by (rule stream_steps_ok [OF assms(1) stream_ok_new assms(2-4)])
  then obtain k where k: "k \<le> length (sv_events (st_server x))" "st_client x = concat (map event_line (take k (sv_events (st_server x))))"
    and server: "server_ok boot pid (st_server x)" by (auto simp: stream_ok_def)
  let ?es = "take k (sv_events (st_server x))"
  have at: "\<forall>j < k. event_ok (?es ! j) \<and> ce_seq (?es ! j) = int j + 1 \<and> ce_counter (?es ! j) = int j + 1
      \<and> ce_boot (?es ! j) = boot \<and> ce_pid (?es ! j) = int pid"
    using server_events_ok [OF server assms(3,4)] server k(1) by (simp add: server_ok_def)
  have es: "received (st_client x) = ?es"
    unfolding k(2) by (rule received_lines) (use at k(1) in \<open>auto simp: in_set_conv_nth\<close>)
  have "map ce_seq ?es = map (\<lambda>j. int j + 1) [0..<k]" "map ce_counter ?es = map (\<lambda>j. int j + 1) [0..<k]"
    using at k(1) by (auto intro!: nth_equalityI)
  then have nums: "map ce_seq ?es = [1..int k]" "sorted (map ce_counter ?es)" by (simp_all add: from_one)
  have one: "\<forall>ev \<in> set ?es. ce_boot ev = boot \<and> ce_pid ev = int pid"
    using at k(1) by (auto simp: in_set_conv_nth)
  have "[1..int k] = [1..50] \<longleftrightarrow> k = COUNTER_TARGET"
    by (auto simp: COUNTER_TARGET_def dest: arg_cong [where f = length])
  then have report: "vr_passed (validateContinuity
          \<lparr>vi_observations = co_observations (foldl (\<lambda>c chunk. consume now chunk c) c chunks), vi_totalMs = ms, vi_pauseMs = pause,
           vi_bytes = bytes, vi_reconnects = reconnectCount (foldl (\<lambda>c chunk. consume now chunk c) c chunks),
           vi_start = Some 1, vi_end = Some 50, vi_accepted = Some True, vi_replayed = Some True\<rparr>) \<longleftrightarrow> k = COUNTER_TARGET"
    if "collector_connect new_collector = Inr c" "concat chunks = st_client x" for c now chunks ms pause bytes
    using report_iff [OF that(1), of now chunks ms pause bytes 1 50 True True] that(2) es nums one by auto
  show ?thesis
    using es k nums(1) one report by (intro exI [of _ k]) auto
qed

section \<open>The stream can always be completed\<close>

lemma line_not_empty: "lines_at es js = t \<Longrightarrow> newline \<notin> set t \<Longrightarrow> t = []"
  by (cases js) (auto simp: lines_at_def event_line_def)

text \<open>What is on the wire can be delivered, and the connection can end there.\<close>

lemma can_rest:
  assumes "stream_ok boot pid x" and "reads_events decode" and "boot \<noteq> []" and "int pid \<le> max_safe"
  shows "\<exists>y. (stream_step True decode boot pid)\<^sup>*\<^sup>* x y \<and> st_current y = None \<and> st_server y = st_server x"
proof (cases "st_current x")
  case (Some n)
  obtain out acks fl where fed: "feed decode (st_wire x) (st_filter x) = (out, acks, fl)" by (cases "feed decode (st_wire x) (st_filter x)")
  let ?y = "(set_handler n (hd_in_update (\<lambda>t. t @ concat (map ack_line acks))) x)
       \<lparr>st_wire := [], st_filter := fl, st_client := st_client x @ concat out\<rparr>"
  have step: "stream_step True decode boot pid x ?y" by (rule stream_step.delivers [OF Some _ fed]) simp
  then have "stream_ok boot pid ?y" by (rule stream_step_ok [OF _ assms])
  then obtain js where "fl_buffer fl = lines_at (sv_events (st_server x)) js" by (auto simp: stream_ok_def wire_ok_def set_handler_def)
  moreover have "newline \<notin> set (fl_buffer fl)"
    using fed split_on_no_sep [OF last_in_set [OF split_on_nonempty [of newline "fl_buffer (st_filter x) @ st_wire x"]]]
    by (auto simp: feed_def Let_def split: prod.splits)
  ultimately have "fl_buffer (st_filter ?y) = []" using line_not_empty [OF sym] by simp
  then have drop: "stream_step True decode boot pid ?y ((set_handler n (\<lambda>d. d\<lparr>hd_in := hd_in (st_handlers ?y ! n), hd_open := False\<rparr>) ?y)
       \<lparr>st_current := None, st_wire := []\<rparr>)" (is "stream_step _ _ _ _ _ ?z")
    by (intro stream_step.drops [where lost = "[]"]) (simp_all add: Some set_handler_def)
  have "(stream_step True decode boot pid)\<^sup>*\<^sup>* x ?z"
    using step drop by (meson r_into_rtranclp rtranclp.rtrancl_into_rtrancl)
  moreover have "st_current ?z = None" "st_server ?z = st_server x" by (simp_all add: set_handler_def)
  ultimately show ?thesis by blast
qed auto

text \<open>Over a new connection the next event is sent, passed on if need be, and acknowledged.\<close>

lemma ack_trimmed: "0 \<le> m \<Longrightarrow> trim (''ACK '' @ int_text m) = ''ACK '' @ int_text m"
proof -
  assume "0 \<le> m"
  then obtain us d where d: "int_text m = us @ [d]" "is_digit d"
    using nat_text_digits [of "nat m"] nat_text_nonempty [of "nat m"]
    by (cases "nat_text (nat m)" rule: rev_cases) (auto simp: int_text_def list_all_iff)
  then have "\<not> is_space d" by (auto simp: is_space_def is_digit_def)
  then show ?thesis by (simp add: d(1) trim_def is_space_def)
qed

lemma can_advance:
  assumes "stream_ok boot pid x" and "reads_events decode" and "boot \<noteq> []" and "int pid \<le> max_safe"
    and "st_current x = None" and "sv_acked (st_server x) < length (sv_events (st_server x))"
  shows "\<exists>y. (stream_step True decode boot pid)\<^sup>*\<^sup>* x y \<and> sv_acked (st_server y) = Suc (sv_acked (st_server x))"
proof -
  let ?s = "st_server x" and ?n = "length (st_handlers x)" and ?step = "stream_step True decode boot pid"
  let ?at = "\<lambda>h t. st_handlers x @ [\<lparr>hd_state = h, hd_in = t, hd_open = True\<rparr>]"
  define ev where "ev = sv_events ?s ! sv_acked ?s"
  have server: "server_ok boot pid ?s" and buffer: "fl_buffer (st_filter x) = []" using assms(1,5) by (simp_all add: stream_ok_def)
  have ev: "event_ok ev" "ce_seq ev = int (sv_acked ?s) + 1" "sv_acked ?s < COUNTER_TARGET"
    using server_events_ok [OF server assms(3,4)] server assms(6) by (simp_all add: ev_def server_ok_def)
  let ?x1 = "x\<lparr>st_handlers := ?at Checking [], st_current := Some ?n, st_wire := []\<rparr>"
  let ?x2 = "?x1\<lparr>st_handlers := ?at Choosing []\<rparr>"
  let ?x3 = "?x1\<lparr>st_handlers := ?at (Awaiting ev) [], st_wire := event_line ev\<rparr>"
  have "?step x ?x1" using assms(5) by (rule stream_step.connects)
  moreover have "?step ?x1 ?x2"
    using stream_step.checks [of ?n ?x1] ev(3) by (simp add: set_handler_def handle_check_def)
  moreover have "?step ?x2 ?x3"
    using stream_step.sends [of ?n ?x2 ev] assms(6) by (simp add: set_handler_def handle_choose_def ev_def)
  moreover obtain out fl where fed: "feed decode (event_line ev) (st_filter x) = (out, [ce_seq ev], fl)"
  proof -
    have "split_on newline (event_line ev) = [json_text (event_tree ev), []]"
      using split_bodies [of "[json_text (event_tree ev)]" "[]"] event_text_parts(1) by (simp add: event_line_def)
    moreover have "decode (json_text (event_tree ev)) = Some (ce_seq ev)" using assms(2) ev(1) by (simp add: reads_events_def)
    ultimately show thesis using that event_text_parts(3) [of ev]
      by (cases "ce_seq ev \<le> fl_last (st_filter x)") (simp_all add: feed_def buffer Let_def)
  qed
  let ?x4 = "?x1\<lparr>st_handlers := ?at (Awaiting ev) (ack_line (ce_seq ev)), st_filter := fl, st_client := st_client x @ concat out\<rparr>"
  have "?step ?x3 ?x4"
    using stream_step.delivers [of ?x3 ?n "event_line ev" "[]" decode out "[ce_seq ev]" fl] fed by (cases x) (simp add: set_handler_def)
  moreover have "?step ?x4 ((set_handler ?n (\<lambda>d. d\<lparr>hd_state := Checking, hd_in := []\<rparr>) ?x4)\<lparr>st_server := ?s\<lparr>sv_acked := Suc (sv_acked ?s)\<rparr>\<rparr>)"
    (is "stream_step _ _ _ _ _ ?y")
    by (rule stream_step.reads [where ev = ev and line = "''ACK '' @ int_text (ce_seq ev)"])
      (use int_text_no_newline ack_trimmed [of "ce_seq ev"] ev(2) in
        \<open>simp_all add: ack_line_def handle_line_def nat_add_distrib\<close>)
  ultimately have "?step\<^sup>*\<^sup>* x ?y" by (meson converse_rtranclp_into_rtranclp r_into_rtranclp)
  then show ?thesis by (intro exI [of _ ?y]) simp
qed

lemma can_finish:
  assumes "stream_ok boot pid x" and "reads_events decode" and "boot \<noteq> []" and "int pid \<le> max_safe"
  shows "\<exists>y. (stream_step True decode boot pid)\<^sup>*\<^sup>* x y \<and> sv_acked (st_server y) = COUNTER_TARGET"
  using assms(1)
proof (induction "COUNTER_TARGET - sv_acked (st_server x)" arbitrary: x)
  case 0
  then have "sv_acked (st_server x) = COUNTER_TARGET" by (auto simp: stream_ok_def server_ok_def)
  then show ?case by blast
next
  case (Suc m)
  let ?step = "stream_step True decode boot pid"
  obtain y where y: "?step\<^sup>*\<^sup>* x y" "st_current y = None" "st_server y = st_server x"
    using can_rest [OF Suc.prems assms(2-4)] by blast
  let ?z = "y\<lparr>st_server := server_tick boot pid [] (st_server y)\<rparr>"
  have z: "?step\<^sup>*\<^sup>* x ?z" "st_current ?z = None"
    by (rule rtranclp.rtrancl_into_rtrancl [OF y(1) stream_step.ticks]) (simp add: y(2))
  note ok = stream_steps_ok [OF z(1) Suc.prems assms(2-4)]
  have "sv_acked (st_server ?z) = sv_acked (st_server x)" "sv_acked (st_server ?z) < length (sv_events (st_server ?z))"
    using Suc.prems Suc.hyps(2) y(3) by (auto simp: server_tick_def stream_ok_def server_ok_def Let_def)
  with can_advance [OF ok assms(2-4) z(2)] obtain w where
    w: "?step\<^sup>*\<^sup>* ?z w" "sv_acked (st_server w) = Suc (sv_acked (st_server x))" by auto
  have "m = COUNTER_TARGET - sv_acked (st_server w)" using Suc.hyps(2) w(2) by simp
  from Suc.hyps(1) [OF this stream_steps_ok [OF w(1) ok assms(2-4)]] z(1) w(1) show ?case by (meson rtranclp_trans)
qed


section \<open>Closed instances\<close>

text \<open>A decoder that reads the whole line as JSON.\<close>

definition read_seq :: decoder where
  "read_seq line = (case read_tree line of
       Some (TObj kvs) \<Rightarrow> (case map_of kvs ''seq'' of
           Some (TNum t) \<Rightarrow> (case number_of t of Num n \<Rightarrow> Some n | NotInteger \<Rightarrow> None)
         | _ \<Rightarrow> None)
     | _ \<Rightarrow> None)"

lemma read_seq_ok: "reads_events read_seq"
  using read_json_text [OF event_tree_ok]
  by (simp add: reads_events_def read_seq_def event_tree_def event_ok_def number_of_nat)

definition first_event :: counter_event where
  "first_event = \<lparr>ce_seq = 1, ce_boot = ''b'', ce_pid = 7, ce_counter = 1, ce_time = ''t''\<rparr>"

text \<open>The first event is on its way over the connection \<open>n\<close>.\<close>

definition first_sent :: "nat \<Rightarrow> handler list \<Rightarrow> seq_filter \<Rightarrow> stream" where
  "first_sent n gone f = \<lparr>st_server = \<lparr>sv_counter = 1, sv_events = [first_event], sv_acked = 0\<rparr>,
     st_handlers = gone @ [\<lparr>hd_state = Awaiting first_event, hd_in = [], hd_open = True\<rparr>], st_current = Some n,
     st_wire = event_line first_event, st_filter = f, st_client = []\<rparr>"

lemma reach_first:
  assumes "st_server x = \<lparr>sv_counter = 1, sv_events = [first_event], sv_acked = 0\<rparr>" and "st_current x = None" and "st_client x = []"
  shows "(stream_step tidy decode boot pid)\<^sup>*\<^sup>* x (first_sent (length (st_handlers x)) (st_handlers x) (st_filter x))"
proof -
  let ?n = "length (st_handlers x)"
  let ?x1 = "x\<lparr>st_handlers := st_handlers x @ [\<lparr>hd_state = Checking, hd_in = [], hd_open = True\<rparr>], st_current := Some ?n, st_wire := []\<rparr>"
  let ?x2 = "?x1\<lparr>st_handlers := st_handlers x @ [\<lparr>hd_state = Choosing, hd_in = [], hd_open = True\<rparr>]\<rparr>"
  have "stream_step tidy decode boot pid x ?x1" using assms(2) by (rule stream_step.connects)
  moreover have "stream_step tidy decode boot pid ?x1 ?x2"
    using stream_step.checks [of ?n ?x1 tidy decode boot pid] assms(1) by (simp add: set_handler_def handle_check_def COUNTER_TARGET_def)
  moreover have "stream_step tidy decode boot pid ?x2 (first_sent ?n (st_handlers x) (st_filter x))"
    using stream_step.sends [of ?n ?x2 first_event tidy decode boot pid] assms
    by (cases x) (simp add: set_handler_def handle_choose_def first_sent_def)
  ultimately show ?thesis by (meson converse_rtranclp_into_rtranclp r_into_rtranclp)
qed

lemma first_reached: "(stream_step tidy decode ''b'' 7)\<^sup>*\<^sup>* new_stream (first_sent 0 [] \<lparr>fl_buffer = [], fl_last = 0\<rparr>)"
proof -
  let ?x = "new_stream\<lparr>st_server := \<lparr>sv_counter = 1, sv_events = [first_event], sv_acked = 0\<rparr>\<rparr>"
  have "stream_step tidy decode ''b'' 7 new_stream ?x"
    using stream_step.ticks [of tidy decode "''b''" 7 new_stream "''t''"]
    by (simp add: new_stream_def new_server_def server_tick_def COUNTER_TARGET_def first_event_def Let_def)
  moreover have "(stream_step tidy decode ''b'' 7)\<^sup>*\<^sup>* ?x (first_sent 0 [] \<lparr>fl_buffer = [], fl_last = 0\<rparr>)"
    using reach_first [of ?x tidy decode "''b''" 7] by (simp add: new_stream_def)
  ultimately show ?thesis by (rule converse_rtranclp_into_rtranclp)
qed

theorem exactly_once_witness:
  "\<exists>x. (stream_step True read_seq ''b'' 7)\<^sup>*\<^sup>* new_stream x \<and> received (st_client x) = [first_event]
    \<and> (\<exists>k. map ce_seq (received (st_client x)) = [1..int k] \<and> received (st_client x) = take k (sv_events (st_server x)))"
proof -
  let ?x = "first_sent 0 [] \<lparr>fl_buffer = [], fl_last = 0\<rparr>"
  have "feed read_seq (event_line first_event) \<lparr>fl_buffer = [], fl_last = 0\<rparr>
      = ([event_line first_event], [1], \<lparr>fl_buffer = [], fl_last = 1\<rparr>)" by code_simp
  then have "feed read_seq (event_line first_event) (st_filter ?x) = ([event_line first_event], [1], \<lparr>fl_buffer = [], fl_last = 1\<rparr>)"
    by (simp add: first_sent_def)
  from stream_step.delivers [OF _ _ this, of 0 "[]" True "''b''" 7] obtain x where
    step: "stream_step True read_seq ''b'' 7 ?x x" and x: "st_client x = event_line first_event" by (force simp: first_sent_def)
  have reach: "(stream_step True read_seq ''b'' 7)\<^sup>*\<^sup>* new_stream x" by (rule rtranclp.rtrancl_into_rtrancl [OF first_reached step])
  have "received (st_client x) = [first_event]" unfolding x by code_simp
  moreover have "''b'' \<noteq> []" "int 7 \<le> max_safe" by (simp_all add: max_safe_def)
  note exactly_once [OF reach read_seq_ok this]
  ultimately show ?thesis using reach by blast
qed


text \<open>
  C9: a line torn by a lost connection reaches the client. The filter keeps the part of a line
  it had when the connection ended, and puts it before the first line of the next connection;
  what comes out is no event, it is passed on all the same, nothing is acknowledged, and the
  server goes on waiting for the acknowledgement.
\<close>

theorem torn_line_passed:
  "\<exists>x line. (stream_step False read_seq ''b'' 7)\<^sup>*\<^sup>* new_stream x
    \<and> lines_of (st_client x) = [line] \<and> (\<exists>e. parseCounterEvent (trim line) = Inl e) \<and> received (st_client x) = []
    \<and> st_wire x = [] \<and> fl_buffer (st_filter x) = [] \<and> st_current x = Some 1
    \<and> st_handlers x ! 1 = \<lparr>hd_state = Awaiting first_event, hd_in = [], hd_open = True\<rparr>"
proof -
  let ?x = "first_sent 0 [] \<lparr>fl_buffer = [], fl_last = 0\<rparr>" and ?gone = "[\<lparr>hd_state = Awaiting first_event, hd_in = [], hd_open = False\<rparr>]"
  let ?f = "\<lparr>fl_buffer = take 5 (event_line first_event), fl_last = 0\<rparr>"
  have part: "feed read_seq (take 5 (event_line first_event)) \<lparr>fl_buffer = [], fl_last = 0\<rparr> = ([], [], ?f)" by code_simp
  have cut: "event_line first_event = take 5 (event_line first_event) @ drop 5 (event_line first_event)" by simp
  let ?x1 = "?x\<lparr>st_wire := drop 5 (event_line first_event), st_filter := ?f\<rparr>"
  have first: "stream_step False read_seq ''b'' 7 ?x ?x1"
    using stream_step.delivers [of ?x 0 "take 5 (event_line first_event)" "drop 5 (event_line first_event)" read_seq "[]" "[]" ?f False "''b''" 7]
    by (simp add: first_sent_def part set_handler_def)
  let ?x2 = "?x1\<lparr>st_handlers := ?gone, st_current := None, st_wire := []\<rparr>"
  have second: "stream_step False read_seq ''b'' 7 ?x1 ?x2"
    using stream_step.drops [of ?x1 0 "[]" "[]" False read_seq "''b''" 7] by (simp add: first_sent_def set_handler_def)
  have third: "(stream_step False read_seq ''b'' 7)\<^sup>*\<^sup>* ?x2 (first_sent 1 ?gone ?f)"
    using reach_first [of ?x2 False read_seq "''b''" 7] by (simp add: first_sent_def)
  let ?line = "take 5 (event_line first_event) @ event_line first_event"
  have rest: "feed read_seq (event_line first_event) ?f = ([?line], [], \<lparr>fl_buffer = [], fl_last = 0\<rparr>)" by code_simp
  let ?y = "first_sent 1 ?gone ?f" let ?z = "?y\<lparr>st_wire := [], st_filter := \<lparr>fl_buffer = [], fl_last = 0\<rparr>, st_client := ?line\<rparr>"
  have fourth: "stream_step False read_seq ''b'' 7 ?y ?z"
    using stream_step.delivers [of ?y 1 "event_line first_event" "[]" read_seq "[?line]" "[]" "\<lparr>fl_buffer = [], fl_last = 0\<rparr>" False "''b''" 7]
    by (simp add: first_sent_def rest set_handler_def)
  have "(stream_step False read_seq ''b'' 7)\<^sup>*\<^sup>* new_stream ?z"
    using first_reached first second third fourth by (meson rtranclp.rtrancl_into_rtrancl rtranclp_trans)
  moreover have "lines_of ?line = [butlast ?line]" "parseCounterEvent (trim (butlast ?line)) = Inl (JsError ''SyntaxError'')" "received ?line = []"
    by code_simp+
  ultimately show ?thesis by (intro exI [of _ ?z] exI [of _ "butlast ?line"]) (simp add: first_sent_def)
qed

end
